(* ===== verification/Prelude.thy ===== *)
theory Prelude
  imports Main "HOL-Library.AList" "HOL-Library.Char_ord" "HOL-Library.List_Lexorder"
begin

text \<open>
  Shared vocabulary of the development: Go errors as values, the result type of fallible
  functions with its sequencing operator, Go maps as association lists with distinct keys,
  and the lemmas that let \<open>auto simp: res_simps\<close> and \<open>auto simp: gomap_simps\<close> carry the
  component proofs.
\<close>

named_theorems res_simps "inversion of sequenced fallible steps"
named_theorems gomap_simps "lookup, update and key set of Go maps"

section \<open>Errors\<close>

text \<open>
  \<open>ErrNew\<close> is a package-level sentinel made by \<open>errors.New\<close>; \<open>Errorf\<close> is
  \<open>fmt.Errorf\<close>, of which the model keeps the constant message text and the errors
  wrapped by \<open>%w\<close> (arguments formatted by \<open>%q\<close>, \<open>%s\<close> and \<open>%v\<close> are text only and
  never influence control flow); \<open>CodeErr\<close> is the struct error of the package strictjson with
  its fields Code, Path, Msg and Err.
\<close>

datatype goerr =
    ErrNew string
  | Errorf string "goerr list"
  | CodeErr string string string "goerr list"

text \<open>\<open>errors.Is\<close>: the error itself or, transitively, one it wraps.\<close>

fun errors_is :: "goerr \<Rightarrow> goerr \<Rightarrow> bool" where
  "errors_is (ErrNew s) t = (ErrNew s = t)"
| "errors_is (Errorf s ws) t = (Errorf s ws = t \<or> (\<exists>w\<in>set ws. errors_is w t))"
| "errors_is (CodeErr c p m ws) t = (CodeErr c p m ws = t \<or> (\<exists>w\<in>set ws. errors_is w t))"

lemma errors_is_refl [simp]: "errors_is e e"
  by (cases e) auto

section \<open>Fallible results\<close>

type_synonym 'a res = "goerr + 'a"

definition andThen :: "'a res \<Rightarrow> ('a \<Rightarrow> 'b res) \<Rightarrow> 'b res" where
  "andThen r f = (case r of Inl e \<Rightarrow> Inl e | Inr x \<Rightarrow> f x)"

definition mapErr :: "(goerr \<Rightarrow> goerr) \<Rightarrow> 'a res \<Rightarrow> 'a res" where
  "mapErr g r = (case r of Inl e \<Rightarrow> Inl (g e) | Inr x \<Rightarrow> Inr x)"

text \<open>\<open>fmt.Errorf("msg: %w", err)\<close> and \<open>fmt.Errorf("%w: msg: %v", sentinel, err)\<close>.\<close>

definition wrapw :: "string \<Rightarrow> 'a res \<Rightarrow> 'a res" where
  "wrapw msg r = mapErr (\<lambda>e. Errorf msg [e]) r"

definition wrapv :: "goerr \<Rightarrow> string \<Rightarrow> 'a res \<Rightarrow> 'a res" where
  "wrapv sentinel msg r = mapErr (\<lambda>_. Errorf msg [sentinel]) r"

definition require :: "bool \<Rightarrow> goerr \<Rightarrow> unit res" where
  "require b e = (if b then Inr () else Inl e)"

definition is_ok :: "'a res \<Rightarrow> bool" where
  "is_ok r = (case r of Inl _ \<Rightarrow> False | Inr _ \<Rightarrow> True)"

lemma andThen_simps [simp]:
  "andThen (Inl e) f = Inl e" "andThen (Inr x) f = f x"
  by (simp_all add: andThen_def)

lemma mapErr_simps [simp]:
  "mapErr g (Inl e) = Inl (g e)" "mapErr g (Inr x) = Inr x"
  by (simp_all add: mapErr_def)

lemma is_ok_simps [simp]: "is_ok (Inr x)" "\<not> is_ok (Inl e)"
  by (simp_all add: is_ok_def)

lemma is_ok_iff: "is_ok r \<longleftrightarrow> (\<exists>x. r = Inr x)"
  by (cases r) auto

lemma andThen_Inr_iff [res_simps]: "andThen r f = Inr y \<longleftrightarrow> (\<exists>x. r = Inr x \<and> f x = Inr y)"
  by (cases r) auto

lemma andThen_Inl_iff:
  "andThen r f = Inl e \<longleftrightarrow> r = Inl e \<or> (\<exists>x. r = Inr x \<and> f x = Inl e)"
  by (cases r) auto

lemma is_ok_andThen [res_simps]: "is_ok (andThen r f) \<longleftrightarrow> (\<exists>x. r = Inr x \<and> is_ok (f x))"
  by (cases r) auto

lemma andThen_cong [fundef_cong]:
  "r = r' \<Longrightarrow> (\<And>x. r' = Inr x \<Longrightarrow> f x = g x) \<Longrightarrow> andThen r f = andThen r' g"
  by (cases r') auto

lemma andThen_assoc: "andThen (andThen r f) g = andThen r (\<lambda>x. andThen (f x) g)"
  by (cases r) auto

lemma mapErr_Inr_iff [res_simps]: "mapErr g r = Inr x \<longleftrightarrow> r = Inr x"
  by (cases r) auto

lemma is_ok_mapErr [res_simps]: "is_ok (mapErr g r) \<longleftrightarrow> is_ok r"
  by (cases r) auto

lemma wrap_simps [simp]:
  "wrapw m (Inr x) = Inr x" "wrapv s m (Inr x) = Inr x"
  "wrapw m (Inl e) = Inl (Errorf m [e])" "wrapv s m (Inl e) = Inl (Errorf m [s])"
  by (simp_all add: wrapw_def wrapv_def)

lemma wrap_Inr_iff [res_simps]:
  "wrapw m r = Inr x \<longleftrightarrow> r = Inr x" "wrapv s m r = Inr x \<longleftrightarrow> r = Inr x"
  by (simp_all add: wrapw_def wrapv_def mapErr_Inr_iff)

lemma is_ok_wrap [res_simps]: "is_ok (wrapw m r) \<longleftrightarrow> is_ok r" "is_ok (wrapv s m r) \<longleftrightarrow> is_ok r"
  by (simp_all add: wrapw_def wrapv_def is_ok_mapErr)

lemma require_Inr_iff [res_simps]: "require b e = Inr u \<longleftrightarrow> b"
  by (simp add: require_def)

lemma require_Inl_iff: "require b e = Inl e' \<longleftrightarrow> \<not> b \<and> e' = e"
  by (auto simp: require_def)

lemma require_simps [simp]: "require True e = Inr ()" "require False e = Inl e"
  by (simp_all add: require_def)

lemma is_ok_require [res_simps]: "is_ok (require b e) \<longleftrightarrow> b"
  by (simp add: require_def)

lemma if_Inl_Inr_iff [res_simps]:
  "(if b then Inl e else r) = Inr x \<longleftrightarrow> \<not> b \<and> r = Inr x"
  "(if b then r else Inl e) = Inr x \<longleftrightarrow> b \<and> r = Inr x"
  by auto

text \<open>A loop whose body may return early with an error: \<open>for x := range xs { s, err = f(s, x) }\<close>.\<close>

fun foldM :: "('s \<Rightarrow> 'a \<Rightarrow> 's res) \<Rightarrow> 's \<Rightarrow> 'a list \<Rightarrow> 's res" where
  "foldM f s [] = Inr s"
| "foldM f s (x # xs) = andThen (f s x) (\<lambda>s'. foldM f s' xs)"

fun mapM :: "('a \<Rightarrow> 'b res) \<Rightarrow> 'a list \<Rightarrow> 'b list res" where
  "mapM f [] = Inr []"
| "mapM f (x # xs) = andThen (f x) (\<lambda>y. andThen (mapM f xs) (\<lambda>ys. Inr (y # ys)))"

fun checkAll :: "('a \<Rightarrow> unit res) \<Rightarrow> 'a list \<Rightarrow> unit res" where
  "checkAll f [] = Inr ()"
| "checkAll f (x # xs) = andThen (f x) (\<lambda>_. checkAll f xs)"

lemma foldM_append: "foldM f s (xs @ ys) = andThen (foldM f s xs) (\<lambda>s'. foldM f s' ys)"
  by (induction xs arbitrary: s) (auto simp: andThen_assoc)

lemma foldM_invariant:
  assumes "foldM f s xs = Inr s'" and "P s"
    and "\<And>s x s'. x \<in> set xs \<Longrightarrow> P s \<Longrightarrow> f s x = Inr s' \<Longrightarrow> P s'"
  shows "P s'"
  using assms by (induction xs arbitrary: s) (auto simp: res_simps)

lemma checkAll_ok_iff [res_simps]: "checkAll f xs = Inr u \<longleftrightarrow> (\<forall>x\<in>set xs. is_ok (f x))"
  by (induction xs) (auto simp: res_simps is_ok_iff)

lemma is_ok_checkAll [res_simps]: "is_ok (checkAll f xs) \<longleftrightarrow> (\<forall>x\<in>set xs. is_ok (f x))"
  by (simp add: is_ok_iff checkAll_ok_iff)

lemma mapM_Inr_iff: "mapM f xs = Inr ys \<longleftrightarrow> list_all2 (\<lambda>x y. f x = Inr y) xs ys"
  by (induction xs arbitrary: ys) (auto simp: res_simps list_all2_Cons1)

lemma mapM_length: "mapM f xs = Inr ys \<Longrightarrow> length ys = length xs"
  by (auto simp: mapM_Inr_iff list_all2_lengthD)

lemma ok_if: "is_ok (if b then Inl e else r) \<longleftrightarrow> \<not> b \<and> is_ok r"
  "is_ok (if b then r else Inl e) \<longleftrightarrow> b \<and> is_ok r"
  by auto

section \<open>Operations on a state\<close>

text \<open>A fallible operation on a state, which it leaves changed even when it fails.\<close>

type_synonym ('s, 'a) stateop = "'s \<Rightarrow> 's \<times> 'a res"

definition hbind :: "('s, 'a) stateop \<Rightarrow> ('a \<Rightarrow> ('s, 'b) stateop) \<Rightarrow> ('s, 'b) stateop" where
  "hbind m f h = (case m h of (h', Inl e) \<Rightarrow> (h', Inl e) | (h', Inr x) \<Rightarrow> f x h')"

definition hread :: "('s \<Rightarrow> 'a res) \<Rightarrow> ('s, 'a) stateop" where
  "hread f h = (h, f h)"

definition hfail :: "goerr \<Rightarrow> ('s, 'a) stateop" where
  "hfail e h = (h, Inl e)"

definition hreturn :: "'a \<Rightarrow> ('s, 'a) stateop" where
  "hreturn x h = (h, Inr x)"

definition hwrap :: "string \<Rightarrow> ('s, 'a) stateop \<Rightarrow> ('s, 'a) stateop" where
  "hwrap msg m h = (case m h of (h', r) \<Rightarrow> (h', wrapw msg r))"

fun hforeach :: "('a \<Rightarrow> ('s, unit) stateop) \<Rightarrow> 'a list \<Rightarrow> ('s, unit) stateop" where
  "hforeach f [] = hreturn ()"
| "hforeach f (x # xs) = hbind (f x) (\<lambda>_. hforeach f xs)"

lemma hbind_Inr: "hbind m f h = (h', Inr y) \<longleftrightarrow> (\<exists>h1 x. m h = (h1, Inr x) \<and> f x h1 = (h', Inr y))"
  by (auto simp: hbind_def split: prod.splits sum.splits)

lemma hbind_Inl: "hbind m f h = (h', Inl e) \<longleftrightarrow> m h = (h', Inl e) \<or> (\<exists>h1 x. m h = (h1, Inr x) \<and> f x h1 = (h', Inl e))"
  by (auto simp: hbind_def split: prod.splits sum.splits)

lemma hread_iff [simp]: "hread f h = (h', res) \<longleftrightarrow> h' = h \<and> res = f h"
  by (auto simp: hread_def)

lemma hfail_iff [simp]: "hfail e h = (h', res) \<longleftrightarrow> h' = h \<and> res = Inl e"
  by (auto simp: hfail_def)

lemma hreturn_iff [simp]: "hreturn x h = (h', res) \<longleftrightarrow> h' = h \<and> res = Inr x"
  by (auto simp: hreturn_def)

lemma hbind_read: "hbind (hread f) g h = (case f h of Inl e \<Rightarrow> (h, Inl e) | Inr x \<Rightarrow> g x h)"
  by (simp add: hbind_def hread_def split: sum.splits)

section \<open>Go maps\<close>

text \<open>
  A Go map is an association list; \<open>mwf\<close> says that no key occurs twice, which every
  operation keeps. Go iterates over a map in an unspecified order: code that ranges over a
  map is modelled by a pass over the list, and where the result does not depend on the order
  that is a lemma.
\<close>

type_synonym ('k, 'v) gomap = "('k \<times> 'v) list"

abbreviation mwf :: "('k, 'v) gomap \<Rightarrow> bool" where
  "mwf m \<equiv> distinct (map fst m)"

abbreviation mget :: "('k, 'v) gomap \<Rightarrow> 'k \<Rightarrow> 'v option" where
  "mget m k \<equiv> map_of m k"

abbreviation mput :: "'k \<Rightarrow> 'v \<Rightarrow> ('k, 'v) gomap \<Rightarrow> ('k, 'v) gomap" where
  "mput k v m \<equiv> AList.update k v m"

abbreviation mdel :: "'k \<Rightarrow> ('k, 'v) gomap \<Rightarrow> ('k, 'v) gomap" where
  "mdel k m \<equiv> AList.delete k m"

abbreviation mhas :: "('k, 'v) gomap \<Rightarrow> 'k \<Rightarrow> bool" where
  "mhas m k \<equiv> map_of m k \<noteq> None"

lemma mget_mput [gomap_simps]: "mget (mput k v m) k' = (if k' = k then Some v else mget m k')"
  by (simp add: update_conv')

lemma mget_mdel [gomap_simps]: "mget (mdel k m) k' = (if k' = k then None else mget m k')"
  by (simp add: delete_conv')

lemma mwf_mput [gomap_simps]: "mwf m \<Longrightarrow> mwf (mput k v m)"
  by (rule distinct_update)

lemma mwf_mdel [gomap_simps]: "mwf m \<Longrightarrow> mwf (mdel k m)"
  by (rule distinct_delete)

lemma mkeys_mput [gomap_simps]: "fst ` set (mput k v m) = insert k (fst ` set m)"
  by (simp add: dom_update)

lemma mput_fresh: "mget m k = None \<Longrightarrow> mput k v m = m @ [(k, v)]"
  by (induction m) auto

lemma mlen_mput: "length (mput k v m) = (if mhas m k then length m else Suc (length m))"
  by (induction m) auto

lemma mget_mem: "mget m k = Some v \<Longrightarrow> (k, v) \<in> set m"
  by (rule map_of_SomeD)

lemma mem_mget: "mwf m \<Longrightarrow> (k, v) \<in> set m \<longleftrightarrow> mget m k = Some v"
  by simp

text \<open>Two lists with distinct keys and the same lookups are the same map: reorderings of each other.\<close>

lemma mget_eq_set_eq:
  assumes "mwf m" "mwf m'"
  shows "(\<forall>k. mget m k = mget m' k) \<longleftrightarrow> set m = set m'"
proof
  assume "\<forall>k. mget m k = mget m' k"
  then have "(k, v) \<in> set m \<longleftrightarrow> (k, v) \<in> set m'" for k v
    using assms by (metis map_of_SomeD map_of_is_SomeI)
  then show "set m = set m'" by auto
next
  assume "set m = set m'"
  then show "\<forall>k. mget m k = mget m' k"
    using assms by (metis map_of_inject_set)
qed

section \<open>Sorting and sortedness checks\<close>

text \<open>
  Go compares strings bytewise; with \<open>Char_ord\<close> and \<open>List_Lexorder\<close> that is the linear
  order \<open>\<le>\<close> on \<open>string\<close>. \<open>sort.Strings\<close> is \<open>sort\<close>, \<open>sort.StringsAreSorted\<close> is
  \<open>sorted\<close>. A \<open>for\<close> loop that rejects an empty string or a neighbour equal to its
  predecessor is \<open>distinct_adj\<close> with a non-emptiness check.
\<close>

lemma sorted_distinct_adj: "sorted xs \<Longrightarrow> distinct_adj xs \<longleftrightarrow> distinct (xs :: 'a :: linorder list)"
proof (induction xs)
  case (Cons x xs)
  show ?case
  proof (cases xs)
    case (Cons y ys)
    have "x \<notin> set xs" if "x \<noteq> y"
      using that Cons.prems Cons by (auto dest: antisym)
    then show ?thesis using Cons.IH Cons.prems Cons by auto
  qed simp
qed simp

lemma sort_unique_of_set:
  fixes xs ys :: "'a :: linorder list"
  shows "distinct xs \<Longrightarrow> distinct ys \<Longrightarrow> set xs = set ys \<Longrightarrow> sort xs = sort ys"
  by (rule sorted_distinct_set_unique) auto

lemma sort_key_unique:
  fixes f :: "'a \<Rightarrow> 'b :: linorder"
  assumes "distinct xs" "distinct ys" "set xs = set ys" "inj_on f (set xs)"
  shows "sort_key f xs = sort_key f ys"
proof (rule map_inj_on [where f = f])
  show "map f (sort_key f xs) = map f (sort_key f ys)"
    using assms by (intro sorted_distinct_set_unique) (auto simp: distinct_map)
  show "inj_on f (set (sort_key f xs) \<union> set (sort_key f ys))"
    using assms by simp
qed

end
