(* ===== verification/Go_Text.thy ===== *)
theory Go_Text
  imports Prelude
begin

text \<open>
  The functions of the Go packages strings, path, bytes and encoding/hex that the program
  calls. A Go string is a sequence of bytes, here \<open>string\<close> (a \<open>char\<close> is one byte).
  Case folding is needed on object identifiers and on the repository configuration, which is searched for
  ASCII words.
\<close>

section \<open>Package strings\<close>

definition hasPrefix :: "string \<Rightarrow> string \<Rightarrow> bool" where
  "hasPrefix s p = (take (length p) s = p)"

definition hasSuffix :: "string \<Rightarrow> string \<Rightarrow> bool" where
  "hasSuffix s p = (length p \<le> length s \<and> drop (length s - length p) s = p)"

definition trimPrefix :: "string \<Rightarrow> string \<Rightarrow> string" where
  "trimPrefix s p = (if hasPrefix s p then drop (length p) s else s)"

definition trimSuffix :: "string \<Rightarrow> string \<Rightarrow> string" where
  "trimSuffix s p = (if hasSuffix s p then take (length s - length p) s else s)"

definition containsAny :: "string \<Rightarrow> char list \<Rightarrow> bool" where
  "containsAny s cs = list_ex (\<lambda>c. c \<in> set cs) s"

fun containsStr :: "string \<Rightarrow> string \<Rightarrow> bool" where
  "containsStr [] sub = (sub = [])"
| "containsStr (c # s) sub = (hasPrefix (c # s) sub \<or> containsStr s sub)"

text \<open>\<open>strings.Split\<close> by a one-byte separator: a string with n separators gives n + 1 parts.\<close>

fun splitOn :: "char \<Rightarrow> string \<Rightarrow> string list" where
  "splitOn d [] = [[]]"
| "splitOn d (c # s) =
     (if c = d then [] # splitOn d s
      else (case splitOn d s of [] \<Rightarrow> [[c]] | p # ps \<Rightarrow> (c # p) # ps))"

fun joinWith :: "string \<Rightarrow> string list \<Rightarrow> string" where
  "joinWith sep [] = []"
| "joinWith sep [p] = p"
| "joinWith sep (p # q # ps) = p @ sep @ joinWith sep (q # ps)"

definition isUpperChar :: "char \<Rightarrow> bool" where
  "isUpperChar c = (CHR ''A'' \<le> c \<and> c \<le> CHR ''Z'')"

definition lowerChar :: "char \<Rightarrow> char" where
  "lowerChar c = (if isUpperChar c then char_of (of_char c + 32 :: nat) else c)"

definition toLower :: "string \<Rightarrow> string" where
  "toLower s = map lowerChar s"

definition isSpaceChar :: "char \<Rightarrow> bool" where
  "isSpaceChar c = (c \<in> set [CHR '' '', CHR 0x09, CHR 0x0A, CHR 0x0B, CHR 0x0C, CHR 0x0D])"

text \<open>
  White space is Unicode white space: the ASCII bytes above and the UTF-8 sequences of U+0085, U+00A0,
  U+1680, U+2000 to U+200A, U+2028, U+2029, U+202F, U+205F and U+3000. \<open>spaceWidth s\<close> is the length
  of the one \<open>s\<close> starts with, 0 when there is none.
\<close>

definition spaceRunes :: "string list" where
  "spaceRunes =
    [[CHR 0xC2, CHR 0x85], [CHR 0xC2, CHR 0xA0], [CHR 0xE1, CHR 0x9A, CHR 0x80],
     [CHR 0xE2, CHR 0x81, CHR 0x9F], [CHR 0xE3, CHR 0x80, CHR 0x80], [CHR 0xE2, CHR 0x80, CHR 0x80],
     [CHR 0xE2, CHR 0x80, CHR 0x81], [CHR 0xE2, CHR 0x80, CHR 0x82], [CHR 0xE2, CHR 0x80, CHR 0x83],
     [CHR 0xE2, CHR 0x80, CHR 0x84], [CHR 0xE2, CHR 0x80, CHR 0x85], [CHR 0xE2, CHR 0x80, CHR 0x86],
     [CHR 0xE2, CHR 0x80, CHR 0x87], [CHR 0xE2, CHR 0x80, CHR 0x88], [CHR 0xE2, CHR 0x80, CHR 0x89],
     [CHR 0xE2, CHR 0x80, CHR 0x8A], [CHR 0xE2, CHR 0x80, CHR 0xA8], [CHR 0xE2, CHR 0x80, CHR 0xA9],
     [CHR 0xE2, CHR 0x80, CHR 0xAF]]"

definition widthIn :: "string list \<Rightarrow> string \<Rightarrow> nat" where
  "widthIn runes s =
    (case s of [] \<Rightarrow> 0
     | c # _ \<Rightarrow> if isSpaceChar c then 1 else case find (hasPrefix s) runes of Some r \<Rightarrow> length r | None \<Rightarrow> 0)"

definition spaceWidth :: "string \<Rightarrow> nat" where
  "spaceWidth s = widthIn spaceRunes s"

function trimBy :: "(string \<Rightarrow> nat) \<Rightarrow> string \<Rightarrow> string" where
  "trimBy w s = (if s = [] \<or> w s = 0 then s else trimBy w (drop (w s) s))"
  by pat_completeness auto
termination by (relation "measure (\<lambda>(w, s). length s)") auto

declare trimBy.simps [simp del]

definition trimSpace :: "string \<Rightarrow> string" where
  "trimSpace s = rev (trimBy (widthIn (map rev spaceRunes)) (rev (trimBy spaceWidth s)))"

text \<open>\<open>strings.Fields\<close>: the maximal runs without white space.\<close>

function fieldsAux :: "string \<Rightarrow> string \<Rightarrow> string list" where
  "fieldsAux acc [] = (if acc = [] then [] else [rev acc])"
| "fieldsAux acc (c # s) =
     (if spaceWidth (c # s) = 0 then fieldsAux (c # acc) s
      else if acc = [] then fieldsAux [] (drop (spaceWidth (c # s) - 1) s)
      else rev acc # fieldsAux [] (drop (spaceWidth (c # s) - 1) s))"
  by pat_completeness auto
termination by (relation "measure (\<lambda>(acc, s). length s)") auto

definition strFields :: "string \<Rightarrow> string list" where
  "strFields s = fieldsAux [] s"

text \<open>The ASCII part of \<open>strings.ToLower\<close>: U+0130 and U+212A are the runes whose lower case is an ASCII
  letter; the bytes of every other rune stay outside ASCII, so searching for ASCII text does not see them.\<close>

fun lowerText :: "string \<Rightarrow> string" where
  "lowerText [] = []"
| "lowerText (c # s) =
    (if c = CHR 0xC4 \<and> take 1 s = [CHR 0xB0] then CHR ''i'' # lowerText (drop 1 s)
     else if c = CHR 0xE2 \<and> take 2 s = [CHR 0x84, CHR 0xAA] then CHR ''k'' # lowerText (drop 2 s)
     else lowerChar c # lowerText s)"

text \<open>Text without white space is its own trimmed form and its own only field.\<close>

definition spaceFree :: "string \<Rightarrow> bool" where
  "spaceFree s = list_all (\<lambda>c. c > CHR 0x20 \<and> c < CHR 0x7F) s"

lemma hasPrefix_append [simp]: "hasPrefix (p @ s) p"
  by (simp add: hasPrefix_def)

lemma hasPrefix_iff: "hasPrefix s p \<longleftrightarrow> (\<exists>t. s = p @ t)"
  by (metis append_eq_conv_conj append_take_drop_id hasPrefix_def)

lemma hasSuffix_iff: "hasSuffix s p \<longleftrightarrow> (\<exists>t. s = t @ p)"
proof
  assume "hasSuffix s p"
  then show "\<exists>t. s = t @ p"
    by (metis append_take_drop_id hasSuffix_def)
next
  assume "\<exists>t. s = t @ p"
  then show "hasSuffix s p" by (auto simp: hasSuffix_def)
qed

lemma trimSuffix_append [simp]: "trimSuffix (s @ p) p = s"
  by (auto simp: trimSuffix_def hasSuffix_iff)

lemma trimPrefix_append [simp]: "trimPrefix (p @ s) p = s"
  by (auto simp: trimPrefix_def hasPrefix_iff)

lemma containsAny_iff: "containsAny s cs \<longleftrightarrow> set s \<inter> set cs \<noteq> {}"
  by (auto simp: containsAny_def list_ex_iff)

lemma containsStr_single: "containsStr s [c] \<longleftrightarrow> c \<in> set s"
  by (induction s) (auto simp: hasPrefix_def)

lemma splitOn_nonempty [simp]: "splitOn d s \<noteq> []"
  by (induction s) (auto split: list.splits)

lemma joinWith_Cons: "ps \<noteq> [] \<Longrightarrow> joinWith sep (p # ps) = p @ sep @ joinWith sep ps"
  by (cases ps) auto

lemma join_split [simp]: "joinWith [d] (splitOn d s) = s"
proof (induction s)
  case (Cons c s)
  obtain p ps where "splitOn d s = p # ps" by (cases "splitOn d s") auto
  with Cons show ?case by (cases ps) (auto simp: joinWith_Cons)
qed simp

lemma splitOn_no_sep: "p \<in> set (splitOn d s) \<Longrightarrow> d \<notin> set p"
  by (induction s arbitrary: p) (auto split: list.splits if_splits)

lemma split_single: "d \<notin> set p \<Longrightarrow> splitOn d p = [p]"
  by (induction p) auto

lemma split_append_sep: "d \<notin> set p \<Longrightarrow> splitOn d (p @ d # s) = p # splitOn d s"
  by (induction p) auto

lemma split_join:
  "ps \<noteq> [] \<Longrightarrow> \<forall>p\<in>set ps. d \<notin> set p \<Longrightarrow> splitOn d (joinWith [d] ps) = ps"
proof (induction ps)
  case (Cons p ps)
  then show ?case
    by (cases "ps = []") (auto simp: joinWith_Cons split_single split_append_sep)
qed simp

lemma set_joinWith: "set (joinWith [d] ps) \<subseteq> insert d (\<Union>(set ` set ps))"
proof (induction ps)
  case (Cons p ps)
  then show ?case by (cases "ps = []") (auto simp: joinWith_Cons)
qed simp

lemma set_splitOn: "p \<in> set (splitOn d s) \<Longrightarrow> set p \<subseteq> set s"
proof (induction s arbitrary: p)
  case (Cons c s)
  then show ?case by (fastforce split: list.splits if_splits)
qed simp

section \<open>Package path\<close>

text \<open>
  \<open>path.Clean\<close>: drop empty and \<open>.\<close> elements, resolve \<open>..\<close> against the element before it
  (dropping it at the root), and write \<open>.\<close> for the empty result. The stack of kept elements
  is in reverse.
\<close>

fun cleanParts :: "bool \<Rightarrow> string list \<Rightarrow> string list \<Rightarrow> string list" where
  "cleanParts rooted st [] = rev st"
| "cleanParts rooted st (p # ps) =
     (if p = [] \<or> p = ''.'' then cleanParts rooted st ps
      else if p = ''..'' then
        (case st of
           [] \<Rightarrow> if rooted then cleanParts rooted [] ps else cleanParts rooted [p] ps
         | q # st' \<Rightarrow> if q = ''..'' then cleanParts rooted (p # st) ps
                     else cleanParts rooted st' ps)
      else cleanParts rooted (p # st) ps)"

definition pathIsAbs :: "string \<Rightarrow> bool" where
  "pathIsAbs p = hasPrefix p ''/''"

definition pathClean :: "string \<Rightarrow> string" where
  "pathClean p =
     (if p = [] then ''.''
      else let rooted = pathIsAbs p; q = joinWith ''/'' (cleanParts rooted [] (splitOn CHR ''/'' p))
      in if rooted then CHR ''/'' # q else if q = [] then ''.'' else q)"

lemma cleanParts_plain:
  "\<forall>p\<in>set ps. p \<noteq> [] \<and> p \<noteq> ''.'' \<and> p \<noteq> ''..'' \<Longrightarrow> cleanParts r st ps = rev st @ ps"
  by (induction ps arbitrary: st) auto

text \<open>The check on parts that every path validator of the program ends with.\<close>

definition plainPart :: "string \<Rightarrow> bool" where
  "plainPart p = (p \<noteq> [] \<and> p \<noteq> ''.'' \<and> p \<noteq> ''..'')"

lemma pathClean_plain:
  assumes "\<forall>p\<in>set (splitOn CHR ''/'' s). plainPart p"
  shows "pathClean s = s \<and> \<not> pathIsAbs s \<and> s \<noteq> []"
proof -
  have parts: "\<forall>p\<in>set (splitOn CHR ''/'' s). p \<noteq> [] \<and> p \<noteq> ''.'' \<and> p \<noteq> ''..''"
    using assms by (simp add: plainPart_def)
  have ne: "s \<noteq> []"
  proof
    assume "s = []"
    with parts show False by simp
  qed
  have rel: "\<not> pathIsAbs s"
  proof
    assume "pathIsAbs s"
    then obtain t where "s = CHR ''/'' # t" by (auto simp: pathIsAbs_def hasPrefix_iff)
    with parts show False by simp
  qed
  have "pathClean s = joinWith ''/'' (splitOn CHR ''/'' s)"
    unfolding pathClean_def Let_def cleanParts_plain [OF parts] using ne rel by simp
  with ne rel show ?thesis by simp
qed

text \<open>A cleaned relative path starts with the elements that leave its directory; the others are plain.\<close>

lemma cleanParts_relative:
  assumes "st = ns @ replicate k ''..''" "list_all plainPart ns"
  shows "\<exists>k ns. cleanParts False st ps = replicate k ''..'' @ ns \<and> list_all plainPart ns"
  using assms
proof (induction ps arbitrary: st ns k)
  case Nil
  then show ?case by (intro exI [of _ k] exI [of _ "rev ns"]) (simp add: list_all_iff)
next
  case (Cons p ps)
  show ?case
  proof (cases "p = [] \<or> p = ''.''")
    case True
    then show ?thesis using Cons.IH [OF Cons.prems] by simp
  next
    case f: False
    show ?thesis
    proof (cases "p = ''..''")
      case False
      then show ?thesis using f Cons.IH [of "p # st" "p # ns" k] Cons.prems by (simp add: plainPart_def)
    next
      case True
      show ?thesis
      proof (cases ns)
        case Nil
        show ?thesis
        proof (cases k)
          case 0
          then show ?thesis using f True Nil Cons.prems Cons.IH [of "[p]" "[]" 1] by simp
        next
          case (Suc j)
          then show ?thesis using f True Nil Cons.prems Cons.IH [of "p # st" "[]" "Suc k"] by simp
        qed
      next
        case n: (Cons q ns')
        then show ?thesis using f True Cons.prems Cons.IH [of "tl st" ns' k] by (simp add: plainPart_def)
      qed
    qed
  qed
qed

section \<open>Package encoding/hex and object identifiers\<close>

definition isDecDigit :: "char \<Rightarrow> bool" where
  "isDecDigit c = (CHR ''0'' \<le> c \<and> c \<le> CHR ''9'')"

definition isLowerHexLetter :: "char \<Rightarrow> bool" where
  "isLowerHexLetter c = (CHR ''a'' \<le> c \<and> c \<le> CHR ''f'')"

definition isUpperHexLetter :: "char \<Rightarrow> bool" where
  "isUpperHexLetter c = (CHR ''A'' \<le> c \<and> c \<le> CHR ''F'')"

definition isHexChar :: "char \<Rightarrow> bool" where
  "isHexChar c = (isDecDigit c \<or> isLowerHexLetter c \<or> isUpperHexLetter c)"

definition hexDigit :: "nat \<Rightarrow> char" where
  "hexDigit n = (if n < 10 then char_of (48 + n) else char_of (87 + n))"

definition hexByte :: "char \<Rightarrow> string" where
  "hexByte c = (let n = of_char c :: nat in [hexDigit (n div 16), hexDigit (n mod 16)])"

definition hexEncode :: "string \<Rightarrow> string" where
  "hexEncode bs = concat (map hexByte bs)"

text \<open>\<open>hex.DecodeString\<close> succeeds: an even number of hex digits of either case.\<close>

definition hexDecodable :: "string \<Rightarrow> bool" where
  "hexDecodable s = (even (length s) \<and> list_all isHexChar s)"

lemma length_hexEncode [simp]: "length (hexEncode bs) = 2 * length bs"
  by (induction bs) (auto simp: hexEncode_def hexByte_def Let_def)

text \<open>Bytes as numbers: the order on \<open>char\<close> is the order of the byte values.\<close>

abbreviation cval :: "char \<Rightarrow> nat" where
  "cval c \<equiv> of_char c"

lemma cval_bound: "cval c < 256"
  by simp

lemma char_le_iff: "c \<le> d \<longleftrightarrow> cval c \<le> cval d"
  by (simp add: less_eq_char_def)

lemma cval_char_of: "n < 256 \<Longrightarrow> cval (char_of n) = n"
  by simp

lemmas charclass_defs =
  isDecDigit_def isLowerHexLetter_def isUpperHexLetter_def isUpperChar_def char_le_iff

lemma hexDigit_lower: "n < 16 \<Longrightarrow> isDecDigit (hexDigit n) \<or> isLowerHexLetter (hexDigit n)"
  by (simp add: hexDigit_def charclass_defs)

lemma hexByte_chars: "c \<in> set (hexByte b) \<Longrightarrow> isDecDigit c \<or> isLowerHexLetter c"
proof -
  have "cval b < 16 * 16" using cval_bound [of b] by simp
  then have "cval b div 16 < 16" by (simp add: less_mult_imp_div_less)
  moreover assume "c \<in> set (hexByte b)"
  ultimately show ?thesis
    using hexDigit_lower [of "cval b div 16"] hexDigit_lower [of "cval b mod 16"]
    by (auto simp: hexByte_def Let_def)
qed

lemma hexEncode_chars: "c \<in> set (hexEncode bs) \<Longrightarrow> isDecDigit c \<or> isLowerHexLetter c"
  using hexByte_chars by (fastforce simp: hexEncode_def)

lemma cval_lowerChar: "cval (lowerChar c) = (if isUpperChar c then cval c + 32 else cval c)"
  by (auto simp: lowerChar_def charclass_defs)

lemma lowerChar_idem [simp]: "lowerChar (lowerChar c) = lowerChar c"
proof -
  have "\<not> isUpperChar (lowerChar c)" by (auto simp: charclass_defs cval_lowerChar)
  then show ?thesis by (simp add: lowerChar_def)
qed

lemma toLower_idem [simp]: "toLower (toLower s) = toLower s"
  by (simp add: toLower_def)

lemma length_toLower [simp]: "length (toLower s) = length s"
  by (simp add: toLower_def)

lemma isHexChar_lower: "isHexChar (lowerChar c) = isHexChar c"
  by (auto simp: isHexChar_def charclass_defs cval_lowerChar)

lemma lowerChar_lower_hex: "isDecDigit c \<or> isLowerHexLetter c \<Longrightarrow> lowerChar c = c"
  by (auto simp: lowerChar_def charclass_defs)

lemma toLower_hexEncode [simp]: "toLower (hexEncode bs) = hexEncode bs"
  by (simp add: toLower_def map_idI hexEncode_chars lowerChar_lower_hex)

section \<open>White space\<close>

lemma char_less_iff: "c < d \<longleftrightarrow> cval c < cval (d :: char)"
  by (simp add: less_char_def)

lemma spaceRunes_high:
  "list_all (\<lambda>r. r \<noteq> [] \<and> 127 < cval (hd r)) spaceRunes"
  "list_all (\<lambda>r. r \<noteq> [] \<and> 127 < cval (hd r)) (map rev spaceRunes)"
  by code_simp+

lemma widthIn_low:
  assumes "list_all (\<lambda>r. r \<noteq> [] \<and> 127 < cval (hd r)) rs" "32 < cval c" "cval c < 127"
  shows "widthIn rs (c # t) = 0"
proof -
  have "\<not> isSpaceChar c" using assms(2) by (auto simp: isSpaceChar_def)
  have "\<not> hasPrefix (c # t) r" if "r \<in> set rs" for r
    using assms that by (cases r) (auto simp: hasPrefix_def list_all_iff)
  then have "find (hasPrefix (c # t)) rs = None" by (simp add: find_None_iff)
  with \<open>\<not> isSpaceChar c\<close> show ?thesis by (simp add: widthIn_def)
qed

lemma spaceFree_width:
  assumes "spaceFree (c # s)"
  shows "spaceWidth (c # t) = 0" "widthIn (map rev spaceRunes) (c # t) = 0"
proof -
  have "32 < cval c" "cval c < 127" using assms by (auto simp: spaceFree_def char_less_iff)
  then show "spaceWidth (c # t) = 0" "widthIn (map rev spaceRunes) (c # t) = 0"
    unfolding spaceWidth_def using widthIn_low spaceRunes_high by blast+
qed

lemma spaceFree_rev [simp]: "spaceFree (rev s) = spaceFree s"
  by (simp add: spaceFree_def)

lemma spaceFree_append [simp]: "spaceFree (s @ t) \<longleftrightarrow> spaceFree s \<and> spaceFree t"
  by (simp add: spaceFree_def)

lemma trimBy_stop: "w s = 0 \<Longrightarrow> trimBy w s = s"
  by (simp add: trimBy.simps [of w s])

lemma trimBy_free:
  assumes "spaceFree s" "s \<noteq> []"
  shows "trimBy spaceWidth (s @ t) = s @ t" "trimBy (widthIn (map rev spaceRunes)) (s @ t) = s @ t"
proof -
  obtain c r where s: "s = c # r" using assms(2) by (cases s) auto
  show "trimBy spaceWidth (s @ t) = s @ t" "trimBy (widthIn (map rev spaceRunes)) (s @ t) = s @ t"
    using spaceFree_width [OF assms(1) [unfolded s], of "r @ t"] by (simp_all add: s trimBy_stop)
qed

lemma newline_width: "spaceWidth (CHR 0x0A # t) = 1" "widthIn (map rev spaceRunes) (CHR 0x0A # t) = 1"
  "spaceWidth (CHR '' '' # t) = 1"
  by (simp_all add: spaceWidth_def widthIn_def isSpaceChar_def)

lemma trimSpace_free [simp]: "spaceFree s \<Longrightarrow> trimSpace s = s"
  using trimBy_free(1) [of s "[]"] trimBy_free(2) [of "rev s" "[]"]
  by (cases "s = []") (auto simp: trimSpace_def trimBy.simps)

lemma trimSpace_line [simp]:
  assumes "spaceFree s" "s \<noteq> []"
  shows "trimSpace (s @ [CHR 0x0A]) = s"
proof -
  have "trimBy (widthIn (map rev spaceRunes)) (CHR 0x0A # rev s) = trimBy (widthIn (map rev spaceRunes)) (rev s)"
    by (subst trimBy.simps) (simp add: newline_width)
  then show ?thesis using trimBy_free(1) [OF assms, of "[CHR 0x0A]"] trimBy_free(2) [of "rev s" "[]"] assms
    by (simp add: trimSpace_def)
qed

lemma fieldsAux_free: "spaceFree s \<Longrightarrow> fieldsAux acc (s @ t) = fieldsAux (rev s @ acc) t"
proof (induction s arbitrary: acc)
  case (Cons c s)
  have "spaceFree s" using Cons.prems by (simp add: spaceFree_def)
  then show ?case using Cons.IH [of "c # acc"] spaceFree_width(1) [OF Cons.prems, of "s @ t"] by simp
qed simp

lemma strFields_one [simp]: "spaceFree s \<Longrightarrow> s \<noteq> [] \<Longrightarrow> strFields s = [s]"
  using fieldsAux_free [of s "[]" "[]"] by (simp add: strFields_def)

lemma strFields_two [simp]:
  "spaceFree s \<Longrightarrow> s \<noteq> [] \<Longrightarrow> spaceFree t \<Longrightarrow> t \<noteq> [] \<Longrightarrow> strFields (s @ CHR '' '' # t) = [s, t]"
  using fieldsAux_free [of s "[]" "CHR '' '' # t"] fieldsAux_free [of t "[]" "[]"]
  by (simp add: strFields_def newline_width)

text \<open>A faster test for evaluation.\<close>

lemma isHexChar_code [code]: "isHexChar c \<longleftrightarrow> c \<in> set ''abcdef0123456789ABCDEF''"
proof -
  define ks :: "nat list" where "ks = [97..<103] @ [48..<58] @ [65..<71]"
  have "isHexChar c \<longleftrightarrow> cval c \<in> set ks"
    unfolding isHexChar_def isDecDigit_def isLowerHexLetter_def isUpperHexLetter_def char_le_iff ks_def by simp presburger
  also have "\<dots> \<longleftrightarrow> c \<in> char_of ` set ks"
  proof
    assume "cval c \<in> set ks"
    then have "char_of (cval c) \<in> char_of ` set ks" by (rule imageI)
    then show "c \<in> char_of ` set ks" by simp
  next
    assume "c \<in> char_of ` set ks"
    then obtain k where "k \<in> set ks" "c = char_of k" by blast
    moreover from this have "k < 256" by (auto simp: ks_def)
    ultimately show "cval c \<in> set ks" by (simp add: cval_char_of)
  qed
  also have "char_of ` set ks = set (map char_of ks)" by simp
  also have "map char_of ks = ''abcdef0123456789ABCDEF''" unfolding ks_def by code_simp
  finally show ?thesis .
qed

lemma hexChar_free: "isHexChar c \<Longrightarrow> c > CHR 0x20 \<and> c < CHR 0x7F"
  by (auto simp: isHexChar_def isDecDigit_def isLowerHexLetter_def isUpperHexLetter_def char_le_iff char_less_iff)

lemma hex_spaceFree: "list_all isHexChar s \<Longrightarrow> spaceFree s"
  by (auto simp: spaceFree_def list_all_iff dest: hexChar_free)

end
