(* ===== verification/Go_Json.thy ===== *)
theory Go_Json
  imports Go_Text
begin

text \<open>
  The parts of the Go packages unicode/utf8 and encoding/json that the program calls: UTF-8
  validity, the lexical grammar, \<open>json.Decoder\<close> as a token machine (\<open>Token\<close>, \<open>More\<close>),
  decoding into untyped values with \<open>UseNumber\<close>, the raw text of object members
  (\<open>json.RawMessage\<close>), and \<open>json.Marshal\<close>. Everything works on bytes.
\<close>

section \<open>UTF-8\<close>

definition inRange :: "nat \<Rightarrow> nat \<Rightarrow> char \<Rightarrow> bool" where
  "inRange lo hi c = (lo \<le> cval c \<and> cval c \<le> hi)"

text \<open>
  \<open>utf8.Valid\<close> as a byte automaton: a first byte fixes the ranges of its continuation bytes. There
  are no overlong forms, no surrogates and nothing above U+10FFFF.
\<close>

definition utf8Pending :: "char \<Rightarrow> (nat \<times> nat) list option" where
  "utf8Pending c =
    (if cval c < 0x80 then Some []
     else if inRange 0xC2 0xDF c then Some [(0x80, 0xBF)]
     else if inRange 0xE0 0xEF c then
       Some [(if cval c = 0xE0 then 0xA0 else 0x80, if cval c = 0xED then 0x9F else 0xBF), (0x80, 0xBF)]
     else if inRange 0xF0 0xF4 c then
       Some [(if cval c = 0xF0 then 0x90 else 0x80, if cval c = 0xF4 then 0x8F else 0xBF),
             (0x80, 0xBF), (0x80, 0xBF)]
     else None)"

fun utf8Run :: "(nat \<times> nat) list \<Rightarrow> string \<Rightarrow> bool" where
  "utf8Run [] [] = True"
| "utf8Run (p # ps) [] = False"
| "utf8Run [] (c # s) = (case utf8Pending c of None \<Rightarrow> False | Some ps \<Rightarrow> utf8Run ps s)"
| "utf8Run ((lo, hi) # ps) (c # s) = (inRange lo hi c \<and> utf8Run ps s)"

definition utf8Valid :: "string \<Rightarrow> bool" where
  "utf8Valid s = utf8Run [] s"

definition utf8Encode :: "nat \<Rightarrow> string" where
  "utf8Encode n =
    (if n < 0x80 then [char_of n]
     else if n < 0x800 then [char_of (0xC0 + n div 64), char_of (0x80 + n mod 64)]
     else if n < 0x10000 then
       [char_of (0xE0 + n div 4096), char_of (0x80 + n div 64 mod 64), char_of (0x80 + n mod 64)]
     else [char_of (0xF0 + n div 262144), char_of (0x80 + n div 4096 mod 64),
           char_of (0x80 + n div 64 mod 64), char_of (0x80 + n mod 64)])"

section \<open>Lexical grammar\<close>

definition isJsonSpace :: "char \<Rightarrow> bool" where
  "isJsonSpace c = (c \<in> set [CHR '' '', CHR 0x09, CHR 0x0A, CHR 0x0D])"

definition skipWs :: "string \<Rightarrow> string" where
  "skipWs s = dropWhile isJsonSpace s"

definition hexVal :: "char \<Rightarrow> nat" where
  "hexVal c = (if isDecDigit c then cval c - 48
               else if isLowerHexLetter c then cval c - 87 else cval c - 55)"

text \<open>Four hex digits of a \<open>\u\<close> escape.\<close>

fun getU4 :: "string \<Rightarrow> (nat \<times> string) option" where
  "getU4 (a # b # c # d # s) =
    (if isHexChar a \<and> isHexChar b \<and> isHexChar c \<and> isHexChar d
     then Some (((hexVal a * 16 + hexVal b) * 16 + hexVal c) * 16 + hexVal d, s) else None)"
| "getU4 _ = None"

definition simpleEscape :: "char \<Rightarrow> char option" where
  "simpleEscape c = map_of
     [(CHR 0x22, CHR 0x22), (CHR 0x5C, CHR 0x5C), (CHR ''/'', CHR ''/''), (CHR ''b'', CHR 0x08),
      (CHR ''f'', CHR 0x0C), (CHR ''n'', CHR 0x0A), (CHR ''r'', CHR 0x0D), (CHR ''t'', CHR 0x09)] c"

text \<open>
  A surrogate that is not the first half of a pair written as two escapes decodes to U+FFFD.
\<close>

definition lexUnicode :: "string \<Rightarrow> (string \<times> string) option" where
  "lexUnicode s =
    (case getU4 s of
       None \<Rightarrow> None
     | Some (hi, r) \<Rightarrow>
         if 0xD800 \<le> hi \<and> hi < 0xE000 then
           (case (if hasPrefix r [CHR 0x5C, CHR ''u''] then getU4 (drop 2 r) else None) of
              Some (lo, r') \<Rightarrow>
                if hi < 0xDC00 \<and> 0xDC00 \<le> lo \<and> lo < 0xE000
                then Some (utf8Encode (0x10000 + (hi - 0xD800) * 1024 + (lo - 0xDC00)), r')
                else Some (utf8Encode 0xFFFD, r)
            | None \<Rightarrow> Some (utf8Encode 0xFFFD, r))
         else Some (utf8Encode hi, r))"

definition lexEscape :: "string \<Rightarrow> (string \<times> string) option" where
  "lexEscape s =
    (case s of
       [] \<Rightarrow> None
     | e # r \<Rightarrow> if e = CHR ''u'' then lexUnicode r
                else (case simpleEscape e of None \<Rightarrow> None | Some c \<Rightarrow> Some ([c], r)))"

lemma getU4_length: "getU4 s = Some (n, r) \<Longrightarrow> length s = length r + 4"
  by (induction s rule: getU4.induct) (auto split: if_splits)

lemma lexUnicode_length: "lexUnicode s = Some (x, r) \<Longrightarrow> length r < length s"
  by (auto simp: lexUnicode_def dest!: getU4_length split: option.splits if_splits)

lemma lexEscape_length [termination_simp]: "lexEscape s = Some (x, r) \<Longrightarrow> length r < length s"
  by (auto simp: lexEscape_def dest!: lexUnicode_length split: list.splits option.splits if_splits)

text \<open>The content of a string literal after its opening quote, and the text after the closing one.\<close>

fun lexString :: "string \<Rightarrow> (string \<times> string) option" where
  "lexString [] = None"
| "lexString (c # s) =
    (if c = CHR 0x22 then Some ([], s)
     else if c = CHR 0x5C then
       (case lexEscape s of
          None \<Rightarrow> None
        | Some (x, r) \<Rightarrow> map_option (\<lambda>(y, r'). (x @ y, r')) (lexString r))
     else if cval c < 32 then None
     else map_option (\<lambda>(y, r'). (c # y, r')) (lexString s))"

definition spanDigits :: "string \<Rightarrow> string \<times> string" where
  "spanDigits s = (takeWhile isDecDigit s, dropWhile isDecDigit s)"

text \<open>
  A number literal: integer part, then an optional fraction and an optional exponent, each with
  at least one digit. The scanner is greedy and stops at the first byte that cannot continue.
\<close>

definition lexIntPart :: "string \<Rightarrow> (string \<times> string) option" where
  "lexIntPart s =
    (case s of
       [] \<Rightarrow> None
     | c # r \<Rightarrow> if c = CHR ''0'' then Some ([c], r)
                else if isDecDigit c then Some (spanDigits s) else None)"

definition lexFrac :: "string \<Rightarrow> (string \<times> string) option" where
  "lexFrac s =
    (case s of
       c # r \<Rightarrow> if c = CHR ''.'' then
                  (case spanDigits r of (ds, r') \<Rightarrow> if ds = [] then None else Some (c # ds, r'))
                else Some ([], s)
     | [] \<Rightarrow> Some ([], s))"

definition lexSign :: "string \<Rightarrow> string \<times> string" where
  "lexSign s = (case s of c # r \<Rightarrow> if c = CHR ''+'' \<or> c = CHR ''-'' then ([c], r) else ([], s)
                        | [] \<Rightarrow> ([], s))"

definition lexExp :: "string \<Rightarrow> (string \<times> string) option" where
  "lexExp s =
    (case s of
       c # r \<Rightarrow> if c = CHR ''e'' \<or> c = CHR ''E'' then
                  (case lexSign r of (sg, r1) \<Rightarrow>
                     (case spanDigits r1 of (ds, r') \<Rightarrow>
                        if ds = [] then None else Some (c # sg @ ds, r')))
                else Some ([], s)
     | [] \<Rightarrow> Some ([], s))"

definition lexNumber :: "string \<Rightarrow> (string \<times> string) option" where
  "lexNumber s =
    (case (if hasPrefix s ''-'' then (''-'', drop 1 s) else ([], s)) of (sg, s0) \<Rightarrow>
       (case lexIntPart s0 of
          None \<Rightarrow> None
        | Some (ip, s1) \<Rightarrow>
            (case lexFrac s1 of
               None \<Rightarrow> None
             | Some (fp, s2) \<Rightarrow>
                 (case lexExp s2 of
                    None \<Rightarrow> None
                  | Some (ep, s3) \<Rightarrow> Some (sg @ ip @ fp @ ep, s3)))))"

section \<open>Values\<close>

text \<open>
  Untyped decoded values (\<open>any\<close>): numbers keep their literal text (\<open>UseNumber\<close>), an object is
  the list of its members in document order.
\<close>

datatype json =
    JNull
  | JBool bool
  | JNum string
  | JStr string
  | JArr "json list"
  | JObj "(string \<times> json) list"

text \<open>A scalar literal at the head of the input.\<close>

definition lexScalar :: "string \<Rightarrow> (json \<times> string) option" where
  "lexScalar s =
    (case s of
       [] \<Rightarrow> None
     | c # r \<Rightarrow>
         if c = CHR 0x22 then map_option (\<lambda>(x, r'). (JStr x, r')) (lexString r)
         else if hasPrefix s ''true'' then Some (JBool True, drop 4 s)
         else if hasPrefix s ''false'' then Some (JBool False, drop 5 s)
         else if hasPrefix s ''null'' then Some (JNull, drop 4 s)
         else map_option (\<lambda>(x, r'). (JNum x, r')) (lexNumber s))"

section \<open>json.Decoder as a token machine\<close>

datatype tokState =
    TopValue | ArrayStart | ArrayValue | ArrayComma
  | ObjectStart | ObjectKey | ObjectColon | ObjectValue | ObjectComma

record decoder =
  dRest :: string
  dState :: tokState
  dStack :: "tokState list"

datatype token = TDelim char | TScalar json

datatype tokRes = TokEOF | TokErr | TokOk token decoder

definition newDecoder :: "string \<Rightarrow> decoder" where
  "newDecoder raw = \<lparr>dRest = raw, dState = TopValue, dStack = []\<rparr>"

definition valueAllowed :: "tokState \<Rightarrow> bool" where
  "valueAllowed st = (st \<in> set [TopValue, ArrayStart, ArrayValue, ObjectValue])"

definition valueEnd :: "tokState \<Rightarrow> tokState" where
  "valueEnd st =
    (case st of ArrayStart \<Rightarrow> ArrayComma | ArrayValue \<Rightarrow> ArrayComma
              | ObjectValue \<Rightarrow> ObjectComma | _ \<Rightarrow> st)"

definition popDec :: "decoder \<Rightarrow> string \<Rightarrow> decoder" where
  "popDec d r = (case dStack d of
      [] \<Rightarrow> d\<lparr>dRest := r\<rparr>
    | st # sts \<Rightarrow> \<lparr>dRest = r, dState = valueEnd st, dStack = sts\<rparr>)"

definition pushDec :: "decoder \<Rightarrow> string \<Rightarrow> tokState \<Rightarrow> decoder" where
  "pushDec d r st = \<lparr>dRest = r, dState = st, dStack = dState d # dStack d\<rparr>"

text \<open>The token that begins with byte \<open>c\<close>, which is not a separator.\<close>

definition tokenAt :: "decoder \<Rightarrow> char \<Rightarrow> string \<Rightarrow> tokRes" where
  "tokenAt d c r =
    (if c = CHR ''['' then
       (if valueAllowed (dState d) then TokOk (TDelim c) (pushDec d r ArrayStart) else TokErr)
     else if c = CHR '']'' then
       (if dState d = ArrayStart \<or> dState d = ArrayComma then TokOk (TDelim c) (popDec d r)
        else TokErr)
     else if c = CHR ''{'' then
       (if valueAllowed (dState d) then TokOk (TDelim c) (pushDec d r ObjectStart) else TokErr)
     else if c = CHR ''}'' then
       (if dState d = ObjectStart \<or> dState d = ObjectComma then TokOk (TDelim c) (popDec d r)
        else TokErr)
     else if c = CHR 0x22 \<and> (dState d = ObjectStart \<or> dState d = ObjectKey) then
       (case lexString r of
          None \<Rightarrow> TokErr
        | Some (x, r') \<Rightarrow> TokOk (TScalar (JStr x)) (d\<lparr>dRest := r', dState := ObjectColon\<rparr>))
     else if valueAllowed (dState d) then
       (case lexScalar (c # r) of
          None \<Rightarrow> TokErr
        | Some (v, r') \<Rightarrow> TokOk (TScalar v) (d\<lparr>dRest := r', dState := valueEnd (dState d)\<rparr>))
     else TokErr)"

function decToken :: "decoder \<Rightarrow> tokRes" where
  "decToken d =
    (case skipWs (dRest d) of
       [] \<Rightarrow> TokEOF
     | c # r \<Rightarrow>
         if c = CHR '':'' then
           (if dState d = ObjectColon then decToken (d\<lparr>dRest := r, dState := ObjectValue\<rparr>)
            else TokErr)
         else if c = CHR '','' then
           (if dState d = ArrayComma then decToken (d\<lparr>dRest := r, dState := ArrayValue\<rparr>)
            else if dState d = ObjectComma then decToken (d\<lparr>dRest := r, dState := ObjectKey\<rparr>)
            else TokErr)
         else tokenAt d c r)"
  by pat_completeness auto

lemma skipWs_length: "length (skipWs s) \<le> length s"
  by (simp add: skipWs_def length_dropWhile_le)

lemma skipWs_Cons_length: "skipWs s = c # r \<Longrightarrow> length r < length s"
  using skipWs_length [of s] by simp

termination decToken
  by (relation "measure (\<lambda>d. length (dRest d))") (auto dest!: skipWs_Cons_length)

declare decToken.simps [simp del]

definition decMore :: "decoder \<Rightarrow> bool" where
  "decMore d = (case skipWs (dRest d) of
      [] \<Rightarrow> False | c # _ \<Rightarrow> c \<noteq> CHR '']'' \<and> c \<noteq> CHR ''}'')"

section \<open>Decoding a whole value\<close>

text \<open>
  \<open>Decode(&v)\<close> with \<open>v any\<close>: the recursive reading of the same grammar. The fuel bounds the
  number of nested calls; \<open>Strict_Json\<close> shows that the length of the text is enough for every text
  the strict validator accepts. \<open>json.Unmarshal\<close> also reads to the end of the text.
\<close>

fun parseAny :: "nat \<Rightarrow> string \<Rightarrow> (json \<times> string) option"
and parseObj :: "nat \<Rightarrow> bool \<Rightarrow> string \<Rightarrow> ((string \<times> json) list \<times> string) option"
and parseArr :: "nat \<Rightarrow> bool \<Rightarrow> string \<Rightarrow> (json list \<times> string) option" where
  "parseAny 0 s = None"
| "parseAny (Suc n) s =
    (case skipWs s of
       [] \<Rightarrow> None
     | c # r \<Rightarrow>
         if c = CHR ''{'' then map_option (\<lambda>(ms, t). (JObj ms, t)) (parseObj n True r)
         else if c = CHR ''['' then map_option (\<lambda>(vs, t). (JArr vs, t)) (parseArr n True r)
         else lexScalar (c # r))"
| "parseObj 0 fresh s = None"
| "parseObj (Suc n) fresh s =
    (case skipWs s of
       [] \<Rightarrow> None
     | c # r \<Rightarrow>
         if c = CHR ''}'' then Some ([], r)
         else if \<not> fresh \<and> c \<noteq> CHR '','' then None
         else (case (if fresh then c # r else skipWs r) of
             [] \<Rightarrow> None
           | q # r0 \<Rightarrow>
               if q \<noteq> CHR 0x22 then None
               else (case lexString r0 of
                   None \<Rightarrow> None
                 | Some (k, r1) \<Rightarrow>
                     (case skipWs r1 of
                        [] \<Rightarrow> None
                      | e # r2 \<Rightarrow>
                          if e \<noteq> CHR '':'' then None
                          else (case parseAny n r2 of
                              None \<Rightarrow> None
                            | Some (v, r3) \<Rightarrow>
                                map_option (\<lambda>(ms, t). ((k, v) # ms, t)) (parseObj n False r3))))))"
| "parseArr 0 fresh s = None"
| "parseArr (Suc n) fresh s =
    (case skipWs s of
       [] \<Rightarrow> None
     | c # r \<Rightarrow>
         if c = CHR '']'' then Some ([], r)
         else if \<not> fresh \<and> c \<noteq> CHR '','' then None
         else (case parseAny n (if fresh then s else r) of
                 None \<Rightarrow> None
               | Some (v, r3) \<Rightarrow> map_option (\<lambda>(vs, t). (v # vs, t)) (parseArr n False r3)))"

definition jsonFuel :: "string \<Rightarrow> nat" where
  "jsonFuel s = 2 * length s + 2"

definition jsonDecode :: "string \<Rightarrow> json option" where
  "jsonDecode raw = map_option fst (parseAny (jsonFuel raw) raw)"

definition jsonUnmarshal :: "string \<Rightarrow> json option" where
  "jsonUnmarshal raw =
    (case parseAny (jsonFuel raw) raw of
       Some (v, r) \<Rightarrow> if skipWs r = [] then Some v else None
     | None \<Rightarrow> None)"

text \<open>
  The members of a top-level object with the exact text of their values: what a field of type
  \<open>json.RawMessage\<close> receives.
\<close>

fun rawObj :: "nat \<Rightarrow> bool \<Rightarrow> string \<Rightarrow> (string \<times> string) list option" where
  "rawObj 0 fresh s = None"
| "rawObj (Suc n) fresh s =
    (case skipWs s of
       [] \<Rightarrow> None
     | c # r \<Rightarrow>
         if c = CHR ''}'' then Some []
         else if \<not> fresh \<and> c \<noteq> CHR '','' then None
         else (case (if fresh then c # r else skipWs r) of
             [] \<Rightarrow> None
           | q # r0 \<Rightarrow>
               (case lexString r0 of
                  None \<Rightarrow> None
                | Some (k, r1) \<Rightarrow>
                    (case parseAny n (drop 1 (skipWs r1)) of
                       None \<Rightarrow> None
                     | Some (v, r3) \<Rightarrow>
                         let start = skipWs (drop 1 (skipWs r1))
                         in map_option ((#) (k, take (length start - length r3) start))
                              (rawObj n False r3)))))"

definition rawMembers :: "string \<Rightarrow> (string \<times> string) list option" where
  "rawMembers raw =
    (case skipWs raw of
       [] \<Rightarrow> None
     | c # r \<Rightarrow> if c = CHR ''{'' then rawObj (jsonFuel raw) True r else None)"

section \<open>json.Marshal\<close>

definition escU00 :: "char \<Rightarrow> string" where
  "escU00 c = CHR 0x5C # ''u00'' @ hexByte c"

definition escByte :: "char \<Rightarrow> string" where
  "escByte c =
    (if c = CHR 0x22 \<or> c = CHR 0x5C then [CHR 0x5C, c]
     else if c = CHR 0x08 then [CHR 0x5C, CHR ''b'']
     else if c = CHR 0x0C then [CHR 0x5C, CHR ''f'']
     else if c = CHR 0x0A then [CHR 0x5C, CHR ''n'']
     else if c = CHR 0x0D then [CHR 0x5C, CHR ''r'']
     else if c = CHR 0x09 then [CHR 0x5C, CHR ''t'']
     else if cval c < 32 \<or> c = CHR ''<'' \<or> c = CHR ''>'' \<or> c = CHR ''&'' then escU00 c
     else [c])"

text \<open>HTML-safe escaping; U+2028 and U+2029 (bytes E2 80 A8 and E2 80 A9) are escaped as well.\<close>

fun escString :: "string \<Rightarrow> string" where
  "escString [] = []"
| "escString (c # s) =
    (if c = CHR 0xE2 \<and> take 2 s = [CHR 0x80, CHR 0xA8] then CHR 0x5C # ''u2028'' @ escString (drop 2 s)
     else if c = CHR 0xE2 \<and> take 2 s = [CHR 0x80, CHR 0xA9] then CHR 0x5C # ''u2029'' @ escString (drop 2 s)
     else escByte c @ escString s)"

definition quote :: "string \<Rightarrow> string" where
  "quote s = CHR 0x22 # escString s @ [CHR 0x22]"

text \<open>Members are written in the order given; \<open>json.Marshal\<close> of a map sorts them by key.\<close>

fun render :: "json \<Rightarrow> string" where
  "render JNull = ''null''"
| "render (JBool b) = (if b then ''true'' else ''false'')"
| "render (JNum n) = n"
| "render (JStr s) = quote s"
| "render (JArr vs) = CHR ''['' # joinWith '','' (map render vs) @ '']''"
| "render (JObj ms) = CHR ''{'' # joinWith '','' (map (\<lambda>(k, v). quote k @ CHR '':'' # render v) ms) @ ''}''"

fun sortJson :: "json \<Rightarrow> json" where
  "sortJson (JArr vs) = JArr (map sortJson vs)"
| "sortJson (JObj ms) = JObj (sort_key fst (map (\<lambda>(k, v). (k, sortJson v)) ms))"
| "sortJson v = v"

definition marshalAny :: "json \<Rightarrow> string" where
  "marshalAny v = render (sortJson v)"

text \<open>Decimal text of Go integers.\<close>

fun natDec :: "nat \<Rightarrow> string" where
  "natDec n = (if n < 10 then [char_of (48 + n)] else natDec (n div 10) @ [char_of (48 + n mod 10)])"

declare natDec.simps [simp del]

definition intDec :: "int \<Rightarrow> string" where
  "intDec i = (if i < 0 then CHR ''-'' # natDec (nat (- i)) else natDec (nat i))"

section \<open>Decoding into structs\<close>

text \<open>
  \<open>json.Unmarshal\<close> into a struct looks a member name up exactly and, failing that, ignoring
  case: ASCII letters are folded, and so are U+017F (long s) and U+212A (Kelvin sign), the two
  non-ASCII runes that fold to ASCII letters. Members are assigned in document order, so the
  last member for a field wins; \<open>null\<close> leaves a field of basic type unchanged.
\<close>

fun foldName :: "string \<Rightarrow> string" where
  "foldName [] = []"
| "foldName (c # s) =
    (if c = CHR 0xC5 \<and> take 1 s = [CHR 0xBF] then CHR ''s'' # foldName (drop 1 s)
     else if c = CHR 0xE2 \<and> take 2 s = [CHR 0x84, CHR 0xAA] then CHR ''k'' # foldName (drop 2 s)
     else lowerChar c # foldName s)"

text \<open>All field names of the program's structs are lower-case ASCII.\<close>

definition fieldMatch :: "string list \<Rightarrow> string \<Rightarrow> string option" where
  "fieldMatch names k =
    (if k \<in> set names then Some k else find (\<lambda>n. n = foldName k) names)"

definition fieldValues :: "string list \<Rightarrow> (string \<times> 'v) list \<Rightarrow> string \<Rightarrow> 'v list" where
  "fieldValues names ms f = map snd (filter (\<lambda>(k, v). fieldMatch names k = Some f) ms)"

definition errUnmarshal :: goerr where
  "errUnmarshal = ErrNew ''json: cannot unmarshal value into Go struct field''"

definition decString :: "json list \<Rightarrow> string res" where
  "decString vs = foldM (\<lambda>acc v. case v of JStr s \<Rightarrow> Inr s | JNull \<Rightarrow> Inr acc | _ \<Rightarrow> Inl errUnmarshal) [] vs"

definition decBool :: "json list \<Rightarrow> bool res" where
  "decBool vs = foldM (\<lambda>acc v. case v of JBool b \<Rightarrow> Inr b | JNull \<Rightarrow> Inr acc | _ \<Rightarrow> Inl errUnmarshal) False vs"

text \<open>Integers: an optional sign and digits only, within the range of the field's type.\<close>

definition parseIntLit :: "string \<Rightarrow> int option" where
  "parseIntLit s =
    (let ds = (if hasPrefix s ''-'' then drop 1 s else s);
         n = foldl (\<lambda>a c. 10 * a + int (cval c - 48)) 0 ds
     in if ds = [] \<or> \<not> list_all isDecDigit ds then None
        else Some (if hasPrefix s ''-'' then - n else n))"

definition decInt64 :: "json list \<Rightarrow> int res" where
  "decInt64 vs = foldM (\<lambda>acc v. case v of
      JNum s \<Rightarrow> (case parseIntLit s of
                   Some i \<Rightarrow> if - (2 ^ 63) \<le> i \<and> i < 2 ^ 63 then Inr i else Inl errUnmarshal
                 | None \<Rightarrow> Inl errUnmarshal)
    | JNull \<Rightarrow> Inr acc | _ \<Rightarrow> Inl errUnmarshal) 0 vs"

text \<open>
  A slice field: each element is decoded over what an earlier member for the same field left at its
  index (the slice keeps its backing array); \<open>null\<close> and the empty array start afresh. The result
  lists, for each index, the values decoded into it in order.
\<close>

fun overlay :: "json list list \<Rightarrow> json list \<Rightarrow> json list list" where
  "overlay hs [] = hs"
| "overlay [] (x # xs) = [x] # overlay [] xs"
| "overlay (h # hs) (x # xs) = (h @ [x]) # overlay hs xs"

definition sliceHistory :: "json list \<Rightarrow> json list list res" where
  "sliceHistory vs =
    andThen (foldM (\<lambda>(hs, n) v. case v of
        JArr xs \<Rightarrow> if xs = [] then Inr ([], 0) else Inr (overlay hs xs, length xs)
      | JNull \<Rightarrow> Inr ([], 0)
      | _ \<Rightarrow> Inl errUnmarshal) ([], 0) vs) (\<lambda>(hs, n). Inr (take n hs))"

definition decStrings :: "json list \<Rightarrow> string list res" where
  "decStrings vs = andThen (sliceHistory vs) (mapM decString)"

text \<open>The members decoded into a struct field, in order; into a pointer to a struct, where \<open>null\<close>
  resets it; and into a \<open>*string\<close>.\<close>

definition structMembers :: "json list \<Rightarrow> (string \<times> json) list res" where
  "structMembers vs = foldM (\<lambda>acc v. case v of
      JObj ms \<Rightarrow> Inr (acc @ ms) | JNull \<Rightarrow> Inr acc | _ \<Rightarrow> Inl errUnmarshal) [] vs"

definition ptrMembers :: "json list \<Rightarrow> (string \<times> json) list option res" where
  "ptrMembers vs = foldM (\<lambda>acc v. case v of
      JObj ms \<Rightarrow> Inr (Some (case acc of None \<Rightarrow> ms | Some as \<Rightarrow> as @ ms))
    | JNull \<Rightarrow> Inr None | _ \<Rightarrow> Inl errUnmarshal) None vs"

definition decPtrString :: "json list \<Rightarrow> string option res" where
  "decPtrString vs = foldM (\<lambda>acc v. case v of
      JStr s \<Rightarrow> Inr (Some s) | JNull \<Rightarrow> Inr None | _ \<Rightarrow> Inl errUnmarshal) None vs"

text \<open>The top-level object of a document decoded into a struct; \<open>null\<close> decodes to no members.\<close>

definition topMembers :: "string \<Rightarrow> (string \<times> json) list res" where
  "topMembers raw = (case jsonUnmarshal raw of Some v \<Rightarrow> structMembers [v] | None \<Rightarrow> Inl errUnmarshal)"

text \<open>A \<open>json.Decoder\<close> reads the first value of its input and leaves the rest.\<close>

definition topMembersDec :: "string \<Rightarrow> (string \<times> json) list res" where
  "topMembersDec raw = (case jsonDecode raw of Some v \<Rightarrow> structMembers [v] | None \<Rightarrow> Inl errUnmarshal)"

text \<open>\<open>DisallowUnknownFields\<close>: every member must match some field.\<close>

definition knownFields :: "string list \<Rightarrow> (string \<times> json) list \<Rightarrow> bool" where
  "knownFields names ms = list_all (\<lambda>(k, v). fieldMatch names k \<noteq> None) ms"

lemma fieldMatch_Some: "fieldMatch names k = Some f \<Longrightarrow> f \<in> set names"
  by (auto simp: fieldMatch_def find_Some_iff split: if_splits dest!: nth_mem [of _ names])

lemma fieldMatch_exact [simp]: "k \<in> set names \<Longrightarrow> fieldMatch names k = Some k"
  by (simp add: fieldMatch_def)

section \<open>Decimal text is read back\<close>

lemma natDec_digits: "list_all isDecDigit (natDec n) \<and> natDec n \<noteq> []"
proof (induction n rule: natDec.induct)
  case (1 n)
  have d: "isDecDigit (char_of (48 + m))" if "m < 10" for m :: nat
    using that by (simp add: charclass_defs)
  show ?case
  proof (cases "n < 10")
    case True
    then show ?thesis using d by (simp add: natDec.simps [of n])
  next
    case False
    then show ?thesis using 1 d [of "n mod 10"] by (simp add: natDec.simps [of n])
  qed
qed

lemma natDec_zero: "natDec 0 = ''0''" by code_simp

lemma natDec_head: "0 < n \<Longrightarrow> hd (natDec n) \<noteq> CHR ''0''"
proof (induction n rule: natDec.induct)
  case (1 n)
  have z: "(char_of (48 + m) :: char) \<noteq> CHR ''0''" if "0 < m" "m < 10" for m :: nat
    using that char_of_eq_iff [of "48 + m" "CHR ''0''"] by (simp add: take_bit_eq_mod)
  show ?case
  proof (cases "n < 10")
    case True
    then show ?thesis using z 1 by (simp add: natDec.simps [of n])
  next
    case False
    then have "hd (natDec (n div 10)) \<noteq> CHR ''0''" using 1 by simp
    then show ?thesis using False natDec_digits [of "n div 10"] by (simp add: natDec.simps [of n])
  qed
qed

lemma natDec_value: "foldl (\<lambda>a c. 10 * a + int (cval c - 48)) 0 (natDec n) = int n"
proof (induction n rule: natDec.induct)
  case (1 n)
  have v: "cval (char_of (48 + m) :: char) - 48 = m" if "m < 10" for m :: nat using that by simp
  show ?case
  proof (cases "n < 10")
    case True
    then show ?thesis using v by (simp add: natDec.simps [of n])
  next
    case False
    have "foldl (\<lambda>a c. 10 * a + int (cval c - 48)) 0 (natDec n) = 10 * int (n div 10) + int (n mod 10)"
      using False 1 v [of "n mod 10"] by (simp add: natDec.simps [of n])
    then show ?thesis by presburger
  qed
qed

lemma natDec_unsigned: "\<not> hasPrefix (natDec n) ''-''"
proof -
  have "hd (natDec n) \<noteq> CHR ''-''" using natDec_digits [of n] by (cases "natDec n") (auto simp: charclass_defs)
  then show ?thesis using natDec_digits [of n] by (cases "natDec n") (auto simp: hasPrefix_def)
qed

lemma natDec_lex: "lexNumber (natDec n) = Some (natDec n, [])"
proof -
  obtain c t where ct: "natDec n = c # t" and d: "isDecDigit c" "list_all isDecDigit t"
    using natDec_digits [of n] by (cases "natDec n") auto
  have z: "c = CHR ''0'' \<Longrightarrow> t = []"
    using natDec_head [of n] natDec_zero ct by (cases "n = 0") auto
  have s: "spanDigits (c # t) = (c # t, [])" using d by (simp add: spanDigits_def list_all_iff takeWhile_eq_all_conv)
  have i: "lexIntPart (c # t) = Some (c # t, [])" using z d s by (auto simp: lexIntPart_def)
  then show ?thesis using natDec_unsigned [of n] by (simp add: ct lexNumber_def lexFrac_def lexExp_def)
qed

lemma natDec_parse: "parseIntLit (natDec n) = Some (int n)"
  using natDec_unsigned [of n] natDec_digits [of n] natDec_value [of n] by (simp add: parseIntLit_def)

lemma intDec_nonneg: "0 \<le> i \<Longrightarrow> intDec i = natDec (nat i)" by (simp add: intDec_def)

lemma decInt64_natDec:
  assumes "0 \<le> i" "i < 2 ^ 63"
  shows "decInt64 [JNum (intDec i)] = Inr i"
  using assms by (simp add: decInt64_def intDec_nonneg natDec_parse)

lemma intDec_lex: "lexNumber (intDec i) = Some (intDec i, [])"
proof (cases "i < 0")
  case True
  have "lexNumber (CHR ''-'' # natDec n) = Some (CHR ''-'' # natDec n, [])" for n
    using natDec_lex [of n] natDec_unsigned [of n] unfolding lexNumber_def
    by (auto simp: hasPrefix_def split: option.split_asm prod.split_asm)
  then show ?thesis using True by (simp add: intDec_def)
qed (simp add: intDec_nonneg natDec_lex)

lemma decInt64_intDec:
  assumes "- (2 ^ 63) \<le> i" "i < 2 ^ 63"
  shows "decInt64 [JNum (intDec i)] = Inr i"
proof (cases "i < 0")
  case True
  have "parseIntLit (CHR ''-'' # natDec n) = Some (- int n)" for n
    using natDec_digits [of n] natDec_value [of n] by (simp add: parseIntLit_def hasPrefix_def)
  then show ?thesis using True assms by (simp add: decInt64_def intDec_def)
qed (use assms decInt64_natDec in simp)

end
