(* ===== verification/Strict_Json.thy ===== *)
theory Strict_Json
  imports Go_Json
begin

text \<open>
  internal/strictjson: the strict JSON validator (\<open>Validate\<close>, \<open>parseValue\<close>), the decoder that
  runs behind it (\<open>Decode\<close>), the negative-zero check and JSON-pointer escaping. The validator is
  a client of the token machine of \<open>Go_Json\<close>; the lemmas show that it accepts exactly the texts
  whose value is a well-formed tree without duplicate members and negative zeros, nested at most
  512 deep, and that decoding cannot fail behind it.
\<close>

section \<open>Definitions\<close>

definition codeInvalidJSON :: string where "codeInvalidJSON = ''INVALID_JSON''"
definition codeDuplicateMember :: string where "codeDuplicateMember = ''DUPLICATE_MEMBER''"
definition codeInvalidUTF8 :: string where "codeInvalidUTF8 = ''INVALID_UTF8''"
definition codeInvalidNumber :: string where "codeInvalidNumber = ''INVALID_NUMBER''"

text \<open>\<open>errors.As(err, &e)\<close> finds the first \<open>*Error\<close> of the wrapping tree, depth first.\<close>

fun asCode :: "goerr \<Rightarrow> string option" and asCodes :: "goerr list \<Rightarrow> string option" where
  "asCode (ErrNew s) = None"
| "asCode (Errorf s ws) = asCodes ws"
| "asCode (CodeErr c p m ws) = Some c"
| "asCodes [] = None"
| "asCodes (w # ws) = (case asCode w of Some c \<Rightarrow> Some c | None \<Rightarrow> asCodes ws)"

definition isCode :: "goerr \<Rightarrow> string \<Rightarrow> bool" where
  "isCode e code = (asCode e = Some code)"

definition jsonErr :: "string \<Rightarrow> string \<Rightarrow> goerr" where
  "jsonErr path msg = CodeErr codeInvalidJSON path msg []"

definition decoderErr :: goerr where "decoderErr = ErrNew ''encoding/json''"

definition jsonErrFrom :: "string \<Rightarrow> string \<Rightarrow> goerr" where
  "jsonErrFrom path msg = CodeErr codeInvalidJSON path msg [decoderErr]"

definition isNegativeZero :: "string \<Rightarrow> bool" where
  "isNegativeZero s =
    (if \<not> hasPrefix s ''-'' then False
     else let s1 = drop 1 s;
              s2 = takeWhile (\<lambda>c. c \<notin> set ''eE'') s1
          in if hasPrefix s2 ''0.'' then
               (let s3 = drop 2 s2 in if s3 = [] then False else list_all (\<lambda>r. r = CHR ''0'') s3)
             else s2 = ''0'')"

fun replaceChar :: "char \<Rightarrow> string \<Rightarrow> string \<Rightarrow> string" where
  "replaceChar c t [] = []"
| "replaceChar c t (x # s) = (if x = c then t @ replaceChar c t s else x # replaceChar c t s)"

definition escapePointer :: "string \<Rightarrow> string" where
  "escapePointer s = replaceChar CHR ''/'' ''~1'' (replaceChar CHR ''~'' ''~0'' s)"

text \<open>
  \<open>parseValue\<close> and its two loops. \<open>None\<close> is running out of fuel, which
  \<open>parse_fuel\<close> excludes.
\<close>

fun parseValue :: "nat \<Rightarrow> decoder \<Rightarrow> string \<Rightarrow> nat \<Rightarrow> decoder res option"
and parseObjectLoop :: "nat \<Rightarrow> decoder \<Rightarrow> string set \<Rightarrow> string \<Rightarrow> nat \<Rightarrow> decoder res option"
and parseArrayLoop :: "nat \<Rightarrow> decoder \<Rightarrow> nat \<Rightarrow> string \<Rightarrow> nat \<Rightarrow> decoder res option" where
  "parseValue 0 d path depth = None"
| "parseValue (Suc n) d path depth =
    (if depth > 512 then Some (Inl (jsonErr path ''nesting exceeds safety limit''))
     else case decToken d of
       TokOk (TDelim t) d1 \<Rightarrow>
         if t = CHR ''{'' then parseObjectLoop n d1 {} path depth
         else if t = CHR ''['' then parseArrayLoop n d1 0 path depth
         else Some (Inl (jsonErr path ''unexpected delimiter''))
     | TokOk (TScalar (JNum s)) d1 \<Rightarrow>
         if isNegativeZero s
         then Some (Inl (CodeErr codeInvalidNumber path ''negative zero is forbidden'' []))
         else Some (Inr d1)
     | TokOk (TScalar v) d1 \<Rightarrow> Some (Inr d1)
     | _ \<Rightarrow> Some (Inl (jsonErrFrom path ''invalid JSON token'')))"
| "parseObjectLoop 0 d seen path depth = None"
| "parseObjectLoop (Suc n) d seen path depth =
    (if decMore d then
       (case decToken d of
          TokOk (TScalar (JStr name)) d1 \<Rightarrow>
            let memberPath = path @ ''/'' @ escapePointer name in
            if name \<in> seen
            then Some (Inl (CodeErr codeDuplicateMember memberPath ''duplicate member'' []))
            else (case parseValue n d1 memberPath (Suc depth) of
                    None \<Rightarrow> None
                  | Some (Inl e) \<Rightarrow> Some (Inl e)
                  | Some (Inr d2) \<Rightarrow> parseObjectLoop n d2 (insert name seen) path depth)
        | TokOk _ d1 \<Rightarrow> Some (Inl (jsonErr path ''object member name is not a string''))
        | _ \<Rightarrow> Some (Inl (jsonErrFrom path ''invalid object member name'')))
     else
       (case decToken d of
          TokOk (TDelim t) d1 \<Rightarrow>
            if t = CHR ''}'' then Some (Inr d1) else Some (Inl (jsonErr path ''unterminated object''))
        | TokOk _ d1 \<Rightarrow> Some (Inl (jsonErr path ''unterminated object''))
        | _ \<Rightarrow> Some (Inl (jsonErrFrom path ''unterminated object''))))"
| "parseArrayLoop 0 d idx path depth = None"
| "parseArrayLoop (Suc n) d idx path depth =
    (if decMore d then
       (case parseValue n d (path @ ''/'' @ natDec idx) (Suc depth) of
          None \<Rightarrow> None
        | Some (Inl e) \<Rightarrow> Some (Inl e)
        | Some (Inr d2) \<Rightarrow> parseArrayLoop n d2 (Suc idx) path depth)
     else
       (case decToken d of
          TokOk (TDelim t) d1 \<Rightarrow>
            if t = CHR '']'' then Some (Inr d1) else Some (Inl (jsonErr path ''unterminated array''))
        | TokOk _ d1 \<Rightarrow> Some (Inl (jsonErr path ''unterminated array''))
        | _ \<Rightarrow> Some (Inl (jsonErrFrom path ''unterminated array''))))"

definition strictValidate :: "string \<Rightarrow> unit res" where
  "strictValidate raw =
    (if \<not> utf8Valid raw
     then Inl (CodeErr codeInvalidUTF8 [] ''input is not valid UTF-8'' [])
     else case parseValue (jsonFuel raw) (newDecoder raw) ''$'' 0 of
       None \<Rightarrow> Inl (ErrNew ''out of fuel'')
     | Some (Inl e) \<Rightarrow> Inl e
     | Some (Inr d) \<Rightarrow>
         (case decToken d of
            TokEOF \<Rightarrow> Inr ()
          | TokOk t d' \<Rightarrow> Inl (jsonErr [] ''trailing token'')
          | TokErr \<Rightarrow> Inl (jsonErrFrom [] ''trailing data'')))"

definition strictDecode :: "string \<Rightarrow> json res" where
  "strictDecode raw =
    andThen (strictValidate raw) (\<lambda>_.
      case jsonDecode raw of
        Some v \<Rightarrow> Inr v
      | None \<Rightarrow> Inl (jsonErrFrom [] ''decode failed after strict validation''))"

section \<open>Fuel\<close>

lemma lexString_length: "lexString s = Some (x, r) \<Longrightarrow> length r < length s"
proof (induction s arbitrary: x rule: lexString.induct)
  case (2 c s)
  then show ?case
    by (fastforce split: if_splits option.splits dest: lexEscape_length)
qed simp

lemma spanDigits_length: "spanDigits s = (ds, r) \<Longrightarrow> length ds + length r = length s"
  by (auto simp: spanDigits_def) (metis length_append takeWhile_dropWhile_id)

lemma lexIntPart_length: "lexIntPart s = Some (x, r) \<Longrightarrow> length r < length s"
  by (auto simp: lexIntPart_def spanDigits_def length_dropWhile_le le_imp_less_Suc
      split: list.splits if_splits)

lemma lexFrac_length: "lexFrac s = Some (x, r) \<Longrightarrow> length r \<le> length s"
  by (auto simp: lexFrac_def spanDigits_def length_dropWhile_le le_SucI
      split: list.splits if_splits)

lemma lexExp_length: "lexExp s = Some (x, r) \<Longrightarrow> length r \<le> length s"
proof (cases s)
  case (Cons c t)
  assume "lexExp s = Some (x, r)"
  moreover have "length (dropWhile isDecDigit (snd (lexSign t))) \<le> length t"
    by (rule le_trans [OF length_dropWhile_le]) (auto simp: lexSign_def split: list.splits)
  ultimately show ?thesis
    using Cons by (auto simp: lexExp_def spanDigits_def split: if_splits prod.splits)
qed (simp add: lexExp_def)

lemma lexNumber_length: "lexNumber s = Some (x, r) \<Longrightarrow> length r < length s"
  by (fastforce simp: lexNumber_def split: option.splits if_splits
      dest!: lexIntPart_length lexFrac_length lexExp_length)

lemma lexScalar_length: "lexScalar s = Some (v, r) \<Longrightarrow> length r < length s"
  by (auto simp: lexScalar_def split: list.splits if_splits
      dest!: lexString_length lexNumber_length)

lemma popDec_rest [simp]: "dRest (popDec d r) = r"
  by (simp add: popDec_def split: list.splits)

lemma pushDec_rest [simp]: "dRest (pushDec d r st) = r"
  by (simp add: pushDec_def)

lemma tokenAt_consumes: "tokenAt d c r = TokOk t d' \<Longrightarrow> length (dRest d') \<le> length r"
  by (auto simp: tokenAt_def split: if_splits option.splits
      dest!: lexString_length lexScalar_length)

lemma decToken_consumes: "decToken d = TokOk t d' \<Longrightarrow> length (dRest d') < length (dRest d)"
proof (induction d rule: decToken.induct)
  case (1 d)
  show ?case
  proof (cases "skipWs (dRest d)")
    case Nil
    with "1.prems" show ?thesis by (simp add: decToken.simps)
  next
    case (Cons c r)
    have lt: "length r < length (dRest d)" using Cons by (rule skipWs_Cons_length)
    show ?thesis
      using "1.prems" "1.IH" Cons lt
      by (auto simp: decToken.simps [of d] split: if_splits dest: tokenAt_consumes)
  qed
qed

lemma parse_consumes:
  "parseValue n d path k = Some (Inr d') \<Longrightarrow> length (dRest d') < length (dRest d)"
  "parseObjectLoop n d seen path k = Some (Inr d') \<Longrightarrow> length (dRest d') < length (dRest d)"
  "parseArrayLoop n d idx path k = Some (Inr d') \<Longrightarrow> length (dRest d') < length (dRest d)"
proof (induction n d path k and n d seen path k and n d idx path k arbitrary: d' and d' and d'
    rule: parseValue_parseObjectLoop_parseArrayLoop.induct)
  case (2 n d path k)
  then show ?case
    by (fastforce split: if_splits tokRes.splits token.splits json.splits dest: decToken_consumes)
next
  case (4 n d seen path k)
  then show ?case
    by (fastforce simp: Let_def split: if_splits tokRes.splits token.splits json.splits option.splits sum.splits
        dest: decToken_consumes)
next
  case (6 n d idx path k)
  then show ?case
    by (fastforce split: if_splits tokRes.splits token.splits json.splits option.splits sum.splits
        dest: decToken_consumes)
qed simp_all


lemma parse_fuel:
  "2 * length (dRest d) + 1 \<le> n \<Longrightarrow> parseValue n d path k \<noteq> None"
  "2 * length (dRest d) + 2 \<le> n \<Longrightarrow> parseObjectLoop n d seen path k \<noteq> None"
  "2 * length (dRest d) + 2 \<le> n \<Longrightarrow> parseArrayLoop n d idx path k \<noteq> None"
proof (induction n d path k and n d seen path k and n d idx path k
    rule: parseValue_parseObjectLoop_parseArrayLoop.induct)
  case (2 n d path k)
  then show ?case
    by (fastforce split: tokRes.splits token.splits json.splits dest: decToken_consumes)
next
  case (4 n d seen path k)
  show ?case
  proof (cases "decToken d")
    case (TokOk t d1)
    have lt: "length (dRest d1) < length (dRest d)" using TokOk by (rule decToken_consumes)
    have "parseValue n d1 (path @ ''/'' @ escapePointer name) (Suc k) \<noteq> None"
      if "decMore d" "t = TScalar (JStr name)" "name \<notin> seen" for name
      using "4.IH"(1) [of "TScalar (JStr name)" d1] "4.prems" that TokOk lt by auto
    moreover have "parseObjectLoop n d2 (insert name seen) path k \<noteq> None"
      if "decMore d" "t = TScalar (JStr name)" "name \<notin> seen"
        "parseValue n d1 (path @ ''/'' @ escapePointer name) (Suc k) = Some (Inr d2)" for name d2
      using "4.IH"(2) [of "TScalar (JStr name)" d1] "4.prems" that TokOk lt
        parse_consumes(1) [OF that(4)] by auto
    ultimately show ?thesis using TokOk
      by (auto simp: Let_def split: token.splits json.splits option.splits sum.splits)
  qed simp_all
next
  case (6 n d idx path k)
  show ?case
  proof (cases "decMore d")
    case True
    have "parseValue n d (path @ ''/'' @ natDec idx) (Suc k) \<noteq> None"
      using "6.IH"(1) True "6.prems" by simp
    moreover have "parseArrayLoop n d2 (Suc idx) path k \<noteq> None"
      if "parseValue n d (path @ ''/'' @ natDec idx) (Suc k) = Some (Inr d2)" for d2
      using "6.IH"(2) True that "6.prems" parse_consumes(1) [OF that] by simp
    ultimately show ?thesis using True by (auto split: option.splits sum.splits)
  qed (simp split: tokRes.splits token.splits)
qed simp_all

section \<open>What the validator accepts\<close>

text \<open>
  The reference predicate: depth at most 512, member names distinct at every level, no number
  literal that denotes negative zero.
\<close>

fun strictTree :: "nat \<Rightarrow> json \<Rightarrow> bool" where
  "strictTree k (JNum s) = (k \<le> 512 \<and> \<not> isNegativeZero s)"
| "strictTree k (JArr vs) = (k \<le> 512 \<and> (\<forall>v\<in>set vs. strictTree (Suc k) v))"
| "strictTree k (JObj ms) =
     (k \<le> 512 \<and> distinct (map fst ms) \<and> (\<forall>m\<in>set ms. strictTree (Suc k) (snd m)))"
| "strictTree k _ = (k \<le> 512)"

lemma lexScalar_cases:
  "lexScalar s = Some (v, r) \<Longrightarrow>
     (\<exists>x. v = JStr x) \<or> (\<exists>b. v = JBool b) \<or> v = JNull \<or> (\<exists>x. v = JNum x)"
  by (auto simp: lexScalar_def split: list.splits if_splits)

definition isSeparator :: "char \<Rightarrow> bool" where
  "isSeparator c = (c = CHR ''['' \<or> c = CHR '']'' \<or> c = CHR ''{'' \<or> c = CHR ''}'' \<or> c = CHR '':'' \<or> c = CHR '','')"

lemma lexScalar_separator: "isSeparator c \<Longrightarrow> lexScalar (c # r) = None"
  unfolding isSeparator_def
  by (elim disjE; simp add: lexScalar_def hasPrefix_def lexNumber_def lexIntPart_def isDecDigit_def)

lemma tokenAt_plain:
  "\<not> isSeparator c \<Longrightarrow> valueAllowed (dState d) \<Longrightarrow> dState d \<noteq> ObjectStart \<Longrightarrow> dState d \<noteq> ObjectKey \<Longrightarrow>
    tokenAt d c r = (case lexScalar (c # r) of
        None \<Rightarrow> TokErr
      | Some (v, r') \<Rightarrow> TokOk (TScalar v) (d\<lparr>dRest := r', dState := valueEnd (dState d)\<rparr>))"
  by (simp add: tokenAt_def isSeparator_def)

lemma valueAllowed_states:
  "valueAllowed st \<Longrightarrow> st \<noteq> ObjectStart \<and> st \<noteq> ObjectKey \<and> st \<noteq> ObjectColon \<and> st \<noteq> ArrayComma \<and> st \<noteq> ObjectComma"
  by (auto simp: valueAllowed_def)

lemma decToken_open:
  assumes "valueAllowed (dState d)"
  shows "skipWs (dRest d) = CHR ''{'' # r \<Longrightarrow> decToken d = TokOk (TDelim CHR ''{'') (pushDec d r ObjectStart)"
    and "skipWs (dRest d) = CHR ''['' # r \<Longrightarrow> decToken d = TokOk (TDelim CHR ''['') (pushDec d r ArrayStart)"
  using assms by (simp_all add: decToken.simps [of d] tokenAt_def)

lemma decToken_scalar:
  assumes "valueAllowed (dState d)" "skipWs (dRest d) = c # r" "\<not> isSeparator c"
  shows "decToken d = (case lexScalar (c # r) of
        None \<Rightarrow> TokErr
      | Some (v, r') \<Rightarrow> TokOk (TScalar v) (d\<lparr>dRest := r', dState := valueEnd (dState d)\<rparr>))"
  using assms valueAllowed_states [OF assms(1)]
  by (simp add: decToken.simps [of d] tokenAt_plain) (auto simp: isSeparator_def)

lemma decToken_close:
  assumes "valueAllowed (dState d)" "skipWs (dRest d) = c # r"
    "isSeparator c" "c \<noteq> CHR ''{''" "c \<noteq> CHR ''[''"
  shows "decToken d = TokErr \<or> (\<exists>d'. decToken d = TokOk (TDelim CHR '']'') d')"
  using assms valueAllowed_states [OF assms(1)]
  by (auto simp: decToken.simps [of d] tokenAt_def isSeparator_def)

lemma parseValue_value:
  assumes "valueAllowed (dState d)"
  shows "parseValue (Suc n) d path k = Some (Inr d') \<longleftrightarrow> k \<le> 512 \<and>
    (case skipWs (dRest d) of
       [] \<Rightarrow> False
     | c # r \<Rightarrow>
         if c = CHR ''{'' then parseObjectLoop n (pushDec d r ObjectStart) {} path k = Some (Inr d')
         else if c = CHR ''['' then parseArrayLoop n (pushDec d r ArrayStart) 0 path k = Some (Inr d')
         else (\<exists>v r'. lexScalar (c # r) = Some (v, r') \<and> strictTree k v \<and>
                 d' = d\<lparr>dRest := r', dState := valueEnd (dState d)\<rparr>))"
proof (cases "skipWs (dRest d)")
  case Nil
  then show ?thesis by (simp add: decToken.simps)
next
  case (Cons c r)
  consider "c = CHR ''{''" | "c = CHR ''[''" | "isSeparator c" "c \<noteq> CHR ''{''" "c \<noteq> CHR ''[''"
    | "\<not> isSeparator c" by blast
  then show ?thesis
  proof cases
    case 1
    then show ?thesis using Cons decToken_open(1) [OF assms] by simp
  next
    case 2
    then show ?thesis using Cons decToken_open(2) [OF assms] by simp
  next
    case 3
    then show ?thesis
      using Cons decToken_close [OF assms Cons 3] lexScalar_separator [OF 3(1)] by auto
  next
    case 4
    then have "c \<noteq> CHR ''{''" "c \<noteq> CHR ''[''" by (simp_all add: isSeparator_def)
    moreover have "parseValue (Suc n) d path k = Some (Inr d') \<longleftrightarrow> k \<le> 512 \<and>
        (\<exists>v r'. lexScalar (c # r) = Some (v, r') \<and> strictTree k v \<and>
                 d' = d\<lparr>dRest := r', dState := valueEnd (dState d)\<rparr>)"
    proof (cases "lexScalar (c # r)")
      case None
      then show ?thesis using decToken_scalar [OF assms Cons 4] by simp
    next
      case (Some p)
      obtain v r' where p: "p = (v, r')" by (cases p)
      have "(\<exists>x. v = JStr x) \<or> (\<exists>b. v = JBool b) \<or> v = JNull \<or> (\<exists>x. v = JNum x)"
        using Some p by (intro lexScalar_cases) simp
      then show ?thesis using decToken_scalar [OF assms Cons 4] Some p
        by (auto split: if_splits)
    qed
    ultimately show ?thesis using Cons by simp
  qed
qed

lemma decToken_after_name:
  assumes "dState d = ObjectColon"
  shows "decToken d = (case skipWs (dRest d) of
      [] \<Rightarrow> TokEOF
    | c # r \<Rightarrow> if c = CHR '':'' then decToken (d\<lparr>dRest := r, dState := ObjectValue\<rparr>) else TokErr)"
  using assms by (auto simp: decToken.simps [of d] tokenAt_def valueAllowed_def split: list.splits)

lemma decToken_next_elem:
  assumes "dState d = ArrayComma" "skipWs (dRest d) = c # r" "c \<noteq> CHR '']''"
  shows "decToken d = (if c = CHR '','' then decToken (d\<lparr>dRest := r, dState := ArrayValue\<rparr>) else TokErr)"
  using assms by (auto simp: decToken.simps [of d] tokenAt_def valueAllowed_def)

lemma parseValue_token_cong:
  "decToken d = decToken e \<Longrightarrow> parseValue n d path k = parseValue n e path k"
  by (cases n) simp_all

lemma parseValue_TokErr: "decToken d = TokErr \<Longrightarrow> parseValue n d path k \<noteq> Some (Inr d')"
  "decToken d = TokEOF \<Longrightarrow> parseValue n d path k \<noteq> Some (Inr d')"
  by (cases n; simp)+


text \<open>The two loops, one round each, in the positions where the machine starts them.\<close>

lemma decMore_simps:
  "skipWs (dRest d) = [] \<Longrightarrow> \<not> decMore d"
  "skipWs (dRest d) = c # r \<Longrightarrow> decMore d \<longleftrightarrow> c \<noteq> CHR '']'' \<and> c \<noteq> CHR ''}''"
  by (simp_all add: decMore_def)

lemma valueAllowed_False [simp]:
  "\<not> valueAllowed ObjectStart" "\<not> valueAllowed ObjectKey" "\<not> valueAllowed ObjectColon"
  "\<not> valueAllowed ObjectComma" "\<not> valueAllowed ArrayComma"
  by (simp_all add: valueAllowed_def)

lemma valueAllowed_True [simp]:
  "valueAllowed TopValue" "valueAllowed ArrayStart" "valueAllowed ArrayValue" "valueAllowed ObjectValue"
  by (simp_all add: valueAllowed_def)

lemma tokenAt_key:
  assumes "dState d = ObjectStart \<or> dState d = ObjectKey"
  shows "tokenAt d c r =
     (if c = CHR ''}'' \<and> dState d = ObjectStart then TokOk (TDelim c) (popDec d r)
      else if c = CHR 0x22 then
        (case lexString r of
           None \<Rightarrow> TokErr
         | Some (x, r') \<Rightarrow> TokOk (TScalar (JStr x)) (d\<lparr>dRest := r', dState := ObjectColon\<rparr>))
      else TokErr)"
  using assms by (elim disjE; simp add: tokenAt_def)

lemma decToken_key:
  assumes "dState d = ObjectStart \<or> dState d = ObjectKey"
  shows "decToken d = (case skipWs (dRest d) of
      [] \<Rightarrow> TokEOF
    | c # r \<Rightarrow>
        if c = CHR ''}'' \<and> dState d = ObjectStart then TokOk (TDelim c) (popDec d r)
        else if c = CHR 0x22 then
          (case lexString r of
             None \<Rightarrow> TokErr
           | Some (x, r') \<Rightarrow> TokOk (TScalar (JStr x)) (d\<lparr>dRest := r', dState := ObjectColon\<rparr>))
        else TokErr)"
  using assms
  by (elim disjE; simp add: decToken.simps [of d] tokenAt_key split: list.split)

lemma parseValue_after_name:
  assumes "dState d = ObjectColon"
  shows "parseValue n d path k = Some (Inr d') \<longleftrightarrow>
    (\<exists>r. skipWs (dRest d) = CHR '':'' # r \<and>
         parseValue n (d\<lparr>dRest := r, dState := ObjectValue\<rparr>) path k = Some (Inr d'))"
proof (cases "\<exists>r. skipWs (dRest d) = CHR '':'' # r")
  case True
  then obtain r where r: "skipWs (dRest d) = CHR '':'' # r" by blast
  then have "parseValue n d path k = parseValue n (d\<lparr>dRest := r, dState := ObjectValue\<rparr>) path k"
    using decToken_after_name [OF assms] by (intro parseValue_token_cong) simp
  with r show ?thesis by simp
next
  case False
  then have "decToken d = TokErr \<or> decToken d = TokEOF"
    using decToken_after_name [OF assms] by (auto split: list.splits)
  with False show ?thesis by (auto simp: parseValue_TokErr)
qed


lemma decToken_objectComma:
  assumes "dState d = ObjectComma"
  shows "decToken d = (case skipWs (dRest d) of
      [] \<Rightarrow> TokEOF
    | c # r \<Rightarrow> if c = CHR '','' then decToken (d\<lparr>dRest := r, dState := ObjectKey\<rparr>)
               else if c = CHR ''}'' then TokOk (TDelim c) (popDec d r) else TokErr)"
  using assms by (simp add: decToken.simps [of d] tokenAt_def split: list.split)

lemma decToken_arrayClose:
  assumes "dState d = ArrayStart \<or> dState d = ArrayComma" "skipWs (dRest d) = c # r"
    "c = CHR '']'' \<or> c = CHR ''}''"
  shows "decToken d = (if c = CHR '']'' then TokOk (TDelim c) (popDec d r) else TokErr)"
  using assms by (elim disjE; simp add: decToken.simps [of d] tokenAt_def)

lemma popDec_stack: "dStack d = st # sts \<Longrightarrow> popDec d r = \<lparr>dRest = r, dState = valueEnd st, dStack = sts\<rparr>"
  by (simp add: popDec_def)

definition memberPos :: "bool \<Rightarrow> string \<Rightarrow> string option" where
  "memberPos fresh s = (case skipWs s of
      [] \<Rightarrow> None
    | c # r \<Rightarrow> (case (if fresh then c # r else if c = CHR '','' then skipWs r else []) of
        [] \<Rightarrow> None
      | q # r0 \<Rightarrow> if q = CHR 0x22 then Some r0 else None))"

lemma decToken_memberPos:
  assumes "dState d = (if fresh then ObjectStart else ObjectComma)" "decMore d"
  shows "memberPos fresh (dRest d) = Some r0 \<Longrightarrow> decToken d = (case lexString r0 of
         None \<Rightarrow> TokErr
       | Some (x, r1) \<Rightarrow> TokOk (TScalar (JStr x)) (d\<lparr>dRest := r1, dState := ObjectColon\<rparr>))"
    and "memberPos fresh (dRest d) = None \<Longrightarrow> decToken d \<noteq> TokOk t d1"
  using assms
  by (cases fresh; cases "skipWs (dRest d)";
      auto simp: memberPos_def decToken_key decToken_objectComma decMore_simps
        split: list.splits if_splits option.splits)+

lemma objectLoop_step:
  assumes "dState d = (if fresh then ObjectStart else ObjectComma)" "dStack d = st # sts"
  shows "parseObjectLoop (Suc n) d seen path k = Some (Inr d') \<longleftrightarrow>
    (\<exists>r. skipWs (dRest d) = CHR ''}'' # r \<and> d' = \<lparr>dRest = r, dState = valueEnd st, dStack = sts\<rparr>) \<or>
    (\<exists>r0 name r1 r2 d2. memberPos fresh (dRest d) = Some r0 \<and> lexString r0 = Some (name, r1) \<and>
       name \<notin> seen \<and> skipWs r1 = CHR '':'' # r2 \<and>
       parseValue n \<lparr>dRest = r2, dState = ObjectValue, dStack = st # sts\<rparr>
         (path @ ''/'' @ escapePointer name) (Suc k) = Some (Inr d2) \<and>
       parseObjectLoop n d2 (insert name seen) path k = Some (Inr d'))"
proof (cases "decMore d")
  case False
  then have np: "memberPos fresh (dRest d) = None"
    by (cases "skipWs (dRest d)") (auto simp: memberPos_def decMore_simps)
  show ?thesis
  proof (cases "skipWs (dRest d)")
    case Nil
    then show ?thesis using False np by (simp add: decToken.simps)
  next
    case (Cons c r)
    then show ?thesis using False np assms
      by (cases fresh) (auto simp: decToken_key decToken_objectComma decMore_simps popDec_stack)
  qed
next
  case True
  have nc: "skipWs (dRest d) \<noteq> CHR ''}'' # r" for r
    using True by (auto simp: decMore_def)
  show ?thesis
  proof (cases "memberPos fresh (dRest d)")
    case None
    then show ?thesis
      using True nc decToken_memberPos(2) [OF assms(1) True None]
      by (auto split: tokRes.splits)
  next
    case (Some r0)
    note tok = decToken_memberPos(1) [OF assms(1) True Some]
    show ?thesis
    proof (cases "lexString r0")
      case None
      then show ?thesis using True nc Some tok by simp
    next
      case lex: (Some p)
      obtain name r1 where p: "p = (name, r1)" by (cases p)
      define dC where "dC = \<lparr>dRest = r1, dState = ObjectColon, dStack = st # sts\<rparr>"
      define mp where "mp = path @ ''/'' @ escapePointer name"
      have "d\<lparr>dRest := r1, dState := ObjectColon\<rparr> = dC"
        using assms(2) unfolding dC_def by (cases d) simp
      with tok lex p have tokd: "decToken d = TokOk (TScalar (JStr name)) dC" by simp
      have "parseObjectLoop (Suc n) d seen path k = Some (Inr d') \<longleftrightarrow>
          name \<notin> seen \<and> (\<exists>d2. parseValue n dC mp (Suc k) = Some (Inr d2)
            \<and> parseObjectLoop n d2 (insert name seen) path k = Some (Inr d'))"
        using True tokd by (simp add: Let_def mp_def split: option.split sum.split)
      also have "\<dots> \<longleftrightarrow> name \<notin> seen \<and> (\<exists>r2 d2. skipWs r1 = CHR '':'' # r2 \<and>
            parseValue n \<lparr>dRest = r2, dState = ObjectValue, dStack = st # sts\<rparr> mp (Suc k) = Some (Inr d2)
            \<and> parseObjectLoop n d2 (insert name seen) path k = Some (Inr d'))"
        by (subst parseValue_after_name) (auto simp: dC_def)
      finally show ?thesis using nc Some lex p by (auto simp: mp_def)
    qed
  qed
qed

lemma parseValue_closing:
  assumes "valueAllowed (dState d)" "skipWs (dRest d) = CHR ''}'' # r"
  shows "parseValue n d path k \<noteq> Some (Inr d')"
proof (cases n)
  case (Suc m)
  then show ?thesis
    using assms lexScalar_separator [of "CHR ''}''" r]
    by (simp add: parseValue_value isSeparator_def del: parseValue.simps)
qed simp

lemma parseValue_next_elem:
  assumes "dState d = ArrayComma" "skipWs (dRest d) = c # r" "c \<noteq> CHR '']''"
  shows "parseValue n d path k = Some (Inr d') \<longleftrightarrow>
    c = CHR '','' \<and> parseValue n (d\<lparr>dRest := r, dState := ArrayValue\<rparr>) path k = Some (Inr d')"
proof (cases "c = CHR '',''")
  case True
  then have "parseValue n d path k = parseValue n (d\<lparr>dRest := r, dState := ArrayValue\<rparr>) path k"
    using decToken_next_elem [OF assms] by (intro parseValue_token_cong) simp
  with True show ?thesis by simp
next
  case False
  then show ?thesis using decToken_next_elem [OF assms] by (simp add: parseValue_TokErr)
qed

lemma arrayLoop_step:
  assumes "dState d = (if fresh then ArrayStart else ArrayComma)" "dStack d = st # sts"
  shows "parseArrayLoop (Suc n) d idx path k = Some (Inr d') \<longleftrightarrow>
    (\<exists>r. skipWs (dRest d) = CHR '']'' # r \<and> d' = \<lparr>dRest = r, dState = valueEnd st, dStack = sts\<rparr>) \<or>
    (\<exists>c r d2. skipWs (dRest d) = c # r \<and> c \<noteq> CHR '']'' \<and> (fresh \<or> c = CHR '','') \<and>
       parseValue n \<lparr>dRest = (if fresh then dRest d else r),
           dState = (if fresh then ArrayStart else ArrayValue), dStack = st # sts\<rparr>
         (path @ ''/'' @ natDec idx) (Suc k) = Some (Inr d2) \<and>
       parseArrayLoop n d2 (Suc idx) path k = Some (Inr d'))"
proof (cases "skipWs (dRest d)")
  case Nil
  then show ?thesis by (simp add: decMore_simps decToken.simps)
next
  case (Cons c r)
  define e where "e = \<lparr>dRest = (if fresh then dRest d else r),
           dState = (if fresh then ArrayStart else ArrayValue), dStack = st # sts\<rparr>"
  have states: "dState d = ArrayStart \<or> dState d = ArrayComma" using assms(1) by auto
  consider "c = CHR '']''" | "c = CHR ''}''" | "c \<noteq> CHR '']''" "c \<noteq> CHR ''}''" by blast
  then show ?thesis
  proof cases
    case 1
    then show ?thesis
      using Cons decToken_arrayClose [OF states Cons] assms(2)
      by (auto simp: decMore_simps popDec_stack)
  next
    case 2
    have "parseValue n e p (Suc k) \<noteq> Some (Inr d2)" if fresh for p d2
      using that Cons 2 by (intro parseValue_closing) (auto simp: e_def)
    then show ?thesis
      using Cons 2 decToken_arrayClose [OF states Cons] by (auto simp: decMore_simps e_def)
  next
    case 3
    have "parseValue n d p (Suc k) = Some (Inr d2) \<longleftrightarrow>
        (fresh \<or> c = CHR '','') \<and> parseValue n e p (Suc k) = Some (Inr d2)" for p d2
    proof (cases fresh)
      case True
      then have "e = d" using assms by (cases d) (simp add: e_def)
      with True show ?thesis by simp
    next
      case False
      then have "e = d\<lparr>dRest := r, dState := ArrayValue\<rparr>" using assms by (cases d) (simp add: e_def)
      with False show ?thesis using parseValue_next_elem [OF _ Cons 3(1)] assms(1) by simp
    qed
    moreover have "parseArrayLoop (Suc n) d idx path k = Some (Inr d') \<longleftrightarrow>
        (\<exists>d2. parseValue n d (path @ ''/'' @ natDec idx) (Suc k) = Some (Inr d2)
          \<and> parseArrayLoop n d2 (Suc idx) path k = Some (Inr d'))"
      using Cons 3 by (simp add: decMore_simps split: option.split sum.split)
    ultimately show ?thesis using Cons 3 by (auto simp: e_def)
  qed
qed

text \<open>
  The token-driven validator and the recursive reading of the grammar agree, with the same fuel,
  on every text: one succeeds exactly where the other reads a tree that \<open>strictTree\<close> accepts, and
  they stop at the same place.
\<close>

lemma memberPos_parseObj:
  "parseObj (Suc n) fresh s = Some (ms, r) \<longleftrightarrow>
     (skipWs s = CHR ''}'' # r \<and> ms = []) \<or>
     (\<exists>r0 name r1 r2 v r3 ms'. memberPos fresh s = Some r0 \<and> lexString r0 = Some (name, r1) \<and>
        skipWs r1 = CHR '':'' # r2 \<and> parseAny n r2 = Some (v, r3) \<and>
        parseObj n False r3 = Some (ms', r) \<and> ms = (name, v) # ms')"
proof (cases "skipWs s")
  case (Cons c t)
  then show ?thesis
    by (cases fresh)
       (auto simp: memberPos_def split: list.splits if_splits option.splits; blast)+
qed (simp add: memberPos_def)

lemma parseArr_cases:
  "parseArr (Suc n) fresh s = Some (vs, r) \<longleftrightarrow>
     (skipWs s = CHR '']'' # r \<and> vs = []) \<or>
     (\<exists>c t v r3 vs'. skipWs s = c # t \<and> c \<noteq> CHR '']'' \<and> (fresh \<or> c = CHR '','') \<and>
        parseAny n (if fresh then s else t) = Some (v, r3) \<and>
        parseArr n False r3 = Some (vs', r) \<and> vs = v # vs')"
  by (cases "skipWs s") (auto split: if_splits option.splits)

definition simV :: "nat \<Rightarrow> bool" where
  "simV n \<longleftrightarrow> (\<forall>d d' path k. valueAllowed (dState d) \<longrightarrow>
     (parseValue n d path k = Some (Inr d') \<longleftrightarrow>
      (\<exists>v r. parseAny n (dRest d) = Some (v, r) \<and> strictTree k v \<and>
        d' = d\<lparr>dRest := r, dState := valueEnd (dState d)\<rparr>)))"

definition simO :: "nat \<Rightarrow> bool" where
  "simO n \<longleftrightarrow> (\<forall>d d' fresh st sts seen path k.
     dState d = (if fresh then ObjectStart else ObjectComma) \<longrightarrow> dStack d = st # sts \<longrightarrow> k \<le> 512 \<longrightarrow>
     (parseObjectLoop n d seen path k = Some (Inr d') \<longleftrightarrow>
      (\<exists>ms r. parseObj n fresh (dRest d) = Some (ms, r) \<and> distinct (map fst ms) \<and>
        set (map fst ms) \<inter> seen = {} \<and> (\<forall>m\<in>set ms. strictTree (Suc k) (snd m)) \<and>
        d' = \<lparr>dRest = r, dState = valueEnd st, dStack = sts\<rparr>)))"

definition simA :: "nat \<Rightarrow> bool" where
  "simA n \<longleftrightarrow> (\<forall>d d' fresh st sts idx path k.
     dState d = (if fresh then ArrayStart else ArrayComma) \<longrightarrow> dStack d = st # sts \<longrightarrow> k \<le> 512 \<longrightarrow>
     (parseArrayLoop n d idx path k = Some (Inr d') \<longleftrightarrow>
      (\<exists>vs r. parseArr n fresh (dRest d) = Some (vs, r) \<and> (\<forall>v\<in>set vs. strictTree (Suc k) v) \<and>
        d' = \<lparr>dRest = r, dState = valueEnd st, dStack = sts\<rparr>)))"

lemma parseAny_open:
  "skipWs s = CHR ''{'' # t \<Longrightarrow>
     parseAny (Suc n) s = Some (v, r) \<longleftrightarrow> (\<exists>ms. parseObj n True t = Some (ms, r) \<and> v = JObj ms)"
  "skipWs s = CHR ''['' # t \<Longrightarrow>
     parseAny (Suc n) s = Some (v, r) \<longleftrightarrow> (\<exists>vs. parseArr n True t = Some (vs, r) \<and> v = JArr vs)"
  by (auto split: option.splits)

lemma simV_Suc:
  assumes O: "simO n" and A: "simA n"
  shows "simV (Suc n)"
  unfolding simV_def
proof (intro allI impI)
  fix d d' :: decoder and path k
  assume va: "valueAllowed (dState d)"
  show "parseValue (Suc n) d path k = Some (Inr d') \<longleftrightarrow>
      (\<exists>v r. parseAny (Suc n) (dRest d) = Some (v, r) \<and> strictTree k v \<and>
        d' = d\<lparr>dRest := r, dState := valueEnd (dState d)\<rparr>)"
  proof (cases "k \<le> 512")
    case False
    have "\<not> strictTree k v" for v using False by (cases v) auto
    then show ?thesis using False by (simp add: parseValue_value [OF va] del: parseValue.simps)
  next
    case True
    have eqd: "d\<lparr>dRest := r, dState := valueEnd (dState d)\<rparr>
        = \<lparr>dRest = r, dState = valueEnd (dState d), dStack = dStack d\<rparr>" for r
      by (cases d) simp
    have obj: "parseObjectLoop n (pushDec d t ObjectStart) {} path k = Some (Inr d') \<longleftrightarrow>
       (\<exists>ms r. parseObj n True t = Some (ms, r) \<and> strictTree k (JObj ms) \<and>
          d' = d\<lparr>dRest := r, dState := valueEnd (dState d)\<rparr>)" for t
      using O [unfolded simO_def, rule_format, of "pushDec d t ObjectStart" True "dState d" "dStack d" k]
        True by (simp add: pushDec_def eqd)
    have arr: "parseArrayLoop n (pushDec d t ArrayStart) 0 path k = Some (Inr d') \<longleftrightarrow>
       (\<exists>vs r. parseArr n True t = Some (vs, r) \<and> strictTree k (JArr vs) \<and>
          d' = d\<lparr>dRest := r, dState := valueEnd (dState d)\<rparr>)" for t
      using A [unfolded simA_def, rule_format, of "pushDec d t ArrayStart" True "dState d" "dStack d" k]
        True by (simp add: pushDec_def eqd)
    show ?thesis
    proof (cases "skipWs (dRest d)")
      case Nil
      then show ?thesis by (simp add: parseValue_value [OF va] del: parseValue.simps)
    next
      case (Cons c t)
      consider "c = CHR ''{''" | "c = CHR ''[''" | "c \<noteq> CHR ''{''" "c \<noteq> CHR ''[''" by blast
      then show ?thesis
      proof cases
        case 1
        have "parseValue (Suc n) d path k = Some (Inr d') \<longleftrightarrow>
            parseObjectLoop n (pushDec d t ObjectStart) {} path k = Some (Inr d')"
          using 1 Cons True by (simp add: parseValue_value [OF va] del: parseValue.simps)
        then show ?thesis unfolding parseAny_open(1) [OF Cons [unfolded 1]] obj by blast
      next
        case 2
        have "parseValue (Suc n) d path k = Some (Inr d') \<longleftrightarrow>
            parseArrayLoop n (pushDec d t ArrayStart) 0 path k = Some (Inr d')"
          using 2 Cons True by (simp add: parseValue_value [OF va] del: parseValue.simps)
        then show ?thesis unfolding parseAny_open(2) [OF Cons [unfolded 2]] arr by blast
      next
        case 3
        then show ?thesis
          using Cons True by (simp add: parseValue_value [OF va] del: parseValue.simps)
      qed
    qed
  qed
qed


lemma simO_Suc:
  assumes V: "simV n" and O: "simO n"
  shows "simO (Suc n)"
  unfolding simO_def
proof (intro allI impI)
  fix d d' :: decoder and fresh st sts seen path k
  assume d: "dState d = (if fresh then ObjectStart else ObjectComma)" "dStack d = st # sts"
    and k: "k \<le> (512 :: nat)"
  define after where "after r3 = \<lparr>dRest = r3, dState = ObjectComma, dStack = st # sts\<rparr>" for r3
  have val: "parseValue n \<lparr>dRest = r2, dState = ObjectValue, dStack = st # sts\<rparr> p (Suc k) = Some (Inr d2) \<longleftrightarrow>
      (\<exists>v r3. parseAny n r2 = Some (v, r3) \<and> strictTree (Suc k) v \<and> d2 = after r3)" for r2 p d2
    using V [unfolded simV_def, rule_format, of "\<lparr>dRest = r2, dState = ObjectValue, dStack = st # sts\<rparr>"]
    by (simp add: after_def valueEnd_def)
  have loop: "parseObjectLoop n (after r3) seen' path k = Some (Inr d') \<longleftrightarrow>
      (\<exists>ms r. parseObj n False r3 = Some (ms, r) \<and> distinct (map fst ms) \<and>
        set (map fst ms) \<inter> seen' = {} \<and> (\<forall>m\<in>set ms. strictTree (Suc k) (snd m)) \<and>
        d' = \<lparr>dRest = r, dState = valueEnd st, dStack = sts\<rparr>)" for r3 seen'
    using O [unfolded simO_def, rule_format, of "after r3" False st sts k seen' path d'] k
    by (simp add: after_def)
  show "parseObjectLoop (Suc n) d seen path k = Some (Inr d') \<longleftrightarrow>
      (\<exists>ms r. parseObj (Suc n) fresh (dRest d) = Some (ms, r) \<and> distinct (map fst ms) \<and>
        set (map fst ms) \<inter> seen = {} \<and> (\<forall>m\<in>set ms. strictTree (Suc k) (snd m)) \<and>
        d' = \<lparr>dRest = r, dState = valueEnd st, dStack = sts\<rparr>)" (is "?L \<longleftrightarrow> ?R")
  proof
    assume ?L
    then show ?R
      unfolding objectLoop_step [OF d] val memberPos_parseObj
    proof (elim disjE exE conjE, goal_cases)
      case (1 r)
      then show ?case by (intro exI [of _ "[]"] exI [of _ r]) simp
    next
      case (2 r0 name r1 r2 d2 v r3)
      from 2 have "parseObjectLoop n (after r3) (insert name seen) path k = Some (Inr d')" by simp
      then obtain ms r where ms: "parseObj n False r3 = Some (ms, r)" "distinct (map fst ms)"
        "set (map fst ms) \<inter> insert name seen = {}" "\<forall>m\<in>set ms. strictTree (Suc k) (snd m)"
        "d' = \<lparr>dRest = r, dState = valueEnd st, dStack = sts\<rparr>"
        unfolding loop by blast
      show ?case
        by (intro exI [of _ "(name, v) # ms"] exI [of _ r]) (use 2 ms in auto)
    qed
  next
    assume ?R
    then obtain ms r where ms: "parseObj (Suc n) fresh (dRest d) = Some (ms, r)" "distinct (map fst ms)"
      "set (map fst ms) \<inter> seen = {}" "\<forall>m\<in>set ms. strictTree (Suc k) (snd m)"
      "d' = \<lparr>dRest = r, dState = valueEnd st, dStack = sts\<rparr>" by blast
    from ms(1) show ?L
      unfolding objectLoop_step [OF d] val memberPos_parseObj
    proof (elim disjE exE conjE, goal_cases)
      case 1
      then show ?case using ms(5) by simp
    next
      case (2 r0 name r1 r2 v r3 ms')
      have "parseObjectLoop n (after r3) (insert name seen) path k = Some (Inr d')"
        unfolding loop by (intro exI [of _ ms'] exI [of _ r]) (use 2 ms in auto)
      moreover have "name \<notin> seen" "strictTree (Suc k) v" using 2 ms by auto
      ultimately show ?case using 2 by blast
    qed
  qed
qed

lemma simA_Suc:
  assumes V: "simV n" and A: "simA n"
  shows "simA (Suc n)"
  unfolding simA_def
proof (intro allI impI)
  fix d d' :: decoder and fresh st sts idx path k
  assume d: "dState d = (if fresh then ArrayStart else ArrayComma)" "dStack d = st # sts"
    and k: "k \<le> (512 :: nat)"
  define after where "after r3 = \<lparr>dRest = r3, dState = ArrayComma, dStack = st # sts\<rparr>" for r3
  have val: "parseValue n \<lparr>dRest = s, dState = (if fresh then ArrayStart else ArrayValue), dStack = st # sts\<rparr>
        p (Suc k) = Some (Inr d2) \<longleftrightarrow>
      (\<exists>v r3. parseAny n s = Some (v, r3) \<and> strictTree (Suc k) v \<and> d2 = after r3)" for s p d2
    using V [unfolded simV_def, rule_format,
        of "\<lparr>dRest = s, dState = (if fresh then ArrayStart else ArrayValue), dStack = st # sts\<rparr>"]
    by (cases fresh) (simp_all add: after_def valueEnd_def)
  have loop: "parseArrayLoop n (after r3) i path k = Some (Inr d') \<longleftrightarrow>
      (\<exists>vs r. parseArr n False r3 = Some (vs, r) \<and> (\<forall>v\<in>set vs. strictTree (Suc k) v) \<and>
        d' = \<lparr>dRest = r, dState = valueEnd st, dStack = sts\<rparr>)" for r3 i
    using A [unfolded simA_def, rule_format, of "after r3" False st sts k i path d'] k
    by (simp add: after_def)
  have "parseArrayLoop (Suc n) d idx path k = Some (Inr d') \<longleftrightarrow>
     (\<exists>r. skipWs (dRest d) = CHR '']'' # r \<and> d' = \<lparr>dRest = r, dState = valueEnd st, dStack = sts\<rparr>) \<or>
     (\<exists>c t v r3 vs r. skipWs (dRest d) = c # t \<and> c \<noteq> CHR '']'' \<and> (fresh \<or> c = CHR '','') \<and>
        parseAny n (if fresh then dRest d else t) = Some (v, r3) \<and> strictTree (Suc k) v \<and>
        parseArr n False r3 = Some (vs, r) \<and> (\<forall>v\<in>set vs. strictTree (Suc k) v) \<and>
        d' = \<lparr>dRest = r, dState = valueEnd st, dStack = sts\<rparr>)"
    unfolding arrayLoop_step [OF d] val
  proof (rule disj_cong [OF refl], rule iffI, goal_cases)
    case 1
    then show ?case by (elim exE conjE) (hypsubst, unfold loop, blast)
  next
    case 2
    then obtain c t v r3 vs r where x: "skipWs (dRest d) = c # t" "c \<noteq> CHR '']''" "fresh \<or> c = CHR '',''"
      "parseAny n (if fresh then dRest d else t) = Some (v, r3)" "strictTree (Suc k) v"
      and "parseArr n False r3 = Some (vs, r) \<and> (\<forall>v\<in>set vs. strictTree (Suc k) v) \<and>
        d' = \<lparr>dRest = r, dState = valueEnd st, dStack = sts\<rparr>" by (elim exE conjE) blast
    then have "parseArrayLoop n (after r3) (Suc idx) path k = Some (Inr d')"
      unfolding loop by blast
    with x show ?case by blast
  qed
  also have "\<dots> \<longleftrightarrow>
      (\<exists>vs r. parseArr (Suc n) fresh (dRest d) = Some (vs, r) \<and> (\<forall>v\<in>set vs. strictTree (Suc k) v) \<and>
        d' = \<lparr>dRest = r, dState = valueEnd st, dStack = sts\<rparr>)"
    unfolding parseArr_cases
  proof (rule iffI, goal_cases)
    case 1
    then show ?case
    proof (rule disjE, goal_cases)
      case 1
      then obtain r where "skipWs (dRest d) = CHR '']'' # r" "d' = \<lparr>dRest = r, dState = valueEnd st, dStack = sts\<rparr>"
        by (elim exE conjE) (rule that)
      then show ?case by (intro exI [of _ "[]"] exI [of _ r]) simp
    next
      case 2
      then obtain c t v r3 vs r where x: "skipWs (dRest d) = c # t" "c \<noteq> CHR '']''" "fresh \<or> c = CHR '',''"
        "parseAny n (if fresh then dRest d else t) = Some (v, r3)" "strictTree (Suc k) v"
        "parseArr n False r3 = Some (vs, r)" "\<forall>v\<in>set vs. strictTree (Suc k) v"
        "d' = \<lparr>dRest = r, dState = valueEnd st, dStack = sts\<rparr>" by (elim exE conjE) (rule that)
      then have "\<forall>w\<in>set (v # vs). strictTree (Suc k) w" by simp
      with x show ?case by blast
    qed
  next
    case 2
    then obtain vs r where A: "\<forall>v\<in>set vs. strictTree (Suc k) v"
      "d' = \<lparr>dRest = r, dState = valueEnd st, dStack = sts\<rparr>" and
      B: "skipWs (dRest d) = CHR '']'' # r \<and> vs = [] \<or>
       (\<exists>c t v r3 vs'. skipWs (dRest d) = c # t \<and> c \<noteq> CHR '']'' \<and> (fresh \<or> c = CHR '','') \<and>
        parseAny n (if fresh then dRest d else t) = Some (v, r3) \<and>
        parseArr n False r3 = Some (vs', r) \<and> vs = v # vs')" by (elim exE conjE) (rule that)
    from B show ?case
    proof (rule disjE, goal_cases)
      case 1
      with A show ?case by blast
    next
      case 2
      then obtain c t v r3 vs' where x: "skipWs (dRest d) = c # t" "c \<noteq> CHR '']''" "fresh \<or> c = CHR '',''"
        "parseAny n (if fresh then dRest d else t) = Some (v, r3)"
        "parseArr n False r3 = Some (vs', r)" "vs = v # vs'" by (elim exE conjE) (rule that)
      with A have "strictTree (Suc k) v" "\<forall>v\<in>set vs'. strictTree (Suc k) v" by simp_all
      with x A(2) show ?case by blast
    qed
  qed
  finally show "parseArrayLoop (Suc n) d idx path k = Some (Inr d') \<longleftrightarrow>
      (\<exists>vs r. parseArr (Suc n) fresh (dRest d) = Some (vs, r) \<and> (\<forall>v\<in>set vs. strictTree (Suc k) v) \<and>
        d' = \<lparr>dRest = r, dState = valueEnd st, dStack = sts\<rparr>)" .
qed

lemma parse_sim: "simV n \<and> simO n \<and> simA n"
proof (induction n)
  case 0
  then show ?case by (simp add: simV_def simO_def simA_def)
next
  case (Suc n)
  then show ?case by (blast intro: simV_Suc simO_Suc simA_Suc)
qed

text \<open>\<open>Validate\<close> accepts exactly the strict texts, and \<open>Decode\<close> cannot fail behind it.\<close>

definition strictText :: "string \<Rightarrow> json \<Rightarrow> bool" where
  "strictText raw v \<longleftrightarrow> utf8Valid raw \<and> jsonUnmarshal raw = Some v \<and> strictTree 0 v"

lemma strictValidate_iff: "strictValidate raw = Inr () \<longleftrightarrow> (\<exists>v. strictText raw v)"
proof -
  obtain res where res: "parseValue (jsonFuel raw) (newDecoder raw) ''$'' 0 = Some res"
    using parse_fuel(1) [of "newDecoder raw" "jsonFuel raw"] by (auto simp: newDecoder_def jsonFuel_def simp del: parseValue.simps)
  have eof: "decToken d = TokEOF \<longleftrightarrow> skipWs (dRest d) = []" if "dState d = TopValue" for d
    using that by (auto simp: decToken.simps [of d] tokenAt_def split: list.splits option.splits if_splits)
  have ok: "parseValue (jsonFuel raw) (newDecoder raw) ''$'' 0 = Some (Inr d) \<longleftrightarrow>
      (\<exists>v r. parseAny (jsonFuel raw) raw = Some (v, r) \<and> strictTree 0 v \<and>
             d = \<lparr>dRest = r, dState = TopValue, dStack = []\<rparr>)" for d
    using conjunct1 [OF parse_sim, unfolded simV_def, rule_format, of "newDecoder raw"]
    by (simp add: newDecoder_def valueEnd_def del: parseValue.simps)
  have "strictValidate raw = Inr () \<longleftrightarrow> utf8Valid raw \<and> (\<exists>d. res = Inr d \<and> decToken d = TokEOF)"
    using res by (auto simp: strictValidate_def split: sum.splits tokRes.splits)
  also have "\<dots> \<longleftrightarrow> utf8Valid raw \<and> (\<exists>v r. parseAny (jsonFuel raw) raw = Some (v, r) \<and> strictTree 0 v \<and> skipWs r = [])"
    using ok res by (auto simp: eof)
  finally show ?thesis by (auto simp: strictText_def jsonUnmarshal_def split: option.splits)
qed

lemma strictDecode_ok: "strictText raw v \<Longrightarrow> strictDecode raw = Inr v"
  using strictValidate_iff [of raw]
  by (auto simp: strictDecode_def strictText_def jsonUnmarshal_def jsonDecode_def split: option.splits if_splits)

lemma strictDecode_iff: "strictDecode raw = Inr v \<longleftrightarrow> strictText raw v"
proof
  assume dec: "strictDecode raw = Inr v"
  then have "strictValidate raw = Inr ()" by (auto simp: strictDecode_def res_simps)
  then obtain w where "strictText raw w" by (auto simp: strictValidate_iff)
  with dec strictDecode_ok show "strictText raw v" by fastforce
qed (rule strictDecode_ok)

lemma strictDecode_Inl: "strictDecode raw = Inl e \<longleftrightarrow> strictValidate raw = Inl e"
proof (cases "strictValidate raw")
  case (Inr u)
  then obtain v where "strictText raw v" using strictValidate_iff [of raw] by auto
  with Inr show ?thesis by (simp add: strictDecode_ok)
qed (simp add: strictDecode_def)

section \<open>Negative zero and pointers\<close>

lemma spanDigits_rest: "spanDigits s = (ds, []) \<Longrightarrow> ds = s \<and> list_all isDecDigit s"
  by (auto simp: spanDigits_def list_all_iff dropWhile_eq_Nil_conv takeWhile_eq_all_conv)

definition mantissa :: "string \<Rightarrow> string" where
  "mantissa s = takeWhile (\<lambda>c. c \<notin> set ''eE'') s"

lemma mantissa_digits: "list_all isDecDigit ds \<Longrightarrow> mantissa (ds @ s) = ds @ mantissa s"
  by (induction ds) (auto simp: mantissa_def isDecDigit_def char_le_iff)

lemma lexExp_mantissa: "lexExp s = Some (ep, r) \<Longrightarrow> mantissa ep = []"
  by (auto simp: lexExp_def mantissa_def split: list.splits if_splits prod.splits)

lemma lexFrac_shape:
  assumes "lexFrac s = Some (fp, r)"
  shows "fp = [] \<or> (\<exists>ds. fp = CHR ''.'' # ds \<and> ds \<noteq> [] \<and> list_all isDecDigit ds)"
  using assms by (auto simp: lexFrac_def spanDigits_def list_all_iff dest: set_takeWhileD split: list.splits if_splits)

lemma lexIntPart_shape:
  assumes "lexIntPart s = Some (ip, r)"
  shows "ip = ''0'' \<or> (\<exists>c ds. ip = c # ds \<and> c \<noteq> CHR ''0'' \<and> list_all isDecDigit ip)"
  using assms by (auto simp: lexIntPart_def spanDigits_def list_all_iff dest: set_takeWhileD split: list.splits if_splits)

lemma isNegativeZero_parts:
  assumes ip: "lexIntPart s0 = Some (ip, s1)" and fp: "lexFrac s1 = Some (fp, s2)"
    and ep: "lexExp s2 = Some (ep, s3)"
  shows "isNegativeZero (CHR ''-'' # ip @ fp @ ep) \<longleftrightarrow> set (ip @ fp) \<subseteq> {CHR ''0'', CHR ''.''}"
proof -
  have m: "takeWhile (\<lambda>c. c \<notin> set ''eE'') (ip @ fp @ ep) = ip @ fp"
  proof -
    have "list_all isDecDigit ip" using lexIntPart_shape [OF ip] by (auto simp: isDecDigit_def char_le_iff)
    moreover have "mantissa (fp @ ep) = fp"
      using lexFrac_shape [OF fp] lexExp_mantissa [OF ep] mantissa_digits [of "tl fp" ep]
      by (auto simp: mantissa_def)
    ultimately show ?thesis using mantissa_digits [of ip "fp @ ep"] by (simp add: mantissa_def)
  qed
  have nz: "isNegativeZero (CHR ''-'' # ip @ fp @ ep) \<longleftrightarrow>
      (if hasPrefix (ip @ fp) ''0.'' then drop 2 (ip @ fp) \<noteq> [] \<and> list_all (\<lambda>r. r = CHR ''0'') (drop 2 (ip @ fp))
       else ip @ fp = ''0'')"
  proof -
    have "hasPrefix (CHR ''-'' # ip @ fp @ ep) ''-''" "drop 1 (CHR ''-'' # ip @ fp @ ep) = ip @ fp @ ep"
      by (simp_all add: hasPrefix_def)
    then show ?thesis unfolding isNegativeZero_def Let_def by (simp only: m simp_thms if_True if_False) simp
  qed
  from lexFrac_shape [OF fp] show ?thesis
  proof
    assume "fp = []"
    with lexIntPart_shape [OF ip] show ?thesis unfolding nz
      by (elim disjE exE conjE) (auto simp: hasPrefix_def isDecDigit_def char_le_iff)
  next
    assume "\<exists>ds. fp = CHR ''.'' # ds \<and> ds \<noteq> [] \<and> list_all isDecDigit ds"
    then obtain ds where ds: "fp = CHR ''.'' # ds" "ds \<noteq> []" "list_all isDecDigit ds" by blast
    have "CHR ''.'' \<notin> set ds" using ds(3) by (auto simp: list_all_iff isDecDigit_def char_le_iff)
    then have "list_all (\<lambda>r. r = CHR ''0'') ds \<longleftrightarrow> set ds \<subseteq> {CHR ''0'', CHR ''.''}"
      by (auto simp: list_all_iff)
    with ds lexIntPart_shape [OF ip] show ?thesis unfolding nz
      by (elim disjE exE conjE) (auto simp: hasPrefix_def isDecDigit_def char_le_iff)
  qed
qed

lemma isNegativeZero_literal:
  assumes "lexNumber s = Some (s, [])"
  shows "isNegativeZero s \<longleftrightarrow> (\<exists>t. s = CHR ''-'' # t \<and> set (mantissa t) \<subseteq> {CHR ''0'', CHR ''.''})"
proof (cases "hasPrefix s ''-''")
  case False
  then show ?thesis by (auto simp: isNegativeZero_def hasPrefix_def)
next
  case True
  then obtain t where s: "s = CHR ''-'' # t" by (cases s) (auto simp: hasPrefix_def)
  with assms obtain ip s1 fp s2 ep where
    p: "lexIntPart t = Some (ip, s1)" "lexFrac s1 = Some (fp, s2)" "lexExp s2 = Some (ep, [])"
    "t = ip @ fp @ ep"
    by (auto simp: lexNumber_def hasPrefix_def split: option.splits prod.splits)
  have "mantissa t = ip @ fp"
    using lexIntPart_shape [OF p(1)] lexFrac_shape [OF p(2)] lexExp_mantissa [OF p(3)]
      mantissa_digits [of ip "fp @ ep"] mantissa_digits [of "tl fp" ep]
    by (auto simp: p(4) mantissa_def isDecDigit_def char_le_iff)
  then show ?thesis using isNegativeZero_parts [OF p(1-3)] s p(4) by simp
qed

text \<open>Undoing the escape, from left to right as RFC 6901 prescribes.\<close>

fun unescapePointer :: "string \<Rightarrow> string" where
  "unescapePointer [] = []"
| "unescapePointer (c # s) =
    (if c = CHR ''~'' then
       (case s of [] \<Rightarrow> [c]
        | d # t \<Rightarrow> (if d = CHR ''0'' then CHR ''~'' else if d = CHR ''1'' then CHR ''/'' else d) # unescapePointer t)
     else c # unescapePointer s)"

lemma escapePointer_Cons:
  "escapePointer (c # s) =
    (if c = CHR ''~'' then ''~0'' else if c = CHR ''/'' then ''~1'' else [c]) @ escapePointer s"
  by (simp add: escapePointer_def)

lemma escapePointer_Nil [simp]: "escapePointer [] = []"
  by (simp add: escapePointer_def)

lemma unescape_escape: "unescapePointer (escapePointer s) = s"
  by (induction s) (simp_all add: escapePointer_Cons)

lemma escapePointer_no_slash: "CHR ''/'' \<notin> set (escapePointer s)"
  by (induction s) (simp_all add: escapePointer_Cons)

section \<open>Properties\<close>

text \<open>C16: \<open>strictjson.Validate\<close> accepts a text exactly when it is valid UTF-8, is one JSON value with
  nothing but white space around it, and the value has no duplicate member names, no negative zero
  and no nesting beyond the limit.\<close>

theorem validate_accepts_exactly_strict:
  "strictValidate raw = Inr () \<longleftrightarrow>
     utf8Valid raw \<and> (\<exists>v. jsonUnmarshal raw = Some v \<and> strictTree 0 v)"
  unfolding strictValidate_iff strictText_def by blast

text \<open>\<open>strictjson.Decode\<close> returns exactly the value that the plain decoder reads from an accepted
  text; every error it returns is the validator's, so its own error branch is never taken.\<close>

lemma decode_returns_validated_value:
  "(strictDecode raw = Inr v \<longleftrightarrow> strictValidate raw = Inr () \<and> jsonUnmarshal raw = Some v) \<and>
   (strictDecode raw = Inl e \<longleftrightarrow> strictValidate raw = Inl e)"
proof -
  have "strictText raw v \<longleftrightarrow> strictValidate raw = Inr () \<and> jsonUnmarshal raw = Some v"
    by (auto simp: strictValidate_iff strictText_def)
  then show ?thesis by (simp only: strictDecode_iff strictDecode_Inl simp_thms)
qed

text \<open>On a JSON number literal, \<open>isNegativeZero\<close> says that it has a minus sign and that its
  mantissa consists of zeros: also \<open>-0.00\<close> and \<open>-0e5\<close>, and never \<open>-0.01\<close> or \<open>0\<close>.\<close>

lemma isNegativeZero_on_literals:
  "lexNumber s = Some (s, []) \<Longrightarrow>
     isNegativeZero s \<longleftrightarrow> (\<exists>t. s = CHR ''-'' # t \<and> set (mantissa t) \<subseteq> {CHR ''0'', CHR ''.''})"
  by (rule isNegativeZero_literal)

lemma isNegativeZero_on_literals_witness:
  "lexNumber ''-0.00e5'' = Some (''-0.00e5'', []) \<and> isNegativeZero ''-0.00e5'' \<and>
   (\<exists>t. ''-0.00e5'' = CHR ''-'' # t \<and> set (mantissa t) \<subseteq> {CHR ''0'', CHR ''.''})"
proof -
  have "lexNumber ''-0.00e5'' = Some (''-0.00e5'', [])" "isNegativeZero ''-0.00e5''" by code_simp+
  then show ?thesis using isNegativeZero_on_literals [of "''-0.00e5''"] by blast
qed

text \<open>Member names are escaped injectively: the escaped name contains no separator and
  RFC 6901 unescaping gives the name back, so two different member paths are never confused.\<close>

lemma escapePointer_roundtrip:
  "unescapePointer (escapePointer name) = name \<and> CHR ''/'' \<notin> set (escapePointer name)"
  by (simp add: unescape_escape escapePointer_no_slash)

end
