(* ===== verification/Json_Roundtrip.thy ===== *)
theory Json_Roundtrip
  imports Strict_Json
begin

text \<open>
  Printing and reading agree: what \<open>json.Marshal\<close> writes for a decoded value is read back as the
  same value, so the canonicalizer and the digest never see a text the strict validator rejects.
\<close>

section \<open>String literals\<close>

lemma hexVal_hexDigit: "n < 16 \<Longrightarrow> hexVal (hexDigit n) = n \<and> isHexChar (hexDigit n)"
  by (simp add: hexDigit_def hexVal_def isHexChar_def charclass_defs)

lemma cval_split: "cval c div 16 * 16 + cval c mod 16 = cval c" "cval c div 16 < 16" "cval c mod 16 < 16"
proof -
  have "cval c < 16 * 16" using cval_bound [of c] by simp
  then show "cval c div 16 < 16" by (simp add: less_mult_imp_div_less)
qed simp_all

lemma getU4_hexByte: "getU4 (CHR ''0'' # CHR ''0'' # hexByte c @ r) = Some (cval c, r)"
  using hexVal_hexDigit [OF cval_split(2) [of c]] hexVal_hexDigit [OF cval_split(3) [of c]] cval_split(1) [of c]
  by (simp add: hexByte_def Let_def)
     (simp add: isHexChar_def hexVal_def charclass_defs)

lemma lexString_escU00:
  assumes "cval c < 128"
  shows "lexString (escU00 c @ t) = map_option (\<lambda>(y, r'). (c # y, r')) (lexString t)"
proof -
  have "lexUnicode (CHR ''0'' # CHR ''0'' # hexByte c @ t) = Some ([c], t)"
    using assms by (simp add: lexUnicode_def getU4_hexByte utf8Encode_def)
  then have "lexEscape (CHR ''u'' # CHR ''0'' # CHR ''0'' # hexByte c @ t) = Some ([c], t)"
    by (simp add: lexEscape_def)
  then show ?thesis by (simp add: escU00_def)
qed

lemma lexString_escByte: "lexString (escByte c @ t) = map_option (\<lambda>(y, r'). (c # y, r')) (lexString t)"
proof -
  define special where "special = [CHR 0x22, CHR 0x5C, CHR 0x08, CHR 0x0C, CHR 0x0A, CHR 0x0D, CHR 0x09]"
  show ?thesis
  proof (cases "c \<in> set special")
    case True
    then show ?thesis by (auto simp: special_def escByte_def lexEscape_def simpleEscape_def)
  next
    case False
    then have ne: "c \<noteq> CHR 0x22" "c \<noteq> CHR 0x5C" by (simp_all add: special_def)
    show ?thesis
    proof (cases "cval c < 32 \<or> c = CHR ''<'' \<or> c = CHR ''>'' \<or> c = CHR ''&''")
      case True
      with False have "escByte c = escU00 c" by (simp add: special_def escByte_def)
      moreover have "cval c < 128" using True by auto
      ultimately show ?thesis by (simp add: lexString_escU00)
    next
      case nt: False
      with False have "escByte c = [c]" by (simp add: special_def escByte_def)
      with nt ne show ?thesis by simp
    qed
  qed
qed

lemma lexString_u2028:
  assumes "d = CHR ''8'' \<or> d = CHR ''9''"
  shows "lexString (CHR 0x5C # CHR ''u'' # CHR ''2'' # CHR ''0'' # CHR ''2'' # d # t) =
    map_option (\<lambda>(y, r'). ([CHR 0xE2, CHR 0x80, if d = CHR ''8'' then CHR 0xA8 else CHR 0xA9] @ y, r')) (lexString t)"
proof -
  have "lexEscape (CHR ''u'' # CHR ''2'' # CHR ''0'' # CHR ''2'' # d # t) =
      Some ([CHR 0xE2, CHR 0x80, if d = CHR ''8'' then CHR 0xA8 else CHR 0xA9], t)"
    using assms
    by (elim disjE) (simp_all add: lexEscape_def lexUnicode_def isHexChar_def hexVal_def charclass_defs utf8Encode_def char_of_def bit_0)
  then show ?thesis by simp
qed

lemma lexString_escString: "lexString (escString s @ CHR 0x22 # r) = Some (s, r)"
proof (induction s rule: escString.induct)
  case (2 c s)
  have tk: "take 2 s @ drop 2 s = s" by (rule append_take_drop_id)
  consider (a) "c = CHR 0xE2" "take 2 s = [CHR 0x80, CHR 0xA8]"
    | (b) "c = CHR 0xE2" "take 2 s = [CHR 0x80, CHR 0xA9]"
    | (n) "escString (c # s) = escByte c @ escString s"
      "\<not> (c = CHR 0xE2 \<and> take 2 s = [CHR 0x80, CHR 0xA8])" "\<not> (c = CHR 0xE2 \<and> take 2 s = [CHR 0x80, CHR 0xA9])"
    by (auto split: if_splits)
  then show ?case
  proof cases
    case a
    then show ?thesis using 2(1) tk by (simp add: lexString_u2028 del: lexString.simps) 
  next
    case b
    then show ?thesis using 2(2) tk by (simp add: lexString_u2028 del: lexString.simps)
  next
    case n
    then show ?thesis using 2(3) by (simp add: lexString_escByte del: lexString.simps escString.simps)
  qed
qed simp

section \<open>Number literals\<close>

text \<open>A text that cannot continue a number literal.\<close>

definition stops :: "string \<Rightarrow> bool" where
  "stops t \<longleftrightarrow> (case t of [] \<Rightarrow> True | c # _ \<Rightarrow> \<not> isDecDigit c \<and> c \<notin> set ''.eE+-'')"

lemma spanDigits_append: "spanDigits s = (ds, r) \<Longrightarrow> stops t \<Longrightarrow> spanDigits (s @ t) = (ds, r @ t)"
proof (induction s arbitrary: ds)
  case Nil
  then show ?case by (cases t) (auto simp: spanDigits_def stops_def)
next
  case (Cons c s)
  then show ?case by (auto simp: spanDigits_def)
qed

lemma lexIntPart_append: "lexIntPart s = Some (x, r) \<Longrightarrow> stops t \<Longrightarrow> lexIntPart (s @ t) = Some (x, r @ t)"
  using spanDigits_append [of s _ _ t]
  by (auto simp: lexIntPart_def split: list.splits if_splits)

lemma lexFrac_append: "lexFrac s = Some (x, r) \<Longrightarrow> stops t \<Longrightarrow> lexFrac (s @ t) = Some (x, r @ t)"
  using spanDigits_append [of "tl s" _ _ t]
  by (cases t) (auto simp: lexFrac_def stops_def split: list.splits if_splits prod.splits)

lemma lexExp_append: "lexExp s = Some (x, r) \<Longrightarrow> stops t \<Longrightarrow> lexExp (s @ t) = Some (x, r @ t)"
  using spanDigits_append [of "snd (lexSign (tl s))" _ _ t]
  by (cases t) (auto simp: lexExp_def lexSign_def stops_def spanDigits_def split: list.splits if_splits prod.splits)

lemma hasPrefix_single: "hasPrefix s [c] \<longleftrightarrow> (\<exists>t. s = c # t)"
  by (cases s) (auto simp: hasPrefix_def)

lemma lexIntPart_Nil [simp]: "lexIntPart [] = None"
  by (simp add: lexIntPart_def)

lemma lexNumber_append:
  assumes "lexNumber s = Some (x, r)" "stops t"
  shows "lexNumber (s @ t) = Some (x, r @ t)"
proof -
  obtain sg s0 where sg: "(if hasPrefix s ''-'' then (''-'', drop 1 s) else ([], s)) = (sg, s0)" by fastforce
  obtain ip s1 fp s2 ep where p: "lexIntPart s0 = Some (ip, s1)" "lexFrac s1 = Some (fp, s2)"
    "lexExp s2 = Some (ep, r)" "x = sg @ ip @ fp @ ep"
    using assms(1) by (auto simp: lexNumber_def sg split: option.splits)
  have "s0 \<noteq> []" using p(1) by auto
  then have "(if hasPrefix (s @ t) ''-'' then (''-'', drop 1 (s @ t)) else ([], s @ t)) = (sg, s0 @ t)"
    using sg by (cases s) (auto simp: hasPrefix_def split: if_splits)
  with p lexIntPart_append [OF p(1) assms(2)] lexFrac_append [OF p(2) assms(2)]
    lexExp_append [OF p(3) assms(2)]
  show ?thesis by (simp add: lexNumber_def)
qed

lemma spanDigits_split:
  assumes "spanDigits s = (ds, r)"
  shows "s = ds @ r" "list_all isDecDigit ds"
  using assms by (auto simp: spanDigits_def list_all_iff dest: set_takeWhileD)

lemma spanDigits_exact:
  assumes "list_all isDecDigit ds" "\<And>c t. r = c # t \<Longrightarrow> \<not> isDecDigit c"
  shows "spanDigits (ds @ r) = (ds, r)"
  using assms by (induction ds) (cases r; auto simp: spanDigits_def)+

lemma lexExp_whole: "lexExp s = Some (ep, r) \<Longrightarrow> s = ep @ r \<and> lexExp ep = Some (ep, []) \<and>
    (\<forall>c t. ep = c # t \<longrightarrow> c = CHR ''e'' \<or> c = CHR ''E'')"
proof (cases s)
  case (Cons c t)
  assume e: "lexExp s = Some (ep, r)"
  show ?thesis
  proof (cases "c = CHR ''e'' \<or> c = CHR ''E''")
    case True
    obtain sg r1 where sg: "lexSign t = (sg, r1)" by fastforce
    obtain ds r' where ds: "spanDigits r1 = (ds, r')" by fastforce
    have ep: "ep = c # sg @ ds" "r = r'" "ds \<noteq> []"
      using e Cons True sg ds by (auto simp: lexExp_def split: if_splits)
    have t: "t = sg @ r1" using sg by (auto simp: lexSign_def split: list.splits if_splits)
    obtain d ds' where d: "ds = d # ds'" "isDecDigit d" using ep(3) spanDigits_split(2) [OF ds] by (cases ds) auto
    then have "d \<noteq> CHR ''+''" "d \<noteq> CHR ''-''" by (auto simp: isDecDigit_def char_le_iff)
    then have "lexSign (sg @ ds) = (sg, ds)"
      using sg d by (auto simp: lexSign_def split: list.splits if_splits)
    moreover have "spanDigits ds = (ds, [])"
      using spanDigits_exact [OF spanDigits_split(2) [OF ds], of "[]"] by simp
    ultimately show ?thesis
      using Cons True t ep spanDigits_split(1) [OF ds] by (simp add: lexExp_def)
  next
    case False
    with e Cons show ?thesis by (auto simp: lexExp_def)
  qed
qed (simp add: lexExp_def)

lemma lexFrac_whole:
  assumes "lexFrac s = Some (fp, r)"
  shows "s = fp @ r"
    and "(\<forall>c t. u = c # t \<longrightarrow> c = CHR ''e'' \<or> c = CHR ''E'') \<Longrightarrow> lexFrac (fp @ u) = Some (fp, u)"
    and "fp = [] \<or> hd fp = CHR ''.''"
proof -
  have nd: "\<not> isDecDigit CHR ''e''" "\<not> isDecDigit CHR ''E''" by (simp_all add: isDecDigit_def char_le_iff)
  from lexFrac_shape [OF assms]
  show "(\<forall>c t. u = c # t \<longrightarrow> c = CHR ''e'' \<or> c = CHR ''E'') \<Longrightarrow> lexFrac (fp @ u) = Some (fp, u)"
    by (elim disjE exE conjE)
      (cases u; use nd spanDigits_exact [of _ u] in \<open>auto simp: lexFrac_def\<close>)+
  show "s = fp @ r" "fp = [] \<or> hd fp = CHR ''.''"
    using assms by (auto simp: lexFrac_def dest: spanDigits_split(1) split: list.splits if_splits prod.splits)
qed

lemma lexIntPart_whole:
  assumes "lexIntPart s = Some (ip, r)"
  shows "s = ip @ r"
    and "(\<And>c t. u = c # t \<Longrightarrow> \<not> isDecDigit c) \<Longrightarrow> lexIntPart (ip @ u) = Some (ip, u)"
    and "ip \<noteq> [] \<and> hd ip \<noteq> CHR ''-''"
proof -
  from lexIntPart_shape [OF assms]
  show "(\<And>c t. u = c # t \<Longrightarrow> \<not> isDecDigit c) \<Longrightarrow> lexIntPart (ip @ u) = Some (ip, u)"
    by (elim disjE exE conjE)
      (use spanDigits_exact [of ip u] in \<open>auto simp: lexIntPart_def\<close>)
  show "s = ip @ r" "ip \<noteq> [] \<and> hd ip \<noteq> CHR ''-''"
    using assms by (auto simp: lexIntPart_def isDecDigit_def char_le_iff dest: spanDigits_split(1)
        split: list.splits if_splits) (auto simp: spanDigits_def isDecDigit_def char_le_iff)
qed

lemma lexNumber_whole:
  assumes "lexNumber s = Some (x, r)"
  shows "s = x @ r \<and> lexNumber x = Some (x, [])"
proof -
  obtain sg s0 where sg: "(if hasPrefix s ''-'' then (''-'', drop 1 s) else ([], s)) = (sg, s0)" by fastforce
  obtain ip s1 fp s2 ep where p: "lexIntPart s0 = Some (ip, s1)" "lexFrac s1 = Some (fp, s2)"
    "lexExp s2 = Some (ep, r)" "x = sg @ ip @ fp @ ep"
    using assms(1) by (auto simp: lexNumber_def sg split: option.splits)
  have sg_s: "s = sg @ s0" "sg = [] \<or> sg = ''-''"
    using sg by (auto simp: hasPrefix_single split: if_splits)
  have nd: "\<not> isDecDigit CHR ''e''" "\<not> isDecDigit CHR ''E''" "\<not> isDecDigit CHR ''.''"
    by (simp_all add: isDecDigit_def char_le_iff)
  have ex: "s2 = ep @ r" "lexExp ep = Some (ep, [])" "\<forall>c t. ep = c # t \<longrightarrow> c = CHR ''e'' \<or> c = CHR ''E''"
    using lexExp_whole [OF p(3)] by auto
  have fr: "lexFrac (fp @ ep) = Some (fp, ep)" by (rule lexFrac_whole(2) [OF p(2) ex(3)])
  have "lexIntPart (ip @ fp @ ep) = Some (ip, fp @ ep)"
  proof (rule lexIntPart_whole(2) [OF p(1)])
    fix c t
    assume "fp @ ep = c # t"
    then show "\<not> isDecDigit c"
      using lexFrac_whole(3) [OF p(2)] ex(3) nd by (cases fp) auto
  qed
  moreover have "(if hasPrefix x ''-'' then (''-'', drop 1 x) else ([], x)) = (sg, ip @ fp @ ep)"
    using sg_s(2) lexIntPart_whole(3) [OF p(1)] by (cases ip) (auto simp: hasPrefix_single p(4))
  ultimately have "lexNumber x = Some (x, [])" 
    by (simp only: lexNumber_def prod.case option.case fr ex(2) p(4) [symmetric])
  moreover have "s = x @ r"
    using sg_s lexIntPart_whole(1) [OF p(1)] lexFrac_whole(1) [OF p(2)] ex(1) p(4) by simp
  ultimately show ?thesis by simp
qed

section \<open>Values\<close>

fun wfJson :: "json \<Rightarrow> bool" where
  "wfJson (JNum n) = (lexNumber n = Some (n, []))"
| "wfJson (JArr vs) = (\<forall>v\<in>set vs. wfJson v)"
| "wfJson (JObj ms) = (\<forall>m\<in>set ms. wfJson (snd m))"
| "wfJson _ = True"

lemma lexNumber_head:
  assumes "lexNumber n = Some (x, r)"
  shows "\<exists>c t. n = c # t \<and> (c = CHR ''-'' \<or> isDecDigit c)"
proof (cases n)
  case Nil
  then show ?thesis using assms by (simp add: lexNumber_def hasPrefix_def)
next
  case (Cons c t)
  show ?thesis
  proof (cases "c = CHR ''-''")
    case False
    then have "lexIntPart n \<noteq> None" using assms Cons
      by (auto simp: lexNumber_def hasPrefix_single split: option.splits)
    then show ?thesis using Cons by (auto simp: lexIntPart_def isDecDigit_def char_le_iff split: if_splits)
  qed (use Cons in auto)
qed

text \<open>The first byte of a rendered value is not white space and is none of \<open>]\<close>, \<open>}\<close>, \<open>,\<close>, \<open>:\<close>.\<close>

lemma render_head:
  assumes "wfJson v"
  shows "\<exists>c t. render v = c # t \<and> \<not> isJsonSpace c \<and> c \<notin> set '']},:''"
proof (cases v)
  case (JNum n)
  then obtain c t where "n = c # t" "c = CHR ''-'' \<or> isDecDigit c"
    using assms lexNumber_head [of n n "[]"] by auto
  then show ?thesis using JNum by (auto simp: isJsonSpace_def isDecDigit_def char_le_iff)
qed (auto simp: isJsonSpace_def quote_def)

lemma skipWs_render: "wfJson v \<Longrightarrow> skipWs (render v @ r) = render v @ r"
  using render_head [of v] by (auto simp: skipWs_def)

lemma skipWs_plain [simp]: "\<not> isJsonSpace c \<Longrightarrow> skipWs (c # s) = c # s"
  by (simp add: skipWs_def)

lemma notSpace [simp]:
  "\<not> isJsonSpace CHR '',''" "\<not> isJsonSpace CHR '':''" "\<not> isJsonSpace CHR ''}''" "\<not> isJsonSpace CHR '']''"
  "\<not> isJsonSpace CHR ''{''" "\<not> isJsonSpace CHR ''[''" "\<not> isJsonSpace CHR 0x22"
  by (simp_all add: isJsonSpace_def)

lemma stops_simps [simp]:
  "stops []" "stops (CHR '','' # r)" "stops (CHR ''}'' # r)" "stops (CHR '']'' # r)"
  by (simp_all add: stops_def isDecDigit_def char_le_iff)

definition memberText :: "string \<times> json \<Rightarrow> string" where
  "memberText m = quote (fst m) @ CHR '':'' # render (snd m)"

lemma render_obj: "render (JObj ms) = CHR ''{'' # joinWith '','' (map memberText ms) @ ''}''"
proof -
  have "(\<lambda>(k, v). quote k @ CHR '':'' # render v) = memberText"
    by (auto simp: fun_eq_iff memberText_def)
  then show ?thesis by simp
qed

lemma length_memberText: "length (memberText m) = length (quote (fst m)) + Suc (length (render (snd m)))"
  by (simp add: memberText_def)

lemma length_quote_pos: "2 \<le> length (quote k)"
  by (simp add: quote_def)

text \<open>What is left of an element list after its first element: each further one behind a comma.\<close>

definition tailText :: "string list \<Rightarrow> string" where
  "tailText xs = concat (map (\<lambda>x. CHR '','' # x) xs)"

lemma tailText_simps [simp]:
  "tailText [] = []" "tailText (x # xs) = CHR '','' # x @ tailText xs"
  by (simp_all add: tailText_def)

lemma joinWith_tail: "joinWith '','' (x # xs) = x @ tailText xs"
  by (induction xs arbitrary: x) auto

definition reads :: "json \<Rightarrow> bool" where
  "reads v \<longleftrightarrow> (\<forall>n r. 2 * length (render v) \<le> n \<longrightarrow> stops r \<longrightarrow> parseAny n (render v @ r) = Some (v, r))"

lemma stops_tail: "stops (tailText xs @ CHR ''}'' # r)" "stops (tailText xs @ CHR '']'' # r)"
  by (cases xs; simp)+

lemma skipWs_quote: "skipWs (quote k @ r) = quote k @ r"
  by (simp add: quote_def)

lemma parseObj_member:
  assumes "reads v" "2 * length (render v) \<le> n" "stops t"
    "parseObj n False t = Some (ms, r)"
  shows "parseObj (Suc n) True (memberText (k, v) @ t) = Some ((k, v) # ms, r)"
    "parseObj (Suc n) False (CHR '','' # memberText (k, v) @ t) = Some ((k, v) # ms, r)"
  using assms by (simp_all add: memberText_def skipWs_quote reads_def)
     (simp_all add: quote_def lexString_escString)

lemma parseObj_tail:
  assumes "\<forall>m\<in>set ms. reads (snd m)"
    and "2 * length (tailText (map memberText ms)) + 1 \<le> n"
  shows "parseObj n False (tailText (map memberText ms) @ CHR ''}'' # r) = Some (ms, r)"
  using assms
proof (induction ms arbitrary: n)
  case Nil
  then show ?case by (cases n) auto
next
  case (Cons m ms)
  obtain k v where m: "m = (k, v)" by fastforce
  obtain n' where n: "n = Suc n'" using Cons.prems(2) by (cases n) auto
  have len: "2 * length (render v) \<le> n'" "2 * length (tailText (map memberText ms)) + 1 \<le> n'"
    using Cons.prems(2) by (simp_all add: n m length_memberText)
  have "parseObj n' False (tailText (map memberText ms) @ CHR ''}'' # r) = Some (ms, r)"
    using Cons len by simp
  then show ?case
    using parseObj_member(2) [OF _ len(1) stops_tail(1)] Cons.prems(1)
    by (simp add: m n del: parseObj.simps)
qed

lemma parseArr_element:
  assumes "reads v" "wfJson v" "2 * length (render v) \<le> n" "stops t"
    "parseArr n False t = Some (vs, r)"
  shows "parseArr (Suc n) True (render v @ t) = Some (v # vs, r)"
    "parseArr (Suc n) False (CHR '','' # render v @ t) = Some (v # vs, r)"
proof -
  obtain c u where c: "render v = c # u" "\<not> isJsonSpace c" "c \<notin> set '']},:''"
    using render_head [OF assms(2)] by auto
  have p: "parseAny n (render v @ t) = Some (v, t)" using assms by (simp add: reads_def)
  have sk: "skipWs (render v @ t) = c # u @ t" using c by simp
  show "parseArr (Suc n) True (render v @ t) = Some (v # vs, r)"
    using c(3) p assms(5) by (simp only: parseArr.simps sk list.case) simp
  show "parseArr (Suc n) False (CHR '','' # render v @ t) = Some (v # vs, r)"
    using p assms(5) by simp
qed

lemma parseArr_tail:
  assumes "\<forall>v\<in>set vs. reads v \<and> wfJson v"
    and "2 * length (tailText (map render vs)) + 1 \<le> n"
  shows "parseArr n False (tailText (map render vs) @ CHR '']'' # r) = Some (vs, r)"
  using assms
proof (induction vs arbitrary: n)
  case Nil
  then show ?case by (cases n) auto
next
  case (Cons v vs)
  obtain n' where n: "n = Suc n'" using Cons.prems(2) by (cases n) auto
  have len: "2 * length (render v) \<le> n'" "2 * length (tailText (map render vs)) + 1 \<le> n'"
    using Cons.prems(2) by (simp_all add: n)
  have "parseArr n' False (tailText (map render vs) @ CHR '']'' # r) = Some (vs, r)"
    using Cons len by simp
  then show ?case
    using parseArr_element(2) [OF _ _ len(1) stops_tail(2)] Cons.prems(1)
    by (simp add: n del: parseArr.simps)
qed

lemma reads_scalar:
  assumes "\<And>r. stops r \<Longrightarrow> lexScalar (render v @ r) = Some (v, r)"
    and "wfJson v" "hd (render v) \<notin> set ''{[''"
  shows "reads v"
  unfolding reads_def
proof (intro allI impI)
  fix n r
  assume n: "2 * length (render v) \<le> n" and r: "stops r"
  obtain c u where c: "render v = c # u" "\<not> isJsonSpace c"
    using render_head [OF assms(2)] by auto
  with n obtain n' where n': "n = Suc n'" by (cases n) auto
  show "parseAny n (render v @ r) = Some (v, r)"
    using assms(1) [OF r] assms(3) c by (simp add: n')
qed

lemma lexScalar_number:
  assumes "lexNumber (c # s) = Some (x, r)"
  shows "lexScalar (c # s) = Some (JNum x, r)"
proof -
  from lexNumber_head [OF assms] have "c = CHR ''-'' \<or> isDecDigit c" by simp
  then have "c \<noteq> CHR 0x22" "c \<noteq> CHR ''t''" "c \<noteq> CHR ''f''" "c \<noteq> CHR ''n''"
    by (auto simp: isDecDigit_def char_le_iff)
  then show ?thesis using assms by (simp add: lexScalar_def hasPrefix_def)
qed

lemma render_reads: "wfJson v \<Longrightarrow> reads v"
proof (induction v)
  case (JNum n)
  then have n: "lexNumber n = Some (n, [])" by simp
  obtain c t where c: "n = c # t" "c = CHR ''-'' \<or> isDecDigit c" using lexNumber_head [OF n] by auto
  show ?case
  proof (rule reads_scalar)
    fix r assume "stops r"
    from lexNumber_append [OF n this] c(1) show "lexScalar (render (JNum n) @ r) = Some (JNum n, r)"
      by (simp add: lexScalar_number)
  next
    show "hd (render (JNum n)) \<notin> set ''{[''" using c by (auto simp: isDecDigit_def char_le_iff)
  qed (use n in simp)
next
  case (JStr s)
  show ?case
    by (rule reads_scalar) (simp_all add: quote_def lexScalar_def lexString_escString)
next
  case (JArr vs)
  then have ok: "\<forall>v\<in>set vs. reads v \<and> wfJson v" by auto
  show ?case unfolding reads_def
  proof (intro allI impI)
    fix n r
    assume n: "2 * length (render (JArr vs)) \<le> n" and "stops r"
    have "2 \<le> n" using n by simp
    then obtain n' where n': "n = Suc (Suc n')" by (cases n; cases "n - 1") auto
    show "parseAny n (render (JArr vs) @ r) = Some (JArr vs, r)"
    proof (cases vs)
      case Nil
      then show ?thesis by (simp add: n')
    next
      case (Cons v ws)
      have j: "joinWith '','' (map render vs) = render v @ tailText (map render ws)"
        by (simp only: Cons list.map joinWith_tail)
      have len: "2 * length (render v) \<le> n'" "2 * length (tailText (map render ws)) + 1 \<le> n'"
        using n by (simp_all add: n' j)
      have "parseArr (Suc n') True (render v @ tailText (map render ws) @ CHR '']'' # r) = Some (v # ws, r)"
        using parseArr_element(1) [OF _ _ len(1) stops_tail(2) parseArr_tail [OF _ len(2)]] ok Cons by simp
      then show ?thesis by (simp add: n' j Cons [symmetric] del: parseArr.simps)
    qed
  qed
next
  case (JObj ms)
  then have ok: "\<forall>m\<in>set ms. reads (snd m)" by (auto simp: snds.simps)
  show ?case unfolding reads_def
  proof (intro allI impI)
    fix n r
    assume n: "2 * length (render (JObj ms)) \<le> n" and "stops r"
    have "2 \<le> n" using n by simp
    then obtain n' where n': "n = Suc (Suc n')" by (cases n; cases "n - 1") auto
    show "parseAny n (render (JObj ms) @ r) = Some (JObj ms, r)"
    proof (cases ms)
      case Nil
      then show ?thesis by (simp add: n')
    next
      case (Cons m ws)
      obtain k v where m: "m = (k, v)" by fastforce
      have j: "joinWith '','' (map memberText ms) = memberText m @ tailText (map memberText ws)"
        by (simp only: Cons list.map joinWith_tail)
      have len: "2 * length (render v) \<le> n'" "2 * length (tailText (map memberText ws)) + 1 \<le> n'"
        using n unfolding render_obj by (simp_all add: n' j m length_memberText)
      have "parseObj (Suc n') True (memberText m @ tailText (map memberText ws) @ CHR ''}'' # r) = Some (m # ws, r)"
        using parseObj_member(1) [OF _ len(1) stops_tail(1) parseObj_tail [OF _ len(2)]] ok Cons m by simp
      then show ?thesis unfolding render_obj by (simp add: n' j Cons [symmetric] del: parseObj.simps)
    qed
  qed
qed (auto intro!: reads_scalar simp: lexScalar_def hasPrefix_def split: if_splits)

lemma jsonUnmarshal_render: "wfJson v \<Longrightarrow> jsonUnmarshal (render v) = Some v"
proof -
  assume "wfJson v"
  then have "parseAny (jsonFuel (render v)) (render v @ []) = Some (v, [])"
    using render_reads [of v] unfolding reads_def jsonFuel_def by (metis le_add1 stops_simps(1))
  then show ?thesis by (simp add: jsonUnmarshal_def skipWs_def del: parseAny.simps)
qed

section \<open>UTF-8\<close>

text \<open>The pending ranges of a run stay within the continuation bytes.\<close>

definition contRanges :: "(nat \<times> nat) list \<Rightarrow> bool" where
  "contRanges ps \<longleftrightarrow> (\<forall>(lo, hi)\<in>set ps. 0x80 \<le> lo \<and> hi \<le> 0xBF)"

lemma utf8Pending_cont: "utf8Pending c = Some ps \<Longrightarrow> contRanges ps"
  by (auto simp: utf8Pending_def contRanges_def split: if_splits)

lemma contRanges_simps [simp]:
  "contRanges []" "contRanges ((lo, hi) # ps) \<longleftrightarrow> 0x80 \<le> lo \<and> hi \<le> 0xBF \<and> contRanges ps"
  by (auto simp: contRanges_def)

lemma utf8Run_append: "utf8Run ps a \<Longrightarrow> utf8Run [] b \<Longrightarrow> utf8Run ps (a @ b)"
  by (induction ps a rule: utf8Run.induct) (auto split: option.splits)

lemma utf8Valid_append: "utf8Valid a \<Longrightarrow> utf8Valid b \<Longrightarrow> utf8Valid (a @ b)"
  by (simp add: utf8Valid_def utf8Run_append)

lemma utf8Pending_ascii: "cval c < 128 \<Longrightarrow> utf8Pending c = Some []"
  by (simp add: utf8Pending_def)

lemma utf8Valid_Cons_ascii: "cval c < 128 \<Longrightarrow> utf8Valid (c # s) = utf8Valid s"
  by (simp add: utf8Valid_def utf8Pending_ascii)

lemma utf8Valid_Nil [simp]: "utf8Valid []"
  by (simp add: utf8Valid_def)

lemma utf8Valid_ascii: "(\<forall>c\<in>set s. cval c < 128) \<Longrightarrow> utf8Valid s"
  by (induction s) (auto simp: utf8Valid_Cons_ascii)

lemma escByte_high: 
  assumes "128 \<le> cval c"
  shows "escByte c = [c]"
proof -
  have "c \<noteq> d" if "cval d < 128" for d using assms that by auto
  then have "c \<noteq> CHR 0x22" "c \<noteq> CHR 0x5C" "c \<noteq> CHR 0x08" "c \<noteq> CHR 0x0C" "c \<noteq> CHR 0x0A" "c \<noteq> CHR 0x0D"
    "c \<noteq> CHR 0x09" "c \<noteq> CHR ''<''" "c \<noteq> CHR ''>''" "c \<noteq> CHR ''&''" by simp_all
  then show ?thesis using assms by (simp add: escByte_def)
qed

lemma hexByte_ascii: "x \<in> set (hexByte c) \<Longrightarrow> cval x < 128"
  by (drule hexByte_chars) (auto simp: charclass_defs)

lemma escByte_low:
  assumes "cval c < 128" "x \<in> set (escByte c)"
  shows "cval x < 128"
proof -
  have "set (escByte c) \<subseteq> insert c (set (CHR 0x5C # ''u0bfnrt'')) \<union> set (hexByte c)"
    unfolding escByte_def escU00_def by (simp split: if_split) blast
  then have "x = c \<or> x \<in> set (CHR 0x5C # ''u0bfnrt'') \<or> x \<in> set (hexByte c)" using assms(2) by blast
  then show ?thesis using assms(1) hexByte_ascii [of x c] by (elim disjE) auto
qed

lemma escByte_valid: "cval c < 128 \<Longrightarrow> utf8Valid (escByte c)"
  by (rule utf8Valid_ascii) (use escByte_low in blast)

lemma utf8Pending_E2: "utf8Pending CHR 0xE2 = Some [(0x80, 0xBF), (0x80, 0xBF)]"
  by (simp add: utf8Pending_def inRange_def)

lemma take2: "take 2 s = [a, b] \<Longrightarrow> s = a # b # drop 2 s"
  using append_take_drop_id [of 2 s] by simp

lemma utf8Run_escString: "utf8Run ps s \<Longrightarrow> contRanges ps \<Longrightarrow> utf8Run ps (escString s)"
proof (induction s arbitrary: ps rule: escString.induct)
  case (2 c s)
  have esc: "utf8Run [] (CHR 0x5C # CHR ''u'' # CHR ''2'' # CHR ''0'' # CHR ''2'' # d # t) \<longleftrightarrow> utf8Run [] t"
    if "d = CHR ''8'' \<or> d = CHR ''9''" for d t using that by (elim disjE) (simp_all add: utf8Pending_ascii)
  have hi: "ps = []" if "c = CHR 0xE2" using 2(4,5) that by (cases ps) (auto simp: inRange_def)
  consider (a) d where "c = CHR 0xE2" "take 2 s = [CHR 0x80, d]" "d = CHR 0xA8 \<or> d = CHR 0xA9"
    | (n) "escString (c # s) = escByte c @ escString s"
      "\<not> (c = CHR 0xE2 \<and> take 2 s = [CHR 0x80, CHR 0xA8])" "\<not> (c = CHR 0xE2 \<and> take 2 s = [CHR 0x80, CHR 0xA9])"
    by (auto split: if_splits)
  then show ?case
  proof cases
    case a
    have "utf8Run [] (drop 2 s)"
      using 2(4) hi [OF a(1)] take2 [OF a(2)] a(1,3)
      by (cases s; cases "tl s") (auto simp: utf8Pending_E2)
    then have "utf8Run [] (escString (drop 2 s))"
      using a 2(1) [of "[]"] 2(2) [of "[]"] by (cases "d = CHR 0xA8") auto
    then have "utf8Run [] (CHR 0x5C # CHR ''u'' # CHR ''2'' # CHR ''0'' # CHR ''2'' # e # escString (drop 2 s))"
      if "e = CHR ''8'' \<or> e = CHR ''9''" for e using esc [OF that] by simp
    then show ?thesis using a(1,2) hi [OF a(1)] a(3) by (elim disjE) (simp_all del: utf8Run.simps)
  next
    case n
    show ?thesis
    proof (cases "cval c < 128")
      case True
      then have "ps = []" using 2(4,5) by (cases ps) (auto simp: inRange_def)
      then show ?thesis
        using 2(3) [OF n(2,3), of "[]"] 2(4) True escByte_valid [OF True] unfolding n(1)
        by (auto simp: utf8Pending_ascii utf8Valid_def intro: utf8Run_append)
    next
      case False
      then show ?thesis
        using 2(3) [OF n(2,3)] 2(4,5) unfolding n(1)
        by (cases ps) (auto simp: escByte_high dest: utf8Pending_cont split: option.splits)
    qed
  qed
qed simp

lemma escString_valid: "utf8Valid s \<Longrightarrow> utf8Valid (escString s)"
  by (simp add: utf8Valid_def utf8Run_escString)

lemma quote_valid: "utf8Valid s \<Longrightarrow> utf8Valid (quote s)"
  by (simp add: quote_def utf8Valid_Cons_ascii utf8Valid_append escString_valid)

text \<open>Reading keeps texts valid: the decoded strings and what is left of the input.\<close>

lemma isHexChar_ascii: "isHexChar c \<Longrightarrow> cval c < 128"
  by (auto simp: isHexChar_def charclass_defs)

lemma getU4_valid: "getU4 s = Some (n, r) \<Longrightarrow> utf8Valid s \<Longrightarrow> utf8Valid r \<and> n < 65536"
proof (induction s rule: getU4.induct)
  case (1 a b c d s)
  have hv: "hexVal x < 16" if "isHexChar x" for x
    using that by (auto simp: isHexChar_def hexVal_def charclass_defs)
  from 1 have h: "isHexChar a" "isHexChar b" "isHexChar c" "isHexChar d" "s = r"
    "n = ((hexVal a * 16 + hexVal b) * 16 + hexVal c) * 16 + hexVal d" by (auto split: if_splits)
  then show ?case
    using 1(2) hv [of a] hv [of b] hv [of c] hv [of d] by (simp add: utf8Valid_Cons_ascii isHexChar_ascii)
qed auto

lemma cval_char_of_nat: "cval (char_of (n :: nat)) = n mod 256"
  by simp

lemma utf8Valid_three:
  assumes "q2 \<le> 15" "q1 < 64" "q0 < 64" "q2 = 0 \<Longrightarrow> 32 \<le> q1" "q2 = 13 \<Longrightarrow> q1 \<le> 31"
  shows "utf8Valid [char_of (0xE0 + q2 :: nat), char_of (0x80 + q1 :: nat), char_of (0x80 + q0 :: nat)]"
  using assms by (auto simp: utf8Valid_def utf8Pending_def inRange_def)

lemma utf8Valid_four:
  assumes "q3 \<le> 4" "q2 < 64" "q1 < 64" "q0 < 64" "q3 = 0 \<Longrightarrow> 16 \<le> q2" "q3 = 4 \<Longrightarrow> q2 \<le> 15"
  shows "utf8Valid [char_of (0xF0 + q3 :: nat), char_of (0x80 + q2 :: nat), char_of (0x80 + q1 :: nat), char_of (0x80 + q0 :: nat)]"
  using assms by (auto simp: utf8Valid_def utf8Pending_def inRange_def)

lemma utf8Encode_valid:
  assumes "n < 0x110000" "\<not> (0xD800 \<le> n \<and> n < 0xE000)"
  shows "utf8Valid (utf8Encode n)"
proof -
  consider "n < 0x80" | "0x80 \<le> n" "n < 0x800" | "0x800 \<le> n" "n < 0x10000" | "0x10000 \<le> n" by linarith
  then show ?thesis
  proof cases
    case 1
    then show ?thesis by (simp add: utf8Encode_def utf8Valid_def utf8Pending_def)
  next
    case 2
    then have "0xC2 \<le> 0xC0 + n div 64" "0xC0 + n div 64 \<le> 0xDF" by linarith+
    with 2 show ?thesis
      by (simp add: utf8Encode_def utf8Valid_def utf8Pending_def inRange_def)
  next
    case 3
    then have "n div 4096 \<le> 15" by linarith
    moreover have sp: "64 * (n div 4096) + n div 64 mod 64 = n div 64"
      using div_mult2_eq [of n 64 64] mult_div_mod_eq [of 64 "n div 64"] by simp
    moreover have "32 \<le> n div 64 mod 64" if "n div 4096 = 0"
    proof -
      have "32 \<le> n div 64" using 3 by linarith
      then show ?thesis using sp that by linarith
    qed
    moreover have "n div 64 mod 64 \<le> 31" if "n div 4096 = 13"
    proof -
      have "n < 0xD800" using that assms(2) by linarith
      then have "n div 64 < 864" by linarith
      then show ?thesis using sp that by linarith
    qed
    ultimately have "utf8Valid [char_of (0xE0 + n div 4096), char_of (0x80 + n div 64 mod 64), char_of (0x80 + n mod 64)]"
      by (intro utf8Valid_three) simp_all
    with 3 show ?thesis unfolding utf8Encode_def by simp
  next
    case 4
    then have "n div 262144 \<le> 4" using assms by linarith
    moreover have sp: "64 * (n div 262144) + n div 4096 mod 64 = n div 4096"
      using div_mult2_eq [of n 4096 64] mult_div_mod_eq [of 64 "n div 4096"] by simp
    moreover have "16 \<le> n div 4096 mod 64" if "n div 262144 = 0"
    proof -
      have "16 \<le> n div 4096" using 4 by linarith
      then show ?thesis using sp that by linarith
    qed
    moreover have "n div 4096 mod 64 \<le> 15" if "n div 262144 = 4"
    proof -
      have "n div 4096 < 272" using assms by linarith
      then show ?thesis using sp that by linarith
    qed
    ultimately have "utf8Valid [char_of (0xF0 + n div 262144), char_of (0x80 + n div 4096 mod 64),
        char_of (0x80 + n div 64 mod 64), char_of (0x80 + n mod 64)]"
      by (intro utf8Valid_four) simp_all
    with 4 show ?thesis unfolding utf8Encode_def by simp
  qed
qed

lemma lexUnicode_valid:
  assumes "lexUnicode s = Some (x, r)" "utf8Valid s"
  shows "utf8Valid x \<and> utf8Valid r"
proof -
  obtain hi r0 where g: "getU4 s = Some (hi, r0)" using assms(1) by (auto simp: lexUnicode_def split: option.splits)
  have v: "utf8Valid r0" "hi < 65536" using getU4_valid [OF g assms(2)] by auto
  have fffd: "utf8Valid (utf8Encode 0xFFFD)" by (rule utf8Encode_valid) simp_all
  show ?thesis
  proof (cases "0xD800 \<le> hi \<and> hi < 0xE000")
    case False
    then have "x = utf8Encode hi \<and> r = r0" using assms(1) g by (auto simp: lexUnicode_def)
    then show ?thesis using v False utf8Encode_valid [of hi] by simp
  next
    case True
    define p where "p = (if hasPrefix r0 [CHR 0x5C, CHR ''u''] then getU4 (drop 2 r0) else None)"
    have lu: "lexUnicode s = (case p of
              Some (lo, r') \<Rightarrow>
                if hi < 0xDC00 \<and> 0xDC00 \<le> lo \<and> lo < 0xE000
                then Some (utf8Encode (0x10000 + (hi - 0xD800) * 1024 + (lo - 0xDC00)), r')
                else Some (utf8Encode 0xFFFD, r0)
            | None \<Rightarrow> Some (utf8Encode 0xFFFD, r0))"
      using True by (simp add: lexUnicode_def g p_def)
    show ?thesis
    proof (cases p)
      case None
      then show ?thesis using lu assms(1) fffd v by simp
    next
      case (Some q)
      obtain lo r' where q: "q = (lo, r')" by fastforce
      have d: "hasPrefix r0 [CHR 0x5C, CHR ''u'']" "getU4 (drop 2 r0) = Some (lo, r')"
        using Some q by (auto simp: p_def split: if_splits)
      have "r0 = CHR 0x5C # CHR ''u'' # drop 2 r0" using d(1) take2 [of r0] by (simp add: hasPrefix_def numeral_2_eq_2)
      then obtain u where "r0 = CHR 0x5C # CHR ''u'' # u" "drop 2 r0 = u" by (cases r0; cases "tl r0") auto
      then have "utf8Valid (drop 2 r0)" using v(1) by (simp add: utf8Valid_Cons_ascii)
      then have "utf8Valid r'" using getU4_valid [OF d(2)] by simp
      moreover have "utf8Valid (utf8Encode (0x10000 + (hi - 0xD800) * 1024 + (lo - 0xDC00)))"
        if "hi < 0xDC00" "0xDC00 \<le> lo" "lo < 0xE000"
        by (rule utf8Encode_valid) (use that True in simp_all)
      ultimately show ?thesis using lu assms(1) Some q fffd v by (auto split: if_splits)
    qed
  qed
qed

lemma lexEscape_valid:
  assumes "lexEscape s = Some (x, r)" "utf8Valid s"
  shows "utf8Valid x \<and> utf8Valid r"
proof -
  obtain e t where s: "s = e # t" using assms(1) by (cases s) (auto simp: lexEscape_def)
  show ?thesis
  proof (cases "e = CHR ''u''")
    case True
    then show ?thesis using assms s lexUnicode_valid by (auto simp: lexEscape_def utf8Valid_Cons_ascii)
  next
    case False
    then obtain c where c: "simpleEscape e = Some c" "x = [c]" "r = t"
      using assms(1) s by (auto simp: lexEscape_def split: option.splits)
    then have "cval e < 128 \<and> cval c < 128" by (auto simp: simpleEscape_def split: if_splits)
    then show ?thesis using assms(2) s c by (simp add: utf8Valid_Cons_ascii)
  qed
qed

lemma lexString_run:
  "lexString s = Some (x, r) \<Longrightarrow> utf8Run ps s \<Longrightarrow> contRanges ps \<Longrightarrow> utf8Run ps x \<and> utf8Valid r"
proof (induction s arbitrary: x ps rule: lexString.induct)
  case (2 c s)
  have nil: "ps = []" if "cval c < 128" using 2(4,5) that by (cases ps) (auto simp: inRange_def)
  consider (q) "c = CHR 0x22" | (e) "c = CHR 0x5C" | (p) "c \<noteq> CHR 0x22" "c \<noteq> CHR 0x5C" by blast
  then show ?case
  proof cases
    case q
    then show ?thesis using 2(3,4) nil by (auto simp: utf8Valid_def utf8Pending_ascii)
  next
    case e
    then have ps: "ps = []" using nil by simp
    obtain y t z where l: "lexEscape s = Some (y, t)" "lexString t = Some (z, r)" "x = y @ z"
      using 2(3) e by (auto split: option.splits)
    have "utf8Valid s" using 2(4) e ps by (auto simp: utf8Valid_def utf8Pending_ascii)
    then have "utf8Valid y" "utf8Valid t" using lexEscape_valid [OF l(1)] by auto
    then show ?thesis using 2(1) [OF _ _ l(1) refl l(2), of "[]"] e ps l(3)
      by (auto simp: utf8Valid_def intro: utf8Run_append)
  next
    case p
    obtain z where l: "lexString s = Some (z, r)" "x = c # z"
      using 2(3) p by (auto split: option.splits if_splits)
    have nc: "\<not> cval c < 32" using 2(3) p by (auto split: if_splits)
    show ?thesis
      using 2(2) [OF p nc l(1)] 2(4,5) l(2)
      by (cases ps) (auto dest: utf8Pending_cont split: option.splits)
  qed
qed simp

lemma lexString_valid: "lexString s = Some (x, r) \<Longrightarrow> utf8Valid s \<Longrightarrow> utf8Valid x \<and> utf8Valid r"
  using lexString_run [of s x r "[]"] by (simp add: utf8Valid_def)

fun textJson :: "json \<Rightarrow> bool" where
  "textJson (JStr s) = utf8Valid s"
| "textJson (JArr vs) = (\<forall>v\<in>set vs. textJson v)"
| "textJson (JObj ms) = (\<forall>m\<in>set ms. utf8Valid (fst m) \<and> textJson (snd m))"
| "textJson _ = True"

lemma utf8Valid_ascii_append: "(\<forall>c\<in>set a. cval c < 128) \<Longrightarrow> utf8Valid (a @ b) = utf8Valid b"
  by (induction a) (auto simp: utf8Valid_Cons_ascii)

lemma skipWs_valid: "utf8Valid (skipWs s) = utf8Valid s"
  by (induction s) (auto simp: skipWs_def isJsonSpace_def utf8Valid_Cons_ascii)

lemma digits_ascii: "list_all isDecDigit ds \<Longrightarrow> c \<in> set ds \<Longrightarrow> cval c < 128"
  by (auto simp: list_all_iff isDecDigit_def char_le_iff)

lemma spanDigits_ascii: "spanDigits s = (ds, r) \<Longrightarrow> c \<in> set ds \<Longrightarrow> cval c < 128"
  by (drule spanDigits_split(2)) (rule digits_ascii)

lemma lexNumber_ascii:
  assumes "lexNumber s = Some (x, r)"
  shows "\<forall>c\<in>set x. cval c < 128"
proof -
  obtain sg s0 where sg: "(if hasPrefix s ''-'' then (''-'', drop 1 s) else ([], s)) = (sg, s0)" by fastforce
  obtain ip s1 fp s2 ep where p: "lexIntPart s0 = Some (ip, s1)" "lexFrac s1 = Some (fp, s2)"
    "lexExp s2 = Some (ep, r)" "x = sg @ ip @ fp @ ep"
    using assms(1) by (auto simp: lexNumber_def sg split: option.splits)
  have "\<forall>c\<in>set sg. cval c < 128" using sg by (auto split: if_splits)
  moreover have "\<forall>c\<in>set ip. cval c < 128" using lexIntPart_shape [OF p(1)] digits_ascii by auto
  moreover have "\<forall>c\<in>set fp. cval c < 128" using lexFrac_shape [OF p(2)] digits_ascii by auto
  moreover have "\<forall>c\<in>set ep. cval c < 128"
    using p(3) by (auto simp: lexExp_def lexSign_def split: list.splits if_splits prod.splits
        dest: spanDigits_ascii)
  ultimately show ?thesis using p(4) by auto
qed

lemma lexScalar_valid:
  assumes "lexScalar s = Some (v, r)" "utf8Valid s"
  shows "wfJson v \<and> textJson v \<and> utf8Valid r"
proof -
  obtain c t where s: "s = c # t" using assms(1) by (cases s) (auto simp: lexScalar_def)
  have pre: "utf8Valid (drop (length p) s)" if "hasPrefix s p" "\<forall>c\<in>set p. cval c < 128" for p
  proof -
    have "s = p @ drop (length p) s" using that(1) append_take_drop_id [of "length p" s] by (simp add: hasPrefix_def)
    then show ?thesis using assms(2) utf8Valid_ascii_append [OF that(2)] by metis
  qed
  consider (str) x where "c = CHR 0x22" "lexString t = Some (x, r)" "v = JStr x"
    | (true) "hasPrefix s ''true''" "v = JBool True" "r = drop 4 s"
    | (false) "hasPrefix s ''false''" "v = JBool False" "r = drop 5 s"
    | (null) "hasPrefix s ''null''" "v = JNull" "r = drop 4 s"
    | (num) x where "lexNumber s = Some (x, r)" "v = JNum x"
    using assms(1) s by (auto simp: lexScalar_def split: if_splits)
  then show ?thesis
  proof cases
    case str
    then show ?thesis using assms(2) s lexString_valid by (auto simp: utf8Valid_Cons_ascii)
  next
    case true then show ?thesis using pre [of "''true''"] by (simp add: eval_nat_numeral)
  next
    case false then show ?thesis using pre [of "''false''"] by (simp add: eval_nat_numeral)
  next
    case null then show ?thesis using pre [of "''null''"] by (simp add: eval_nat_numeral)
  next
    case num
    have "utf8Valid (x @ r)" using lexNumber_whole [OF num(1)] assms(2) by simp
    then show ?thesis using lexNumber_whole [OF num(1)] utf8Valid_ascii_append [OF lexNumber_ascii [OF num(1)]] num(2)
      by simp
  qed
qed

lemma utf8Valid_skipWs_Cons: "skipWs s = c # t \<Longrightarrow> utf8Valid s \<Longrightarrow> cval c < 128 \<Longrightarrow> utf8Valid t"
  by (metis skipWs_valid utf8Valid_Cons_ascii)

lemma parse_valid:
  "parseAny n s = Some (v, r) \<Longrightarrow> utf8Valid s \<Longrightarrow> wfJson v \<and> textJson v \<and> utf8Valid r"
  "parseObj n f s = Some (ms, r) \<Longrightarrow> utf8Valid s \<Longrightarrow>
     (\<forall>m\<in>set ms. utf8Valid (fst m) \<and> wfJson (snd m) \<and> textJson (snd m)) \<and> utf8Valid r"
  "parseArr n f s = Some (vs, r) \<Longrightarrow> utf8Valid s \<Longrightarrow>
     (\<forall>v\<in>set vs. wfJson v \<and> textJson v) \<and> utf8Valid r"
proof (induction n arbitrary: s v f ms vs r)
  case (Suc n)
  {
    case 1
    then obtain c t where c: "skipWs s = c # t" by (auto split: list.splits)
    have vs: "utf8Valid (c # t)" using 1(2) c skipWs_valid by metis
    consider (o) ms where "c = CHR ''{''" "parseObj n True t = Some (ms, r)" "v = JObj ms"
      | (a) vs where "c = CHR ''[''" "parseArr n True t = Some (vs, r)" "v = JArr vs"
      | (s) "lexScalar (c # t) = Some (v, r)"
      using 1(1) c by (auto split: if_splits)
    then show ?case
    proof cases
      case o then show ?thesis using Suc(2) [OF o(2)] vs by (simp add: utf8Valid_Cons_ascii)
    next
      case a then show ?thesis using Suc(3) [OF a(2)] vs by (simp add: utf8Valid_Cons_ascii)
    next
      case s then show ?thesis using lexScalar_valid vs by blast
    qed
  next
    case 2
    from 2(1) consider (close) "skipWs s = CHR ''}'' # r" "ms = []"
      | (mem) r0 name r1 r2 v r3 ms' where "memberPos f s = Some r0" "lexString r0 = Some (name, r1)"
        "skipWs r1 = CHR '':'' # r2" "parseAny n r2 = Some (v, r3)" "parseObj n False r3 = Some (ms', r)"
        "ms = (name, v) # ms'"
      unfolding memberPos_parseObj by blast
    then show ?case
    proof cases
      case close
      then show ?thesis using 2(2) utf8Valid_skipWs_Cons [OF close(1)] by simp
    next
      case mem
      have "utf8Valid r0"
        using mem(1) 2(2) utf8Valid_skipWs_Cons
        by (auto simp: memberPos_def split: list.splits if_splits)
      then have "utf8Valid name" "utf8Valid r1" using lexString_valid [OF mem(2)] by auto
      moreover have "utf8Valid r2" using utf8Valid_skipWs_Cons [OF mem(3)] calculation by simp
      ultimately show ?thesis using Suc(1) [OF mem(4)] Suc(2) [OF mem(5)] mem(6) by auto
    qed
  next
    case 3
    from 3(1) consider (close) "skipWs s = CHR '']'' # r" "vs = []"
      | (el) c t v r3 vs' where "skipWs s = c # t" "f \<or> c = CHR '',''"
        "parseAny n (if f then s else t) = Some (v, r3)" "parseArr n False r3 = Some (vs', r)" "vs = v # vs'"
      unfolding parseArr_cases by blast
    then show ?case
    proof cases
      case close
      then show ?thesis using 3(2) utf8Valid_skipWs_Cons [OF close(1)] by simp
    next
      case el
      have "utf8Valid (if f then s else t)"
        using el(1,2) 3(2) utf8Valid_skipWs_Cons [OF el(1)] by auto
      then show ?thesis using Suc(1) [OF el(3)] Suc(3) [OF el(4)] el(5) by auto
    qed
  }
qed simp_all

section \<open>Printing\<close>

lemma tailText_valid: "(\<forall>x\<in>set xs. utf8Valid x) \<Longrightarrow> utf8Valid (tailText xs)"
  by (induction xs) (simp_all add: utf8Valid_Cons_ascii utf8Valid_append)

lemma joinWith_valid: "(\<forall>x\<in>set xs. utf8Valid x) \<Longrightarrow> utf8Valid (joinWith '','' xs)"
  by (cases xs) (simp_all only: joinWith_tail, simp_all add: tailText_valid utf8Valid_append)

lemma memberText_valid: "utf8Valid (fst m) \<Longrightarrow> utf8Valid (render (snd m)) \<Longrightarrow> utf8Valid (memberText m)"
  by (simp add: memberText_def utf8Valid_append quote_valid utf8Valid_Cons_ascii)

lemma render_valid: "wfJson v \<Longrightarrow> textJson v \<Longrightarrow> utf8Valid (render v)"
proof (induction v)
  case (JNum n)
  then have "\<forall>c\<in>set n. cval c < 128" using lexNumber_ascii by simp
  then show ?case using utf8Valid_ascii by simp
next
  case (JArr vs)
  then have "utf8Valid (joinWith '','' (map render vs))" by (intro joinWith_valid) auto
  then show ?case by (simp add: utf8Valid_Cons_ascii utf8Valid_append)
next
  case (JObj ms)
  then have "utf8Valid (joinWith '','' (map memberText ms))"
    by (intro joinWith_valid) (auto simp: snds.simps intro!: memberText_valid)
  then show ?case unfolding render_obj by (simp add: utf8Valid_Cons_ascii utf8Valid_append)
qed (auto simp: quote_valid utf8Valid_ascii)

lemma sortJson_wf: "wfJson v \<Longrightarrow> wfJson (sortJson v)"
  by (induction v) (auto simp: snds.simps)

lemma sortJson_text: "textJson v \<Longrightarrow> textJson (sortJson v)"
  by (induction v) (auto simp: snds.simps)

lemma sortJson_tree: "strictTree k v \<Longrightarrow> strictTree k (sortJson v)"
proof (induction v arbitrary: k)
  case (JObj ms)
  define ms' where "ms' = map (\<lambda>(k, v). (k, sortJson v)) ms"
  have "map fst ms' = map fst ms" by (simp add: ms'_def case_prod_beta)
  moreover have "\<forall>m\<in>set ms'. strictTree (Suc k) (snd m)"
    using JObj by (auto simp: ms'_def snds.simps)
  moreover have "distinct (map fst (sort_key fst ms')) \<longleftrightarrow> distinct (map fst ms')"
    by (simp add: distinct_map)
  ultimately have "mwf (sort_key fst ms')" "\<forall>m\<in>set ms'. strictTree (Suc k) (snd m)" "k \<le> 512"
    using JObj.prems by simp_all
  then show ?case unfolding sortJson.simps ms'_def [symmetric] by simp
qed auto

lemma strictText_parts: "strictText raw v \<Longrightarrow> wfJson v \<and> textJson v \<and> strictTree 0 v"
  by (auto simp: strictText_def jsonUnmarshal_def dest!: parse_valid(1) split: option.splits if_splits)

lemma strictText_render:
  assumes "wfJson v" "textJson v" "strictTree 0 v"
  shows "strictText (render v) v"
  using assms by (simp add: strictText_def render_valid jsonUnmarshal_render)

lemma strictText_marshal:
  assumes "wfJson v" "textJson v" "strictTree 0 v"
  shows "strictText (marshalAny v) (sortJson v)"
  unfolding marshalAny_def
  using assms by (intro strictText_render sortJson_wf sortJson_text sortJson_tree)

section \<open>Properties\<close>

text \<open>Marshalling a decoded value with \<open>json.Marshal\<close> gives a text that \<open>strictjson.Decode\<close>
  accepts, and decoding it gives the same value with the members of its objects sorted by name:
  strings with control, HTML and line-separator characters, numbers and nested values included.\<close>

lemma decode_marshal_roundtrip:
  "strictDecode raw = Inr v \<Longrightarrow> strictDecode (marshalAny v) = Inr (sortJson v)"
  using strictText_parts strictText_marshal strictDecode_iff by blast

lemma decode_marshal_roundtrip_witness:
  "strictDecode (marshalAny (JObj [(''b'', JNum ''1.50''), (''a'', JStr [CHR 0x09, CHR ''<''])])) =
     Inr (sortJson (JObj [(''b'', JNum ''1.50''), (''a'', JStr [CHR 0x09, CHR ''<''])]))"
proof (rule decode_marshal_roundtrip)
  show "strictDecode ('' {\"b\" : 1.50, \"a\":\"'' @ [CHR 0x5C, CHR ''t''] @ ''<\"} '') =
      Inr (JObj [(''b'', JNum ''1.50''), (''a'', JStr [CHR 0x09, CHR ''<''])])"
    by code_simp
qed

end
