(* ===== verification/Sha256.thy ===== *)
theory Sha256
  imports Go_Text "HOL-Library.Word"
begin

text \<open>
  crypto/sha256 as FIPS 180-4 defines it, on byte strings: padding, message schedule, compression
  and the final 32-byte digest. The program uses it through \<open>Sum256\<close> and \<open>hex.EncodeToString\<close>.
\<close>

unbundle bit_operations_syntax

text \<open>
  The constants are the first 32 bits of the fractional parts of the cube roots of the first 64 primes
  (the starting state: of the square roots of the first 8). \<open>rootWord e p\<close> computes the integer
  \<open>e\<close>-th root of \<open>p * 2 ^ (32 * e)\<close> bit by bit and keeps its low 32 bits.
\<close>

definition primesTo :: "nat \<Rightarrow> nat list" where
  "primesTo n = filter (\<lambda>p. list_all (\<lambda>d. p mod d \<noteq> 0) [2..<p]) [2..<Suc n]"

definition rootWord :: "nat \<Rightarrow> nat \<Rightarrow> 32 word" where
  "rootWord e p = word_of_int (foldl (\<lambda>r k. if (r + 2 ^ k) ^ e \<le> int p * 2 ^ (32 * e) then r + 2 ^ k else r) 0 (rev [0..<40]))"

definition sha256K :: "32 word list" where
  "sha256K = map (rootWord 3) (primesTo 311)"

definition rotr :: "nat \<Rightarrow> 32 word \<Rightarrow> 32 word" where
  "rotr n x = drop_bit n x OR push_bit (32 - n) x"

definition bigEndian :: "nat \<Rightarrow> int \<Rightarrow> string" where
  "bigEndian k n = map (\<lambda>i. char_of (n div 256 ^ (k - 1 - i))) [0..<k]"

definition sha256Pad :: "string \<Rightarrow> string" where
  "sha256Pad m = m @ CHR 0x80 # replicate ((55 + 64 - length m mod 64) mod 64) (CHR 0x00)
     @ bigEndian 8 (8 * int (length m))"

fun chunks :: "nat \<Rightarrow> 'a list \<Rightarrow> 'a list list" where
  "chunks n [] = []"
| "chunks n (x # xs) = (if n = 0 then [] else take n (x # xs) # chunks n (drop n (x # xs)))"

definition wordOf :: "string \<Rightarrow> 32 word" where
  "wordOf bs = foldl (\<lambda>a c. push_bit 8 a OR of_nat (cval c)) 0 bs"

text \<open>The schedule is kept newest first: \<open>W[t-2]\<close> is at position 1, \<open>W[t-16]\<close> at position 15.\<close>

definition scheduleStep :: "32 word list \<Rightarrow> 32 word list" where
  "scheduleStep w =
    (let w2 = w ! 1; w15 = w ! 14;
         s0 = rotr 7 w15 XOR rotr 18 w15 XOR drop_bit 3 w15;
         s1 = rotr 17 w2 XOR rotr 19 w2 XOR drop_bit 10 w2
     in (s1 + w ! 6 + s0 + w ! 15) # w)"

definition schedule :: "string \<Rightarrow> 32 word list" where
  "schedule blk = rev ((scheduleStep ^^ 48) (rev (map wordOf (chunks 4 blk))))"

type_synonym shaState =
  "32 word \<times> 32 word \<times> 32 word \<times> 32 word \<times> 32 word \<times> 32 word \<times> 32 word \<times> 32 word"

fun shaRound :: "shaState \<Rightarrow> 32 word \<times> 32 word \<Rightarrow> shaState" where
  "shaRound (a, b, c, d, e, f, g, h) (k, w) =
    (let t1 = h + (rotr 6 e XOR rotr 11 e XOR rotr 25 e) + ((e AND f) XOR (NOT e AND g)) + k + w;
         t2 = (rotr 2 a XOR rotr 13 a XOR rotr 22 a) + ((a AND b) XOR (a AND c) XOR (b AND c))
     in (t1 + t2, a, b, c, d + t1, e, f, g))"

fun shaAdd :: "shaState \<Rightarrow> shaState \<Rightarrow> shaState" where
  "shaAdd (a, b, c, d, e, f, g, h) (a', b', c', d', e', f', g', h') =
    (a + a', b + b', c + c', d + d', e + e', f + f', g + g', h + h')"

definition shaBlock :: "shaState \<Rightarrow> string \<Rightarrow> shaState" where
  "shaBlock st blk = shaAdd st (foldl shaRound st (zip sha256K (schedule blk)))"

fun shaState8 :: "32 word list \<Rightarrow> shaState" where
  "shaState8 [a, b, c, d, e, f, g, h] = (a, b, c, d, e, f, g, h)"
| "shaState8 _ = (0, 0, 0, 0, 0, 0, 0, 0)"

definition shaStart :: shaState where
  "shaStart = shaState8 (map (rootWord 2) (primesTo 19))"

fun shaOut :: "shaState \<Rightarrow> string" where
  "shaOut (a, b, c, d, e, f, g, h) = concat (map (\<lambda>x. bigEndian 4 (uint x)) [a, b, c, d, e, f, g, h])"

definition sha256 :: "string \<Rightarrow> string" where
  "sha256 m = shaOut (foldl shaBlock shaStart (chunks 64 (sha256Pad m)))"

definition sha256Hex :: "string \<Rightarrow> string" where
  "sha256Hex m = hexEncode (sha256 m)"

lemma length_sha256 [simp]: "length (sha256 m) = 32"
proof -
  have "length (shaOut st) = 32" for st
    by (cases st rule: shaOut.cases) (simp add: bigEndian_def)
  then show ?thesis by (simp add: sha256_def)
qed

lemma length_sha256Hex [simp]: "length (sha256Hex m) = 64"
  by (simp add: sha256Hex_def)

lemma sha256Hex_nonempty [simp]: "sha256Hex m \<noteq> []"
  using length_sha256Hex [of m] by (metis length_0_conv zero_neq_numeral)

end
