(* ===== verification/Canonical.thy ===== *)
theory Canonical
  imports Json_Roundtrip Sha256
begin

text \<open>
  internal/canonicaljson and internal/digest: RFC 8785 canonicalization of a strict text and the
  content digest of a durable record. The canonicalizer of the third-party package gowebpki/jcs is
  the parameter \<open>jcs\<close>; \<open>jcsLaws\<close> states what its documentation promises of it.
\<close>

section \<open>Definitions\<close>

definition canonicalize :: "(string \<Rightarrow> string res) \<Rightarrow> string \<Rightarrow> string res" where
  "canonicalize jcs raw =
    andThen (strictValidate raw) (\<lambda>_. wrapw ''JCS canonicalization failed'' (jcs raw))"

definition digestField :: string where "digestField = ''content_sha256''"

definition errRootNotObject :: goerr where
  "errRootNotObject = ErrNew ''durable record root must be an object''"

definition asObject :: "json \<Rightarrow> (string \<times> json) list res" where
  "asObject v = (case v of JObj ms \<Rightarrow> Inr ms | _ \<Rightarrow> Inl errRootNotObject)"

definition digestCompute :: "(string \<Rightarrow> string res) \<Rightarrow> string \<Rightarrow> (string \<times> string) res" where
  "digestCompute jcs raw =
    andThen (strictDecode raw) (\<lambda>v.
    andThen (asObject v) (\<lambda>obj.
    andThen (canonicalize jcs (marshalAny (JObj (mdel digestField obj)))) (\<lambda>canonical.
      Inr (sha256Hex canonical, canonical))))"

definition digestComplete :: "(string \<Rightarrow> string res) \<Rightarrow> string \<Rightarrow> (string \<times> string) res" where
  "digestComplete jcs raw =
    andThen (strictDecode raw) (\<lambda>v.
    andThen (asObject v) (\<lambda>obj.
    andThen (digestCompute jcs raw) (\<lambda>(d, _).
    andThen (canonicalize jcs (marshalAny (JObj (mput digestField (JStr d) obj)))) (\<lambda>canonical.
      Inr (canonical, d)))))"

definition digestVerify :: "(string \<Rightarrow> string res) \<Rightarrow> string \<Rightarrow> unit res" where
  "digestVerify jcs raw =
    andThen (strictDecode raw) (\<lambda>v.
    andThen (asObject v) (\<lambda>obj.
      case mget obj digestField of
        Some (JStr stored) \<Rightarrow>
          if stored = [] then Inl (Errorf ''content_sha256 missing or not a string'' [])
          else andThen (digestCompute jcs raw) (\<lambda>(actual, _).
            if stored \<noteq> actual then Inl (Errorf ''DIGEST_MISMATCH'' []) else Inr ())
      | _ \<Rightarrow> Inl (Errorf ''content_sha256 missing or not a string'' [])))"

section \<open>The canonicalizer's contract\<close>

text \<open>
  What RFC 8785 promises of \<open>jcs\<close>, with \<open>nf\<close> the value its output denotes: the output is a strict
  text of the normal form; two texts with the same normal form have the same output; the normal
  form keeps strings, normalises the elements of arrays and the members of objects, and does not
  depend on the order of members; canonical texts are fixed points; a text printed by
  \<open>json.Marshal\<close> is canonicalized whenever some text with the same normal form is.
\<close>

definition jcsOutput :: "(string \<Rightarrow> string res) \<Rightarrow> (json \<Rightarrow> json) \<Rightarrow> bool" where
  "jcsOutput jcs nf \<longleftrightarrow> (\<forall>raw v out. strictText raw v \<and> jcs raw = Inr out \<longrightarrow>
      strictText out (nf v) \<and> jcs out = Inr out)"

definition jcsDetermined :: "(string \<Rightarrow> string res) \<Rightarrow> (json \<Rightarrow> json) \<Rightarrow> bool" where
  "jcsDetermined jcs nf \<longleftrightarrow> (\<forall>raw raw' v v' out out'. strictText raw v \<and> strictText raw' v' \<and> nf v = nf v' \<and>
      jcs raw = Inr out \<and> jcs raw' = Inr out' \<longrightarrow> out = out')"

definition jcsPrinted :: "(string \<Rightarrow> string res) \<Rightarrow> (json \<Rightarrow> json) \<Rightarrow> bool" where
  "jcsPrinted jcs nf \<longleftrightarrow> (\<forall>raw v out w. strictText raw v \<and> jcs raw = Inr out \<and>
      strictText (marshalAny w) (sortJson w) \<and> nf w = nf v \<longrightarrow> is_ok (jcs (marshalAny w)))"

definition nfStructure :: "(json \<Rightarrow> json) \<Rightarrow> bool" where
  "nfStructure nf \<longleftrightarrow>
     (\<forall>v. nf (nf v) = nf v) \<and> (\<forall>s. nf (JStr s) = JStr s) \<and> (\<forall>vs. nf (JArr vs) = JArr (map nf vs)) \<and>
     (\<forall>ms. mwf ms \<longrightarrow> (\<exists>ms'. nf (JObj ms) = JObj ms' \<and> mwf ms' \<and>
        (\<forall>k. mget ms' k = map_option nf (mget ms k)))) \<and>
     (\<forall>ms ms'. mwf ms \<and> mwf ms' \<and> (\<forall>k. map_option nf (mget ms k) = map_option nf (mget ms' k)) \<longrightarrow>
        nf (JObj ms) = nf (JObj ms'))"

definition jcsLaws :: "(string \<Rightarrow> string res) \<Rightarrow> (json \<Rightarrow> json) \<Rightarrow> bool" where
  "jcsLaws jcs nf \<longleftrightarrow> jcsOutput jcs nf \<and> jcsDetermined jcs nf \<and> jcsPrinted jcs nf \<and> nfStructure nf"

text \<open>A canonicalizer that keeps number literals as they are satisfies the contract.\<close>

definition sortingJcs :: "string \<Rightarrow> string res" where
  "sortingJcs raw = (case jsonUnmarshal raw of Some v \<Rightarrow> Inr (marshalAny v) | None \<Rightarrow> Inl (ErrNew ''invalid''))"

lemma sort_key_map_value:
  "sort_key fst (map (\<lambda>(k, v). (k, f v)) ms) = map (\<lambda>(k, v). (k, f v)) (sort_key fst ms)"
  for ms :: "(string \<times> json) list"
proof (induction ms)
  case (Cons m ms)
  have "insort_key fst (case m of (k, v) \<Rightarrow> (k, f v)) (map (\<lambda>(k, v). (k, f v)) xs) =
      map (\<lambda>(k, v). (k, f v)) (insort_key fst m xs)" for xs :: "(string \<times> json) list"
    by (induction xs) (auto split: prod.splits)
  then show ?case using Cons by simp
qed simp

lemma sort_key_sorted: "sort_key f (sort_key f xs) = sort_key f xs" for f :: "'a \<Rightarrow> 'b :: linorder"
  by (rule sort_key_id_if_sorted) simp

lemma sortJson_idem: "sortJson (sortJson v) = sortJson v"
proof (induction v)
  case (JObj ms)
  have "map (\<lambda>(k, v). (k, sortJson v)) (map (\<lambda>(k, v). (k, sortJson v)) ms) = map (\<lambda>(k, v). (k, sortJson v)) ms"
    using JObj by (force simp: snds.simps)
  then have "sort_key fst (map (\<lambda>(k, v). (k, sortJson v)) (sort_key fst (map (\<lambda>(k, v). (k, sortJson v)) ms)))
      = sort_key fst (sort_key fst (map (\<lambda>(k, v). (k, sortJson v)) ms))"
    by (simp only: sort_key_map_value [symmetric])
  then show ?case by (simp add: sort_key_sorted)
qed (auto simp: list.map_comp intro: map_cong)

lemma mget_sort_key: "mwf ms \<Longrightarrow> mget (sort_key fst ms) k = mget ms k"
  for ms :: "(string \<times> json) list"
proof -
  assume m: "mwf ms"
  then have "mwf (sort_key fst ms)" by (simp add: distinct_map)
  then show ?thesis using mget_eq_set_eq [of "sort_key fst ms" ms] m by simp
qed

lemma mget_map_value: "mget (map (\<lambda>(k, v). (k, f v)) ms) k = map_option f (mget ms k)"
  by (induction ms) auto

lemma mwf_map_value: "mwf (map (\<lambda>(k, v). (k, f v)) ms) = mwf ms"
  by (induction ms) (auto simp: case_prod_beta image_iff)

lemma mwf_sort_key [simp]: "mwf (sort_key f ms) = mwf ms" for f :: "'a \<times> 'b \<Rightarrow> 'c :: linorder"
  by (simp add: distinct_map)

lemma sort_members_unique: "mwf xs \<Longrightarrow> mwf ys \<Longrightarrow> set xs = set ys \<Longrightarrow> sort_key fst xs = sort_key fst ys"
  for xs ys :: "(string \<times> 'a) list"
  by (rule sort_key_unique) (simp_all add: distinct_map)

text \<open>A function that leaves strings, goes into arrays and sorts the members of objects has the structure.\<close>

lemma sorting_structure:
  assumes idem: "\<And>v. nf (nf v) = nf v" and str: "\<And>s. nf (JStr s) = JStr s" and arr: "\<And>vs. nf (JArr vs) = JArr (map nf vs)"
    and obj: "\<And>ms. nf (JObj ms) = JObj (sort_key fst (map (\<lambda>(k, v). (k, nf v)) ms))"
  shows "nfStructure nf"
  unfolding nfStructure_def
proof (intro conjI allI impI)
  fix ms :: "(string \<times> json) list"
  assume "mwf ms"
  then show "\<exists>ms'. nf (JObj ms) = JObj ms' \<and> mwf ms' \<and> (\<forall>k. mget ms' k = map_option nf (mget ms k))"
    using mwf_map_value [of nf ms] mget_sort_key [of "map (\<lambda>(k, v). (k, nf v)) ms"]
    unfolding obj by (intro exI [of _ "sort_key fst (map (\<lambda>(k, v). (k, nf v)) ms)"])
      (simp only: mwf_sort_key mget_map_value simp_thms)
next
  fix ms ms' :: "(string \<times> json) list"
  assume a: "mwf ms \<and> mwf ms' \<and> (\<forall>k. map_option nf (mget ms k) = map_option nf (mget ms' k))"
  let ?f = "map (\<lambda>(k, v). (k, nf v))"
  have m: "mwf (?f ms)" "mwf (?f ms')" using a by (simp_all only: mwf_map_value)
  have "\<forall>k. mget (?f ms) k = mget (?f ms') k" using a by (simp add: mget_map_value)
  then have "set (?f ms) = set (?f ms')" using mget_eq_set_eq [OF m] by blast
  with m have "sort_key fst (?f ms) = sort_key fst (?f ms')" by (intro sort_members_unique)
  then show "nf (JObj ms) = nf (JObj ms')" by (simp add: obj)
qed (simp_all add: idem str arr)

lemma sortJson_structure: "nfStructure sortJson"
  by (rule sorting_structure) (simp_all add: sortJson_idem)

lemma sortingJcs_marshal:
  assumes "strictText (marshalAny v) (sortJson v)"
  shows "sortingJcs (marshalAny v) = Inr (marshalAny v)"
  using assms by (simp add: sortingJcs_def strictText_def marshalAny_def sortJson_idem)

lemma sortingJcs_laws: "jcsLaws sortingJcs sortJson"
  unfolding jcsLaws_def jcsOutput_def jcsDetermined_def jcsPrinted_def
proof (intro conjI allI impI sortJson_structure; elim conjE)
  fix raw v out
  assume r: "strictText raw v" "sortingJcs raw = Inr out"
  then have o: "out = marshalAny v" by (simp add: sortingJcs_def strictText_def)
  have "strictText out (sortJson v)" unfolding o using strictText_parts [OF r(1)] strictText_marshal by blast
  then show "strictText out (sortJson v)" "sortingJcs out = Inr out"
    using sortingJcs_marshal by (simp_all add: o)
next
  fix raw raw' v v' out out'
  assume "strictText raw v" "strictText raw' v'" "sortJson v = sortJson v'"
    "sortingJcs raw = Inr out" "sortingJcs raw' = Inr out'"
  then show "out = out'" by (simp add: sortingJcs_def strictText_def marshalAny_def)
next
  fix w
  assume "strictText (marshalAny w) (sortJson w)"
  then show "is_ok (sortingJcs (marshalAny w))" by (simp add: sortingJcs_marshal)
qed

section \<open>Canonical texts\<close>

lemma strictText_unique: "strictText raw v \<Longrightarrow> strictText raw w \<Longrightarrow> v = w"
  by (simp add: strictText_def)

lemma canonicalize_Inr_iff: "canonicalize jcs raw = Inr out \<longleftrightarrow> (\<exists>v. strictText raw v) \<and> jcs raw = Inr out"
  by (simp add: canonicalize_def res_simps strictValidate_iff [symmetric])

lemma canonicalize_idem:
  assumes "jcsLaws jcs nf" "canonicalize jcs raw = Inr out"
  shows "canonicalize jcs out = Inr out"
  using assms unfolding canonicalize_Inr_iff jcsLaws_def jcsOutput_def by blast

lemma asObject_Inr_iff [res_simps]: "asObject v = Inr ms \<longleftrightarrow> v = JObj ms"
  by (auto simp: asObject_def split: json.splits)

lemma digestCompute_Inr_iff: "digestCompute jcs raw = Inr (d, c) \<longleftrightarrow>
    (\<exists>obj. strictText raw (JObj obj) \<and> canonicalize jcs (marshalAny (JObj (mdel digestField obj))) = Inr c \<and>
       d = sha256Hex c)"
  by (auto simp: digestCompute_def res_simps strictDecode_iff)

lemma digestVerify_iff: "digestVerify jcs raw = Inr () \<longleftrightarrow>
    (\<exists>obj c. strictText raw (JObj obj) \<and> canonicalize jcs (marshalAny (JObj (mdel digestField obj))) = Inr c \<and>
       mget obj digestField = Some (JStr (sha256Hex c)))"
  (is "?L \<longleftrightarrow> ?R")
proof
  assume ?L
  then obtain obj where o: "strictText raw (JObj obj)"
    by (auto simp: digestVerify_def andThen_Inr_iff strictDecode_iff asObject_Inr_iff)
  then have d: "strictDecode raw = Inr (JObj obj)" by (rule strictDecode_ok)
  obtain stored where st: "mget obj digestField = Some (JStr stored)"
    using \<open>?L\<close> by (simp add: digestVerify_def d asObject_def split: option.splits json.splits)
  have "(if stored = [] then Inl (Errorf ''content_sha256 missing or not a string'' [])
      else andThen (digestCompute jcs raw) (\<lambda>(actual, _).
            if stored \<noteq> actual then Inl (Errorf ''DIGEST_MISMATCH'' []) else Inr ())) = Inr ()"
    using \<open>?L\<close> by (simp add: digestVerify_def d asObject_def st)
  then obtain e c where "digestCompute jcs raw = Inr (e, c)" "stored = e"
    by (auto simp: andThen_Inr_iff split: if_split_asm)
  with o st have "strictText raw (JObj obj)" "mget obj digestField = Some (JStr stored)"
    "digestCompute jcs raw = Inr (e, c)" "stored = e" by simp_all
  then show ?R by (auto simp: digestCompute_Inr_iff dest: strictText_unique)
next
  assume ?R
  then obtain obj c where r: "strictText raw (JObj obj)"
    "canonicalize jcs (marshalAny (JObj (mdel digestField obj))) = Inr c"
    "mget obj digestField = Some (JStr (sha256Hex c))" by blast
  then have "digestCompute jcs raw = Inr (sha256Hex c, c)" unfolding digestCompute_Inr_iff by blast
  with r show ?L by (simp add: digestVerify_def strictDecode_ok asObject_def)
qed

section \<open>Completing a record\<close>

lemma mget_mem_json:
  assumes "strictText raw (JObj obj)"
  shows "mwf obj" "wfJson (JObj obj)" "textJson (JObj obj)"
  using strictText_parts [OF assms] by simp_all

lemma mdel_subset: "set (mdel k m) \<subseteq> set m"
  by (auto simp: AList.delete_eq)

lemma strictTree_subset: "strictTree k (JObj ms) \<Longrightarrow> set ms' \<subseteq> set ms \<Longrightarrow> mwf ms' \<Longrightarrow> strictTree k (JObj ms')"
  by auto

lemma strictText_payload_tree: "strictText raw (JObj obj) \<Longrightarrow> strictTree 0 (JObj (mdel k obj))"
proof -
  assume "strictText raw (JObj obj)"
  then have t: "strictTree 0 (JObj obj)" using strictText_parts by blast
  then have "mwf (mdel k obj)" by (simp add: distinct_delete)
  with t show ?thesis by (rule strictTree_subset [OF _ mdel_subset])
qed

lemma strictText_tree:
  assumes "strictText raw (JObj obj)"
  shows "strictTree 0 (JObj (mput k (JStr d) obj))" "strictTree 0 (JObj (mdel k obj))"
proof -
  have p: "strictTree 0 (JObj obj)" using strictText_parts [OF assms(1)] by auto
  have sub: "set (mput k (JStr d) obj) \<subseteq> insert (k, JStr d) (set obj)"
    by (induction obj) auto
  show "strictTree 0 (JObj (mput k (JStr d) obj))" using p sub by (auto simp: distinct_update)
  show "strictTree 0 (JObj (mdel k obj))" using assms by (rule strictText_payload_tree)
qed

lemma strictText_payload:
  assumes "strictText raw (JObj obj)"
  shows "strictText (marshalAny (JObj (mdel k obj))) (sortJson (JObj (mdel k obj)))"
proof (rule strictText_marshal)
  have p: "wfJson (JObj obj)" "textJson (JObj obj)" "strictTree 0 (JObj obj)" using strictText_parts [OF assms] by auto
  have sub: "set (mdel k obj) \<subseteq> set obj" by (rule mdel_subset)
  show "wfJson (JObj (mdel k obj))" "textJson (JObj (mdel k obj))" using p sub by auto
  show "strictTree 0 (JObj (mdel k obj))" by (rule strictText_payload_tree [OF assms])
qed

lemma strictText_stored:
  assumes "strictText raw (JObj obj)" "utf8Valid k" "utf8Valid d"
  shows "strictText (marshalAny (JObj (mput k (JStr d) obj))) (sortJson (JObj (mput k (JStr d) obj)))"
proof (rule strictText_marshal)
  have p: "wfJson (JObj obj)" "textJson (JObj obj)" "strictTree 0 (JObj obj)" using strictText_parts [OF assms(1)] by auto
  have sub: "set (mput k (JStr d) obj) \<subseteq> insert (k, JStr d) (set obj)"
    by (induction obj) auto
  show "wfJson (JObj (mput k (JStr d) obj))" "textJson (JObj (mput k (JStr d) obj))"
    using p sub assms(2,3) by auto
  show "strictTree 0 (JObj (mput k (JStr d) obj))" by (rule strictText_tree [OF assms(1)])
qed

lemma utf8Valid_digest: "utf8Valid (sha256Hex m)" "utf8Valid digestField"
proof -
  show "utf8Valid (sha256Hex m)"
    by (rule utf8Valid_ascii) (auto simp: sha256Hex_def charclass_defs dest!: hexEncode_chars)
  show "utf8Valid digestField" by code_simp
qed

lemma nf_sortJson:
  assumes "nfStructure nf" "strictTree k v"
  shows "nf (sortJson v) = nf v"
  using assms(2)
proof (induction v arbitrary: k)
  case (JArr vs)
  have "\<forall>vs. nf (JArr vs) = JArr (map nf vs)" using assms(1) by (simp add: nfStructure_def)
  then show ?case using JArr by auto
next
  case (JObj ms)
  let ?f = "map (\<lambda>(k, v). (k, sortJson v)) ms"
  have m: "mwf ms" "mwf ?f" using JObj.prems mwf_map_value [of sortJson ms] by simp_all
  have "map_option nf (mget (sort_key fst ?f) j) = map_option nf (mget ms j)" for j
  proof (cases "mget ms j")
    case (Some v)
    then have "(j, v) \<in> set ms" by (rule map_of_SomeD)
    then have "nf (sortJson v) = nf v" using JObj by (force simp: snds.simps)
    then show ?thesis using Some m by (simp only: mget_sort_key [OF m(2)] mget_map_value) simp
  next
    case None
    then show ?thesis by (simp only: mget_sort_key [OF m(2)] mget_map_value) simp
  qed
  moreover have "\<forall>ms ms'. mwf ms \<and> mwf ms' \<and> (\<forall>k. map_option nf (mget ms k) = map_option nf (mget ms' k)) \<longrightarrow>
        nf (JObj ms) = nf (JObj ms')" using assms(1) unfolding nfStructure_def by blast
  ultimately have "nf (JObj (sort_key fst ?f)) = nf (JObj ms)" using m by (simp only: mwf_sort_key simp_thms)
  then show ?case by (simp only: sortJson.simps)
qed simp_all

lemma nf_members:
  assumes "nfStructure nf" "mwf ms"
  obtains ms' where "nf (JObj ms) = JObj ms'" "mwf ms'" "\<And>k. mget ms' k = map_option nf (mget ms k)"
  using assms unfolding nfStructure_def by blast

lemma nf_delete:
  assumes nf: "nfStructure nf" and m: "mwf obj" "mwf ms'"
    and l: "\<And>j. mget ms' j = map_option nf (mget (mput k v obj) j)"
  shows "nf (JObj (mdel k ms')) = nf (JObj (mdel k obj))"
proof -
  have idem: "nf (nf w) = nf w" for w using nf by (simp add: nfStructure_def)
  have "map_option nf (mget (mdel k ms') j) = map_option nf (mget (mdel k obj) j)" for j
    by (simp add: l mget_mdel mget_mput option.map_comp comp_def idem)
  moreover have "mwf (mdel k ms')" "mwf (mdel k obj)" using m by (simp_all add: distinct_delete)
  ultimately show ?thesis using nf unfolding nfStructure_def by blast
qed

lemma complete_verifies:
  assumes laws: "jcsLaws jcs nf" and c: "digestComplete jcs raw = Inr (out, d)"
  shows "digestVerify jcs out = Inr ()"
proof -
  have L: "jcsOutput jcs nf" "jcsDetermined jcs nf" "jcsPrinted jcs nf" "nfStructure nf"
    using laws by (auto simp: jcsLaws_def)
  from c obtain obj where o: "strictText raw (JObj obj)"
    by (auto simp: digestComplete_def andThen_Inr_iff strictDecode_iff asObject_Inr_iff)
  have dec: "strictDecode raw = Inr (JObj obj)" by (rule strictDecode_ok [OF o])
  from c dec obtain cp where cp: "digestCompute jcs raw = Inr (d, cp)"
    and st: "canonicalize jcs (marshalAny (JObj (mput digestField (JStr d) obj))) = Inr out"
    by (auto simp: digestComplete_def andThen_Inr_iff asObject_def)
  let ?p = "mdel digestField obj" and ?q = "mput digestField (JStr d) obj"
  have pay: "canonicalize jcs (marshalAny (JObj ?p)) = Inr cp" and d: "d = sha256Hex cp"
    using cp strictText_unique [OF o] by (auto simp: digestCompute_Inr_iff)
  have wobj: "mwf obj" using mget_mem_json [OF o] by simp
  have tp: "strictText (marshalAny (JObj ?p)) (sortJson (JObj ?p))" by (rule strictText_payload [OF o])
  have tq: "strictText (marshalAny (JObj ?q)) (sortJson (JObj ?q))"
    using strictText_stored [OF o] utf8Valid_digest by (simp add: d)
  have tree: "strictTree 0 (JObj ?p)" "strictTree 0 (JObj ?q)"
    using strictText_tree o d by auto
  have out: "strictText out (nf (JObj ?q))"
    using L(1) tq st nf_sortJson [OF L(4) tree(2)] unfolding jcsOutput_def canonicalize_Inr_iff by metis
  obtain ms' where ms': "nf (JObj ?q) = JObj ms'" "mwf ms'" "\<And>k. mget ms' k = map_option nf (mget ?q k)"
    using nf_members [OF L(4), of ?q] wobj by (metis distinct_update)
  have out': "strictText out (JObj ms')" using out ms'(1) by simp
  let ?p' = "mdel digestField ms'"
  have tp': "strictText (marshalAny (JObj ?p')) (sortJson (JObj ?p'))" by (rule strictText_payload [OF out'])
  have nfp: "nf (JObj ?p') = nf (JObj ?p)" by (rule nf_delete [OF L(4) wobj ms'(2,3)])
  have nfs: "nf (sortJson (JObj ?p')) = nf (sortJson (JObj ?p))"
    using nfp nf_sortJson [OF L(4) tree(1)] nf_sortJson [OF L(4) strictText_payload_tree [OF out']] by metis
  have "is_ok (jcs (marshalAny (JObj ?p')))"
    using L(3) tp pay tp' nfp nf_sortJson [OF L(4) tree(1)] unfolding jcsPrinted_def canonicalize_Inr_iff by metis
  then obtain cp' where cp': "jcs (marshalAny (JObj ?p')) = Inr cp'" by (auto simp: is_ok_iff)
  have "cp' = cp"
    using L(2) tp tp' nfs cp' pay unfolding jcsDetermined_def canonicalize_Inr_iff by blast
  then have "canonicalize jcs (marshalAny (JObj ?p')) = Inr cp"
    using tp' cp' by (auto simp: canonicalize_Inr_iff)
  moreover have "mget ms' digestField = Some (JStr (sha256Hex cp))"
    using L(4) by (simp add: ms'(3) mget_mput nfStructure_def d)
  ultimately show ?thesis using out' by (auto simp: digestVerify_iff)
qed

lemma sortingJcs_complete:
  assumes "strictText raw (JObj obj)"
  shows "\<exists>out d. digestComplete sortingJcs raw = Inr (out, d)"
proof -
  have c: "canonicalize sortingJcs (marshalAny v) = Inr (marshalAny v)"
    if "strictText (marshalAny v) (sortJson v)" for v
    using sortingJcs_marshal [OF that] that by (auto simp: canonicalize_Inr_iff)
  have d: "strictDecode raw = Inr (JObj obj)" by (rule strictDecode_ok [OF assms])
  show ?thesis
    using c [OF strictText_payload [OF assms]] c [OF strictText_stored [OF assms utf8Valid_digest(2,1)]]
    by (simp add: digestComplete_def digestCompute_def d asObject_def)
qed

section \<open>Properties\<close>

text \<open>C24: a record that \<open>digest.Complete\<close> produced passes \<open>digest.Verify\<close>: the digest stored in the
  canonical record is the one recomputed from it, for every canonicalizer with the documented
  behaviour.\<close>

theorem completed_record_verifies:
  "jcsLaws jcs nf \<Longrightarrow> digestComplete jcs raw = Inr (out, d) \<Longrightarrow> digestVerify jcs out = Inr ()"
  by (rule complete_verifies)

theorem completed_record_verifies_witness:
  "\<exists>out d. digestComplete sortingJcs ''{\"b\":1,\"a\":[true]}'' = Inr (out, d) \<and>
     digestVerify sortingJcs out = Inr ()"
proof -
  have "strictDecode ''{\"b\":1,\"a\":[true]}'' = Inr (JObj [(''b'', JNum ''1''), (''a'', JArr [JBool True])])"
    by code_simp
  then have "strictText ''{\"b\":1,\"a\":[true]}'' (JObj [(''b'', JNum ''1''), (''a'', JArr [JBool True])])"
    by (simp only: strictDecode_iff)
  then obtain out d where c: "digestComplete sortingJcs ''{\"b\":1,\"a\":[true]}'' = Inr (out, d)"
    using sortingJcs_complete by blast
  with completed_record_verifies [OF sortingJcs_laws c] show ?thesis by blast
qed

text \<open>\<open>digest.Verify\<close> accepts exactly the strict JSON objects whose \<open>content_sha256\<close> member is the
  lower-case hex SHA-256 of the canonical form of the object without that member.\<close>

lemma digestVerify_exact:
  "digestVerify jcs raw = Inr () \<longleftrightarrow>
    (\<exists>obj c. strictDecode raw = Inr (JObj obj) \<and>
       canonicalize jcs (marshalAny (JObj (mdel digestField obj))) = Inr c \<and>
       mget obj digestField = Some (JStr (sha256Hex c)))"
  unfolding digestVerify_iff strictDecode_iff by blast

text \<open>Canonical texts are fixed points of \<open>canonicaljson.Canonicalize\<close>, so the stored-as-canonical
  checks of the ledger accept every text it produced.\<close>

lemma canonicalize_fixed_point:
  "jcsLaws jcs nf \<Longrightarrow> canonicalize jcs raw = Inr out \<Longrightarrow> canonicalize jcs out = Inr out"
  by (rule canonicalize_idem)

lemma canonicalize_fixed_point_witness:
  "canonicalize sortingJcs ''{\"a\":1,\"b\":[]}'' = Inr ''{\"a\":1,\"b\":[]}''"
proof (rule canonicalize_fixed_point [OF sortingJcs_laws])
  show "canonicalize sortingJcs ''{\"b\":[ ], \"a\":1 }'' = Inr ''{\"a\":1,\"b\":[]}''" by code_simp
qed

end
