(* ===== verification/Go_Float.thy ===== *)
theory Go_Float
  imports Go_Json "HOL-Library.Log_Nat" "HOL-Library.Word"
begin

text \<open>
  The Go type float64 in JSON: \<open>strconv.ParseFloat\<close> of a number literal, which rounds to the nearest value and
  to the even mantissa on a tie, and the text \<open>encoding/json\<close> prints, which is the shortest decimal that reads
  back as the same value, with an exponent below 1e-6 and from 1e21 on. A float64 is its 64 bits.
\<close>

section \<open>Positive rationals\<close>

text \<open>\<open>n / d\<close> against a power of the base, and the largest power that is not above it.\<close>

definition atLeastPow :: "nat \<Rightarrow> nat \<Rightarrow> nat \<Rightarrow> int \<Rightarrow> bool" where
  "atLeastPow b n d k = (if 0 \<le> k then d * b ^ nat k \<le> n else d \<le> n * b ^ nat (- k))"

definition expOf :: "nat \<Rightarrow> nat \<Rightarrow> nat \<Rightarrow> int" where
  "expOf b n d = (let k = int (floorlog b n) - int (floorlog b d) in if atLeastPow b n d k then k else k - 1)"

text \<open>Quotient and remainder of \<open>n / d\<close> in units of a power.\<close>

definition inUnits :: "nat \<Rightarrow> int \<Rightarrow> nat \<Rightarrow> nat \<Rightarrow> nat \<times> nat \<times> nat" where
  "inUnits b k n d =
    (let num = (if 0 \<le> k then n else n * b ^ nat (- k)); den = (if 0 \<le> k then d * b ^ nat k else d)
     in (num div den, num mod den, den))"

section \<open>Reading\<close>

text \<open>The bits of the nearest magnitude: the mantissa in units of \<open>2 ^ e\<close>, rounded, with the exponent field
  above it; a carry out of the mantissa moves into that field.\<close>

definition doubleBits :: "nat \<Rightarrow> nat \<Rightarrow> nat option" where
  "doubleBits n d =
    (if n = 0 then Some 0
     else let e = max (expOf 2 n d - 52) (- 1074) in
       case inUnits 2 e n d of (q, r, den) \<Rightarrow>
         let m = (if 2 * r > den \<or> 2 * r = den \<and> odd q then q + 1 else q); bits = m + nat (e + 1074) * 2 ^ 52
         in if bits < 2047 * 2 ^ 52 then Some bits else None)"

definition digitsNat :: "string \<Rightarrow> nat" where
  "digitsNat ds = foldl (\<lambda>a c. 10 * a + (cval c - 48)) 0 ds"

definition expPart :: "string \<Rightarrow> int" where
  "expPart s =
    (case s of [] \<Rightarrow> 0
     | _ # t \<Rightarrow> (case lexSign t of (sg, ds) \<Rightarrow> if sg = ''-'' then - int (digitsNat ds) else int (digitsNat ds)))"

definition parseFloat :: "string \<Rightarrow> 64 word option" where
  "parseFloat s =
    (let neg = hasPrefix s ''-''; body = (if neg then drop 1 s else s);
         ip = takeWhile isDecDigit body; r1 = dropWhile isDecDigit body;
         fp = (if hasPrefix r1 ''.'' then takeWhile isDecDigit (drop 1 r1) else []);
         r2 = (if hasPrefix r1 ''.'' then dropWhile isDecDigit (drop 1 r1) else r1);
         n = digitsNat (ip @ fp); x = expPart r2 - int (length fp)
     in map_option (\<lambda>b. word_of_nat (b + (if neg then 2 ^ 63 else 0)))
          (if 0 \<le> x then doubleBits (n * 10 ^ nat x) 1 else doubleBits n (10 ^ nat (- x))))"

definition decFloat :: "json list \<Rightarrow> 64 word res" where
  "decFloat vs = foldM (\<lambda>acc v. case v of
      JNum s \<Rightarrow> (case parseFloat s of Some x \<Rightarrow> Inr x | None \<Rightarrow> Inl errUnmarshal)
    | JNull \<Rightarrow> Inr acc | _ \<Rightarrow> Inl errUnmarshal) 0 vs"

text \<open>Into a \<open>*float64\<close>: null resets the pointer.\<close>

definition decPtrFloat :: "json list \<Rightarrow> 64 word option res" where
  "decPtrFloat vs = foldM (\<lambda>acc v. case v of
      JNum s \<Rightarrow> (case parseFloat s of Some x \<Rightarrow> Inr (Some x) | None \<Rightarrow> Inl errUnmarshal)
    | JNull \<Rightarrow> Inr None | _ \<Rightarrow> Inl errUnmarshal) None vs"

section \<open>Printing\<close>

fun stripZeros :: "nat \<Rightarrow> int \<Rightarrow> nat \<times> int" where
  "stripZeros c p = (if c \<noteq> 0 \<and> c mod 10 = 0 then stripZeros (c div 10) (p + 1) else (c, p))"

declare stripZeros.simps [simp del]

text \<open>The last \<open>k\<close> digits of a number, and the digits before and after the decimal point.\<close>

definition padDec :: "nat \<Rightarrow> nat \<Rightarrow> string" where
  "padDec k n = (let t = natDec n in replicate (k - length t) CHR ''0'' @ t)"

definition pointText :: "nat \<Rightarrow> nat \<Rightarrow> string" where
  "pointText c k = natDec (c div 10 ^ k) @ (if k = 0 then [] else CHR ''.'' # padDec k (c mod 10 ^ k))"

definition decimalText :: "nat \<Rightarrow> int \<Rightarrow> string" where
  "decimalText c0 p0 =
    (case stripZeros c0 p0 of (c, p) \<Rightarrow>
     let digits = length (natDec c); x = int digits - 1 + p in
     if x < - 6 \<or> 21 \<le> x
     then pointText c (digits - 1) @ (if x < 0 then ''e-'' else ''e+'') @ natDec (nat \<bar>x\<bar>)
     else if 0 \<le> p then natDec (c * 10 ^ nat p) else pointText c (nat (- p)))"

text \<open>The magnitude as a fraction.\<close>

definition doubleFraction :: "nat \<Rightarrow> nat \<times> nat" where
  "doubleFraction b =
    (let m = b mod 2 ^ 52 + (if b div 2 ^ 52 = 0 then 0 else 2 ^ 52); e = int (max 1 (b div 2 ^ 52)) - 1075
     in if 0 \<le> e then (m * 2 ^ nat e, 1) else (m, 2 ^ nat (- e)))"

text \<open>The decimals of \<open>k\<close> digits next to a value, the nearer one first.\<close>

definition decimalsNear :: "nat \<times> nat \<Rightarrow> nat \<Rightarrow> (nat \<times> int) list" where
  "decimalsNear v k =
    (case v of (n, d) \<Rightarrow>
     let p = expOf 10 n d + 1 - int k in
     case inUnits 10 p n d of (f, r, den) \<Rightarrow>
       if 2 * r < den \<or> 2 * r = den \<and> even f then [(f, p), (f + 1, p)] else [(f + 1, p), (f, p)])"

definition floatText :: "64 word \<Rightarrow> string option" where
  "floatText w =
    (let b = unat w mod 2 ^ 63; sign = (if unat w < 2 ^ 63 then [] else ''-'') in
     if b \<ge> 2047 * 2 ^ 52 then None
     else if b = 0 then Some (sign @ ''0'')
     else find (\<lambda>t. parseFloat t = Some w)
       (map (\<lambda>(c, p). sign @ decimalText c p) (concat (map (decimalsNear (doubleFraction b)) [1..<18]))))"

section \<open>Printed decimals\<close>

lemma padDec_digits: "list_all isDecDigit (padDec k n) \<and> padDec k n \<noteq> []"
  using natDec_digits [of n] by (auto simp: padDec_def Let_def list_all_iff charclass_defs)

lemma natDec_length: "n < 10 \<Longrightarrow> length (natDec n) = 1"
  by (simp add: natDec.simps [of n])

text \<open>The scanner reads a printed decimal to its end.\<close>

lemma span_digits:
  assumes "list_all isDecDigit ds" "r = [] \<or> \<not> isDecDigit (hd r)"
  shows "takeWhile isDecDigit (ds @ r) = ds" "dropWhile isDecDigit (ds @ r) = r"
proof -
  have a: "\<And>c. c \<in> set ds \<Longrightarrow> isDecDigit c" using assms(1) by (auto simp: list_all_iff)
  have b: "takeWhile isDecDigit r = []" "dropWhile isDecDigit r = r" using assms(2) by (cases r; auto)+
  show "takeWhile isDecDigit (ds @ r) = ds" using a b by (simp add: takeWhile_append2)
  show "dropWhile isDecDigit (ds @ r) = r" using a b by (simp add: dropWhile_append2)
qed

lemma lexIntPart_natDec:
  assumes "r = [] \<or> \<not> isDecDigit (hd r)"
  shows "lexIntPart (natDec n @ r) = Some (natDec n, r)"
proof -
  obtain c t where ct: "natDec n = c # t" and d: "list_all isDecDigit (c # t)"
    using natDec_digits [of n] by (cases "natDec n") auto
  have z: "c = CHR ''0'' \<Longrightarrow> t = []"
    using natDec_head [of n] natDec_zero ct by (cases "n = 0") auto
  from span_digits [OF d assms] have "spanDigits (c # t @ r) = (c # t, r)" by (simp add: spanDigits_def)
  then show ?thesis using z d unfolding ct by (auto simp: lexIntPart_def)
qed

lemma lexFrac_digits:
  assumes "list_all isDecDigit ds" "ds \<noteq> []" "r = [] \<or> \<not> isDecDigit (hd r)"
  shows "lexFrac (CHR ''.'' # ds @ r) = Some (CHR ''.'' # ds, r)"
  using span_digits [OF assms(1,3)] assms(2) by (simp add: lexFrac_def spanDigits_def)

lemma digit_chars: "\<not> isDecDigit CHR ''.''" "\<not> isDecDigit CHR ''e''" "\<not> isDecDigit CHR ''-''" "\<not> isDecDigit CHR ''+''"
  by code_simp+

definition expText :: "string \<Rightarrow> bool" where
  "expText r \<longleftrightarrow> r = [] \<or> (\<exists>sg n. r = CHR ''e'' # sg # natDec n \<and> sg \<in> {CHR ''+'', CHR ''-''})"

lemma lexExp_text: "expText r \<Longrightarrow> lexExp r = Some (r, [])"
proof -
  have s: "spanDigits (natDec n) = (natDec n, [])" for n
    using span_digits [of "natDec n" "[]"] natDec_digits [of n] by (simp add: spanDigits_def)
  show "expText r \<Longrightarrow> ?thesis"
    using natDec_digits by (auto simp: expText_def lexExp_def lexSign_def s)
qed

lemma pointText_lex:
  assumes "expText r"
  shows "\<exists>fp. lexIntPart (pointText c k @ r) = Some (natDec (c div 10 ^ k), fp @ r) \<and> lexFrac (fp @ r) = Some (fp, r) \<and>
     pointText c k = natDec (c div 10 ^ k) @ fp \<and> (fp = [] \<or> hd fp = CHR ''.'')"
proof -
  let ?fp = "if k = 0 then [] else CHR ''.'' # padDec k (c mod 10 ^ k)"
  have r: "r = [] \<or> \<not> isDecDigit (hd r)" "\<not> (\<exists>x. r = CHR ''.'' # x)" using assms digit_chars by (auto simp: expText_def)
  have "lexFrac (?fp @ r) = Some (?fp, r)"
    using lexFrac_digits [OF _ _ r(1)] padDec_digits r(2) by (cases r) (auto simp: lexFrac_def)
  moreover have "?fp @ r = [] \<or> \<not> isDecDigit (hd (?fp @ r))" using r digit_chars by auto
  then have "lexIntPart (natDec (c div 10 ^ k) @ ?fp @ r) = Some (natDec (c div 10 ^ k), ?fp @ r)" by (rule lexIntPart_natDec)
  ultimately show ?thesis by (intro exI [of _ ?fp]) (simp add: pointText_def)
qed

lemma find_SomeD: "find P xs = Some x \<Longrightarrow> P x \<and> x \<in> set xs"
  by (induction xs) (auto split: if_split_asm)

text \<open>A number literal that consists of an optional minus and a printed decimal.\<close>

lemma unsigned_head: "natDec n @ t = c # s \<Longrightarrow> c \<noteq> CHR ''-''"
  using natDec_digits [of n] digit_chars(3) by (cases "natDec n") auto

lemma pointText_number:
  assumes "expText r" "sg = [] \<or> sg = ''-''"
  shows "lexNumber (sg @ pointText c k @ r) = Some (sg @ pointText c k @ r, [])"
proof -
  obtain fp where f: "lexIntPart (pointText c k @ r) = Some (natDec (c div 10 ^ k), fp @ r)" "lexFrac (fp @ r) = Some (fp, r)"
     "pointText c k = natDec (c div 10 ^ k) @ fp" using pointText_lex [OF assms(1)] by metis
  have "\<not> hasPrefix (pointText c k @ r) ''-''"
    using unsigned_head [of "c div 10 ^ k" "fp @ r"] unfolding f(3) by (cases "natDec (c div 10 ^ k) @ fp @ r") (auto simp: hasPrefix_def)
  then have "(if hasPrefix (sg @ pointText c k @ r) ''-'' then (''-'', drop 1 (sg @ pointText c k @ r)) else ([], sg @ pointText c k @ r)) =
      (sg, pointText c k @ r)"
    using assms(2) by (auto simp: hasPrefix_def)
  then show ?thesis unfolding lexNumber_def using f(1,2) lexExp_text [OF assms(1)] by (simp add: f(3))
qed

lemma natDec_pointText: "natDec n = pointText n 0" by (simp add: pointText_def)

lemma decimalText_shape: "\<exists>c' k r. decimalText c p = pointText c' k @ r \<and> expText r"
proof -
  obtain c1 p1 where s: "stripZeros c p = (c1, p1)" by fastforce
  have e: "expText ((if b then ''e-'' else ''e+'') @ natDec n)" "expText []" for b n by (auto simp: expText_def)
  then show ?thesis unfolding decimalText_def s prod.case Let_def natDec_pointText [of "c1 * _"] by (metis append_assoc append_Nil2)
qed

lemma floatText_number:
  assumes "floatText w = Some t"
  shows "lexNumber t = Some (t, []) \<and> parseFloat t = Some w"
proof (cases "unat w mod 2 ^ 63 = 0")
  case True
  then have t: "t = (if unat w < 2 ^ 63 then [] else ''-'') @ ''0''" using assms by (simp add: floatText_def)
  have "unat w < 2 ^ 64" using unsigned_less [of w] by simp
  moreover obtain k where k: "unat w = 2 ^ 63 * k" using True by auto
  ultimately have "k = 0 \<or> k = 1" by auto
  then have w: "unat w = 0 \<or> unat w = 2 ^ 63" using k by auto
  have n: "lexNumber ''0'' = Some (''0'', [])" "lexNumber ''-0'' = Some (''-0'', [])" by code_simp+
  have "parseFloat ''0'' = Some 0" "parseFloat ''-0'' = Some (word_of_nat (2 ^ 63))"
    by (simp_all add: parseFloat_def Let_def digitsNat_def expPart_def doubleBits_def charclass_defs hasPrefix_def)
  note z = this n
  from w show ?thesis
  proof (elim disjE)
    assume u: "unat w = 0"
    then have "w = 0" by (simp add: unat_eq_zero)
    moreover have "t = ''0''" unfolding t u by simp
    ultimately show ?thesis using z by simp
  next
    assume u: "unat w = 2 ^ 63"
    have "word_of_nat (unat w) = w" by simp
    from this [unfolded u] have "w = word_of_nat (2 ^ 63)" by (rule sym)
    moreover have "t = ''-0''" unfolding t u by simp
    ultimately show ?thesis using z by (simp only: simp_thms)
  qed
next
  case False
  let ?sg = "if unat w < 2 ^ 63 then [] else ''-''"
  let ?ds = "concat (map (decimalsNear (doubleFraction (unat w mod 2 ^ 63))) [1..<18])"
  have "find (\<lambda>t. parseFloat t = Some w) (map (\<lambda>(c, p). ?sg @ decimalText c p) ?ds) = Some t"
    using assms False by (simp add: floatText_def Let_def split: if_split_asm)
  from find_SomeD [OF this] have t1: "parseFloat t = Some w" and "t \<in> (\<lambda>(c, p). ?sg @ decimalText c p) ` set ?ds"
    by (simp_all only: set_map)
  then obtain c p where t2: "t = ?sg @ decimalText c p" by (auto simp only: image_iff split: prod.splits)
  obtain c' k r where "decimalText c p = pointText c' k @ r" "expText r" using decimalText_shape by blast
  then have "lexNumber t = Some (t, [])" using pointText_number [of r ?sg c' k] t2 by simp
  then show ?thesis using t1 by simp
qed

end
