(* ===== verification/Canonical_Numbers.thy ===== *)
theory Canonical_Numbers
  imports Canonical Go_Float
begin

text \<open>
  What RFC 8785 does to the numbers, booleans and nulls of a document, as a contract of the canonicalizer besides
  \<open>jcsLaws\<close>, and a canonicalizer that rewrites every number literal this way and satisfies both: -1e-999, which is
  strict JSON and reads as the negative zero, becomes 0, and 1.50 becomes 1.5.
\<close>

section \<open>The contract\<close>

definition negativeZero :: "64 word" where "negativeZero = word_of_nat (2 ^ 63)"

text \<open>The negative zero is printed as 0, and so reads back as the other zero.\<close>

definition unsignZero :: "64 word \<Rightarrow> 64 word" where
  "unsignZero w = (if w = negativeZero then 0 else w)"

text \<open>Null and booleans stay; a number is rewritten to a text of the float64 it reads as, the sign of a zero apart, which
  is the number itself for an integer up to \<open>2 ^ 53\<close>.\<close>

definition nfScalars :: "(json \<Rightarrow> json) \<Rightarrow> bool" where
  "nfScalars nf \<longleftrightarrow> nf JNull = JNull \<and> (\<forall>b. nf (JBool b) = JBool b) \<and>
     (\<forall>i. \<bar>i\<bar> \<le> 2 ^ 53 \<longrightarrow> nf (JNum (intDec i)) = JNum (intDec i)) \<and>
     (\<forall>s w. parseFloat s = Some w \<longrightarrow> (\<exists>s'. nf (JNum s) = JNum s' \<and> parseFloat s' = Some (unsignZero w)))"

section \<open>The literals of a negative zero\<close>

lemma digitsNat_zeros: "list_all (\<lambda>c. c = CHR ''0'') ds \<Longrightarrow> digitsNat ds = 0"
proof -
  have "list_all (\<lambda>c. c = CHR ''0'') ds \<Longrightarrow> foldl (\<lambda>a c. 10 * a + (cval c - 48)) 0 ds = (0 :: nat)"
    by (induction ds) (auto simp: charclass_defs)
  then show "list_all (\<lambda>c. c = CHR ''0'') ds \<Longrightarrow> ?thesis" by (simp add: digitsNat_def)
qed

lemma exponent_head: "dropWhile (\<lambda>c. c \<notin> set ''eE'') s = c # r \<Longrightarrow> \<not> isDecDigit c \<and> c \<noteq> CHR ''.''"
proof -
  assume "dropWhile (\<lambda>c. c \<notin> set ''eE'') s = c # r"
  then have "c \<in> set ''eE''" by (simp add: dropWhile_eq_Cons_conv)
  moreover have "\<not> isDecDigit CHR ''e''" "\<not> isDecDigit CHR ''E''" by code_simp+
  ultimately show ?thesis by auto
qed

lemma negative_zero_literal:
  assumes "isNegativeZero s"
  shows "parseFloat s = Some negativeZero"
proof -
  obtain s1 where s: "s = CHR ''-'' # s1" using assms by (cases s) (auto simp: isNegativeZero_def hasPrefix_def split: if_split_asm)
  define m where "m = takeWhile (\<lambda>c. c \<notin> set ''eE'') s1"
  define r where "r = dropWhile (\<lambda>c. c \<notin> set ''eE'') s1"
  have s1: "s1 = m @ r" by (simp add: m_def r_def)
  have r: "r = [] \<or> \<not> isDecDigit (hd r) \<and> hd r \<noteq> CHR ''.''" using exponent_head [of s1] by (cases r) (auto simp: r_def)
  have neg: "isNegativeZero s \<longleftrightarrow> (if hasPrefix m ''0.'' then drop 2 m \<noteq> [] \<and> list_all (\<lambda>c. c = CHR ''0'') (drop 2 m) else m = ''0'')"
    by (simp add: isNegativeZero_def s hasPrefix_def m_def Let_def)
  have "m = ''0'' \<or> (\<exists>zs. m = ''0.'' @ zs \<and> list_all (\<lambda>c. c = CHR ''0'') zs)"
  proof (cases "hasPrefix m ''0.''")
    case True
    then have "m = ''0.'' @ drop 2 m" by (cases m rule: list.exhaust [case_names Nil Cons]; cases "tl m") (auto simp: hasPrefix_def)
    moreover have "list_all (\<lambda>c. c = CHR ''0'') (drop 2 m)"
      using assms True unfolding neg by simp
    ultimately show ?thesis by blast
  next
    case False
    then show ?thesis using assms unfolding neg by simp
  qed
  then obtain fp where m: "m = CHR ''0'' # fp" and fp: "fp = [] \<or> (\<exists>zs. fp = CHR ''.'' # zs \<and> list_all (\<lambda>c. c = CHR ''0'') zs)" by auto
  have d0: "isDecDigit CHR ''0''" by code_simp
  have fr: "fp @ r = [] \<or> \<not> isDecDigit (hd (fp @ r))" using r fp digit_chars(1) by auto
  have i: "takeWhile isDecDigit s1 = ''0''" "dropWhile isDecDigit s1 = fp @ r"
    using span_digits [of "''0''" "fp @ r"] fr d0 by (simp_all add: s1 m)
  have z: "digitsNat (''0'' @ (if hasPrefix (fp @ r) ''.'' then takeWhile isDecDigit (drop 1 (fp @ r)) else [])) = 0"
  proof (cases "fp = []")
    case True
    have "\<not> hasPrefix r ''.''" using r by (cases r) (auto simp: hasPrefix_def)
    then show ?thesis using True digitsNat_zeros [of "''0''"] by simp
  next
    case False
    then obtain zs where zs: "fp = CHR ''.'' # zs" "list_all (\<lambda>c. c = CHR ''0'') zs" using fp by auto
    have "list_all isDecDigit zs" by (rule list.pred_mono_strong [OF zs(2)]) (simp only: d0)
    moreover have "r = [] \<or> \<not> isDecDigit (hd r)" using r by blast
    ultimately have "takeWhile isDecDigit (zs @ r) = zs" by (rule span_digits(1))
    moreover have "digitsNat (''0'' @ zs) = 0" by (rule digitsNat_zeros) (use zs(2) in simp)
    moreover have "hasPrefix (fp @ r) ''.''" "drop 1 (fp @ r) = zs @ r" by (simp_all add: zs(1) hasPrefix_def)
    ultimately show ?thesis by simp
  qed
  have "hasPrefix s ''-''" "drop 1 s = s1" by (simp_all add: s hasPrefix_def)
  then show ?thesis unfolding parseFloat_def Let_def by (simp only: if_True i z) (simp add: doubleBits_def negativeZero_def)
qed

section \<open>A canonicalizer that rewrites numbers\<close>

text \<open>Integers a float64 holds exactly are their own text; every other literal becomes the shortest text of its value.\<close>

definition safeInteger :: "string \<Rightarrow> bool" where
  "safeInteger s = (case parseIntLit s of None \<Rightarrow> False | Some i \<Rightarrow> \<bar>i\<bar> \<le> 2 ^ 53 \<and> s = intDec i)"

definition canonicalNumber :: "string \<Rightarrow> string" where
  "canonicalNumber s =
    (if safeInteger s then s else case parseFloat s of None \<Rightarrow> s
     | Some w \<Rightarrow> (case floatText (unsignZero w) of None \<Rightarrow> s | Some t \<Rightarrow> t))"

fun numbersBy :: "(string \<Rightarrow> string) \<Rightarrow> json \<Rightarrow> json" where
  "numbersBy f (JNum s) = JNum (f s)"
| "numbersBy f (JArr vs) = JArr (map (numbersBy f) vs)"
| "numbersBy f (JObj ms) = JObj (map (\<lambda>(k, v). (k, numbersBy f v)) ms)"
| "numbersBy f v = v"

definition rfcJson :: "json \<Rightarrow> json" where
  "rfcJson v = sortJson (numbersBy canonicalNumber v)"

definition rfcJcs :: "string \<Rightarrow> string res" where
  "rfcJcs raw = (case jsonUnmarshal raw of Some v \<Rightarrow> Inr (render (rfcJson v)) | None \<Rightarrow> Inl (ErrNew ''invalid''))"

section \<open>Integer literals\<close>

lemma digitsNat_natDec: "digitsNat (natDec n) = n"
proof -
  have "int (foldl (\<lambda>a c. 10 * a + (cval c - 48)) k ds) = foldl (\<lambda>a c. 10 * a + int (cval c - 48)) (int k) ds" for k ds
    by (induction ds arbitrary: k) simp_all
  from this [of 0 "natDec n"] show ?thesis using natDec_value [of n] by (simp add: digitsNat_def)
qed

lemma parseFloat_intDec:
  "parseFloat (intDec i) = map_option (\<lambda>b. word_of_nat (b + (if i < 0 then 2 ^ 63 else 0))) (doubleBits (nat \<bar>i\<bar>) 1)"
proof -
  have d: "list_all isDecDigit (natDec n)" for n using natDec_digits [of n] by blast
  have s: "takeWhile isDecDigit (natDec n) = natDec n" "dropWhile isDecDigit (natDec n) = []" for n
    using span_digits [OF d, of "[]" n] by simp_all
  have p: "\<not> hasPrefix (natDec n) ''-''" for n
    using unsigned_head [of n "[]"] by (cases "natDec n") (auto simp: hasPrefix_def)
  show ?thesis
  proof (cases "i < 0")
    case True
    then show ?thesis by (simp add: parseFloat_def intDec_def hasPrefix_def Let_def s digitsNat_natDec expPart_def)
  next
    case False
    then show ?thesis using p by (simp add: parseFloat_def intDec_def Let_def s digitsNat_natDec expPart_def hasPrefix_def)
  qed
qed

lemma doubleBits_bound: "doubleBits n d = Some b \<Longrightarrow> b < 2047 * 2 ^ 52"
  by (auto simp: doubleBits_def Let_def split: if_split_asm prod.splits)

lemma doubleBits_positive:
  assumes "0 < n" "doubleBits n 1 = Some b"
  shows "0 < b"
proof -
  have "1 \<le> floorlog 2 n" using assms(1) by (simp add: floorlog_def)
  moreover have "floorlog 2 1 = 1" by (simp add: floorlog_def)
  moreover have "1 \<le> floorlog 2 n \<Longrightarrow> floorlog 2 n = 1 \<or> 2 \<le> floorlog 2 n" by linarith
  ultimately have "0 \<le> expOf 2 n 1" using assms(1) by (auto simp: expOf_def Let_def atLeastPow_def)
  then have "0 < nat (max (expOf 2 n 1 - 52) (- 1074) + 1074)" by auto
  then show ?thesis using assms by (auto simp: doubleBits_def Let_def split: if_split_asm prod.splits)
qed

lemma unat_small: "n < 2 ^ 64 \<Longrightarrow> unat (word_of_nat n :: 64 word) = n"
  by (simp add: unat_of_nat take_bit_nat_eq_self)

lemma unsigned_not_negative: "b < 2 ^ 63 \<Longrightarrow> word_of_nat b \<noteq> negativeZero"
proof
  assume b: "b < 2 ^ 63" and e: "word_of_nat b = negativeZero"
  have "unat (word_of_nat b :: 64 word) = b" using b by (simp add: unat_of_nat take_bit_nat_eq_self)
  moreover have "unat negativeZero = 2 ^ 63" by (simp add: negativeZero_def)
  ultimately show False using b e by simp
qed

lemma integer_not_negative: "parseFloat (intDec i) \<noteq> Some negativeZero"
proof
  assume "parseFloat (intDec i) = Some negativeZero"
  then obtain b where b: "doubleBits (nat \<bar>i\<bar>) 1 = Some b" "word_of_nat (b + (if i < 0 then 2 ^ 63 else 0)) = negativeZero"
    by (auto simp: parseFloat_intDec)
  have lt: "b < 2 ^ 63" using doubleBits_bound [OF b(1)] by simp
  show False
  proof (cases "i < 0")
    case True
    have "unat (word_of_nat (b + 2 ^ 63) :: 64 word) = b + 2 ^ 63" by (rule unat_small) (use lt in simp)
    moreover have "unat negativeZero = 2 ^ 63" by (simp add: negativeZero_def)
    moreover have "word_of_nat (b + 2 ^ 63) = negativeZero" using b(2) True by simp
    ultimately have "b = 0" by simp
    then show False using doubleBits_positive [OF _ b(1)] True by simp
  next
    case False
    then show False using b(2) unsigned_not_negative [OF lt] by simp
  qed
qed

section \<open>The canonicalizer satisfies the contract\<close>

lemma unsignZero_simps: "unsignZero (unsignZero w) = unsignZero w" "unsignZero w \<noteq> negativeZero"
proof -
  have "unat (0 :: 64 word) \<noteq> unat negativeZero" by (simp add: negativeZero_def)
  then have "negativeZero \<noteq> 0" by metis
  then show "unsignZero (unsignZero w) = unsignZero w" "unsignZero w \<noteq> negativeZero" by (simp_all add: unsignZero_def)
qed

lemma floatText_zero: "floatText 0 = Some ''0''"
  by (simp add: floatText_def)

text \<open>A literal is kept, or it becomes the text of its value.\<close>

lemma canonicalNumber_cases:
  obtains (kept) "canonicalNumber s = s" "parseFloat s \<noteq> Some negativeZero"
  | (printed) w where "parseFloat s = Some w" "floatText (unsignZero w) = Some (canonicalNumber s)"
proof (cases "safeInteger s")
  case True
  then obtain i where "s = intDec i" by (auto simp: safeInteger_def split: option.split_asm)
  then show thesis using kept True integer_not_negative [of i] by (simp add: canonicalNumber_def)
next
  case False
  then show thesis
    using kept printed floatText_zero
    by (cases "parseFloat s"; cases "floatText (unsignZero (the (parseFloat s)))")
      (auto simp: canonicalNumber_def unsignZero_def split: if_split_asm)
qed

lemma canonicalNumber_value:
  assumes "parseFloat s = Some w"
  shows "parseFloat (canonicalNumber s) = Some (unsignZero w)"
proof (cases s rule: canonicalNumber_cases)
  case kept
  then show ?thesis using assms by (simp add: unsignZero_def)
next
  case (printed v)
  then show ?thesis using assms floatText_number by simp
qed

lemma canonicalNumber_idem: "canonicalNumber (canonicalNumber s) = canonicalNumber s"
proof (cases s rule: canonicalNumber_cases)
  case (printed w)
  then show ?thesis
    using canonicalNumber_value [OF printed(1)] by (simp add: canonicalNumber_def [of "canonicalNumber s"] unsignZero_simps)
qed simp

lemma canonicalNumber_lex: "lexNumber s = Some (s, []) \<Longrightarrow> lexNumber (canonicalNumber s) = Some (canonicalNumber s, [])"
  by (cases s rule: canonicalNumber_cases) (simp_all add: floatText_number)

lemma canonicalNumber_strict: "\<not> isNegativeZero (canonicalNumber s)"
proof (cases s rule: canonicalNumber_cases)
  case kept
  then show ?thesis using negative_zero_literal [of s] by auto
next
  case (printed w)
  then show ?thesis using negative_zero_literal [of "canonicalNumber s"] canonicalNumber_value [OF printed(1)] unsignZero_simps(2) by auto
qed

lemma numbersBy_sort: "numbersBy f (sortJson v) = sortJson (numbersBy f v)"
proof (induction v)
  case (JObj ms)
  have "map (\<lambda>(k, v). (k, numbersBy f v)) (map (\<lambda>(k, v). (k, sortJson v)) ms) =
      map (\<lambda>(k, v). (k, sortJson v)) (map (\<lambda>(k, v). (k, numbersBy f v)) ms)"
    using JObj by (force simp: snds.simps)
  then show ?case by (simp only: numbersBy.simps sortJson.simps sort_key_map_value [symmetric])
qed auto

lemma numbersBy_idem: "(\<And>s. f (f s) = f s) \<Longrightarrow> numbersBy f (numbersBy f v) = numbersBy f v"
  by (induction v) (force simp: snds.simps)+

lemma rfcJson_idem: "rfcJson (rfcJson v) = rfcJson v"
  by (simp add: rfcJson_def numbersBy_sort numbersBy_idem canonicalNumber_idem sortJson_idem)

lemma rfc_structure: "nfStructure rfcJson"
  by (rule sorting_structure) (simp_all add: rfcJson_idem, simp_all add: rfcJson_def comp_def case_prod_unfold)

lemma rfc_scalars: "nfScalars rfcJson"
proof -
  have "canonicalNumber (intDec i) = intDec i" if "\<bar>i\<bar> \<le> 2 ^ 53" for i
  proof -
    have "decInt64 [JNum (intDec i)] = Inr i" by (rule decInt64_intDec) (use that in \<open>simp_all add: abs_le_iff\<close>)
    then have "parseIntLit (intDec i) = Some i" by (auto simp: decInt64_def split: option.split_asm if_split_asm)
    then show ?thesis using that by (simp add: canonicalNumber_def safeInteger_def)
  qed
  then show ?thesis using canonicalNumber_value by (simp add: nfScalars_def rfcJson_def)
qed

lemma numbersBy_keeps:
  "wfJson v \<Longrightarrow> wfJson (numbersBy canonicalNumber v)" "textJson v \<Longrightarrow> textJson (numbersBy f v)"
  by (induction v) (auto simp: canonicalNumber_lex snds.simps)

lemma numbersBy_tree: "strictTree k v \<Longrightarrow> strictTree k (numbersBy canonicalNumber v)"
proof (induction v arbitrary: k)
  case (JObj ms)
  have "map fst (map (\<lambda>(k, v). (k, numbersBy canonicalNumber v)) ms) = map fst ms" by (simp add: case_prod_beta)
  then show ?case using JObj by (auto simp del: map_map simp: snds.simps)
qed (auto simp: canonicalNumber_strict)

lemma rfc_prints: "strictText raw v \<Longrightarrow> strictText (render (rfcJson v)) (rfcJson v)"
  unfolding rfcJson_def
  by (intro strictText_render sortJson_wf sortJson_text sortJson_tree numbersBy_keeps numbersBy_tree) (auto dest: strictText_parts)

lemma rfcJcs_laws: "jcsLaws rfcJcs rfcJson"
  unfolding jcsLaws_def jcsOutput_def jcsDetermined_def jcsPrinted_def
proof (intro conjI allI impI rfc_structure; elim conjE)
  fix raw v out
  assume r: "strictText raw v" "rfcJcs raw = Inr out"
  then have o: "out = render (rfcJson v)" by (simp add: rfcJcs_def strictText_def)
  show "strictText out (rfcJson v)" unfolding o by (rule rfc_prints [OF r(1)])
  then show "rfcJcs out = Inr out" by (simp add: rfcJcs_def strictText_def rfcJson_idem o)
next
  fix raw raw' v v' out out'
  assume "strictText raw v" "strictText raw' v'" "rfcJson v = rfcJson v'" "rfcJcs raw = Inr out" "rfcJcs raw' = Inr out'"
  then show "out = out'" by (simp add: rfcJcs_def strictText_def)
next
  fix w
  assume "strictText (marshalAny w) (sortJson w)"
  then show "is_ok (rfcJcs (marshalAny w))" by (simp add: rfcJcs_def strictText_def)
qed

end
