(* ===== verification/Go_Std.thy ===== *)
theory Go_Std
  imports Go_Json
begin

text \<open>
  The parts of the Go packages time and encoding/base64 that the program calls:
  \<open>time.Parse(time.RFC3339, s)\<close> with the leniencies of the layout parser, and the decoders of
  \<open>RawStdEncoding\<close> and \<open>StdEncoding\<close>. An instant is the number of nanoseconds since
  January 1 of year 1, UTC, so \<open>IsZero\<close> is \<open>= 0\<close>, \<open>Before\<close> is \<open><\<close>.
\<close>

section \<open>Calendar\<close>

definition isLeap :: "int \<Rightarrow> bool" where
  "isLeap y = (y mod 4 = 0 \<and> (y mod 100 \<noteq> 0 \<or> y mod 400 = 0))"

definition daysIn :: "int \<Rightarrow> int \<Rightarrow> int" where
  "daysIn m y = (if m = 2 then (if isLeap y then 29 else 28)
                 else if m = 4 \<or> m = 6 \<or> m = 9 \<or> m = 11 then 30 else 31)"

definition daysBeforeMonth :: "int \<Rightarrow> int \<Rightarrow> int" where
  "daysBeforeMonth m y = sum_list (map (\<lambda>k. daysIn (int k) y) [1..<nat m])"

text \<open>Days from January 1 of year 1; division rounds down, so year 0 counts backwards.\<close>

definition daysBeforeYear :: "int \<Rightarrow> int" where
  "daysBeforeYear y = 365 * (y - 1) + (y - 1) div 4 - (y - 1) div 100 + (y - 1) div 400"

definition unixLike :: "int \<Rightarrow> int \<Rightarrow> int \<Rightarrow> int \<Rightarrow> int \<Rightarrow> int \<Rightarrow> int" where
  "unixLike y mo d h mi s =
    (((daysBeforeYear y + daysBeforeMonth mo y + d - 1) * 24 + h) * 60 + mi) * 60 + s"

section \<open>time.Parse\<close>

definition digitVal :: "char \<Rightarrow> int" where
  "digitVal c = int (cval c) - 48"

definition atoiDigits :: "string \<Rightarrow> int" where
  "atoiDigits ds = foldl (\<lambda>a c. 10 * a + digitVal c) 0 ds"

text \<open>\<open>getnum\<close>: one or two digits; \<open>fixed\<close> insists on two.\<close>

definition getnum :: "bool \<Rightarrow> string \<Rightarrow> (int \<times> string) option" where
  "getnum fixed s =
    (case s of
       [] \<Rightarrow> None
     | a # r \<Rightarrow>
         if \<not> isDecDigit a then None
         else (case r of
             b # r' \<Rightarrow> if isDecDigit b then Some (10 * digitVal a + digitVal b, r')
                       else if fixed then None else Some (digitVal a, r)
           | [] \<Rightarrow> if fixed then None else Some (digitVal a, r)))"

definition expectChar :: "char \<Rightarrow> string \<Rightarrow> string option" where
  "expectChar c s = (case s of x # r \<Rightarrow> if x = c then Some r else None | [] \<Rightarrow> None)"

definition getYear :: "string \<Rightarrow> (int \<times> string) option" where
  "getYear s = (if 4 \<le> length s \<and> list_all isDecDigit (take 4 s)
                then Some (atoiDigits (take 4 s), drop 4 s) else None)"

text \<open>A fraction after the seconds, with a dot or a comma, cut to nine digits.\<close>

definition getFraction :: "string \<Rightarrow> int \<times> string" where
  "getFraction s =
    (case s of
       p # d # r \<Rightarrow>
         if (p = CHR ''.'' \<or> p = CHR '','') \<and> isDecDigit d then
           (let ds = takeWhile isDecDigit (d # r); kept = take 9 ds
            in (atoiDigits kept * 10 ^ (9 - length kept), drop (length ds) (d # r)))
         else (0, s)
     | _ \<Rightarrow> (0, s))"

text \<open>The zone: \<open>Z\<close>, or a sign with hours up to 24 and minutes up to 60.\<close>

definition getZone :: "string \<Rightarrow> (int \<times> string) option" where
  "getZone s =
    (case s of
       [] \<Rightarrow> None
     | c # r \<Rightarrow>
         if c = CHR ''Z'' then Some (0, r)
         else if length s < 6 \<or> s ! 3 \<noteq> CHR '':'' then None
         else (case (getnum True (take 2 (drop 1 s)), getnum True (take 2 (drop 4 s))) of
             (Some (hr, _), Some (mm, _)) \<Rightarrow>
               if 24 < hr \<or> 60 < mm then None
               else if c = CHR ''+'' then Some ((hr * 60 + mm) * 60, drop 6 s)
               else if c = CHR ''-'' then Some (- ((hr * 60 + mm) * 60), drop 6 s)
               else None
           | _ \<Rightarrow> None))"

definition nanosPerSecond :: int where "nanosPerSecond = 1000000000"

definition bindO :: "'a option \<Rightarrow> ('a \<Rightarrow> 'b option) \<Rightarrow> 'b option" where
  "bindO x f = (case x of None \<Rightarrow> None | Some y \<Rightarrow> f y)"

definition getTwo :: "bool \<Rightarrow> int \<Rightarrow> int \<Rightarrow> string \<Rightarrow> (int \<times> string) option" where
  "getTwo fixed lo hi s = bindO (getnum fixed s) (\<lambda>(n, r). if lo \<le> n \<and> n \<le> hi then Some (n, r) else None)"

definition timeParse :: "string \<Rightarrow> int option" where
  "timeParse s =
    bindO (getYear s) (\<lambda>(y, s).
    bindO (expectChar CHR ''-'' s) (\<lambda>s.
    bindO (getTwo True 1 12 s) (\<lambda>(mo, s).
    bindO (expectChar CHR ''-'' s) (\<lambda>s.
    bindO (getnum True s) (\<lambda>(d, s).
    bindO (expectChar CHR ''T'' s) (\<lambda>s.
    bindO (getTwo False 0 23 s) (\<lambda>(h, s).
    bindO (expectChar CHR '':'' s) (\<lambda>s.
    bindO (getTwo True 0 59 s) (\<lambda>(mi, s).
    bindO (expectChar CHR '':'' s) (\<lambda>s.
    bindO (getTwo True 0 59 s) (\<lambda>(sec, s).
      case getFraction s of (nsec, s) \<Rightarrow>
    bindO (getZone s) (\<lambda>(off, s).
      if s \<noteq> [] \<or> d < 1 \<or> daysIn mo y < d then None
      else Some ((unixLike y mo d h mi sec - off) * nanosPerSecond + nsec)))))))))))))"

definition errTime :: goerr where "errTime = ErrNew ''parsing time''"

definition parseTime :: "string \<Rightarrow> int res" where
  "parseTime s = (case timeParse s of Some t \<Rightarrow> Inr t | None \<Rightarrow> Inl errTime)"

text \<open>\<open>t.Sub(u)\<close>: a 64-bit number of nanoseconds, saturating.\<close>

definition timeSub :: "int \<Rightarrow> int \<Rightarrow> int" where
  "timeSub t u = max (- (2 ^ 63)) (min (2 ^ 63 - 1) (t - u))"

section \<open>encoding/base64\<close>

definition base64Alphabet :: string where
  "base64Alphabet = ''ABCDEFGHIJKLMNOPQRSTUVWXYZabcdefghijklmnopqrstuvwxyz0123456789+/''"

definition base64Val :: "char \<Rightarrow> nat option" where
  "base64Val c = map_of (zip base64Alphabet [0..<64]) c"

fun base64Groups :: "nat list \<Rightarrow> string option" where
  "base64Groups [] = Some []"
| "base64Groups [a] = None"
| "base64Groups [a, b] = Some [char_of (a * 4 + b div 16)]"
| "base64Groups [a, b, c] = Some [char_of (a * 4 + b div 16), char_of (b mod 16 * 16 + c div 4)]"
| "base64Groups (a # b # c # d # r) =
    map_option (\<lambda>x. char_of (a * 4 + b div 16) # char_of (b mod 16 * 16 + c div 4)
                    # char_of (c mod 4 * 64 + d) # x) (base64Groups r)"

definition stripNewlines :: "string \<Rightarrow> string" where
  "stripNewlines s = filter (\<lambda>c. c \<noteq> CHR 0x0A \<and> c \<noteq> CHR 0x0D) s"

text \<open>Carriage returns and line feeds are skipped; unused bits of the last digit are ignored.\<close>

definition rawStdDecode :: "string \<Rightarrow> string option" where
  "rawStdDecode s =
    (let vs = map base64Val (stripNewlines s)
     in if None \<in> set vs then None else base64Groups (map the vs))"

definition stdDecode :: "string \<Rightarrow> string option" where
  "stdDecode s =
    (let t = stripNewlines s;
         body = takeWhile (\<lambda>c. c \<noteq> CHR ''='') t;
         pad = drop (length body) t
     in if length t mod 4 \<noteq> 0 \<or> (pad \<noteq> [] \<and> pad \<noteq> ''='' \<and> pad \<noteq> ''=='') then None
        else rawStdDecode body)"

definition base64Char :: "nat \<Rightarrow> char" where
  "base64Char n = base64Alphabet ! (n mod 64)"

fun rawStdEncode :: "string \<Rightarrow> string" where
  "rawStdEncode [] = []"
| "rawStdEncode [a] = (let x = cval a in [base64Char (x div 4), base64Char (x mod 4 * 16)])"
| "rawStdEncode [a, b] =
    (let x = cval a; y = cval b
     in [base64Char (x div 4), base64Char (x mod 4 * 16 + y div 16), base64Char (y mod 16 * 4)])"
| "rawStdEncode (a # b # c # r) =
    (let x = cval a; y = cval b; z = cval c
     in [base64Char (x div 4), base64Char (x mod 4 * 16 + y div 16),
         base64Char (y mod 16 * 4 + z div 64), base64Char (z mod 64)] @ rawStdEncode r)"

definition stdEncode :: "string \<Rightarrow> string" where
  "stdEncode s = (let e = rawStdEncode s in e @ replicate ((4 - length e mod 4) mod 4) CHR ''='')"

end
