(* ===== verification/Actor_Auth.thy ===== *)
theory Actor_Auth
  imports Canonical Go_Std
begin

text \<open>
  internal/actorauth: the actor-auth trust policy (\<open>ParsePolicyDocument\<close>) and the
  authentication and authorization of a signed request (\<open>AuthenticateAndAuthorize\<close>). The
  signature check \<open>ed25519.Verify\<close> is the parameter \<open>verifySig\<close> (public key, message, signature).
\<close>

section \<open>Data\<close>

definition actionPropose :: string where "actionPropose = ''propose''"
definition actionDecide :: string where "actionDecide = ''decide''"
definition actionOperate :: string where "actionOperate = ''operate''"

record requestContext =
  rcLedgerID :: string
  rcAction :: string
  rcTarget :: string
  rcExpectedState :: string
  rcIdempotencyKey :: string

record authProof =
  pfActorID :: string
  pfKeyID :: string
  pfIssuedAt :: string
  pfExpiresAt :: string
  pfContext :: requestContext
  pfSignature :: string

record keyBinding =
  kbActorID :: string
  kbKeyID :: string
  kbPublicKey :: string
  kbRevoked :: bool

record grant =
  gActorID :: string
  gLedgerID :: string
  gAction :: string
  gTarget :: string

record authPolicy =
  apKeys :: "keyBinding list"
  apGrants :: "grant list"
  apMaxProofLifetime :: int

record principal =
  prActorID :: string
  prKeyID :: string

section \<open>Authentication and authorization\<close>

definition authErr :: "string \<Rightarrow> goerr" where
  "authErr msg = Errorf (''AUTHENTICATION_FAILED: '' @ msg) []"

definition validAction :: "string \<Rightarrow> bool" where
  "validAction a = (a \<in> set [actionPropose, actionDecide, actionOperate])"

definition contextValidate :: "requestContext \<Rightarrow> unit res" where
  "contextValidate c =
    (if rcLedgerID c = [] \<or> rcTarget c = [] \<or> rcExpectedState c = [] \<or> rcIdempotencyKey c = []
     then Inl (Errorf ''AUTH_CONTEXT_INVALID: ledger_id, target, expected_state and idempotency_key are required'' [])
     else if \<not> validAction (rcAction c) then Inl (Errorf ''AUTH_CONTEXT_INVALID: unsupported action'' [])
     else Inr ())"

definition nul :: string where "nul = [CHR 0x00]"

definition validateAuthPolicy :: "authPolicy \<Rightarrow> unit res" where
  "validateAuthPolicy policy =
    (if apMaxProofLifetime policy \<le> 0
     then Inl (Errorf ''AUTH_POLICY_INVALID: max proof lifetime must be positive'' [])
     else andThen (foldM (\<lambda>seen key.
         if kbActorID key = [] \<or> kbKeyID key = [] \<or> length (kbPublicKey key) \<noteq> 32
         then Inl (Errorf ''AUTH_POLICY_INVALID: every key requires actor_id, key_id and an Ed25519 public key'' [])
         else let identity = kbActorID key @ nul @ kbKeyID key in
           if identity \<in> set seen then Inl (Errorf ''AUTH_POLICY_INVALID: duplicate actor/key binding'' [])
           else Inr (identity # seen)) [] (apKeys policy)) (\<lambda>_.
       checkAll (\<lambda>g.
         if gActorID g = [] \<or> gLedgerID g = [] \<or> gTarget g = [] \<or> \<not> validAction (gAction g)
         then Inl (Errorf ''AUTH_POLICY_INVALID: every grant requires actor_id, ledger_id, target and a supported action'' [])
         else Inr ()) (apGrants policy)))"

definition findKey :: "keyBinding list \<Rightarrow> string \<Rightarrow> string \<Rightarrow> keyBinding option" where
  "findKey keys actor key = find (\<lambda>k. kbActorID k = actor \<and> kbKeyID k = key) keys"

definition hasGrant :: "grant list \<Rightarrow> string \<Rightarrow> string \<Rightarrow> string \<Rightarrow> string \<Rightarrow> bool" where
  "hasGrant grants actor ledger action target =
    list_ex (\<lambda>g. gActorID g = actor \<and> gLedgerID g = ledger \<and> gAction g = action \<and> gTarget g = target) grants"

definition contextJson :: "requestContext \<Rightarrow> json" where
  "contextJson c = JObj
    [(''ledger_id'', JStr (rcLedgerID c)), (''action'', JStr (rcAction c)), (''target'', JStr (rcTarget c)),
     (''expected_state'', JStr (rcExpectedState c)), (''idempotency_key'', JStr (rcIdempotencyKey c))]"

definition proofJson :: "authProof \<Rightarrow> json" where
  "proofJson p = JObj
    [(''actor_id'', JStr (pfActorID p)), (''key_id'', JStr (pfKeyID p)), (''issued_at'', JStr (pfIssuedAt p)),
     (''expires_at'', JStr (pfExpiresAt p)), (''context'', contextJson (pfContext p)),
     (''signature'', JStr (pfSignature p))]"

definition signingBytes :: "(string \<Rightarrow> string res) \<Rightarrow> authProof \<Rightarrow> string res" where
  "signingBytes jcs p = canonicalize jcs (render (proofJson (p\<lparr>pfSignature := []\<rparr>)))"

definition authenticateAndAuthorize ::
  "(string \<Rightarrow> string res) \<Rightarrow> (string \<Rightarrow> string \<Rightarrow> string \<Rightarrow> bool) \<Rightarrow> authPolicy \<Rightarrow> authProof \<Rightarrow> requestContext
     \<Rightarrow> int \<Rightarrow> principal res" where
  "authenticateAndAuthorize jcs verifySig policy p expected now =
    andThen (validateAuthPolicy policy) (\<lambda>_.
    andThen (contextValidate expected) (\<lambda>_.
    if pfActorID p = [] \<or> pfKeyID p = [] \<or> pfSignature p = []
    then Inl (authErr ''actor_id, key_id and signature are required'')
    else if pfContext p \<noteq> expected
    then Inl (authErr ''signed request context does not match the operation'')
    else
    andThen (wrapw ''AUTHENTICATION_FAILED: issued_at'' (parseTime (pfIssuedAt p))) (\<lambda>issued.
    andThen (wrapw ''AUTHENTICATION_FAILED: expires_at'' (parseTime (pfExpiresAt p))) (\<lambda>expires.
    if \<not> issued < expires then Inl (authErr ''expires_at must be after issued_at'')
    else if apMaxProofLifetime policy < timeSub expires issued
    then Inl (authErr ''proof lifetime exceeds policy maximum'')
    else if now < issued \<or> \<not> now < expires then Inl (authErr ''proof is not currently valid'')
    else case findKey (apKeys policy) (pfActorID p) (pfKeyID p) of
      None \<Rightarrow> Inl (authErr ''actor key is not trusted'')
    | Some key \<Rightarrow>
       if kbRevoked key then Inl (authErr ''actor key is not trusted'')
       else case rawStdDecode (pfSignature p) of
         None \<Rightarrow> Inl (authErr ''signature encoding is invalid'')
       | Some sig \<Rightarrow>
          if length sig \<noteq> 64 then Inl (authErr ''signature encoding is invalid'')
          else andThen (wrapw ''AUTHENTICATION_FAILED: canonical proof'' (signingBytes jcs p)) (\<lambda>message.
            if \<not> verifySig (kbPublicKey key) message sig
            then Inl (authErr ''signature verification failed'')
            else if \<not> hasGrant (apGrants policy) (pfActorID p) (rcLedgerID expected) (rcAction expected) (rcTarget expected)
            then Inl (Errorf ''AUTHORIZATION_DENIED'' [])
            else Inr \<lparr>prActorID = pfActorID p, prKeyID = pfKeyID p\<rparr>)))))"

section \<open>The policy document\<close>

definition ledgerPolicyPrefix :: string where "ledgerPolicyPrefix = ''config/authority/actor-policy''"
definition ledgerPolicyPath :: string where "ledgerPolicyPath = ledgerPolicyPrefix @ ''/root.json''"
definition policyTarget :: string where "policyTarget = ''authority:actor-policy''"
definition policyRecordKind :: string where "policyRecordKind = ''core.actor-auth-policy-v1''"

record policyKeyDoc =
  pkActorID :: string
  pkKeyID :: string
  pkPublicKey :: string
  pkRevoked :: bool

record policyGrantDoc =
  pgActorID :: string
  pgAction :: string
  pgTarget :: string

record policyDocument =
  pdLedgerID :: string
  pdPolicyVersion :: string
  pdMaxLifetimeSeconds :: int
  pdKeys :: "policyKeyDoc list"
  pdGrants :: "policyGrantDoc list"
  pdContentSHA256 :: string

definition policyKeyFields :: "string list" where
  "policyKeyFields = [''actor_id'', ''key_id'', ''public_key'', ''revoked'']"

definition policyGrantFields :: "string list" where
  "policyGrantFields = [''actor_id'', ''action'', ''target'']"

definition policyFields :: "string list" where
  "policyFields = [''ledger_id'', ''authority_policy_version'', ''max_proof_lifetime_seconds'', ''keys'', ''grants'', ''content_sha256'']"

definition decPolicyKey :: "json list \<Rightarrow> policyKeyDoc res" where
  "decPolicyKey vs =
    andThen (structMembers vs) (\<lambda>ms.
    andThen (require (knownFields policyKeyFields ms) errUnmarshal) (\<lambda>_.
    let f = fieldValues policyKeyFields ms in
    andThen (decString (f ''actor_id'')) (\<lambda>a.
    andThen (decString (f ''key_id'')) (\<lambda>k.
    andThen (decString (f ''public_key'')) (\<lambda>p.
    andThen (decBool (f ''revoked'')) (\<lambda>r.
      Inr \<lparr>pkActorID = a, pkKeyID = k, pkPublicKey = p, pkRevoked = r\<rparr>))))))"

definition decPolicyGrant :: "json list \<Rightarrow> policyGrantDoc res" where
  "decPolicyGrant vs =
    andThen (structMembers vs) (\<lambda>ms.
    andThen (require (knownFields policyGrantFields ms) errUnmarshal) (\<lambda>_.
    let f = fieldValues policyGrantFields ms in
    andThen (decString (f ''actor_id'')) (\<lambda>a.
    andThen (decString (f ''action'')) (\<lambda>c.
    andThen (decString (f ''target'')) (\<lambda>t.
      Inr \<lparr>pgActorID = a, pgAction = c, pgTarget = t\<rparr>)))))"

definition decPolicyDocument :: "string \<Rightarrow> policyDocument res" where
  "decPolicyDocument raw =
    andThen (topMembersDec raw) (\<lambda>ms.
    andThen (require (knownFields policyFields ms) errUnmarshal) (\<lambda>_.
    let f = fieldValues policyFields ms in
    andThen (decString (f ''ledger_id'')) (\<lambda>l.
    andThen (decString (f ''authority_policy_version'')) (\<lambda>v.
    andThen (decInt64 (f ''max_proof_lifetime_seconds'')) (\<lambda>m.
    andThen (andThen (sliceHistory (f ''keys'')) (mapM decPolicyKey)) (\<lambda>ks.
    andThen (andThen (sliceHistory (f ''grants'')) (mapM decPolicyGrant)) (\<lambda>gs.
    andThen (decString (f ''content_sha256'')) (\<lambda>c.
      Inr \<lparr>pdLedgerID = l, pdPolicyVersion = v, pdMaxLifetimeSeconds = m, pdKeys = ks, pdGrants = gs,
           pdContentSHA256 = c\<rparr>))))))))"

definition keyLess :: "policyKeyDoc \<Rightarrow> policyKeyDoc \<Rightarrow> bool" where
  "keyLess a b = (if pkActorID a \<noteq> pkActorID b then pkActorID a < pkActorID b else pkKeyID a < pkKeyID b)"

definition grantLess :: "policyGrantDoc \<Rightarrow> policyGrantDoc \<Rightarrow> bool" where
  "grantLess a b =
    (if pgActorID a \<noteq> pgActorID b then pgActorID a < pgActorID b
     else if pgAction a \<noteq> pgAction b then pgAction a < pgAction b
     else pgTarget a < pgTarget b)"

text \<open>\<open>sort.SliceIsSorted\<close>: no element is less than its predecessor.\<close>

fun sliceIsSorted :: "('a \<Rightarrow> 'a \<Rightarrow> bool) \<Rightarrow> 'a list \<Rightarrow> bool" where
  "sliceIsSorted lt (x # y # xs) = (\<not> lt y x \<and> sliceIsSorted lt (y # xs))"
| "sliceIsSorted lt _ = True"

definition unsafeChars :: string where "unsafeChars = [CHR 0x00, CHR 0x0D, CHR 0x0A]"

definition policyErr :: "string \<Rightarrow> goerr" where
  "policyErr msg = Errorf (''AUTH_POLICY_INVALID: '' @ msg) []"

text \<open>State of the key loop: seen identities, active actors, bindings built so far.\<close>

definition policyKeyStep ::
  "string list \<times> string list \<times> keyBinding list \<Rightarrow> policyKeyDoc \<Rightarrow> (string list \<times> string list \<times> keyBinding list) res" where
  "policyKeyStep st k =
    (case st of (seen, active, keys) \<Rightarrow>
     if pkActorID k = [] \<or> pkKeyID k = [] \<or> containsAny (pkActorID k @ pkKeyID k) unsafeChars
     then Inl (policyErr ''every key requires safe actor_id and key_id'')
     else let identity = pkActorID k @ nul @ pkKeyID k in
       if identity \<in> set seen then Inl (policyErr ''duplicate actor/key binding'')
       else case rawStdDecode (pkPublicKey k) of
         None \<Rightarrow> Inl (policyErr ''key must contain canonical raw-base64 Ed25519 public key bytes'')
       | Some dec \<Rightarrow>
          if length dec \<noteq> 32 \<or> rawStdEncode dec \<noteq> pkPublicKey k
          then Inl (policyErr ''key must contain canonical raw-base64 Ed25519 public key bytes'')
          else Inr (identity # seen,
                    if pkRevoked k then active else pkActorID k # active,
                    keys @ [\<lparr>kbActorID = pkActorID k, kbKeyID = pkKeyID k, kbPublicKey = dec, kbRevoked = pkRevoked k\<rparr>]))"

definition policyGrantStep ::
  "string \<Rightarrow> string list \<Rightarrow> string list \<times> grant list \<Rightarrow> policyGrantDoc \<Rightarrow> (string list \<times> grant list) res" where
  "policyGrantStep ledger active st g =
    (case st of (seen, grants) \<Rightarrow>
     if pgActorID g = [] \<or> pgTarget g = [] \<or> containsAny (pgActorID g @ pgTarget g) unsafeChars \<or> \<not> validAction (pgAction g)
     then Inl (policyErr ''every grant requires safe actor_id, target and a supported action'')
     else let identity = pgActorID g @ nul @ pgAction g @ nul @ pgTarget g in
       if identity \<in> set seen then Inl (policyErr ''duplicate actor grant'')
       else if pgActorID g \<notin> set active then Inl (policyErr ''granted actor has no active trusted key'')
       else Inr (identity # seen,
                 grants @ [\<lparr>gActorID = pgActorID g, gLedgerID = ledger, gAction = pgAction g, gTarget = pgTarget g\<rparr>]))"

definition buildPolicy :: "policyDocument \<Rightarrow> authPolicy res" where
  "buildPolicy doc =
    (if pdLedgerID doc = [] \<or> pdPolicyVersion doc = [] \<or> containsAny (pdLedgerID doc @ pdPolicyVersion doc) unsafeChars
     then Inl (policyErr ''safe ledger_id and authority_policy_version are required'')
     else if pdMaxLifetimeSeconds doc \<le> 0 \<or> (2 ^ 63 - 1) div 1000000000 < pdMaxLifetimeSeconds doc
     then Inl (policyErr ''max_proof_lifetime_seconds must be positive and representable'')
     else if pdKeys doc = [] \<or> pdGrants doc = []
     then Inl (policyErr ''at least one key and one grant are required'')
     else if \<not> sliceIsSorted keyLess (pdKeys doc)
     then Inl (policyErr ''keys must be sorted by actor_id then key_id'')
     else if \<not> sliceIsSorted grantLess (pdGrants doc)
     then Inl (policyErr ''grants must be sorted by actor_id, action then target'')
     else andThen (foldM policyKeyStep ([], [], []) (pdKeys doc)) (\<lambda>(_, active, keys).
       andThen (foldM (policyGrantStep (pdLedgerID doc) active) ([], []) (pdGrants doc)) (\<lambda>(_, grants).
       let policy = \<lparr>apKeys = keys, apGrants = grants,
                     apMaxProofLifetime = pdMaxLifetimeSeconds doc * nanosPerSecond\<rparr>
       in andThen (validateAuthPolicy policy) (\<lambda>_. Inr policy))))"

definition parsePolicyDoc :: "(string \<Rightarrow> string res) \<Rightarrow> string \<Rightarrow> (policyDocument \<times> authPolicy) res" where
  "parsePolicyDoc jcs raw =
    andThen (wrapw ''AUTH_POLICY_INVALID'' (strictValidate raw)) (\<lambda>_.
    andThen (wrapw ''AUTH_POLICY_INVALID: canonicalize'' (canonicalize jcs raw)) (\<lambda>canonical.
    if raw \<noteq> canonical then Inl (policyErr ''document must be RFC 8785 canonical JSON'')
    else
    andThen (wrapw ''AUTH_POLICY_INVALID'' (digestVerify jcs raw)) (\<lambda>_.
    andThen (wrapw ''AUTH_POLICY_INVALID: decode'' (decPolicyDocument raw)) (\<lambda>doc.
    andThen (buildPolicy doc) (\<lambda>policy. Inr (doc, policy))))))"

definition parsePolicyDocument ::
  "(string \<Rightarrow> string res) \<Rightarrow> string \<Rightarrow> string \<Rightarrow> string \<Rightarrow> (policyDocument \<times> authPolicy) res" where
  "parsePolicyDocument jcs raw expectedLedger expectedVersion =
    (if expectedLedger = [] \<or> expectedVersion = []
     then Inl (policyErr ''expected ledger_id and authority_policy_version are required'')
     else andThen (parsePolicyDoc jcs raw) (\<lambda>(doc, policy).
       if pdLedgerID doc \<noteq> expectedLedger
       then Inl (policyErr ''ledger_id does not match authoritative ledger'')
       else if pdPolicyVersion doc \<noteq> expectedVersion
       then Inl (policyErr ''authority_policy_version does not match authoritative policy'')
       else Inr (doc, policy)))"

definition validatePolicyValue :: "(string \<Rightarrow> string res) \<Rightarrow> string \<Rightarrow> unit res" where
  "validatePolicyValue jcs raw = andThen (parsePolicyDoc jcs raw) (\<lambda>_. Inr ())"

definition validateInitialAuthorities :: "policyDocument \<Rightarrow> string list \<Rightarrow> unit res" where
  "validateInitialAuthorities doc expected =
    (let actors = sort (fold (\<lambda>g acc. if pgActorID g \<in> set acc then acc else acc @ [pgActorID g]) (pdGrants doc) [])
     in if actors \<noteq> expected
        then Inl (policyErr ''Genesis initial_authorities do not match granted actors'')
        else Inr ())"

section \<open>What a successful authentication proves\<close>

lemma contextValidate_ok [res_simps]:
  "contextValidate c = Inr u \<longleftrightarrow> rcLedgerID c \<noteq> [] \<and> rcTarget c \<noteq> [] \<and> rcExpectedState c \<noteq> [] \<and>
     rcIdempotencyKey c \<noteq> [] \<and> validAction (rcAction c)"
  by (auto simp: contextValidate_def)

lemma findKey_Some: "findKey ks a k = Some b \<Longrightarrow> b \<in> set ks \<and> kbActorID b = a \<and> kbKeyID b = k"
  by (auto simp: findKey_def find_Some_iff)

lemma hasGrant_iff: "hasGrant gs a l c t \<longleftrightarrow>
    (\<exists>g\<in>set gs. gActorID g = a \<and> gLedgerID g = l \<and> gAction g = c \<and> gTarget g = t)"
  by (auto simp: hasGrant_def list_ex_iff)

lemma authenticate_iff:
  "authenticateAndAuthorize jcs verifySig policy p expected now = Inr pr \<longleftrightarrow>
     validateAuthPolicy policy = Inr () \<and> contextValidate expected = Inr () \<and>
     pfActorID p \<noteq> [] \<and> pfKeyID p \<noteq> [] \<and> pfSignature p \<noteq> [] \<and> pfContext p = expected \<and>
     (\<exists>issued expires key sig message.
        timeParse (pfIssuedAt p) = Some issued \<and> timeParse (pfExpiresAt p) = Some expires \<and>
        issued \<le> now \<and> now < expires \<and> timeSub expires issued \<le> apMaxProofLifetime policy \<and>
        findKey (apKeys policy) (pfActorID p) (pfKeyID p) = Some key \<and> \<not> kbRevoked key \<and>
        rawStdDecode (pfSignature p) = Some sig \<and> length sig = 64 \<and>
        signingBytes jcs p = Inr message \<and> verifySig (kbPublicKey key) message sig) \<and>
     hasGrant (apGrants policy) (pfActorID p) (rcLedgerID expected) (rcAction expected) (rcTarget expected) \<and>
     pr = \<lparr>prActorID = pfActorID p, prKeyID = pfKeyID p\<rparr>"
  unfolding authenticateAndAuthorize_def parseTime_def
  by (auto simp: andThen_Inr_iff wrap_Inr_iff if_Inl_Inr_iff not_less split: option.splits if_split_asm)

lemma timeSub_le: "m < 2 ^ 63 - 1 \<Longrightarrow> timeSub t u \<le> m \<Longrightarrow> t - u \<le> m"
  by (auto simp: timeSub_def)

section \<open>What an accepted policy document contains\<close>

lemma nul_split:
  assumes "a @ nul @ b = c @ nul @ d" "CHR 0x00 \<notin> set a" "CHR 0x00 \<notin> set c"
  shows "a = c \<and> b = d"
  using assms
proof (induction a arbitrary: c)
  case Nil
  then show ?case by (cases c) (auto simp: nul_def)
next
  case (Cons x a)
  then show ?case by (cases c) (auto simp: nul_def)
qed

lemma containsAny_append: "containsAny (a @ b) cs \<longleftrightarrow> containsAny a cs \<or> containsAny b cs"
  by (auto simp: containsAny_iff)

definition safeText :: "string \<Rightarrow> bool" where
  "safeText s \<longleftrightarrow> \<not> containsAny s unsafeChars"

lemma safeText_append [simp]: "safeText (a @ b) \<longleftrightarrow> safeText a \<and> safeText b"
  by (auto simp: safeText_def containsAny_def list_ex_iff)

lemma safeText_nul: "safeText a \<Longrightarrow> CHR 0x00 \<notin> set a"
  by (auto simp: safeText_def containsAny_def list_ex_iff unsafeChars_def)

lemma validAction_nul: "validAction a \<Longrightarrow> CHR 0x00 \<notin> set a"
  by (auto simp: validAction_def actionPropose_def actionDecide_def actionOperate_def)

definition keyIdentity :: "policyKeyDoc \<Rightarrow> string" where
  "keyIdentity k = pkActorID k @ nul @ pkKeyID k"

definition grantIdentity :: "policyGrantDoc \<Rightarrow> string" where
  "grantIdentity g = pgActorID g @ nul @ pgAction g @ nul @ pgTarget g"

definition bindingOf :: "policyKeyDoc \<Rightarrow> keyBinding" where
  "bindingOf k = \<lparr>kbActorID = pkActorID k, kbKeyID = pkKeyID k,
     kbPublicKey = the (rawStdDecode (pkPublicKey k)), kbRevoked = pkRevoked k\<rparr>"

definition grantOf :: "string \<Rightarrow> policyGrantDoc \<Rightarrow> grant" where
  "grantOf ledger g = \<lparr>gActorID = pgActorID g, gLedgerID = ledger, gAction = pgAction g, gTarget = pgTarget g\<rparr>"

definition goodKey :: "policyKeyDoc \<Rightarrow> bool" where
  "goodKey k \<longleftrightarrow> pkActorID k \<noteq> [] \<and> pkKeyID k \<noteq> [] \<and> safeText (pkActorID k) \<and> safeText (pkKeyID k) \<and>
     (\<exists>d. rawStdDecode (pkPublicKey k) = Some d \<and> length d = 32 \<and> rawStdEncode d = pkPublicKey k)"

definition goodGrant :: "policyGrantDoc \<Rightarrow> bool" where
  "goodGrant g \<longleftrightarrow> pgActorID g \<noteq> [] \<and> pgTarget g \<noteq> [] \<and> safeText (pgActorID g) \<and> safeText (pgTarget g) \<and>
     validAction (pgAction g)"

lemma policyKeyStep_iff:
  "policyKeyStep (seen, active, keys) k = Inr st \<longleftrightarrow>
     goodKey k \<and> keyIdentity k \<notin> set seen \<and>
     st = (keyIdentity k # seen, if pkRevoked k then active else pkActorID k # active, keys @ [bindingOf k])"
  unfolding policyKeyStep_def goodKey_def keyIdentity_def bindingOf_def
  by (auto simp: Let_def containsAny_append safeText_def split: option.splits if_split_asm)

lemma policyKeys_iff:
  "foldM policyKeyStep (seen, active, keys) ks = Inr st \<longleftrightarrow>
     (\<forall>k\<in>set ks. goodKey k) \<and> distinct (map keyIdentity ks) \<and> set (map keyIdentity ks) \<inter> set seen = {} \<and>
     st = (rev (map keyIdentity ks) @ seen, rev (map pkActorID (filter (\<lambda>k. \<not> pkRevoked k) ks)) @ active,
           keys @ map bindingOf ks)"
  by (induction ks arbitrary: seen active keys) (auto simp: andThen_Inr_iff policyKeyStep_iff)

lemma policyGrantStep_iff:
  "policyGrantStep ledger active (seen, gs) g = Inr st \<longleftrightarrow>
     goodGrant g \<and> grantIdentity g \<notin> set seen \<and> pgActorID g \<in> set active \<and>
     st = (grantIdentity g # seen, gs @ [grantOf ledger g])"
  unfolding policyGrantStep_def goodGrant_def grantIdentity_def grantOf_def
  by (auto simp: Let_def containsAny_append safeText_def split: if_split_asm)

lemma policyGrants_iff:
  "foldM (policyGrantStep ledger active) (seen, gs) ds = Inr st \<longleftrightarrow>
     (\<forall>g\<in>set ds. goodGrant g \<and> pgActorID g \<in> set active) \<and> distinct (map grantIdentity ds) \<and>
     set (map grantIdentity ds) \<inter> set seen = {} \<and>
     st = (rev (map grantIdentity ds) @ seen, gs @ map (grantOf ledger) ds)"
  by (induction ds arbitrary: seen gs) (auto simp: andThen_Inr_iff policyGrantStep_iff)

definition goodDocument :: "policyDocument \<Rightarrow> bool" where
  "goodDocument doc \<longleftrightarrow>
     pdLedgerID doc \<noteq> [] \<and> pdPolicyVersion doc \<noteq> [] \<and> safeText (pdLedgerID doc) \<and> safeText (pdPolicyVersion doc) \<and>
     0 < pdMaxLifetimeSeconds doc \<and> pdMaxLifetimeSeconds doc \<le> (2 ^ 63 - 1) div 1000000000 \<and>
     pdKeys doc \<noteq> [] \<and> pdGrants doc \<noteq> [] \<and>
     sliceIsSorted keyLess (pdKeys doc) \<and> sliceIsSorted grantLess (pdGrants doc) \<and>
     (\<forall>k\<in>set (pdKeys doc). goodKey k) \<and> distinct (map keyIdentity (pdKeys doc)) \<and>
     (\<forall>g\<in>set (pdGrants doc). goodGrant g \<and> (\<exists>k\<in>set (pdKeys doc). pkActorID k = pgActorID g \<and> \<not> pkRevoked k)) \<and>
     distinct (map grantIdentity (pdGrants doc))"

definition policyOf :: "policyDocument \<Rightarrow> authPolicy" where
  "policyOf doc = \<lparr>apKeys = map bindingOf (pdKeys doc), apGrants = map (grantOf (pdLedgerID doc)) (pdGrants doc),
     apMaxProofLifetime = pdMaxLifetimeSeconds doc * nanosPerSecond\<rparr>"

lemma seenKeys_iff:
  "is_ok (foldM (\<lambda>seen key.
         if kbActorID key = [] \<or> kbKeyID key = [] \<or> length (kbPublicKey key) \<noteq> 32 then Inl e
         else let identity = kbActorID key @ nul @ kbKeyID key in
           if identity \<in> set seen then Inl e' else Inr (identity # seen)) seen ks) \<longleftrightarrow>
   (\<forall>k\<in>set ks. kbActorID k \<noteq> [] \<and> kbKeyID k \<noteq> [] \<and> length (kbPublicKey k) = 32) \<and>
   distinct (map (\<lambda>k. kbActorID k @ nul @ kbKeyID k) ks) \<and>
   set (map (\<lambda>k. kbActorID k @ nul @ kbKeyID k) ks) \<inter> set seen = {}"
  by (induction ks arbitrary: seen) (auto simp: Let_def)

lemma validateAuthPolicy_iff:
  "validateAuthPolicy p = Inr () \<longleftrightarrow> 0 < apMaxProofLifetime p \<and>
   (\<forall>k\<in>set (apKeys p). kbActorID k \<noteq> [] \<and> kbKeyID k \<noteq> [] \<and> length (kbPublicKey k) = 32) \<and>
   distinct (map (\<lambda>k. kbActorID k @ nul @ kbKeyID k) (apKeys p)) \<and>
   (\<forall>g\<in>set (apGrants p). gActorID g \<noteq> [] \<and> gLedgerID g \<noteq> [] \<and> gTarget g \<noteq> [] \<and> validAction (gAction g))"
  unfolding validateAuthPolicy_def
  using seenKeys_iff [of _ _ "[]" "apKeys p"]
  by (auto simp: andThen_Inr_iff checkAll_ok_iff is_ok_iff Let_def split: if_split_asm)

lemma policyOf_valid: "goodDocument doc \<Longrightarrow> validateAuthPolicy (policyOf doc) = Inr ()"
  by (auto simp: validateAuthPolicy_iff goodDocument_def policyOf_def bindingOf_def grantOf_def goodKey_def
      goodGrant_def nanosPerSecond_def keyIdentity_def [abs_def] comp_def)

lemma activeActors: "a \<in> set (rev (map pkActorID (filter (\<lambda>k. \<not> pkRevoked k) ks)) @ []) \<longleftrightarrow>
    (\<exists>k\<in>set ks. pkActorID k = a \<and> \<not> pkRevoked k)"
  by auto

lemma buildPolicy_iff: "buildPolicy doc = Inr policy \<longleftrightarrow> goodDocument doc \<and> policy = policyOf doc"
proof
  assume b: "buildPolicy doc = Inr policy"
  show "goodDocument doc \<and> policy = policyOf doc"
    using b unfolding buildPolicy_def
    by (auto simp: andThen_Inr_iff policyKeys_iff policyGrants_iff Let_def goodDocument_def policyOf_def
        containsAny_append safeText_def not_le not_less split: if_split_asm) fastforce
next
  assume g: "goodDocument doc \<and> policy = policyOf doc"
  then have k: "foldM policyKeyStep ([], [], []) (pdKeys doc) =
      Inr (rev (map keyIdentity (pdKeys doc)), rev (map pkActorID (filter (\<lambda>k. \<not> pkRevoked k) (pdKeys doc))),
           map bindingOf (pdKeys doc))"
    by (simp add: policyKeys_iff goodDocument_def)
  from g have gr: "foldM (policyGrantStep (pdLedgerID doc) (rev (map pkActorID (filter (\<lambda>k. \<not> pkRevoked k) (pdKeys doc)))))
      ([], []) (pdGrants doc) = Inr (rev (map grantIdentity (pdGrants doc)), map (grantOf (pdLedgerID doc)) (pdGrants doc))"
    by (auto simp: policyGrants_iff goodDocument_def image_iff) metis
  have v: "validateAuthPolicy (policyOf doc) = Inr ()" using g policyOf_valid by blast
  from g have c: "\<not> (pdLedgerID doc = [] \<or> pdPolicyVersion doc = [] \<or> containsAny (pdLedgerID doc @ pdPolicyVersion doc) unsafeChars)"
    "\<not> (pdMaxLifetimeSeconds doc \<le> 0 \<or> (2 ^ 63 - 1) div 1000000000 < pdMaxLifetimeSeconds doc)"
    "\<not> (pdKeys doc = [] \<or> pdGrants doc = [])" "sliceIsSorted keyLess (pdKeys doc)" "sliceIsSorted grantLess (pdGrants doc)"
    by (simp_all add: goodDocument_def containsAny_append safeText_def)
  show "buildPolicy doc = Inr policy"
    unfolding buildPolicy_def using g c v
    by (simp only: if_False if_True not_True_eq_False k gr andThen_simps prod.case Let_def policyOf_def [symmetric])
qed

lemma parsePolicyDocument_iff:
  "parsePolicyDocument jcs raw ledger version = Inr (doc, policy) \<longleftrightarrow>
     jcs raw = Inr raw \<and>
     (\<exists>obj payload. strictText raw (JObj obj) \<and> canonicalize jcs (marshalAny (JObj (mdel digestField obj))) = Inr payload \<and>
        mget obj digestField = Some (JStr (sha256Hex payload))) \<and>
     decPolicyDocument raw = Inr doc \<and> goodDocument doc \<and> policy = policyOf doc \<and>
     pdLedgerID doc = ledger \<and> pdPolicyVersion doc = version"
proof -
  have named: "goodDocument doc \<Longrightarrow> pdLedgerID doc \<noteq> [] \<and> pdPolicyVersion doc \<noteq> []" by (simp add: goodDocument_def)
  have strict: "strictText raw (JObj obj) \<Longrightarrow> strictValidate raw = Inr ()" for obj using strictValidate_iff by blast
  have "parsePolicyDocument jcs raw ledger version = Inr (doc, policy) \<longleftrightarrow>
     ledger \<noteq> [] \<and> version \<noteq> [] \<and> strictValidate raw = Inr () \<and> canonicalize jcs raw = Inr raw \<and> digestVerify jcs raw = Inr () \<and>
     decPolicyDocument raw = Inr doc \<and> buildPolicy doc = Inr policy \<and> pdLedgerID doc = ledger \<and> pdPolicyVersion doc = version"
    by (auto simp: parsePolicyDocument_def parsePolicyDoc_def andThen_Inr_iff wrap_Inr_iff)
  then show ?thesis unfolding buildPolicy_iff digestVerify_iff canonicalize_Inr_iff using named strict by blast
qed

lemma key_pair_unique:
  assumes "goodDocument doc" "k \<in> set (pdKeys doc)" "k' \<in> set (pdKeys doc)"
    "pkActorID k = pkActorID k'" "pkKeyID k = pkKeyID k'"
  shows "k = k'"
  using assms by (auto simp: goodDocument_def distinct_map inj_on_def keyIdentity_def)

lemma grant_unique:
  assumes "goodDocument doc" "g \<in> set (pdGrants doc)" "g' \<in> set (pdGrants doc)"
    "pgActorID g = pgActorID g'" "pgAction g = pgAction g'" "pgTarget g = pgTarget g'"
  shows "g = g'"
  using assms by (auto simp: goodDocument_def distinct_map inj_on_def grantIdentity_def)

lemma grantedActors:
  "set (fold (\<lambda>g acc. if pgActorID g \<in> set acc then acc else acc @ [pgActorID g]) gs acc) = pgActorID ` set gs \<union> set acc \<and>
   (distinct acc \<longrightarrow> distinct (fold (\<lambda>g acc. if pgActorID g \<in> set acc then acc else acc @ [pgActorID g]) gs acc))"
  by (induction gs arbitrary: acc) auto

lemma initialAuthorities_iff:
  "validateInitialAuthorities doc expected = Inr () \<longleftrightarrow>
     sorted expected \<and> distinct expected \<and> set expected = pgActorID ` set (pdGrants doc)"
proof -
  define actors where "actors = fold (\<lambda>g acc. if pgActorID g \<in> set acc then acc else acc @ [pgActorID g]) (pdGrants doc) []"
  have a: "set actors = pgActorID ` set (pdGrants doc)" "distinct actors"
    using grantedActors [of "pdGrants doc" "[]"] by (simp_all add: actors_def)
  have "sort actors = expected \<longleftrightarrow> sorted expected \<and> distinct expected \<and> set expected = set actors"
    using a(2) by (auto intro: sorted_distinct_set_unique)
  then show ?thesis by (auto simp: validateInitialAuthorities_def Let_def actors_def [symmetric] a)
qed

section \<open>Properties\<close>

definition sampleContext :: requestContext where
  "sampleContext = \<lparr>rcLedgerID = ''L'', rcAction = ''propose'', rcTarget = ''T'', rcExpectedState = ''E'', rcIdempotencyKey = ''I''\<rparr>"

definition sampleProof :: authProof where
  "sampleProof = \<lparr>pfActorID = ''ada'', pfKeyID = ''k1'', pfIssuedAt = ''0001-01-01T00:00:00Z'',
     pfExpiresAt = ''0001-01-01T00:00:30Z'', pfContext = sampleContext, pfSignature = replicate 86 CHR ''A''\<rparr>"

definition sampleDocument :: policyDocument where
  "sampleDocument = \<lparr>pdLedgerID = ''L'', pdPolicyVersion = ''v1'', pdMaxLifetimeSeconds = 60,
     pdKeys = [\<lparr>pkActorID = ''ada'', pkKeyID = ''k1'', pkPublicKey = replicate 43 CHR ''A'', pkRevoked = False\<rparr>],
     pdGrants = [\<lparr>pgActorID = ''ada'', pgAction = ''propose'', pgTarget = ''T''\<rparr>], pdContentSHA256 = []\<rparr>"

text \<open>C15: a request that \<open>AuthenticateAndAuthorize\<close> admits under a policy built from a policy document
  was signed over exactly the expected context, in the ledger of the document, by an unrevoked key of
  the document whose actor holds a grant of the document for that action and target, and the current
  time lies in the proof's validity window, which is no longer than the document allows.\<close>

theorem admitted_request_is_authorized:
  assumes "buildPolicy doc = Inr policy"
    and "authenticateAndAuthorize jcs verifySig policy p expected now = Inr pr"
  shows "pfContext p = expected \<and> rcLedgerID expected = pdLedgerID doc \<and>
    (\<exists>k\<in>set (pdKeys doc). pkActorID k = prActorID pr \<and> pkKeyID k = prKeyID pr \<and> \<not> pkRevoked k \<and>
       (\<exists>pub message sig. rawStdDecode (pkPublicKey k) = Some pub \<and> signingBytes jcs p = Inr message \<and>
          rawStdDecode (pfSignature p) = Some sig \<and> verifySig pub message sig)) \<and>
    (\<exists>g\<in>set (pdGrants doc). pgActorID g = prActorID pr \<and> pgAction g = rcAction expected \<and> pgTarget g = rcTarget expected) \<and>
    (\<exists>issued expires. timeParse (pfIssuedAt p) = Some issued \<and> timeParse (pfExpiresAt p) = Some expires \<and>
       issued \<le> now \<and> now < expires \<and> expires - issued \<le> pdMaxLifetimeSeconds doc * nanosPerSecond)"
proof -
  have doc: "goodDocument doc" and pol: "policy = policyOf doc" using assms(1) by (auto simp: buildPolicy_iff)
  have max: "pdMaxLifetimeSeconds doc * nanosPerSecond < 2 ^ 63 - 1"
    using doc by (simp add: goodDocument_def nanosPerSecond_def)
  from assms(2) obtain issued expires key sig message where
    t: "timeParse (pfIssuedAt p) = Some issued" "timeParse (pfExpiresAt p) = Some expires" "issued \<le> now"
      "now < expires" "timeSub expires issued \<le> apMaxProofLifetime policy"
    and k: "findKey (apKeys policy) (pfActorID p) (pfKeyID p) = Some key" "\<not> kbRevoked key"
    and s: "rawStdDecode (pfSignature p) = Some sig" "signingBytes jcs p = Inr message"
      "verifySig (kbPublicKey key) message sig"
    and g: "hasGrant (apGrants policy) (pfActorID p) (rcLedgerID expected) (rcAction expected) (rcTarget expected)"
    and c: "pfContext p = expected" and pr: "pr = \<lparr>prActorID = pfActorID p, prKeyID = pfKeyID p\<rparr>"
    unfolding authenticate_iff by blast
  from findKey_Some [OF k(1)] pol obtain kd where kd: "kd \<in> set (pdKeys doc)" "key = bindingOf kd"
    "pkActorID kd = pfActorID p" "pkKeyID kd = pfKeyID p" by (auto simp: policyOf_def bindingOf_def)
  then have "goodKey kd" using doc by (simp add: goodDocument_def)
  then have "rawStdDecode (pkPublicKey kd) = Some (kbPublicKey key)" using kd by (auto simp: goodKey_def bindingOf_def)
  moreover from g pol obtain gd where "gd \<in> set (pdGrants doc)" "pgActorID gd = pfActorID p"
    "pdLedgerID doc = rcLedgerID expected" "pgAction gd = rcAction expected" "pgTarget gd = rcTarget expected"
    by (auto simp: hasGrant_iff policyOf_def grantOf_def)
  moreover have "expires - issued \<le> pdMaxLifetimeSeconds doc * nanosPerSecond"
    using t(5) timeSub_le [OF max] pol by (simp add: policyOf_def)
  moreover have "\<not> pkRevoked kd" using k(2) kd by (simp add: bindingOf_def)
  ultimately show ?thesis using t(1-4) s c pr kd by auto
qed

theorem admitted_request_is_authorized_witness:
  "\<exists>policy. buildPolicy sampleDocument = Inr policy \<and>
     authenticateAndAuthorize sortingJcs (\<lambda>_ _ _. True) policy sampleProof sampleContext 7 =
       Inr \<lparr>prActorID = ''ada'', prKeyID = ''k1''\<rparr> \<and>
     rcLedgerID sampleContext = pdLedgerID sampleDocument"
proof -
  have b: "buildPolicy sampleDocument = Inr (policyOf sampleDocument)" by code_simp
  have a: "authenticateAndAuthorize sortingJcs (\<lambda>_ _ _. True) (policyOf sampleDocument) sampleProof sampleContext 7 =
       Inr \<lparr>prActorID = ''ada'', prKeyID = ''k1''\<rparr>" by code_simp
  from admitted_request_is_authorized [OF b a] a b show ?thesis by blast
qed

text \<open>C23: \<open>ParsePolicyDocument\<close> accepts exactly the texts that are strict JSON in canonical form, carry the digest of
  their canonical payload, decode (without unknown members) to a document whose keys and grants are well formed,
  sorted and free of duplicates, whose public keys are canonical base64 of 32 bytes and in which every granted
  actor has an unrevoked key, and name the ledger and the policy version of the caller; the policy it returns is
  the document's keys and grants in order.\<close>

theorem policy_document_accepted_iff:
  "parsePolicyDocument jcs raw ledger version = Inr (doc, policy) \<longleftrightarrow>
     jcs raw = Inr raw \<and>
     (\<exists>obj payload. strictText raw (JObj obj) \<and> canonicalize jcs (marshalAny (JObj (mdel digestField obj))) = Inr payload \<and>
        mget obj digestField = Some (JStr (sha256Hex payload))) \<and>
     decPolicyDocument raw = Inr doc \<and> goodDocument doc \<and> policy = policyOf doc \<and>
     pdLedgerID doc = ledger \<and> pdPolicyVersion doc = version"
  by (rule parsePolicyDocument_iff)

text \<open>The NUL-joined identity strings that detect duplicate keys and grants are free of collisions:
  two well-formed keys (grants) have the same identity string exactly when actor and key identifier
  (actor, action and target) agree.\<close>

lemma policy_identities_collision_free:
  "goodKey k \<Longrightarrow> goodKey k' \<Longrightarrow> goodGrant g \<Longrightarrow> goodGrant g' \<Longrightarrow>
    (keyIdentity k = keyIdentity k' \<longleftrightarrow> pkActorID k = pkActorID k' \<and> pkKeyID k = pkKeyID k') \<and>
    (grantIdentity g = grantIdentity g' \<longleftrightarrow>
       pgActorID g = pgActorID g' \<and> pgAction g = pgAction g' \<and> pgTarget g = pgTarget g')"
  unfolding keyIdentity_def grantIdentity_def goodKey_def goodGrant_def
  by (metis nul_split safeText_nul validAction_nul)

lemma policy_identities_collision_free_witness:
  "keyIdentity (hd (pdKeys sampleDocument)) \<noteq> keyIdentity ((hd (pdKeys sampleDocument))\<lparr>pkKeyID := ''k2''\<rparr>)"
proof -
  have k: "goodKey (hd (pdKeys sampleDocument))" "goodKey ((hd (pdKeys sampleDocument))\<lparr>pkKeyID := ''k2''\<rparr>)"
    "goodGrant (hd (pdGrants sampleDocument))"
    unfolding goodKey_def
    by (rule conjI | rule exI [of _ "replicate 32 (CHR 0x00)"] | code_simp)+
  show ?thesis
    using policy_identities_collision_free [OF k(1) k(2) k(3) k(3)] by (simp add: sampleDocument_def)
qed

text \<open>Genesis's initial authorities match the root policy exactly when they are the sorted list,
  without repetitions, of the actors that hold a grant.\<close>

lemma initial_authorities_exact:
  "validateInitialAuthorities doc expected = Inr () \<longleftrightarrow>
     sorted expected \<and> distinct expected \<and> set expected = pgActorID ` set (pdGrants doc)"
  by (rule initialAuthorities_iff)

end
