(* ===== verification/Reducer.thy ===== *)
theory Reducer
  imports Actor_Auth "HOL-Library.Word"
begin

text \<open>
  internal/reducer: the reducer of the model exclusive-governed-record-v1. A projection maps each
  target to its governed record; an event creates, replaces or revokes exactly one target, and
  carries the asserted prior and resulting states, which must agree with the projection up to
  canonical JSON.
\<close>

section \<open>Data\<close>

definition modelExclusiveV1 :: string where "modelExclusiveV1 = ''exclusive-governed-record-v1''"
definition eventCreated :: string where "eventCreated = ''core.record.created''"
definition eventReplaced :: string where "eventReplaced = ''core.record.replaced''"
definition eventRevoked :: string where "eventRevoked = ''core.record.revoked''"
definition statusActive :: string where "statusActive = ''active''"
definition statusRevoked :: string where "statusRevoked = ''revoked''"

definition errNotApplicable :: goerr where "errNotApplicable = ErrNew ''REDUCER_NOT_APPLICABLE''"
definition errUnknownReducerEvent :: goerr where "errUnknownReducerEvent = ErrNew ''UNKNOWN_REDUCER_EVENT''"
definition errPolicyUnbound :: goerr where "errPolicyUnbound = ErrNew ''REDUCER_POLICY_UNBOUND''"
definition errTargetCardinality :: goerr where "errTargetCardinality = ErrNew ''REDUCER_TARGET_CARDINALITY''"
definition errAlreadyExists :: goerr where "errAlreadyExists = ErrNew ''REDUCER_ALREADY_EXISTS''"
definition errNotFound :: goerr where "errNotFound = ErrNew ''REDUCER_NOT_FOUND''"
definition errTerminalState :: goerr where "errTerminalState = ErrNew ''REDUCER_TERMINAL_STATE''"
definition errRecordKindMismatch :: goerr where "errRecordKindMismatch = ErrNew ''REDUCER_RECORD_KIND_MISMATCH''"
definition errPriorStateMismatch :: goerr where "errPriorStateMismatch = ErrNew ''REDUCER_PRIOR_STATE_MISMATCH''"
definition errResultingStateMismatch :: goerr where "errResultingStateMismatch = ErrNew ''REDUCER_RESULTING_STATE_MISMATCH''"
definition errTransitionInvalid :: goerr where "errTransitionInvalid = ErrNew ''REDUCER_TRANSITION_INVALID''"

text \<open>A nil and an empty \<open>json.RawMessage\<close> are only ever told apart by their length: both are \<open>[]\<close>.\<close>

record event =
  evEventID :: string
  evEventType :: string
  evTargets :: "string list"
  evRecordKind :: string
  evValue :: string
  evPriorState :: string
  evResultingState :: string

record rstate =
  rsTargetID :: string
  rsRecordKind :: string
  rsStatus :: string
  rsRevision :: "64 word"
  rsCurrentEventID :: string
  rsPreviousEventID :: "string option"
  rsValue :: string

type_synonym projection = "(string, rstate) gomap"
type_synonym bindings = "(string, string) gomap"

section \<open>Marshalling a state\<close>

text \<open>\<open>json.Marshal\<close> of a \<open>RawMessage\<close>: white space outside strings goes, HTML characters and line
  separators are escaped; an invalid message is an error.\<close>

fun compactText :: "bool \<Rightarrow> string \<Rightarrow> string" where
  "compactText inStr [] = []"
| "compactText inStr (c # s) =
    (if c = CHR ''<'' \<or> c = CHR ''>'' \<or> c = CHR ''&'' then escU00 c @ compactText inStr s
     else if c = CHR 0xE2 \<and> take 2 s = [CHR 0x80, CHR 0xA8] then CHR 0x5C # ''u2028'' @ compactText inStr (drop 2 s)
     else if c = CHR 0xE2 \<and> take 2 s = [CHR 0x80, CHR 0xA9] then CHR 0x5C # ''u2029'' @ compactText inStr (drop 2 s)
     else if inStr \<and> c = CHR 0x5C then c # take 1 s @ compactText inStr (drop 1 s)
     else if c = CHR 0x22 then c # compactText (\<not> inStr) s
     else if \<not> inStr \<and> isJsonSpace c then compactText inStr s
     else c # compactText inStr s)"

definition marshalRaw :: "string \<Rightarrow> string res" where
  "marshalRaw raw = (case jsonUnmarshal raw of None \<Rightarrow> Inl (ErrNew ''json: error calling MarshalJSON'')
                     | Some v \<Rightarrow> Inr (compactText False raw))"

definition jmember :: "string \<Rightarrow> string \<Rightarrow> string" where
  "jmember k v = quote k @ CHR '':'' # v"

definition objectText :: "string list \<Rightarrow> string" where
  "objectText ms = CHR ''{'' # joinWith '','' ms @ ''}''"

definition marshalState :: "rstate \<Rightarrow> string res" where
  "marshalState st =
    andThen (if rsValue st = [] then Inr [] else andThen (marshalRaw (rsValue st)) (\<lambda>v. Inr [jmember ''value'' v])) (\<lambda>value.
      Inr (objectText ([jmember ''target_id'' (quote (rsTargetID st)),
         jmember ''record_kind'' (quote (rsRecordKind st)),
         jmember ''status'' (quote (rsStatus st)),
         jmember ''revision'' (natDec (unat (rsRevision st))),
         jmember ''current_event_id'' (quote (rsCurrentEventID st)),
         jmember ''previous_event_id''
           (case rsPreviousEventID st of None \<Rightarrow> ''null'' | Some p \<Rightarrow> quote p)] @ value)))"

definition marshalAbsent :: "string \<Rightarrow> string res" where
  "marshalAbsent target = Inr (objectText [jmember ''exists'' ''false'', jmember ''target_id'' (quote target)])"

section \<open>Guards\<close>

definition requireBinding :: "bindings \<Rightarrow> string \<Rightarrow> unit res" where
  "requireBinding bindings kind =
    (if mget bindings kind \<noteq> Some modelExclusiveV1
     then Inl (Errorf ''record_kind is not bound to the model'' [errPolicyUnbound]) else Inr ())"

definition requireValue :: "(string \<Rightarrow> string res) \<Rightarrow> string \<Rightarrow> string res" where
  "requireValue jcs raw =
    (if raw = [] then Inl (Errorf ''transition value is required'' [errTransitionInvalid])
     else andThen (wrapv errTransitionInvalid ''invalid transition value'' (strictValidate raw)) (\<lambda>_.
       wrapv errTransitionInvalid ''canonicalize transition value'' (canonicalize jcs raw)))"

definition requireAssertion :: "(string \<Rightarrow> string res) \<Rightarrow> string \<Rightarrow> string res \<Rightarrow> goerr \<Rightarrow> unit res" where
  "requireAssertion jcs raw expected mismatch =
    (if raw = [] then Inl (Errorf ''assertion is required'' [mismatch])
     else andThen (wrapv mismatch ''invalid assertion JSON'' (strictValidate raw)) (\<lambda>_.
       andThen (wrapv mismatch ''canonicalize assertion'' (canonicalize jcs raw)) (\<lambda>got.
       andThen (wrapv errTransitionInvalid ''marshal expected assertion'' expected) (\<lambda>expectedRaw.
       andThen (wrapv errTransitionInvalid ''canonicalize expected assertion'' (canonicalize jcs expectedRaw)) (\<lambda>want.
       if got \<noteq> want then Inl (Errorf ''got want'' [mismatch]) else Inr ())))))"

definition validateState :: "(string \<Rightarrow> string res) \<Rightarrow> string \<Rightarrow> rstate \<Rightarrow> unit res" where
  "validateState jcs key st =
    (if rsTargetID st \<noteq> key \<or> rsTargetID st = [] \<or> rsRecordKind st = [] \<or> rsRevision st = 0 \<or> rsCurrentEventID st = []
     then Inl (Errorf ''invalid existing state for target'' [errTransitionInvalid])
     else if rsStatus st = statusActive then
       (if rsValue st = [] then Inl (Errorf ''active target has no value'' [errTransitionInvalid])
        else andThen (requireValue jcs (rsValue st)) (\<lambda>_. Inr ()))
     else if rsStatus st = statusRevoked then
       (if rsValue st \<noteq> [] then Inl (Errorf ''revoked target retains a value'' [errTransitionInvalid]) else Inr ())
     else Inl (Errorf ''target has unknown status'' [errTransitionInvalid]))"

definition cloneProjection :: "projection \<Rightarrow> projection" where
  "cloneProjection src = map (\<lambda>(key, st). (key, st\<lparr>rsValue := rsValue st @ []\<rparr>)) src"

section \<open>Transitions\<close>

definition applyCreate :: "(string \<Rightarrow> string res) \<Rightarrow> projection \<Rightarrow> bindings \<Rightarrow> string \<Rightarrow> event \<Rightarrow> projection res" where
  "applyCreate jcs current bindings target ev =
    (if mhas current target then Inl (Errorf ''target'' [errAlreadyExists])
     else if evRecordKind ev = [] then Inl (Errorf ''record_kind is required'' [errTransitionInvalid])
     else
     andThen (requireBinding bindings (evRecordKind ev)) (\<lambda>_.
     andThen (requireValue jcs (evValue ev)) (\<lambda>value.
     andThen (requireAssertion jcs (evPriorState ev) (marshalAbsent target) errPriorStateMismatch) (\<lambda>_.
     let result = \<lparr>rsTargetID = target, rsRecordKind = evRecordKind ev, rsStatus = statusActive, rsRevision = 1,
                   rsCurrentEventID = evEventID ev, rsPreviousEventID = None, rsValue = value\<rparr> in
     andThen (requireAssertion jcs (evResultingState ev) (marshalState result) errResultingStateMismatch) (\<lambda>_.
     Inr (mput target result (cloneProjection current)))))))"

definition applyReplace :: "(string \<Rightarrow> string res) \<Rightarrow> projection \<Rightarrow> bindings \<Rightarrow> string \<Rightarrow> event \<Rightarrow> projection res" where
  "applyReplace jcs current bindings target ev =
    (case mget current target of
       None \<Rightarrow> Inl (Errorf ''target'' [errNotFound])
     | Some st \<Rightarrow>
       if rsStatus st = statusRevoked then Inl (Errorf ''target is revoked'' [errTerminalState])
       else if evRecordKind ev \<noteq> rsRecordKind st then Inl (Errorf ''target kind'' [errRecordKindMismatch])
       else
       andThen (requireBinding bindings (rsRecordKind st)) (\<lambda>_.
       andThen (requireValue jcs (evValue ev)) (\<lambda>value.
       andThen (requireAssertion jcs (evPriorState ev) (marshalState st) errPriorStateMismatch) (\<lambda>_.
       let result = \<lparr>rsTargetID = target, rsRecordKind = rsRecordKind st, rsStatus = statusActive,
                     rsRevision = rsRevision st + 1, rsCurrentEventID = evEventID ev,
                     rsPreviousEventID = Some (rsCurrentEventID st), rsValue = value\<rparr> in
       andThen (requireAssertion jcs (evResultingState ev) (marshalState result) errResultingStateMismatch) (\<lambda>_.
       Inr (mput target result (cloneProjection current)))))))"

definition applyRevoke :: "(string \<Rightarrow> string res) \<Rightarrow> projection \<Rightarrow> bindings \<Rightarrow> string \<Rightarrow> event \<Rightarrow> projection res" where
  "applyRevoke jcs current bindings target ev =
    (case mget current target of
       None \<Rightarrow> Inl (Errorf ''target'' [errNotFound])
     | Some st \<Rightarrow>
       if rsStatus st = statusRevoked then Inl (Errorf ''target is revoked'' [errTerminalState])
       else if evRecordKind ev \<noteq> rsRecordKind st then Inl (Errorf ''target kind'' [errRecordKindMismatch])
       else
       andThen (requireBinding bindings (rsRecordKind st)) (\<lambda>_.
       if evValue ev \<noteq> [] then Inl (Errorf ''revoke must not carry a value'' [errTransitionInvalid])
       else
       andThen (requireAssertion jcs (evPriorState ev) (marshalState st) errPriorStateMismatch) (\<lambda>_.
       let result = \<lparr>rsTargetID = target, rsRecordKind = rsRecordKind st, rsStatus = statusRevoked,
                     rsRevision = rsRevision st + 1, rsCurrentEventID = evEventID ev,
                     rsPreviousEventID = Some (rsCurrentEventID st), rsValue = []\<rparr> in
       andThen (requireAssertion jcs (evResultingState ev) (marshalState result) errResultingStateMismatch) (\<lambda>_.
       Inr (mput target result (cloneProjection current))))))"

definition reducerApply :: "(string \<Rightarrow> string res) \<Rightarrow> projection \<Rightarrow> bindings \<Rightarrow> event \<Rightarrow> projection res" where
  "reducerApply jcs current bindings ev =
    (if \<not> hasPrefix (evEventType ev) ''core.record.'' then Inl errNotApplicable
     else if evEventType ev \<noteq> eventCreated \<and> evEventType ev \<noteq> eventReplaced \<and> evEventType ev \<noteq> eventRevoked
     then Inl (Errorf ''event type'' [errUnknownReducerEvent])
     else if evEventID ev = [] then Inl (Errorf ''event_id is required'' [errTransitionInvalid])
     else case evTargets ev of
       [target] \<Rightarrow>
         if target = [] then Inl (Errorf ''expected exactly one non-empty target'' [errTargetCardinality])
         else
         andThen (if evRecordKind ev \<noteq> policyRecordKind then Inr ()
                  else if target \<noteq> policyTarget
                  then Inl (Errorf ''actor policy record must target the actor policy'' [errTransitionInvalid])
                  else if evEventType ev = eventCreated \<or> evEventType ev = eventReplaced
                  then wrapv errTransitionInvalid ''actor policy value'' (validatePolicyValue jcs (evValue ev))
                  else Inr ()) (\<lambda>_.
         andThen (case mget current target of Some st \<Rightarrow> validateState jcs target st | None \<Rightarrow> Inr ()) (\<lambda>_.
         if evEventType ev = eventCreated then applyCreate jcs current bindings target ev
         else if evEventType ev = eventReplaced then applyReplace jcs current bindings target ev
         else applyRevoke jcs current bindings target ev))
     | _ \<Rightarrow> Inl (Errorf ''expected exactly one non-empty target'' [errTargetCardinality]))"

text \<open>\<open>json.Marshal\<close> of the projection, a map, writes its entries sorted by key.\<close>

definition canonicalProjection :: "(string \<Rightarrow> string res) \<Rightarrow> projection \<Rightarrow> string res" where
  "canonicalProjection jcs projection =
    andThen (wrapw ''marshal reducer projection''
      (mapM (\<lambda>(k, st). andThen (marshalState st) (\<lambda>t. Inr (jmember k t))) (sort_key fst projection))) (\<lambda>ms.
    canonicalize jcs (objectText ms))"

section \<open>The transition system\<close>

text \<open>What an accepted event does, without the assertions that must agree with it.\<close>

inductive rstep :: "(string \<Rightarrow> string res) \<Rightarrow> projection \<Rightarrow> event \<Rightarrow> projection \<Rightarrow> bool" for jcs where
  create: "\<lbrakk>evEventType ev = eventCreated; evTargets ev = [t]; t \<noteq> []; evEventID ev \<noteq> []; mget cur t = None;
     evRecordKind ev \<noteq> []; value \<noteq> []; canonicalize jcs value = Inr value\<rbrakk> \<Longrightarrow>
     rstep jcs cur ev (mput t \<lparr>rsTargetID = t, rsRecordKind = evRecordKind ev, rsStatus = statusActive, rsRevision = 1,
                   rsCurrentEventID = evEventID ev, rsPreviousEventID = None, rsValue = value\<rparr> cur)"
| replace: "\<lbrakk>evEventType ev = eventReplaced; evTargets ev = [t]; t \<noteq> []; evEventID ev \<noteq> []; mget cur t = Some st;
     rsStatus st = statusActive; evRecordKind ev = rsRecordKind st; value \<noteq> [];
     canonicalize jcs value = Inr value\<rbrakk> \<Longrightarrow>
     rstep jcs cur ev (mput t \<lparr>rsTargetID = t, rsRecordKind = rsRecordKind st, rsStatus = statusActive,
                     rsRevision = rsRevision st + 1, rsCurrentEventID = evEventID ev,
                     rsPreviousEventID = Some (rsCurrentEventID st), rsValue = value\<rparr> cur)"
| revoke: "\<lbrakk>evEventType ev = eventRevoked; evTargets ev = [t]; t \<noteq> []; evEventID ev \<noteq> []; mget cur t = Some st;
     rsStatus st = statusActive; evRecordKind ev = rsRecordKind st; evValue ev = []\<rbrakk> \<Longrightarrow>
     rstep jcs cur ev (mput t \<lparr>rsTargetID = t, rsRecordKind = rsRecordKind st, rsStatus = statusRevoked,
                     rsRevision = rsRevision st + 1, rsCurrentEventID = evEventID ev,
                     rsPreviousEventID = Some (rsCurrentEventID st), rsValue = []\<rparr> cur)"

lemma event_types_distinct [simp]:
  "eventCreated \<noteq> eventReplaced" "eventCreated \<noteq> eventRevoked" "eventReplaced \<noteq> eventRevoked"
  "eventReplaced \<noteq> eventCreated" "eventRevoked \<noteq> eventCreated" "eventRevoked \<noteq> eventReplaced"
  "statusActive \<noteq> statusRevoked" "statusRevoked \<noteq> statusActive"
  by (simp_all add: eventCreated_def eventReplaced_def eventRevoked_def statusActive_def statusRevoked_def)

lemma cloneProjection_id [simp]: "cloneProjection p = p"
  by (auto simp: cloneProjection_def intro: map_idI)

lemma strictText_nonempty: "strictText raw v \<Longrightarrow> raw \<noteq> []"
  by (auto simp: strictText_def jsonUnmarshal_def skipWs_def jsonFuel_def)

lemma requireBinding_iff [res_simps]: "requireBinding b k = Inr u \<longleftrightarrow> mget b k = Some modelExclusiveV1"
  by (auto simp: requireBinding_def)

lemma requireValue_iff: "requireValue jcs raw = Inr v \<longleftrightarrow> raw \<noteq> [] \<and> canonicalize jcs raw = Inr v"
  by (auto simp: requireValue_def res_simps canonicalize_def)

lemma canonicalize_nonempty:
  assumes "jcsLaws jcs nf" "canonicalize jcs raw = Inr v"
  shows "v \<noteq> []"
  using canonicalize_idem [OF assms] by (auto simp: canonicalize_Inr_iff dest: strictText_nonempty)

lemma requireValue_canonical: "jcsLaws jcs nf \<Longrightarrow> requireValue jcs raw = Inr v \<Longrightarrow> v \<noteq> [] \<and> canonicalize jcs v = Inr v"
  by (auto simp: requireValue_iff dest: canonicalize_nonempty canonicalize_idem)

definition agrees :: "(string \<Rightarrow> string res) \<Rightarrow> string \<Rightarrow> string res \<Rightarrow> bool" where
  "agrees jcs raw expected \<longleftrightarrow> (\<exists>t c. expected = Inr t \<and> canonicalize jcs raw = Inr c \<and> canonicalize jcs t = Inr c)"

lemma requireAssertion_iff: "requireAssertion jcs raw expected e = Inr u \<longleftrightarrow> raw \<noteq> [] \<and> agrees jcs raw expected"
  unfolding requireAssertion_def agrees_def
  by (auto simp: res_simps canonicalize_def)

lemma validateState_Inr:
  "validateState jcs key st = Inr u \<Longrightarrow> rsTargetID st = key \<and> rsTargetID st \<noteq> [] \<and> rsRecordKind st \<noteq> [] \<and>
     rsRevision st \<noteq> 0 \<and> rsCurrentEventID st \<noteq> [] \<and>
     (rsStatus st = statusActive \<and> rsValue st \<noteq> [] \<or> rsStatus st = statusRevoked \<and> rsValue st = [])"
  by (auto simp: validateState_def split: if_split_asm)

lemma reducerApply_dispatch:
  assumes "reducerApply jcs cur b ev = Inr next"
  obtains t where "evTargets ev = [t]" "t \<noteq> []" "evEventID ev \<noteq> []"
    "\<And>st. mget cur t = Some st \<Longrightarrow> validateState jcs t st = Inr ()"
    "evEventType ev = eventCreated \<and> applyCreate jcs cur b t ev = Inr next \<or>
     evEventType ev = eventReplaced \<and> applyReplace jcs cur b t ev = Inr next \<or>
     evEventType ev = eventRevoked \<and> applyRevoke jcs cur b t ev = Inr next"
    "evRecordKind ev = policyRecordKind \<Longrightarrow> t = policyTarget \<and>
       (evEventType ev \<noteq> eventRevoked \<longrightarrow> is_ok (validatePolicyValue jcs (evValue ev)))"
proof -
  obtain t where t: "evTargets ev = [t]"
    using assms by (auto simp: reducerApply_def split: if_split_asm list.splits)
  have types: "evEventType ev = eventCreated \<or> evEventType ev = eventReplaced \<or> evEventType ev = eventRevoked"
    "evEventID ev \<noteq> []" "t \<noteq> []"
    using assms by (auto simp: reducerApply_def t split: if_split_asm)
  show thesis
    by (rule that [OF t types(3,2)])
      (use assms types in \<open>auto simp: reducerApply_def t andThen_Inr_iff wrap_Inr_iff is_ok_iff split: if_split_asm option.splits\<close>)
qed

lemma reducerApply_rstep:
  assumes "jcsLaws jcs nf" "reducerApply jcs cur b ev = Inr next"
  shows "rstep jcs cur ev next"
  using assms(2)
proof (rule reducerApply_dispatch)
  fix t
  assume t: "evTargets ev = [t]" "t \<noteq> []" "evEventID ev \<noteq> []"
    and st: "\<And>st. mget cur t = Some st \<Longrightarrow> validateState jcs t st = Inr ()"
    and d: "evEventType ev = eventCreated \<and> applyCreate jcs cur b t ev = Inr next \<or>
     evEventType ev = eventReplaced \<and> applyReplace jcs cur b t ev = Inr next \<or>
     evEventType ev = eventRevoked \<and> applyRevoke jcs cur b t ev = Inr next"
  have active: "rsStatus st = statusActive" if "mget cur t = Some st" "rsStatus st \<noteq> statusRevoked" for st
    using validateState_Inr [OF st [OF that(1)]] that(2) by simp
  from d show ?thesis
  proof (elim disjE conjE)
    assume e: "evEventType ev = eventCreated" "applyCreate jcs cur b t ev = Inr next"
    then obtain v where v: "requireValue jcs (evValue ev) = Inr v" "mget cur t = None" "evRecordKind ev \<noteq> []"
      "next = mput t \<lparr>rsTargetID = t, rsRecordKind = evRecordKind ev, rsStatus = statusActive, rsRevision = 1,
                   rsCurrentEventID = evEventID ev, rsPreviousEventID = None, rsValue = v\<rparr> cur"
      by (auto simp: applyCreate_def andThen_Inr_iff Let_def split: if_split_asm)
    show ?thesis unfolding v(4)
      by (rule rstep.create) (use e t v requireValue_canonical [OF assms(1) v(1)] in auto)
  next
    assume e: "evEventType ev = eventReplaced" "applyReplace jcs cur b t ev = Inr next"
    then obtain st v where v: "requireValue jcs (evValue ev) = Inr v" "mget cur t = Some st"
      "rsStatus st \<noteq> statusRevoked" "evRecordKind ev = rsRecordKind st"
      "next = mput t \<lparr>rsTargetID = t, rsRecordKind = rsRecordKind st, rsStatus = statusActive,
                     rsRevision = rsRevision st + 1, rsCurrentEventID = evEventID ev,
                     rsPreviousEventID = Some (rsCurrentEventID st), rsValue = v\<rparr> cur"
      by (auto simp: applyReplace_def andThen_Inr_iff Let_def split: if_split_asm option.splits)
    show ?thesis unfolding v(5)
      by (rule rstep.replace) (use e t v active requireValue_canonical [OF assms(1) v(1)] in auto)
  next
    assume e: "evEventType ev = eventRevoked" "applyRevoke jcs cur b t ev = Inr next"
    then obtain st where v: "mget cur t = Some st"
      "rsStatus st \<noteq> statusRevoked" "evRecordKind ev = rsRecordKind st" "evValue ev = []"
      "next = mput t \<lparr>rsTargetID = t, rsRecordKind = rsRecordKind st, rsStatus = statusRevoked,
                     rsRevision = rsRevision st + 1, rsCurrentEventID = evEventID ev,
                     rsPreviousEventID = Some (rsCurrentEventID st), rsValue = []\<rparr> cur"
      by (auto simp: applyRevoke_def andThen_Inr_iff Let_def split: if_split_asm option.splits)
    show ?thesis unfolding v(5)
      by (rule rstep.revoke) (use e t v active in auto)
  qed
qed

section \<open>Histories\<close>

text \<open>The events of a target, and what its state says about them.\<close>

definition targetEvents :: "string \<Rightarrow> event list \<Rightarrow> event list" where
  "targetEvents t evs = filter (\<lambda>e. evTargets e = [t]) evs"

definition lifecycle :: "event list \<Rightarrow> rstate \<Rightarrow> bool" where
  "lifecycle es st \<longleftrightarrow> es \<noteq> [] \<and>
     evEventType (hd es) = eventCreated \<and>
     (\<forall>e\<in>set (tl es). evEventType e \<noteq> eventCreated) \<and>
     (\<forall>e\<in>set (butlast es). evEventType e \<noteq> eventRevoked) \<and>
     (\<forall>e\<in>set es. evRecordKind e = rsRecordKind st) \<and>
     rsRevision st = of_nat (length es) \<and>
     rsCurrentEventID st = evEventID (last es) \<and>
     rsPreviousEventID st = (if length es = 1 then None else Some (evEventID (last (butlast es)))) \<and>
     rsStatus st = (if evEventType (last es) = eventRevoked then statusRevoked else statusActive) \<and>
     (rsValue st = [] \<longleftrightarrow> rsStatus st = statusRevoked)"

definition explained :: "event list \<Rightarrow> string \<Rightarrow> rstate option \<Rightarrow> bool" where
  "explained evs t ost \<longleftrightarrow> (case ost of
      None \<Rightarrow> targetEvents t evs = []
    | Some st \<Rightarrow> lifecycle (targetEvents t evs) st \<and> rsTargetID st = t \<and> t \<noteq> [])"

definition explains :: "event list \<Rightarrow> projection \<Rightarrow> bool" where
  "explains evs p \<longleftrightarrow> (\<forall>t. explained evs t (mget p t))"

lemma explains_at: "explains evs p \<Longrightarrow> explained evs t (mget p t)"
  by (simp add: explains_def)

lemma explains_None: "explains evs p \<Longrightarrow> mget p t = None \<Longrightarrow> targetEvents t evs = []"
  by (drule explains_at [where t = t]) (simp add: explained_def)

lemma explains_Some:
  "explains evs p \<Longrightarrow> mget p t = Some st \<Longrightarrow> lifecycle (targetEvents t evs) st \<and> rsTargetID st = t \<and> t \<noteq> []"
  by (drule explains_at [where t = t]) (simp add: explained_def)

lemma targetEvents_snoc: "targetEvents t (evs @ [e]) = targetEvents t evs @ (if evTargets e = [t] then [e] else [])"
  by (simp add: targetEvents_def)

lemma explains_put:
  assumes "explains evs p" "evTargets e = [t]" "lifecycle (targetEvents t evs @ [e]) st" "rsTargetID st = t" "t \<noteq> []"
  shows "explains (evs @ [e]) (mput t st p)"
  unfolding explains_def
proof
  fix u
  show "explained (evs @ [e]) u (mget (mput t st p) u)"
  proof (cases "u = t")
    case True
    then show ?thesis using assms by (simp add: explained_def mget_mput targetEvents_snoc)
  next
    case False
    then have "targetEvents u (evs @ [e]) = targetEvents u evs" using assms(2) by (simp add: targetEvents_snoc)
    then have "explained (evs @ [e]) u (mget p u) = explained evs u (mget p u)"
      by (simp only: explained_def)
    then show ?thesis using explains_at [OF assms(1)] False by (simp add: mget_mput)
  qed
qed

lemma lifecycle_snoc:
  assumes "lifecycle es st" "rsStatus st = statusActive" "evRecordKind e = rsRecordKind st"
    "evEventType e \<noteq> eventCreated" "(v = []) = (evEventType e = eventRevoked)"
  shows "lifecycle (es @ [e]) \<lparr>rsTargetID = t, rsRecordKind = rsRecordKind st,
      rsStatus = (if evEventType e = eventRevoked then statusRevoked else statusActive),
      rsRevision = rsRevision st + 1, rsCurrentEventID = evEventID e,
      rsPreviousEventID = Some (rsCurrentEventID st), rsValue = v\<rparr>"
proof -
  have ne: "es \<noteq> []" using assms(1) by (simp add: lifecycle_def)
  then have es: "es = butlast es @ [last es]" by simp
  have "evEventType (last es) \<noteq> eventRevoked"
    using assms(1,2) by (auto simp: lifecycle_def split: if_split_asm)
  moreover have "\<forall>x\<in>set (butlast es). evEventType x \<noteq> eventRevoked" using assms(1) by (simp add: lifecycle_def)
  moreover have "set es = insert (last es) (set (butlast es))" by (subst es) simp
  ultimately have nr: "\<forall>x\<in>set es. evEventType x \<noteq> eventRevoked" by auto
  have tl: "tl (es @ [e]) = tl es @ [e]" "hd (es @ [e]) = hd es" using ne by simp_all
  have len: "length (es @ [e]) \<noteq> 1" using ne by simp
  have cr: "evEventType (hd es) = eventCreated" "\<forall>x\<in>set (tl es). evEventType x \<noteq> eventCreated"
    "\<forall>x\<in>set es. evRecordKind x = rsRecordKind st" "rsRevision st = of_nat (length es)"
    "rsCurrentEventID st = evEventID (last es)" using assms(1) by (simp_all add: lifecycle_def)
  show ?thesis
    unfolding lifecycle_def tl
    by (intro conjI) (use ne nr cr assms(3-5) len in simp_all)
qed

lemma rstep_explains:
  assumes "rstep jcs p e q" "explains evs p"
  shows "explains (evs @ [e]) q"
  using assms
proof (induction rule: rstep.induct)
  case (create e t p v)
  then have "targetEvents t evs = []" using explains_None by blast
  then show ?case using create by (intro explains_put) (auto simp: lifecycle_def)
next
  case (replace e t p st v)
  then have l: "lifecycle (targetEvents t evs) st" using explains_Some by blast
  show ?case
    by (rule explains_put)
      (use replace lifecycle_snoc [OF l, of e v t] in auto)
next
  case (revoke e t p st)
  then have l: "lifecycle (targetEvents t evs) st" using explains_Some by blast
  show ?case
    by (rule explains_put)
      (use revoke lifecycle_snoc [OF l, of e "[]" t] in auto)
qed

definition replayEvents :: "(string \<Rightarrow> string res) \<Rightarrow> (bindings \<times> event) list \<Rightarrow> projection res" where
  "replayEvents jcs bes = foldM (\<lambda>p (b, e). reducerApply jcs p b e) [] bes"

lemma replay_explains:
  assumes "jcsLaws jcs nf" "replayEvents jcs bes = Inr p"
  shows "explains (map snd bes) p"
  using assms(2)
proof (induction bes arbitrary: p rule: rev_induct)
  case Nil
  then show ?case by (simp add: replayEvents_def explains_def explained_def targetEvents_def)
next
  case (snoc be bes)
  obtain b e where be: "be = (b, e)" by fastforce
  from snoc.prems obtain q where "replayEvents jcs bes = Inr q" "reducerApply jcs q b e = Inr p"
    by (auto simp: replayEvents_def foldM_append be andThen_Inr_iff)
  then show ?case
    using snoc.IH reducerApply_rstep [OF assms(1)] rstep_explains by (fastforce simp: be)
qed

section \<open>The invariant of projections\<close>

definition wellFormedState :: "(string \<Rightarrow> string res) \<Rightarrow> rstate \<Rightarrow> bool" where
  "wellFormedState jcs st \<longleftrightarrow> rsTargetID st \<noteq> [] \<and> rsRecordKind st \<noteq> [] \<and> rsCurrentEventID st \<noteq> [] \<and>
     (rsStatus st = statusActive \<and> rsValue st \<noteq> [] \<and> canonicalize jcs (rsValue st) = Inr (rsValue st) \<or>
      rsStatus st = statusRevoked \<and> rsValue st = [])"

lemma rstep_wellFormed:
  assumes "rstep jcs p e q" "\<And>t st. mget p t = Some st \<Longrightarrow> wellFormedState jcs st" "mget q t = Some st"
  shows "wellFormedState jcs st"
  using assms by (induction rule: rstep.induct) (auto simp: mget_mput wellFormedState_def split: if_split_asm)

lemma replay_wellFormed:
  assumes "jcsLaws jcs nf" "replayEvents jcs bes = Inr p" "mget p t = Some st"
  shows "wellFormedState jcs st"
  using assms(2,3)
proof (induction bes arbitrary: p t st rule: rev_induct)
  case (snoc be bes)
  obtain b e where be: "be = (b, e)" by fastforce
  from snoc.prems obtain q where "replayEvents jcs bes = Inr q" "reducerApply jcs q b e = Inr p"
    by (auto simp: replayEvents_def foldM_append be andThen_Inr_iff)
  then show ?case
    using snoc rstep_wellFormed [OF reducerApply_rstep [OF assms(1)]] by blast
qed (simp add: replayEvents_def)

lemma validateState_iff: "validateState jcs key st = Inr () \<longleftrightarrow>
    rsTargetID st = key \<and> rsTargetID st \<noteq> [] \<and> rsRecordKind st \<noteq> [] \<and> rsRevision st \<noteq> 0 \<and> rsCurrentEventID st \<noteq> [] \<and>
    (rsStatus st = statusActive \<and> rsValue st \<noteq> [] \<and> is_ok (canonicalize jcs (rsValue st)) \<or>
     rsStatus st = statusRevoked \<and> rsValue st = [])"
  by (auto simp: validateState_def requireValue_iff res_simps is_ok_iff split: if_split_asm)

lemma targetEvents_length: "length (targetEvents t evs) \<le> length evs"
  by (simp add: targetEvents_def)

lemma replay_valid:
  assumes "jcsLaws jcs nf" "replayEvents jcs bes = Inr p" "length bes < 2 ^ 64" "mget p t = Some st"
  shows "validateState jcs t st = Inr ()"
proof -
  have l: "lifecycle (targetEvents t (map snd bes)) st" "rsTargetID st = t"
    using explains_Some [OF replay_explains [OF assms(1,2)] assms(4)] by auto
  have w: "wellFormedState jcs st" by (rule replay_wellFormed [OF assms(1,2,4)])
  let ?n = "length (targetEvents t (map snd bes))"
  have "?n < 2 ^ 64" using targetEvents_length [of t "map snd bes"] assms(3) by simp
  moreover have "0 < ?n" using l(1) by (simp add: lifecycle_def)
  ultimately have "(of_nat ?n :: 64 word) \<noteq> 0" by (auto simp: word_of_nat_eq_0_iff dest!: dvd_imp_le)
  then have "rsRevision st \<noteq> 0" using l(1) by (simp add: lifecycle_def)
  with w l(2) show ?thesis by (auto simp: validateState_iff wellFormedState_def)
qed

section \<open>Refusals\<close>

lemma reducer_unknown:
  assumes "\<not> (evEventType ev = eventCreated \<or> evEventType ev = eventReplaced \<or> evEventType ev = eventRevoked)"
  shows "\<exists>e. reducerApply jcs cur b ev = Inl e \<and> (e = errNotApplicable \<or> errors_is e errUnknownReducerEvent)"
  using assms by (auto simp: reducerApply_def)

lemma reducer_terminal:
  assumes "evEventType ev = eventCreated \<or> evEventType ev = eventReplaced \<or> evEventType ev = eventRevoked"
    and "evEventID ev \<noteq> []" "evTargets ev = [t]" "t \<noteq> []" "evRecordKind ev \<noteq> policyRecordKind"
    and "mget cur t = Some st" "validateState jcs t st = Inr ()" "rsStatus st = statusRevoked"
  shows "\<exists>e. reducerApply jcs cur b ev = Inl e \<and>
    errors_is e (if evEventType ev = eventCreated then errAlreadyExists else errTerminalState)"
proof -
  have "hasPrefix eventCreated ''core.record.''" "hasPrefix eventReplaced ''core.record.''" "hasPrefix eventRevoked ''core.record.''"
    by code_simp+
  then show ?thesis
    using assms by (auto simp: reducerApply_def applyCreate_def applyReplace_def applyRevoke_def)
qed

section \<open>Properties\<close>

text \<open>C14: replaying accepted events from the empty projection gives, for every target, exactly the
  record its own events describe: it exists iff some event named it; its first event created it, no
  later one did, only the last may have revoked it; all carry its record kind; the revision counts
  them (modulo 2^64, as \<open>uint64\<close> does); the current and previous event identifiers are those of its
  last two events; and it is revoked, and without a value, exactly when the last event revoked it.\<close>

theorem replay_history:
  "jcsLaws jcs nf \<Longrightarrow> replayEvents jcs bes = Inr p \<Longrightarrow>
     (case mget p t of
        None \<Rightarrow> targetEvents t (map snd bes) = []
      | Some st \<Rightarrow> lifecycle (targetEvents t (map snd bes)) st \<and> rsTargetID st = t \<and> t \<noteq> [])"
  using replay_explains [of jcs nf bes p] explains_at [of "map snd bes" p t] by (simp add: explained_def)

definition sampleEvent :: event where
  "sampleEvent = \<lparr>evEventID = ''e1'', evEventType = ''core.record.created'', evTargets = [''t''],
     evRecordKind = ''note'', evValue = ''[1]'',
     evPriorState = ''{\"exists\":false,\"target_id\":\"t\"}'',
     evResultingState = ''{\"target_id\":\"t\",\"record_kind\":\"note\",\"status\":\"active\",\"revision\":1,\"current_event_id\":\"e1\",\"previous_event_id\":null,\"value\":[1]}''\<rparr>"

definition sampleBindings :: bindings where
  "sampleBindings = [(''note'', ''exclusive-governed-record-v1'')]"

definition sampleState :: rstate where
  "sampleState = \<lparr>rsTargetID = ''t'', rsRecordKind = ''note'', rsStatus = ''active'', rsRevision = 1,
     rsCurrentEventID = ''e1'', rsPreviousEventID = None, rsValue = ''[1]''\<rparr>"

lemma sample_replay: "replayEvents sortingJcs [(sampleBindings, sampleEvent)] = Inr [(''t'', sampleState)]"
  by code_simp

theorem replay_history_witness:
  "\<exists>p. replayEvents sortingJcs [(sampleBindings, sampleEvent)] = Inr p \<and>
     (case mget p ''t'' of None \<Rightarrow> False | Some st \<Rightarrow> lifecycle [sampleEvent] st)"
proof -
  have "targetEvents ''t'' [sampleEvent] = [sampleEvent]" by (simp add: targetEvents_def sampleEvent_def)
  then show ?thesis
    using replay_history [OF sortingJcs_laws sample_replay, of "''t''"] sample_replay by auto
qed

text \<open>An accepted event is one legal transition of its single target (create, replace or revoke,
  with the resulting record as stated by \<open>rstep\<close>) and leaves every other target as it was.\<close>

lemma accepted_event_is_step:
  assumes "jcsLaws jcs nf" "reducerApply jcs cur b ev = Inr next"
  shows "rstep jcs cur ev next \<and> (\<exists>t. evTargets ev = [t] \<and> (\<forall>u. u \<noteq> t \<longrightarrow> mget next u = mget cur u))"
proof -
  have r: "rstep jcs cur ev next" by (rule reducerApply_rstep [OF assms])
  then have "\<exists>t. evTargets ev = [t] \<and> (\<forall>u. u \<noteq> t \<longrightarrow> mget next u = mget cur u)"
    by (induction rule: rstep.induct) (auto simp: mget_mput)
  with r show ?thesis by blast
qed

lemma accepted_event_is_step_witness:
  "rstep sortingJcs [] sampleEvent [(''t'', sampleState)]"
proof -
  have "reducerApply sortingJcs [] sampleBindings sampleEvent = Inr [(''t'', sampleState)]" by code_simp
  from accepted_event_is_step [OF sortingJcs_laws this] show ?thesis by blast
qed

text \<open>C37: every record of a projection replayed from fewer than 2^64 events passes the reducer's own
  check of existing states, so the check never refuses a later event of a replayed ledger.\<close>

theorem replayed_states_valid:
  "jcsLaws jcs nf \<Longrightarrow> replayEvents jcs bes = Inr p \<Longrightarrow> length bes < 2 ^ 64 \<Longrightarrow> mget p t = Some st \<Longrightarrow>
     validateState jcs t st = Inr ()"
  by (rule replay_valid)

theorem replayed_states_valid_witness: "validateState sortingJcs ''t'' sampleState = Inr ()"
  by (rule replayed_states_valid [OF sortingJcs_laws sample_replay]) simp_all

text \<open>A revoked record is terminal: any further create is refused as already existing, any further
  replace or revoke as terminal, whatever it carries.\<close>

lemma revoked_is_terminal:
  "evEventType ev = eventCreated \<or> evEventType ev = eventReplaced \<or> evEventType ev = eventRevoked \<Longrightarrow>
   evEventID ev \<noteq> [] \<Longrightarrow> evTargets ev = [t] \<Longrightarrow> t \<noteq> [] \<Longrightarrow> evRecordKind ev \<noteq> policyRecordKind \<Longrightarrow>
   mget cur t = Some st \<Longrightarrow> validateState jcs t st = Inr () \<Longrightarrow> rsStatus st = statusRevoked \<Longrightarrow>
   \<exists>e. reducerApply jcs cur b ev = Inl e \<and>
     errors_is e (if evEventType ev = eventCreated then errAlreadyExists else errTerminalState)"
  by (rule reducer_terminal)

lemma revoked_is_terminal_witness:
  "\<exists>e. reducerApply sortingJcs [(''t'', sampleState\<lparr>rsStatus := statusRevoked, rsValue := []\<rparr>)] sampleBindings sampleEvent = Inl e \<and>
     errors_is e errAlreadyExists"
proof -
  have v: "validateState sortingJcs ''t'' (sampleState\<lparr>rsStatus := statusRevoked, rsValue := []\<rparr>) = Inr ()" by code_simp
  have "evEventType sampleEvent = eventCreated" "evRecordKind sampleEvent \<noteq> policyRecordKind"
    by (simp_all add: sampleEvent_def eventCreated_def policyRecordKind_def)
  then show ?thesis
    using revoked_is_terminal [OF _ _ _ _ _ _ v, of sampleEvent "[(''t'', sampleState\<lparr>rsStatus := statusRevoked, rsValue := []\<rparr>)]" sampleBindings]
    by (simp add: sampleEvent_def)
qed

text \<open>The canonical bytes of a projection do not depend on the order in which Go iterates over
  the map.\<close>

lemma canonicalProjection_order_independent:
  "mwf p \<Longrightarrow> mwf q \<Longrightarrow> (\<forall>t. mget p t = mget q t) \<Longrightarrow> canonicalProjection jcs p = canonicalProjection jcs q"
proof -
  assume a: "mwf p" "mwf q" "\<forall>t. mget p t = mget q t"
  then have "sort_key fst p = sort_key fst q"
    using mget_eq_set_eq [OF a(1,2)] by (intro sort_members_unique) auto
  then show ?thesis by (simp only: canonicalProjection_def)
qed

lemma canonicalProjection_order_independent_witness:
  "canonicalProjection sortingJcs [(''t'', sampleState), (''u'', sampleState)] =
   canonicalProjection sortingJcs [(''u'', sampleState), (''t'', sampleState)]"
  by (rule canonicalProjection_order_independent) simp_all

end
