(* ===== verification/Interfaces.thy ===== *)
theory Interfaces
  imports Prelude
begin

text \<open>
  The contracts several components share, as locales: a write-once registry (an entry is added under
  a key that is free and is never replaced), and a lifecycle (a transition table with an entry
  state and final states). Each is interpreted on the model's own operations in the theory of the
  component that provides it.
\<close>

section \<open>Write-once registries\<close>

text \<open>
  \<open>add s a\<close> stores \<open>entry s a\<close> under \<open>key s a\<close> or fails; both may depend on a configuration part
  of the state that \<open>add\<close> does not change.
\<close>

locale write_once =
  fixes get :: "'s \<Rightarrow> 'k \<Rightarrow> 'v option"
    and add :: "'s \<Rightarrow> 'a \<Rightarrow> 's res"
    and key :: "'s \<Rightarrow> 'a \<Rightarrow> 'k"
    and entry :: "'s \<Rightarrow> 'a \<Rightarrow> 'v"
  assumes add_fresh: "add s a = Inr s' \<Longrightarrow> get s (key s a) = None"
    and add_get: "add s a = Inr s' \<Longrightarrow> get s' k = (if k = key s a then Some (entry s a) else get s k)"
    and add_key: "add s a = Inr s' \<Longrightarrow> key s' b = key s b"
    and add_entry: "add s a = Inr s' \<Longrightarrow> entry s' b = entry s b"
begin

lemma added: "add s a = Inr s' \<Longrightarrow> get s' (key s a) = Some (entry s a)"
  by (simp add: add_get)

lemma kept: "add s a = Inr s' \<Longrightarrow> get s k = Some v \<Longrightarrow> get s' k = Some v"
  using add_fresh by (fastforce simp: add_get)

lemma run_keys:
  "foldM add s as = Inr s' \<Longrightarrow> key s' b = key s b \<and> entry s' b = entry s b"
  by (induction as arbitrary: s) (auto simp: andThen_Inr_iff add_key add_entry)

lemma run_kept: "foldM add s as = Inr s' \<Longrightarrow> get s k = Some v \<Longrightarrow> get s' k = Some v"
  by (induction as arbitrary: s) (auto simp: andThen_Inr_iff dest: kept)

lemma run_fresh: "foldM add s as = Inr s' \<Longrightarrow> a \<in> set as \<Longrightarrow> get s (key s a) = None"
proof (induction as arbitrary: s)
  case (Cons b bs)
  then obtain s1 where s1: "add s b = Inr s1" "foldM add s1 bs = Inr s'" by (auto simp: andThen_Inr_iff)
  show ?case
  proof (cases "a = b")
    case True
    then show ?thesis using add_fresh [OF s1(1)] by simp
  next
    case False
    then have "get s1 (key s a) = None" using Cons s1 add_key [OF s1(1)] by fastforce
    then show ?thesis using kept [OF s1(1)] by (metis not_None_eq)
  qed
qed simp

text \<open>Accepted additions have pairwise different keys.\<close>

lemma run_distinct: "foldM add s as = Inr s' \<Longrightarrow> distinct (map (key s) as)"
proof (induction as arbitrary: s)
  case (Cons b bs)
  then obtain s1 where s1: "add s b = Inr s1" "foldM add s1 bs = Inr s'" by (auto simp: andThen_Inr_iff)
  have "distinct (map (key s) bs)" using Cons.IH [OF s1(2)] add_key [OF s1(1)] by simp
  moreover have "key s b \<noteq> key s c" if "c \<in> set bs" for c
    using run_fresh [OF s1(2) that] added [OF s1(1)] add_key [OF s1(1), of c] by auto
  ultimately show ?case by auto
qed simp

text \<open>What a run of additions leaves: the old entries and one for each addition.\<close>

lemma run_get: "foldM add s as = Inr s' \<Longrightarrow>
    get s' k = Some v \<longleftrightarrow> get s k = Some v \<or> (\<exists>a\<in>set as. key s a = k \<and> entry s a = v)"
proof (induction as arbitrary: s)
  case (Cons b bs)
  then obtain s1 where s1: "add s b = Inr s1" "foldM add s1 bs = Inr s'" by (auto simp: andThen_Inr_iff)
  have "get s1 k = Some v \<longleftrightarrow> get s k = Some v \<or> (key s b = k \<and> entry s b = v)"
    using add_get [OF s1(1), of k] add_fresh [OF s1(1)] by auto
  then show ?case using Cons.IH [OF s1(2)] add_key [OF s1(1)] add_entry [OF s1(1)] by auto
qed simp

text \<open>The order of additions does not matter.\<close>

lemma run_order:
  assumes "foldM add s as = Inr t" "foldM add s bs = Inr u" "set as = set bs"
  shows "get t k = get u k"
proof (cases "get t k")
  case (Some v)
  then show ?thesis using run_get [OF assms(1), of k v] run_get [OF assms(2), of k v] assms(3) by simp
next
  case None
  then show ?thesis using run_get [OF assms(1), of k] run_get [OF assms(2), of k] assms(3)
    by (metis not_None_eq)
qed

end

section \<open>Lifecycles\<close>

locale lifecycle_table =
  fixes can :: "'s \<Rightarrow> 's \<Rightarrow> bool"
    and enter :: "'s \<Rightarrow> 's \<Rightarrow> unit res"
    and first :: 's
    and final :: "'s set"
  assumes enter_iff: "enter a b = Inr () \<longleftrightarrow> can a b"
    and final_stuck: "a \<in> final \<Longrightarrow> \<not> can a b"
    and no_return: "\<not> can a first"
begin

definition run :: "'s \<Rightarrow> 's list \<Rightarrow> 's res" where
  "run s path = foldM (\<lambda>s t. andThen (enter s t) (\<lambda>_. Inr t)) s path"

lemma run_Cons: "run s (t # path) = Inr u \<longleftrightarrow> can s t \<and> run t path = Inr u"
  using enter_iff [of s t] by (auto simp: run_def andThen_Inr_iff)

lemma run_final: "run s path = Inr u \<Longrightarrow> s \<in> final \<Longrightarrow> path = []"
  by (cases path) (auto simp: run_Cons final_stuck)

lemma run_first: "run s path = Inr u \<Longrightarrow> first \<notin> set path"
  by (induction path arbitrary: s) (auto simp: run_Cons no_return)

text \<open>A final state can only be the last of a path.\<close>

lemma run_final_last: "run s path = Inr u \<Longrightarrow> x \<in> set (butlast path) \<Longrightarrow> x \<notin> final"
proof (induction path arbitrary: s)
  case (Cons t path)
  then have r: "run t path = Inr u" by (simp add: run_Cons)
  show ?case
  proof (cases "x = t \<and> path \<noteq> []")
    case True
    then show ?thesis using run_final [OF r] by auto
  next
    case False
    then show ?thesis using Cons r by (auto split: if_split_asm)
  qed
qed simp

end

end
