(* ===== verification/Knowledge.thy ===== *)
theory Knowledge
  imports Interfaces Canonical Go_Std "HOL-Library.Word"
begin

text \<open>
  The knowledge packages: internal/access, coverage, temporal, evidence, escrow, source, provenance,
  relationship, conflict, catalog and checkpoint. Registries are Go maps behind write-once
  \<open>Add\<close> operations.
\<close>

section \<open>internal/access\<close>

definition accessPublic :: string where "accessPublic = ''public''"
definition accessInternal :: string where "accessInternal = ''internal''"
definition accessConfidential :: string where "accessConfidential = ''confidential''"
definition accessRestricted :: string where "accessRestricted = ''restricted''"

definition accessRank :: "(string, nat) gomap" where
  "accessRank = [(accessPublic, 0), (accessInternal, 1), (accessConfidential, 2), (accessRestricted, 3)]"

definition classificationValidate :: "string \<Rightarrow> unit res" where
  "classificationValidate c =
    (if \<not> mhas accessRank c then Inl (Errorf ''CLASSIFICATION_INVALID'' []) else Inr ())"

definition canRead :: "string \<Rightarrow> string \<Rightarrow> bool" where
  "canRead clearance rec =
    (case (mget accessRank clearance, mget accessRank rec) of
       (Some cr, Some rr) \<Rightarrow> rr \<le> cr | _ \<Rightarrow> False)"

record tombstone =
  tbRecordID :: string
  tbAuthorisedBy :: string
  tbReason :: string
  tbContentDestroyedAt :: string

definition tombstoneValidate :: "tombstone \<Rightarrow> unit res" where
  "tombstoneValidate r =
    (if tbRecordID r = [] \<or> tbAuthorisedBy r = [] \<or> tbReason r = []
     then Inl (Errorf ''REDACTION_INVALID: identity, authority and reason are required'' [])
     else andThen (wrapw ''REDACTION_INVALID: content_destroyed_at'' (parseTime (tbContentDestroyedAt r))) (\<lambda>_. Inr ()))"

section \<open>internal/coverage\<close>

record coverageReport =
  cvExpected :: int
  cvAvailable :: int
  cvChecked :: int
  cvComplete :: bool
  cvLastCompleteIngestion :: string
  cvKnownGaps :: "string list"

definition coverageValidate :: "coverageReport \<Rightarrow> unit res" where
  "coverageValidate r =
    (if cvExpected r < 0 \<or> cvAvailable r < 0 \<or> cvChecked r < 0
     then Inl (Errorf ''COVERAGE_INVALID: counts must be non-negative'' [])
     else if cvAvailable r < cvChecked r
     then Inl (Errorf ''COVERAGE_INVALID: checked exceeds available'' [])
     else if cvComplete r \<and> (cvExpected r = 0 \<or> cvAvailable r \<noteq> cvExpected r \<or> cvChecked r \<noteq> cvExpected r \<or> cvKnownGaps r \<noteq> [])
     then Inl (Errorf ''COVERAGE_INVALID: complete coverage contradicts counts or known gaps'' [])
     else Inr ())"

definition canClaimAbsence :: "coverageReport \<Rightarrow> bool" where
  "canClaimAbsence r =
    (is_ok (coverageValidate r) \<and> cvComplete r \<and> 0 < cvExpected r \<and> cvAvailable r = cvExpected r \<and>
     cvChecked r = cvExpected r \<and> cvKnownGaps r = [])"

section \<open>internal/temporal\<close>

record window =
  wnEffectiveFrom :: string
  wnEffectiveUntil :: string
  wnObservedAt :: string
  wnAcceptedAt :: string

definition windowValidate :: "window \<Rightarrow> unit res" where
  "windowValidate w =
    andThen (wrapw ''TEMPORAL_INVALID: observed_at'' (parseTime (wnObservedAt w))) (\<lambda>observed.
    andThen (wrapw ''TEMPORAL_INVALID: accepted_at'' (parseTime (wnAcceptedAt w))) (\<lambda>accepted.
    if accepted < observed then Inl (Errorf ''TEMPORAL_INVALID: accepted_at precedes observed_at'' [])
    else
    andThen (if wnEffectiveFrom w = [] then Inr 0
             else wrapw ''TEMPORAL_INVALID: effective_from'' (parseTime (wnEffectiveFrom w))) (\<lambda>frm.
    andThen (if wnEffectiveUntil w = [] then Inr 0
             else wrapw ''TEMPORAL_INVALID: effective_until'' (parseTime (wnEffectiveUntil w))) (\<lambda>until.
    if frm \<noteq> 0 \<and> until \<noteq> 0 \<and> until < frm
    then Inl (Errorf ''TEMPORAL_INVALID: effective_until precedes effective_from'' [])
    else Inr ()))))"

definition effectiveAt :: "window \<Rightarrow> int \<Rightarrow> bool" where
  "effectiveAt w at =
    ((wnEffectiveFrom w = [] \<or> (case timeParse (wnEffectiveFrom w) of None \<Rightarrow> False | Some f \<Rightarrow> \<not> at < f)) \<and>
     (wnEffectiveUntil w = [] \<or> (case timeParse (wnEffectiveUntil w) of None \<Rightarrow> False | Some u \<Rightarrow> at < u)))"

definition knownAt :: "window \<Rightarrow> int \<Rightarrow> bool" where
  "knownAt w at = (case timeParse (wnAcceptedAt w) of None \<Rightarrow> False | Some a \<Rightarrow> \<not> at < a)"

section \<open>internal/evidence\<close>

text \<open>A retrieval score is a \<open>*float64\<close> that is only passed on: its bits.\<close>

record evidenceEnvelope =
  eeRecordID :: string
  eeRecordType :: string
  eeAuthorityClass :: string
  eeSourceID :: string
  eeSourceVersions :: "string list"
  eeProvenance :: "string list"
  eeConflicts :: "string list"
  eeSuperseded :: bool
  eeProjectionVersion :: string
  eeRetrievalScore :: "64 word option"
  eeCoverage :: "coverageReport option"
  eeTemporal :: "window option"
  eeClassification :: string

definition optValidate :: "('a \<Rightarrow> unit res) \<Rightarrow> 'a option \<Rightarrow> unit res" where
  "optValidate f x = (case x of None \<Rightarrow> Inr () | Some y \<Rightarrow> f y)"

definition envelopeValidate :: "evidenceEnvelope \<Rightarrow> unit res" where
  "envelopeValidate e =
    (if eeRecordID e = [] \<or> eeRecordType e = [] \<or> eeAuthorityClass e = []
     then Inl (Errorf ''EVIDENCE_ENVELOPE_INVALID: record identity/type/authority required'' [])
     else andThen (classificationValidate (eeClassification e)) (\<lambda>_.
          andThen (optValidate coverageValidate (eeCoverage e)) (\<lambda>_.
          optValidate windowValidate (eeTemporal e))))"

section \<open>internal/escrow\<close>

definition modeReferenceOnly :: string where "modeReferenceOnly = ''reference_only''"
definition modeMetadataSnapshot :: string where "modeMetadataSnapshot = ''metadata_snapshot''"
definition modeContentSnapshot :: string where "modeContentSnapshot = ''content_snapshot''"
definition modeExternallyDurable :: string where "modeExternallyDurable = ''externally_durable''"
definition modePreservationProhibited :: string where "modePreservationProhibited = ''preservation_prohibited''"

record escrowPolicy =
  epMode :: string
  epMaxBytes :: int

record escrowSnapshot =
  esSourceID :: string
  esVersionID :: string
  esContentSHA256 :: string
  esSize :: int
  esMediaType :: string

definition escrowPolicyValidate :: "escrowPolicy \<Rightarrow> unit res" where
  "escrowPolicyValidate p =
    (if epMode p \<notin> set [modeReferenceOnly, modeMetadataSnapshot, modeContentSnapshot, modeExternallyDurable, modePreservationProhibited]
     then Inl (Errorf ''ESCROW_POLICY_INVALID: unknown mode'' [])
     else if epMaxBytes p < 0 then Inl (Errorf ''ESCROW_POLICY_INVALID: max_bytes must be non-negative'' [])
     else if epMode p = modePreservationProhibited \<and> epMaxBytes p \<noteq> 0
     then Inl (Errorf ''ESCROW_POLICY_INVALID: prohibited preservation cannot allocate content bytes'' [])
     else Inr ())"

definition hashContent :: "string \<Rightarrow> string" where
  "hashContent content = sha256Hex content"

definition verifyContent :: "escrowSnapshot \<Rightarrow> string \<Rightarrow> unit res" where
  "verifyContent snapshot content =
    (if esSourceID snapshot = [] \<or> esVersionID snapshot = [] \<or> esContentSHA256 snapshot = []
     then Inl (Errorf ''ESCROW_INVALID: source_id, version_id and content_sha256 are required'' [])
     else if int (length content) \<noteq> esSize snapshot then Inl (Errorf ''ESCROW_SIZE_MISMATCH'' [])
     else if hashContent content \<noteq> esContentSHA256 snapshot then Inl (Errorf ''ESCROW_DIGEST_MISMATCH'' [])
     else Inr ())"

text \<open>
  The blob directory is a map from file names to contents. The fault says which system call of
  \<open>Put\<close> fails, if any: opening for a reason other than existence, reading, writing, closing.
\<close>

datatype ioFault = NoFault | OpenFault | ReadFault | WriteFault | CloseFault

type_synonym blobDir = "(string, string) gomap"

definition errIO :: goerr where "errIO = ErrNew ''I/O error''"

definition blobName :: "string \<Rightarrow> string" where
  "blobName digest = digest @ ''.blob''"

definition escrowPut ::
  "ioFault \<Rightarrow> blobDir \<Rightarrow> string \<Rightarrow> string \<Rightarrow> string \<Rightarrow> string \<Rightarrow> blobDir \<times> escrowSnapshot res" where
  "escrowPut fault dir sourceID versionID mediaType content =
    (if sourceID = [] \<or> versionID = [] then (dir, Inl (Errorf ''ESCROW_INVALID: source/version identity required'' []))
     else let digest = hashContent content; path = blobName digest;
              snapshot = \<lparr>esSourceID = sourceID, esVersionID = versionID, esContentSHA256 = digest,
                          esSize = int (length content), esMediaType = mediaType\<rparr> in
       case mget dir path of
         Some existing \<Rightarrow>
           if fault = ReadFault then (dir, Inl errIO)
           else if hashContent existing \<noteq> digest
           then (dir, Inl (Errorf ''ESCROW_INTEGRITY_FAILURE: existing blob does not match filename digest'' []))
           else (dir, Inr snapshot)
       | None \<Rightarrow>
           if fault = OpenFault then (dir, Inl errIO)
           else if fault = WriteFault \<or> fault = CloseFault then (mdel path (mput path content dir), Inl errIO)
           else (mput path content dir, Inr snapshot))"

definition escrowGet :: "ioFault \<Rightarrow> blobDir \<Rightarrow> escrowSnapshot \<Rightarrow> string res" where
  "escrowGet fault dir snapshot =
    (if fault = ReadFault then Inl errIO
     else case mget dir (blobName (esContentSHA256 snapshot)) of
       None \<Rightarrow> Inl errIO
     | Some content \<Rightarrow> andThen (verifyContent snapshot content) (\<lambda>_. Inr content))"

section \<open>internal/source\<close>

record sourceVersion =
  svID :: string
  svContentSHA256 :: string
  svLocator :: string
  svObservedAt :: string

record knowledgeSource =
  ksID :: string
  ksKind :: string
  ksAuthorityClass :: string
  ksClassification :: string
  ksPreservation :: escrowPolicy
  ksVersions :: "(string, sourceVersion) gomap"

type_synonym sourceRegistry = "(string, knowledgeSource) gomap"

definition cloneSource :: "knowledgeSource \<Rightarrow> knowledgeSource" where
  "cloneSource src = src\<lparr>ksVersions := fold (\<lambda>(k, v) m. mput k v m) (ksVersions src) []\<rparr>"

definition sourceRegister :: "sourceRegistry \<Rightarrow> knowledgeSource \<Rightarrow> sourceRegistry res" where
  "sourceRegister r src =
    (if ksID src = [] \<or> ksKind src = [] \<or> ksAuthorityClass src = []
     then Inl (Errorf ''SOURCE_INVALID: id, kind and authority_class required'' [])
     else
     andThen (classificationValidate (ksClassification src)) (\<lambda>_.
     andThen (escrowPolicyValidate (ksPreservation src)) (\<lambda>_.
     if mhas r (ksID src) then Inl (Errorf ''SOURCE_EXISTS'' [])
     else andThen (checkAll (\<lambda>(i, v). require (i = svID v \<and> svID v \<noteq> [])
                     (Errorf ''SOURCE_VERSION_INVALID: map key/version id mismatch'' [])) (ksVersions src)) (\<lambda>_.
       Inr (mput (ksID src) (cloneSource src) r)))))"

definition sourceAddVersion :: "sourceRegistry \<Rightarrow> string \<Rightarrow> sourceVersion \<Rightarrow> sourceRegistry res" where
  "sourceAddVersion r sourceID version =
    (case mget r sourceID of
       None \<Rightarrow> Inl (Errorf ''SOURCE_NOT_FOUND'' [])
     | Some src \<Rightarrow>
       if svID version = [] then Inl (Errorf ''SOURCE_VERSION_INVALID: id required'' [])
       else case mget (ksVersions src) (svID version) of
         Some prior \<Rightarrow> if prior = version then Inr r else Inl (Errorf ''SOURCE_VERSION_CONFLICT'' [])
       | None \<Rightarrow> Inr (mput sourceID (src\<lparr>ksVersions := mput (svID version) version (ksVersions src)\<rparr>) r))"

definition sourceGet :: "sourceRegistry \<Rightarrow> string \<Rightarrow> knowledgeSource option" where
  "sourceGet r sourceID = map_option cloneSource (mget r sourceID)"

definition exactVersion :: "sourceRegistry \<Rightarrow> string \<Rightarrow> string \<Rightarrow> sourceVersion option" where
  "exactVersion r sourceID versionID =
    (case mget r sourceID of None \<Rightarrow> None | Some src \<Rightarrow> mget (ksVersions src) versionID)"

definition sourceIDs :: "sourceRegistry \<Rightarrow> string list" where
  "sourceIDs r = sort (map fst r)"

section \<open>internal/provenance\<close>

record sourceRef =
  srSourceID :: string
  srVersionID :: string

record provRecord =
  pvID :: string
  pvSourceVersions :: "sourceRef list"
  pvDerivedFrom :: "string list"
  pvProducerID :: string
  pvTransformationID :: string

type_synonym provGraph = "(string, provRecord) gomap"

definition zeroProv :: provRecord where
  "zeroProv = \<lparr>pvID = [], pvSourceVersions = [], pvDerivedFrom = [], pvProducerID = [], pvTransformationID = []\<rparr>"

definition provParents :: "provGraph \<Rightarrow> string \<Rightarrow> string list" where
  "provParents g i = (case mget g i of None \<Rightarrow> [] | Some r \<Rightarrow> pvDerivedFrom r)"

text \<open>
  \<open>hasCycle\<close>: the maps \<open>visiting\<close> and \<open>done\<close> are shared by the whole recursion. The result is the
  answer and both maps; \<open>None\<close> is running out of fuel.
\<close>

fun hasCycle :: "nat \<Rightarrow> provGraph \<Rightarrow> string \<Rightarrow> string list \<Rightarrow> string list \<Rightarrow> (bool \<times> string list \<times> string list) option"
and hasCycleAny :: "nat \<Rightarrow> provGraph \<Rightarrow> string list \<Rightarrow> string list \<Rightarrow> string list \<Rightarrow> (bool \<times> string list \<times> string list) option" where
  "hasCycle 0 g i visiting dn = None"
| "hasCycle (Suc n) g i visiting dn =
    (if i \<in> set visiting then Some (True, visiting, dn)
     else if i \<in> set dn then Some (False, visiting, dn)
     else case hasCycleAny n g (provParents g i) (i # visiting) dn of
       None \<Rightarrow> None
     | Some (b, v, d) \<Rightarrow> if b then Some (True, v, d) else Some (False, removeAll i v, i # d))"
| "hasCycleAny n g [] visiting dn = Some (False, visiting, dn)"
| "hasCycleAny n g (p # ps) visiting dn =
    (case hasCycle n g p visiting dn of
       None \<Rightarrow> None
     | Some (b, v, d) \<Rightarrow> if b then Some (True, v, d) else hasCycleAny n g ps v d)"

definition provAdd :: "provGraph \<Rightarrow> provRecord \<Rightarrow> provGraph res" where
  "provAdd g rec =
    (if pvID rec = [] then Inl (Errorf ''PROVENANCE_INVALID: record id required'' [])
     else if mhas g (pvID rec) then Inl (Errorf ''PROVENANCE_EXISTS'' [])
     else if pvDerivedFrom rec \<noteq> [] \<and> (pvProducerID rec = [] \<or> pvTransformationID rec = [])
     then Inl (Errorf ''PROVENANCE_INVALID: derived records require producer and transformation identity'' [])
     else
     andThen (checkAll (\<lambda>ref. require (srSourceID ref \<noteq> [] \<and> srVersionID ref \<noteq> [])
        (Errorf ''PROVENANCE_INVALID: exact source/version required'' [])) (pvSourceVersions rec)) (\<lambda>_.
     andThen (checkAll (\<lambda>parent.
        if parent = pvID rec then Inl (Errorf ''PROVENANCE_CYCLE: self reference'' [])
        else require (mhas g parent) (Errorf ''PROVENANCE_PARENT_NOT_FOUND'' [])) (pvDerivedFrom rec)) (\<lambda>_.
     let g' = mput (pvID rec) rec g in
     case hasCycle (Suc (length g')) g' (pvID rec) [] [] of
       Some (False, _, _) \<Rightarrow> Inr g'
     | _ \<Rightarrow> Inl (Errorf ''PROVENANCE_CYCLE'' []))))"

definition provGet :: "provGraph \<Rightarrow> string \<Rightarrow> provRecord option" where
  "provGet g i = mget g i"

text \<open>\<open>Lineage\<close>: a depth-first walk over the sorted parents; a record is appended after them.\<close>

fun walk :: "nat \<Rightarrow> provGraph \<Rightarrow> string \<Rightarrow> string list \<times> provRecord list \<Rightarrow> (string list \<times> provRecord list) option"
and walkAll :: "nat \<Rightarrow> provGraph \<Rightarrow> string list \<Rightarrow> string list \<times> provRecord list \<Rightarrow> (string list \<times> provRecord list) option" where
  "walk 0 g cur st = None"
| "walk (Suc n) g cur st =
    (if cur \<in> set (fst st) then Some st
     else case walkAll n g (sort (provParents g cur)) (cur # fst st, snd st) of
       None \<Rightarrow> None
     | Some (seen, out) \<Rightarrow> Some (seen, out @ [case mget g cur of None \<Rightarrow> zeroProv | Some r \<Rightarrow> r]))"
| "walkAll n g [] st = Some st"
| "walkAll n g (p # ps) st = (case walk n g p st of None \<Rightarrow> None | Some st' \<Rightarrow> walkAll n g ps st')"

definition lineage :: "provGraph \<Rightarrow> string \<Rightarrow> provRecord list res" where
  "lineage g i =
    (if \<not> mhas g i then Inl (Errorf ''PROVENANCE_NOT_FOUND'' [])
     else case walk (Suc (length g)) g i ([], []) of
       None \<Rightarrow> Inl (ErrNew ''out of fuel'')
     | Some (seen, out) \<Rightarrow> Inr out)"

section \<open>internal/relationship\<close>

record relDefinition =
  rdType :: string
  rdSymmetric :: bool

record relEdge =
  reFrom :: string
  reType :: string
  reTo :: string
  reEvidence :: "string list"

record relGraph =
  rgDefs :: "(string, relDefinition) gomap"
  rgEdges :: "(string, relEdge) gomap"

definition newRelGraph :: relGraph where
  "newRelGraph = \<lparr>rgDefs = [], rgEdges = []\<rparr>"

definition relDefine :: "relGraph \<Rightarrow> relDefinition \<Rightarrow> relGraph res" where
  "relDefine g d =
    (if rdType d = [] then Inl (Errorf ''RELATIONSHIP_INVALID: type required'' [])
     else if mhas (rgDefs g) (rdType d) then Inl (Errorf ''RELATIONSHIP_TYPE_EXISTS'' [])
     else Inr (g\<lparr>rgDefs := mput (rdType d) d (rgDefs g)\<rparr>))"

definition edgeKey :: "relEdge \<Rightarrow> string" where
  "edgeKey e = reFrom e @ [CHR 0x00] @ reType e @ [CHR 0x00] @ reTo e"

definition orientEdge :: "relDefinition \<Rightarrow> relEdge \<Rightarrow> relEdge" where
  "orientEdge d e = (if rdSymmetric d \<and> reTo e < reFrom e then e\<lparr>reFrom := reTo e, reTo := reFrom e\<rparr> else e)"

definition relAdd :: "relGraph \<Rightarrow> relEdge \<Rightarrow> relGraph res" where
  "relAdd g e =
    (case mget (rgDefs g) (reType e) of
       None \<Rightarrow> Inl (Errorf ''RELATIONSHIP_TYPE_UNKNOWN'' [])
     | Some d \<Rightarrow>
       if reFrom e = [] \<or> reTo e = [] \<or> reFrom e = reTo e
       then Inl (Errorf ''RELATIONSHIP_INVALID: distinct endpoints required'' [])
       else let e' = orientEdge d e; key = edgeKey e' in
         if mhas (rgEdges g) key then Inl (Errorf ''RELATIONSHIP_EXISTS'' [])
         else Inr (g\<lparr>rgEdges := mput key (e'\<lparr>reEvidence := sort (reEvidence e')\<rparr>) (rgEdges g)\<rparr>))"

definition edgeOrder :: "relEdge \<Rightarrow> string list" where
  "edgeOrder e = [reType e, reFrom e, reTo e]"

definition relFor :: "relGraph \<Rightarrow> string \<Rightarrow> relEdge list" where
  "relFor g i = sort_key edgeOrder (map snd (filter (\<lambda>(_, e). reFrom e = i \<or> reTo e = i) (rgEdges g)))"

section \<open>internal/conflict\<close>

definition conflictOpen :: string where "conflictOpen = ''open''"
definition conflictResolved :: string where "conflictResolved = ''resolved''"

record conflictSet =
  csID :: string
  csRecords :: "string list"
  csMaterial :: bool
  csState :: string
  csResolutionEventID :: string

type_synonym conflictRegistry = "(string, conflictSet) gomap"

definition conflictAdd :: "conflictRegistry \<Rightarrow> conflictSet \<Rightarrow> conflictRegistry res" where
  "conflictAdd r s =
    (if csID s = [] \<or> length (csRecords s) < 2
     then Inl (Errorf ''CONFLICT_INVALID: id and at least two records required'' [])
     else
     andThen (if csState s = conflictOpen then
                (if csResolutionEventID s \<noteq> [] then Inl (Errorf ''CONFLICT_INVALID: open conflict cannot have resolution event'' []) else Inr ())
              else if csState s = conflictResolved then
                (if csResolutionEventID s = [] then Inl (Errorf ''CONFLICT_INVALID: resolved conflict requires resolution event'' []) else Inr ())
              else Inl (Errorf ''CONFLICT_INVALID: unknown state'' [])) (\<lambda>_.
     let s' = s\<lparr>csRecords := sort (csRecords s)\<rparr> in
     if [] \<in> set (csRecords s') \<or> \<not> distinct_adj (csRecords s')
     then Inl (Errorf ''CONFLICT_INVALID: distinct record identities required'' [])
     else if mhas r (csID s) then Inl (Errorf ''CONFLICT_EXISTS'' [])
     else Inr (mput (csID s) s' r)))"

definition conflictFor :: "conflictRegistry \<Rightarrow> string \<Rightarrow> conflictSet list" where
  "conflictFor r i = sort_key csID (map snd (filter (\<lambda>(_, s). i \<in> set (csRecords s)) r))"

section \<open>internal/catalog\<close>

record catalogRecord =
  crID :: string
  crType :: string
  crAuthorityClass :: string
  crSourceID :: string
  crSourceVersions :: "string list"
  crProvenanceIDs :: "string list"
  crSuperseded :: bool
  crProjectionVersion :: string
  crCoverage :: "coverageReport option"
  crTemporal :: "window option"
  crClassification :: string

record catalog =
  ctRecords :: "(string, catalogRecord) gomap"
  ctProvenance :: provGraph
  ctRelationships :: relGraph
  ctConflicts :: conflictRegistry

definition newCatalog :: "provGraph option \<Rightarrow> relGraph option \<Rightarrow> conflictRegistry option \<Rightarrow> catalog" where
  "newCatalog p r c = \<lparr>ctRecords = [], ctProvenance = (case p of None \<Rightarrow> [] | Some x \<Rightarrow> x),
     ctRelationships = (case r of None \<Rightarrow> newRelGraph | Some x \<Rightarrow> x),
     ctConflicts = (case c of None \<Rightarrow> [] | Some x \<Rightarrow> x)\<rparr>"

definition catalogAdd :: "catalog \<Rightarrow> catalogRecord \<Rightarrow> catalog res" where
  "catalogAdd c rec =
    (if crID rec = [] \<or> crType rec = [] \<or> crAuthorityClass rec = []
     then Inl (Errorf ''CATALOG_INVALID: id/type/authority required'' [])
     else
     andThen (classificationValidate (crClassification rec)) (\<lambda>_.
     andThen (optValidate coverageValidate (crCoverage rec)) (\<lambda>_.
     andThen (optValidate windowValidate (crTemporal rec)) (\<lambda>_.
     if mhas (ctRecords c) (crID rec) then Inl (Errorf ''CATALOG_EXISTS'' [])
     else Inr (c\<lparr>ctRecords := mput (crID rec)
                   (rec\<lparr>crSourceVersions := sort (crSourceVersions rec), crProvenanceIDs := sort (crProvenanceIDs rec)\<rparr>)
                   (ctRecords c)\<rparr>)))))"

definition catalogEnvelope :: "catalog \<Rightarrow> string \<Rightarrow> string \<Rightarrow> 64 word option \<Rightarrow> evidenceEnvelope res" where
  "catalogEnvelope c i clearance score =
    (case mget (ctRecords c) i of
       None \<Rightarrow> Inl (Errorf ''CATALOG_NOT_FOUND'' [])
     | Some r \<Rightarrow>
       if \<not> canRead clearance (crClassification r) then Inl (Errorf ''ACCESS_DENIED'' [])
       else let env = \<lparr>eeRecordID = crID r, eeRecordType = crType r, eeAuthorityClass = crAuthorityClass r,
              eeSourceID = crSourceID r, eeSourceVersions = crSourceVersions r, eeProvenance = crProvenanceIDs r,
              eeConflicts = sort (map csID (conflictFor (ctConflicts c) i)), eeSuperseded = crSuperseded r,
              eeProjectionVersion = crProjectionVersion r, eeRetrievalScore = score, eeCoverage = crCoverage r,
              eeTemporal = crTemporal r, eeClassification = crClassification r\<rparr>
            in andThen (envelopeValidate env) (\<lambda>_. Inr env))"

definition catalogRelationships :: "catalog \<Rightarrow> string \<Rightarrow> relEdge list" where
  "catalogRelationships c i = relFor (ctRelationships c) i"

section \<open>internal/checkpoint\<close>

record checkpoint =
  cpLedgerCommit :: string
  cpEventCount :: "64 word"
  cpProjectionSHA256 :: string
  cpSchemaSetSHA256 :: string
  cpBindingSetSHA256 :: string

definition canonicalHash :: "(string \<Rightarrow> string res) \<Rightarrow> string \<Rightarrow> string res" where
  "canonicalHash jcs raw = andThen (canonicalize jcs raw) (\<lambda>c. Inr (sha256Hex c))"

definition checkpointBuild :: "(string \<Rightarrow> string res) \<Rightarrow> string \<Rightarrow> 64 word \<Rightarrow> string \<Rightarrow> string \<Rightarrow> string \<Rightarrow> checkpoint res" where
  "checkpointBuild jcs commit count projection schemas bindings =
    (if commit = [] then Inl (Errorf ''CHECKPOINT_INVALID: ledger commit required'' [])
     else
     andThen (wrapw ''projection'' (canonicalHash jcs projection)) (\<lambda>p.
     andThen (wrapw ''schemas'' (canonicalHash jcs schemas)) (\<lambda>s.
     andThen (wrapw ''bindings'' (canonicalHash jcs bindings)) (\<lambda>b.
       Inr \<lparr>cpLedgerCommit = commit, cpEventCount = count, cpProjectionSHA256 = p, cpSchemaSetSHA256 = s,
            cpBindingSetSHA256 = b\<rparr>))))"

definition checkpointVerify :: "(string \<Rightarrow> string res) \<Rightarrow> checkpoint \<Rightarrow> string \<Rightarrow> string \<Rightarrow> string \<Rightarrow> unit res" where
  "checkpointVerify jcs c projection schemas bindings =
    andThen (checkpointBuild jcs (cpLedgerCommit c) (cpEventCount c) projection schemas bindings) (\<lambda>actual.
      if cpProjectionSHA256 actual \<noteq> cpProjectionSHA256 c \<or> cpSchemaSetSHA256 actual \<noteq> cpSchemaSetSHA256 c \<or>
         cpBindingSetSHA256 actual \<noteq> cpBindingSetSHA256 c
      then Inl (Errorf ''CHECKPOINT_MISMATCH: derived state differs from checkpoint'' [])
      else Inr ())"

declare map_of_eq_Some_iff [simp del]

section \<open>Write-once registries\<close>

interpretation conflicts: write_once "\<lambda>r :: conflictRegistry. mget r" conflictAdd "\<lambda>_. csID" "\<lambda>_ s. s\<lparr>csRecords := sort (csRecords s)\<rparr>"
  by unfold_locales
    (auto simp: conflictAdd_def andThen_Inr_iff Let_def mget_mput split: if_split_asm)

interpretation catalogRecords: write_once "\<lambda>c. mget (ctRecords c)" catalogAdd "\<lambda>_. crID"
  "\<lambda>_ rec. rec\<lparr>crSourceVersions := sort (crSourceVersions rec), crProvenanceIDs := sort (crProvenanceIDs rec)\<rparr>"
  by unfold_locales
    (auto simp: catalogAdd_def andThen_Inr_iff Let_def mget_mput split: if_split_asm)

interpretation sources: write_once "\<lambda>r :: sourceRegistry. mget r" sourceRegister "\<lambda>_. ksID" "\<lambda>_. cloneSource"
  by unfold_locales
    (auto simp: sourceRegister_def andThen_Inr_iff Let_def mget_mput split: if_split_asm)

interpretation relDefs: write_once "\<lambda>g. mget (rgDefs g)" relDefine "\<lambda>_. rdType" "\<lambda>_ d. d"
  by unfold_locales (auto simp: relDefine_def mget_mput split: if_split_asm)

definition storedEdge :: "relGraph \<Rightarrow> relEdge \<Rightarrow> relEdge" where
  "storedEdge g e =
    (let e' = (case mget (rgDefs g) (reType e) of None \<Rightarrow> e | Some d \<Rightarrow> orientEdge d e)
     in e'\<lparr>reEvidence := sort (reEvidence e')\<rparr>)"

lemma edgeKey_evidence [simp]: "edgeKey (e\<lparr>reEvidence := x\<rparr>) = edgeKey e"
  by (simp add: edgeKey_def)

lemma relAdd_Inr: "relAdd g e = Inr g' \<longleftrightarrow>
    (\<exists>d. mget (rgDefs g) (reType e) = Some d) \<and> reFrom e \<noteq> [] \<and> reTo e \<noteq> [] \<and> reFrom e \<noteq> reTo e \<and>
    mget (rgEdges g) (edgeKey (storedEdge g e)) = None \<and>
    g' = g\<lparr>rgEdges := mput (edgeKey (storedEdge g e)) (storedEdge g e) (rgEdges g)\<rparr>"
  by (auto simp: relAdd_def storedEdge_def Let_def split: option.splits if_split_asm)

interpretation relEdges: write_once "\<lambda>g. mget (rgEdges g)" relAdd "\<lambda>g e. edgeKey (storedEdge g e)" storedEdge
  by unfold_locales (auto simp: relAdd_Inr mget_mput storedEdge_def)

interpretation provRecords: write_once "\<lambda>g :: provGraph. mget g" provAdd "\<lambda>_. pvID" "\<lambda>_ r. r"
  by unfold_locales
    (auto simp: provAdd_def andThen_Inr_iff Let_def mget_mput split: if_split_asm option.splits prod.splits bool.splits)

section \<open>Provenance graphs\<close>

text \<open>Every record comes after all of its parents.\<close>

definition provOrdered :: "provGraph \<Rightarrow> bool" where
  "provOrdered g \<longleftrightarrow> mwf g \<and>
     (\<forall>g1 i r g2. g = g1 @ (i, r) # g2 \<longrightarrow> pvID r = i \<and> set (pvDerivedFrom r) \<subseteq> fst ` set g1)"

lemma provOrdered_Nil [simp]: "provOrdered []"
  by (simp add: provOrdered_def)

lemma provOrdered_snoc:
  "provOrdered g \<Longrightarrow> i \<notin> fst ` set g \<Longrightarrow> pvID r = i \<Longrightarrow> set (pvDerivedFrom r) \<subseteq> fst ` set g \<Longrightarrow> provOrdered (g @ [(i, r)])"
  unfolding provOrdered_def
proof (intro conjI allI impI)
  assume a: "mwf g \<and> (\<forall>g1 i r g2. g = g1 @ (i, r) # g2 \<longrightarrow> pvID r = i \<and> set (pvDerivedFrom r) \<subseteq> fst ` set g1)"
    "i \<notin> fst ` set g" "pvID r = i" "set (pvDerivedFrom r) \<subseteq> fst ` set g"
  then show "mwf (g @ [(i, r)])" by auto
  fix g1 j s g2
  assume e: "g @ [(i, r)] = g1 @ (j, s) # g2"
  have "pvID s = j \<and> set (pvDerivedFrom s) \<subseteq> fst ` set g1"
  proof (cases g2 rule: rev_cases)
    case Nil
    then show ?thesis using e a by auto
  next
    case (snoc g3 x)
    then have "g = g1 @ (j, s) # g3" using e by auto
    then show ?thesis using a(1) by blast
  qed
  then show "pvID s = j" "set (pvDerivedFrom s) \<subseteq> fst ` set g1" by auto
qed

lemma provOrdered_get:
  assumes "provOrdered g" "mget g i = Some r"
  obtains g1 g2 where "g = g1 @ (i, r) # g2" "pvID r = i" "set (pvDerivedFrom r) \<subseteq> fst ` set g1" "i \<notin> fst ` set g1"
proof -
  obtain g1 g2 where g: "g = g1 @ (i, r) # g2" using map_of_SomeD [OF assms(2)] by (auto dest: split_list)
  moreover have "i \<notin> fst ` set g1" using assms(1) g by (auto simp: provOrdered_def)
  ultimately show thesis using assms(1) that unfolding provOrdered_def by blast
qed

text \<open>A split of the graph below a record: its parents are known and lie below it.\<close>

lemma provOrdered_parents:
  assumes "provOrdered g" "g = g1 @ (i, r) # g2"
  shows "provParents g i = pvDerivedFrom r" "set (provParents g i) \<subseteq> fst ` set g1"
proof -
  have "mwf g" using assms(1) by (simp add: provOrdered_def)
  moreover have "(i, r) \<in> set g" using assms(2) by simp
  ultimately have "mget g i = Some r" by (rule map_of_is_SomeI)
  then show "provParents g i = pvDerivedFrom r" by (simp add: provParents_def)
  moreover have "set (pvDerivedFrom r) \<subseteq> fst ` set g1" using assms unfolding provOrdered_def by blast
  ultimately show "set (provParents g i) \<subseteq> fst ` set g1" by simp
qed

lemma key_split: "p \<in> fst ` set g1 \<Longrightarrow> \<exists>a r b. g1 = a @ (p, r) # b"
  by (metis imageE prod.collapse split_list)

lemma hasCycle_False:
  assumes "provOrdered g" "g = g1 @ (i, r) # g2" "length g1 < n" "set visiting \<inter> insert i (fst ` set g1) = {}"
  shows "\<exists>d. hasCycle n g i visiting dn = Some (False, visiting, d)"
  using assms(2-4)
proof (induction n arbitrary: g1 i r g2 visiting dn)
  case (Suc n)
  have par: "set (provParents g i) \<subseteq> fst ` set g1" by (rule provOrdered_parents(2) [OF assms(1) Suc.prems(1)])
  have "mwf g" using assms(1) by (simp add: provOrdered_def)
  then have i: "i \<notin> fst ` set g1" unfolding Suc.prems(1) by simp
  have any: "\<exists>d. hasCycleAny n g ps (i # visiting) dn = Some (False, i # visiting, d)" if "set ps \<subseteq> fst ` set g1" for ps dn
    using that
  proof (induction ps arbitrary: dn)
    case (Cons p ps)
    obtain a q b where ab: "g1 = a @ (p, q) # b" using key_split [of p g1] Cons.prems by auto
    have "\<exists>d. hasCycle n g p (i # visiting) dn = Some (False, i # visiting, d)"
    proof (rule Suc.IH)
      show "g = a @ (p, q) # (b @ (i, r) # g2)" using Suc.prems(1) ab by simp
      show "length a < n" using Suc.prems(2) ab by simp
      show "set (i # visiting) \<inter> insert p (fst ` set a) = {}" using Suc.prems(3) i ab by auto
    qed
    then show ?case using Cons by auto
  qed simp
  obtain d where "hasCycleAny n g (provParents g i) (i # visiting) dn = Some (False, i # visiting, d)"
    using any [OF par] by blast
  moreover have "removeAll i (i # visiting) = visiting" using Suc.prems(3) by simp
  ultimately show ?case using Suc.prems(3) by auto
qed simp

lemma provAdd_Inr:
  assumes "provOrdered g"
  shows "provAdd g r = Inr g' \<longleftrightarrow>
    pvID r \<noteq> [] \<and> mget g (pvID r) = None \<and> (pvDerivedFrom r \<noteq> [] \<longrightarrow> pvProducerID r \<noteq> [] \<and> pvTransformationID r \<noteq> []) \<and>
    (\<forall>ref\<in>set (pvSourceVersions r). srSourceID ref \<noteq> [] \<and> srVersionID ref \<noteq> []) \<and>
    set (pvDerivedFrom r) \<subseteq> fst ` set g \<and> g' = g @ [(pvID r, r)]" (is "_ \<longleftrightarrow> ?R")
proof -
  have hc: "\<exists>d. hasCycle (Suc (length (mput (pvID r) r g))) (mput (pvID r) r g) (pvID r) [] [] = Some (False, [], d)"
    if "mget g (pvID r) = None" "set (pvDerivedFrom r) \<subseteq> fst ` set g"
  proof -
    have m: "mput (pvID r) r g = g @ [(pvID r, r)]" by (rule mput_fresh [OF that(1)])
    have "pvID r \<notin> fst ` set g" using that(1) by (simp add: map_of_eq_None_iff)
    then have "provOrdered (g @ [(pvID r, r)])" using provOrdered_snoc [OF assms] that(2) by simp
    from hasCycle_False [OF this refl, of "Suc (Suc (length g))" "[]" "[]"] show ?thesis
      unfolding m by (simp del: hasCycle.simps)
  qed
  have mem: "mhas g p \<longleftrightarrow> p \<in> fst ` set g" for p by (simp add: map_of_eq_None_iff)
  show ?thesis
  proof
    assume "provAdd g r = Inr g'"
    then show ?R
      by (auto simp: provAdd_def andThen_Inr_iff checkAll_ok_iff is_ok_iff require_Inr_iff Let_def mput_fresh map_of_eq_None_iff
          split: if_split_asm option.splits prod.splits bool.splits)
  next
    assume R: ?R
    then obtain d where d: "hasCycle (Suc (length (mput (pvID r) r g))) (mput (pvID r) r g) (pvID r) [] [] = Some (False, [], d)"
      using hc by blast
    have "pvID r \<notin> fst ` set g" using R by (simp add: map_of_eq_None_iff)
    then have self: "pvID r \<notin> set (pvDerivedFrom r)" using R by blast
    have c1: "checkAll (\<lambda>ref. require (srSourceID ref \<noteq> [] \<and> srVersionID ref \<noteq> [])
        (Errorf ''PROVENANCE_INVALID: exact source/version required'' [])) (pvSourceVersions r) = Inr ()"
      using R by (auto simp: checkAll_ok_iff is_ok_require)
    have c2: "checkAll (\<lambda>parent.
        if parent = pvID r then Inl (Errorf ''PROVENANCE_CYCLE: self reference'' [])
        else require (mhas g parent) (Errorf ''PROVENANCE_PARENT_NOT_FOUND'' [])) (pvDerivedFrom r) = Inr ()"
      using R self mem by (auto simp: checkAll_ok_iff is_ok_require)
    show "provAdd g r = Inr g'"
      unfolding provAdd_def using R by (simp only: c1 c2 andThen_simps Let_def d) (auto simp: mput_fresh)
  qed
qed

lemma provAdd_ordered: "provOrdered g \<Longrightarrow> provAdd g r = Inr g' \<Longrightarrow> provOrdered g'"
  by (auto simp: provAdd_Inr map_of_eq_None_iff intro!: provOrdered_snoc)

lemma provRun_ordered: "foldM provAdd [] rs = Inr g \<Longrightarrow> provOrdered g"
  by (rule foldM_invariant [where P = provOrdered and f = provAdd]) (auto intro: provAdd_ordered)

section \<open>Lineage\<close>

definition parentRel :: "provGraph \<Rightarrow> (string \<times> string) set" where
  "parentRel g = {(p, c). p \<in> set (provParents g c)}"

definition ancestors :: "provGraph \<Rightarrow> string \<Rightarrow> string set" where
  "ancestors g i = {j. (j, i) \<in> (parentRel g)\<^sup>*}"

lemma ancestors_self [simp]: "i \<in> ancestors g i"
  by (simp add: ancestors_def)

lemma ancestors_parent: "p \<in> set (provParents g i) \<Longrightarrow> ancestors g p \<subseteq> ancestors g i"
  unfolding ancestors_def parentRel_def by (auto intro: rtrancl_into_rtrancl rtrancl_trans)

lemma ancestors_below:
  assumes "provOrdered g" "g = g1 @ g2" "p \<in> fst ` set g1"
  shows "ancestors g p \<subseteq> fst ` set g1"
proof
  fix k
  assume "k \<in> ancestors g p"
  then have "(k, p) \<in> (parentRel g)\<^sup>*" by (simp add: ancestors_def)
  then show "k \<in> fst ` set g1"
  proof (induction rule: converse_rtrancl_induct)
    case (step y z)
    obtain a q b where "g1 = a @ (z, q) # b" using key_split [OF step.IH] by blast
    then have "set (provParents g z) \<subseteq> fst ` set a" "set a \<subseteq> set g1"
      using provOrdered_parents(2) [OF assms(1), of a z q "b @ g2"] assms(2) by auto
    then show ?case using step.hyps(1) by (auto simp: parentRel_def)
  qed (rule assms(3))
qed

text \<open>A list of records of the graph in which parents come before children and nothing is repeated.\<close>

inductive topo :: "provGraph \<Rightarrow> provRecord list \<Rightarrow> bool" for g where
  nil: "topo g []"
| snoc: "topo g out \<Longrightarrow> mget g i = Some r \<Longrightarrow> pvID r = i \<Longrightarrow> i \<notin> pvID ` set out \<Longrightarrow>
    set (pvDerivedFrom r) \<subseteq> pvID ` set out \<Longrightarrow> topo g (out @ [r])"

lemma topo_parents: "topo g out \<Longrightarrow> j \<in> pvID ` set out \<Longrightarrow> set (provParents g j) \<subseteq> pvID ` set out"
  by (induction rule: topo.induct) (auto simp: provParents_def)

lemma topo_closed:
  assumes "topo g out" "j \<in> pvID ` set out"
  shows "ancestors g j \<subseteq> pvID ` set out"
proof
  fix k
  assume "k \<in> ancestors g j"
  then have "(k, j) \<in> (parentRel g)\<^sup>*" by (simp add: ancestors_def)
  then show "k \<in> pvID ` set out"
    by (induction rule: converse_rtrancl_induct)
      (use assms topo_parents [OF assms(1)] in \<open>auto simp: parentRel_def\<close>)
qed

lemma topo_distinct: "topo g out \<Longrightarrow> distinct (map pvID out)"
  by (induction rule: topo.induct) auto

text \<open>What the walk from \<open>i\<close> adds, with \<open>V\<close> the nodes being visited.\<close>

definition walked :: "provGraph \<Rightarrow> string set \<Rightarrow> string set \<Rightarrow> provRecord list \<Rightarrow> string list \<times> provRecord list \<Rightarrow> bool" where
  "walked g V roots out st \<longleftrightarrow> topo g (snd st) \<and> set (fst st) = V \<union> pvID ` set (snd st) \<and>
     pvID ` set out \<subseteq> pvID ` set (snd st) \<and> roots \<subseteq> pvID ` set (snd st) \<and>
     pvID ` set (snd st) \<subseteq> pvID ` set out \<union> (\<Union>j\<in>roots. ancestors g j)"

lemma walk_topo:
  assumes "provOrdered g" "g = g1 @ (i, r) # g2" "length g1 < n" "V \<inter> insert i (fst ` set g1) = {}"
    "topo g out" "set seen = V \<union> pvID ` set out"
  shows "\<exists>st. walk n g i (seen, out) = Some st \<and> walked g V {i} out st \<and>
    (i \<notin> pvID ` set out \<longrightarrow> snd st \<noteq> [] \<and> last (snd st) = r)"
  using assms(2-)
proof (induction n arbitrary: g1 i r g2 V seen out)
  case (Suc n)
  have par: "set (provParents g i) \<subseteq> fst ` set g1" "provParents g i = pvDerivedFrom r"
    using provOrdered_parents [OF assms(1) Suc.prems(1)] by simp_all
  have "mwf g" using assms(1) by (simp add: provOrdered_def)
  then have i: "i \<notin> fst ` set g1" unfolding Suc.prems(1) by simp
  have "(i, r) \<in> set g" unfolding Suc.prems(1) by simp
  with \<open>mwf g\<close> have get: "mget g i = Some r" by (rule map_of_is_SomeI)
  have id: "pvID r = i" using assms(1) Suc.prems(1) unfolding provOrdered_def by blast
  show ?case
  proof (cases "i \<in> set seen")
    case True
    then have "i \<in> pvID ` set out" using Suc.prems(3,5) by auto
    then show ?thesis using True Suc.prems(4,5) by (auto simp: walked_def)
  next
    case False
    let ?V = "insert i V"
    have all: "\<exists>st'. walkAll n g ps st = Some st' \<and> walked g ?V (A \<union> set ps) out st'"
      if "set ps \<subseteq> fst ` set g1" "walked g ?V A out st" for ps st A
      using that
    proof (induction ps arbitrary: st A)
      case (Cons p ps)
      obtain a q b where ab: "g1 = a @ (p, q) # b" using key_split [of p g1] Cons.prems(1) by auto
      have "\<exists>st1. walk n g p (fst st, snd st) = Some st1 \<and> walked g ?V {p} (snd st) st1 \<and>
          (p \<notin> pvID ` set (snd st) \<longrightarrow> snd st1 \<noteq> [] \<and> last (snd st1) = q)"
      proof (rule Suc.IH)
        show "g = a @ (p, q) # (b @ (i, r) # g2)" using Suc.prems(1) ab by simp
        show "length a < n" using Suc.prems(2) ab by simp
        show "?V \<inter> insert p (fst ` set a) = {}" using Suc.prems(3) i ab by auto
        show "topo g (snd st)" "set (fst st) = ?V \<union> pvID ` set (snd st)" using Cons.prems(2) by (simp_all add: walked_def)
      qed
      then obtain st1 where st1: "walk n g p st = Some st1" "walked g ?V {p} (snd st) st1" by auto
      have "walked g ?V (insert p A) out st1"
      proof -
        have f: "topo g (snd st1)" "set (fst st1) = ?V \<union> pvID ` set (snd st1)" "pvID ` set (snd st) \<subseteq> pvID ` set (snd st1)"
          "p \<in> pvID ` set (snd st1)" "pvID ` set (snd st1) \<subseteq> pvID ` set (snd st) \<union> ancestors g p"
          using st1(2) unfolding walked_def by simp_all
        have h: "pvID ` set out \<subseteq> pvID ` set (snd st)" "A \<subseteq> pvID ` set (snd st)"
          "pvID ` set (snd st) \<subseteq> pvID ` set out \<union> (\<Union>j\<in>A. ancestors g j)"
          using Cons.prems(2) unfolding walked_def by simp_all
        have "pvID ` set (snd st1) \<subseteq> pvID ` set out \<union> (\<Union>j\<in>insert p A. ancestors g j)"
          using f(5) h(3) by blast
        moreover have "insert p A \<subseteq> pvID ` set (snd st1)" using f(3,4) h(2) by blast
        moreover have "pvID ` set out \<subseteq> pvID ` set (snd st1)" using f(3) h(1) by (rule subset_trans [rotated])
        ultimately show ?thesis using f(1,2) unfolding walked_def by simp
      qed
      from Cons.IH [OF _ this] Cons.prems(1) obtain st' where
        "walkAll n g ps st1 = Some st'" "walked g ?V (insert p A \<union> set ps) out st'" by auto
      then show ?case using st1(1) by auto
    qed (auto simp: walked_def)
    have start: "walked g ?V {} out (i # seen, out)" using Suc.prems(4,5) by (auto simp: walked_def)
    have srt: "set (sort (provParents g i)) \<subseteq> fst ` set g1" using par(1) by simp
    obtain seen' out' where w: "walkAll n g (sort (provParents g i)) (i # seen, out) = Some (seen', out')"
      "walked g ?V (set (provParents g i)) out (seen', out')"
      using all [OF srt start] by auto
    have fresh: "i \<notin> pvID ` set out'"
    proof
      assume "i \<in> pvID ` set out'"
      then have "i \<in> pvID ` set out \<or> (\<exists>p\<in>set (provParents g i). i \<in> ancestors g p)"
        using w(2) by (auto simp: walked_def)
      then show False
      proof
        assume "i \<in> pvID ` set out"
        then show False using False Suc.prems(5) by simp
      next
        assume "\<exists>p\<in>set (provParents g i). i \<in> ancestors g p"
        then obtain p where p: "p \<in> fst ` set g1" "i \<in> ancestors g p" using par(1) by blast
        then show False using ancestors_below [OF assms(1) Suc.prems(1), of p] i by blast
      qed
    qed
    have t: "topo g (out' @ [r])"
      by (rule topo.snoc [where i = i]) (use w(2) fresh get id par(2) in \<open>auto simp: walked_def\<close>)
    have "walked g V {i} out (seen', out' @ [r])"
    proof -
      have f: "set seen' = ?V \<union> pvID ` set out'" "pvID ` set out \<subseteq> pvID ` set out'"
        "pvID ` set out' \<subseteq> pvID ` set out \<union> (\<Union>j\<in>set (provParents g i). ancestors g j)"
        using w(2) unfolding walked_def by simp_all
      have "(\<Union>j\<in>set (provParents g i). ancestors g j) \<subseteq> ancestors g i" using ancestors_parent by blast
      with f(3) have "pvID ` set out' \<subseteq> pvID ` set out \<union> ancestors g i" by blast
      moreover have "pvID ` set (out' @ [r]) = insert i (pvID ` set out')" using id by simp
      ultimately have g4: "pvID ` set (out' @ [r]) \<subseteq> pvID ` set out \<union> ancestors g i" by simp
      have g3: "set seen' = V \<union> pvID ` set (out' @ [r])" using f(1) id by auto
      have g2: "pvID ` set out \<subseteq> pvID ` set (out' @ [r])" using f(2) by auto
      show ?thesis using g4 g3 g2 t id unfolding walked_def by simp
    qed
    then show ?thesis using w(1) False get by auto
  qed
qed simp

lemma lineage_topo:
  assumes "provOrdered g" "mget g i = Some r"
  shows "\<exists>out. lineage g i = Inr out \<and> topo g out \<and> pvID ` set out = ancestors g i \<and> last out = r"
proof -
  obtain g1 g2 where g: "g = g1 @ (i, r) # g2" using provOrdered_get [OF assms] by blast
  obtain st where st: "walk (Suc (length g)) g i ([], []) = Some st" "walked g {} {i} [] st" "last (snd st) = r"
    using walk_topo [OF assms(1) g, of "Suc (length g)" "{}" "[]" "[]"] g by (auto simp: topo.nil simp del: walk.simps)
  obtain seen out where "st = (seen, out)" by fastforce
  moreover have "ancestors g i \<subseteq> pvID ` set (snd st)"
    using topo_closed [of g "snd st" i] st(2) by (auto simp: walked_def)
  ultimately show ?thesis using st assms(2) by (auto simp: lineage_def walked_def simp del: walk.simps)
qed

section \<open>Conflicts and envelopes\<close>

definition conflictWf :: "conflictRegistry \<Rightarrow> bool" where
  "conflictWf r \<longleftrightarrow> mwf r \<and> (\<forall>(i, s)\<in>set r. csID s = i)"

lemma conflictAdd_wf: "conflictWf r \<Longrightarrow> conflictAdd r s = Inr r' \<Longrightarrow> conflictWf r'"
  by (auto simp: conflictWf_def conflictAdd_def andThen_Inr_iff Let_def mput_fresh map_of_eq_None_iff split: if_split_asm)

lemma conflictFor_order:
  assumes "conflictWf r" "conflictWf r'" "set r = set r'"
  shows "conflictFor r i = conflictFor r' i"
proof -
  have at: "csID s = k" if "conflictWf q" "(k, s) \<in> set q" for q k s
    using that unfolding conflictWf_def by auto
  have inj: "inj_on csID (set (map snd (filter (\<lambda>(_, s). i \<in> set (csRecords s)) r)))"
  proof (rule inj_onI)
    fix x y
    assume x: "x \<in> set (map snd (filter (\<lambda>(_, s). i \<in> set (csRecords s)) r))"
      and y: "y \<in> set (map snd (filter (\<lambda>(_, s). i \<in> set (csRecords s)) r))" and e: "csID x = csID y"
    from x y obtain k j where kj: "(k, x) \<in> set r" "(j, y) \<in> set r" by auto
    then have "k = csID x" "j = csID y" using at [OF assms(1)] by auto
    with kj e show "x = y" using assms(1) unfolding conflictWf_def by (metis eq_key_imp_eq_value)
  qed
  have d: "distinct (map snd (filter (\<lambda>(_, s). i \<in> set (csRecords s)) q))" if "conflictWf q" for q
  proof -
    have "map csID (map snd (filter (\<lambda>(_, s). i \<in> set (csRecords s)) q)) = map fst (filter (\<lambda>(_, s). i \<in> set (csRecords s)) q)"
      using at [OF that] by auto
    moreover have "distinct (map fst (filter (\<lambda>(_, s). i \<in> set (csRecords s)) q))"
      using that by (simp add: conflictWf_def distinct_map_filter)
    ultimately show ?thesis by (metis distinct_map)
  qed
  show ?thesis unfolding conflictFor_def
    by (rule sort_key_unique [OF d d]) (use assms inj in auto)
qed

lemma conflictFor_set: "set (conflictFor r i) = {s. \<exists>k. (k, s) \<in> set r \<and> i \<in> set (csRecords s)}"
  by (force simp: conflictFor_def)

section \<open>Time windows\<close>

lemma parseTime_Inr [res_simps]: "parseTime s = Inr t \<longleftrightarrow> timeParse s = Some t"
  by (auto simp: parseTime_def split: option.splits)

lemma windowValidate_iff:
  "windowValidate w = Inr () \<longleftrightarrow>
    (\<exists>observed accepted frm until.
       timeParse (wnObservedAt w) = Some observed \<and> timeParse (wnAcceptedAt w) = Some accepted \<and> observed \<le> accepted \<and>
       (if wnEffectiveFrom w = [] then frm = 0 else timeParse (wnEffectiveFrom w) = Some frm) \<and>
       (if wnEffectiveUntil w = [] then until = 0 else timeParse (wnEffectiveUntil w) = Some until) \<and>
       (frm = 0 \<or> until = 0 \<or> frm \<le> until))"
  unfolding windowValidate_def
  by (auto simp: andThen_Inr_iff wrap_Inr_iff parseTime_Inr not_less split: if_split_asm)

section \<open>Escrow\<close>

text \<open>Every blob is stored under the digest of its content.\<close>

definition blobsNamed :: "blobDir \<Rightarrow> bool" where
  "blobsNamed dir \<longleftrightarrow> mwf dir \<and> (\<forall>name c. mget dir name = Some c \<longrightarrow> name = blobName (hashContent c))"

lemma mdel_mput_fresh: "mget m k = None \<Longrightarrow> mdel k (mput k v m) = m"
  by (simp add: AList.delete_update_same map_of_eq_None_iff)

lemma escrowPut_named: "blobsNamed dir \<Longrightarrow> blobsNamed (fst (escrowPut fault dir i v m c))"
  by (auto simp: escrowPut_def Let_def blobsNamed_def mget_mput mwf_mput mdel_mput_fresh split: option.splits)

lemma escrowPut_kept: "mget dir name = Some c \<Longrightarrow> mget (fst (escrowPut fault dir i v m c')) name = Some c"
  by (auto simp: escrowPut_def Let_def mget_mput mdel_mput_fresh split: option.splits)

lemma escrowPut_get:
  assumes "blobsNamed dir" "escrowPut fault dir i v m c = (dir', Inr snap)"
  shows "\<exists>c'. mget dir' (blobName (hashContent c)) = Some c' \<and> hashContent c' = hashContent c \<and>
    snap = \<lparr>esSourceID = i, esVersionID = v, esContentSHA256 = hashContent c, esSize = int (length c), esMediaType = m\<rparr> \<and>
    i \<noteq> [] \<and> v \<noteq> []"
  using assms by (auto simp: escrowPut_def Let_def mget_mput split: option.splits if_split_asm)

lemma escrowGet_put:
  assumes "blobsNamed dir" "escrowPut fault dir i v m c = (dir', Inr snap)"
    and "\<And>c'. hashContent c' = hashContent c \<Longrightarrow> c' = c"
  shows "escrowGet NoFault dir' snap = Inr c"
proof -
  obtain c' where "mget dir' (blobName (hashContent c)) = Some c'" "hashContent c' = hashContent c"
    "snap = \<lparr>esSourceID = i, esVersionID = v, esContentSHA256 = hashContent c, esSize = int (length c), esMediaType = m\<rparr>"
    "i \<noteq> []" "v \<noteq> []"
    using escrowPut_get [OF assms(1,2)] by blast
  then show ?thesis using assms(3) [of c'] by (simp add: escrowGet_def verifyContent_def hashContent_def)
qed

section \<open>Coverage, checkpoints, envelopes\<close>

text \<open>The repeated conditions of \<open>CanClaimAbsence\<close> are implied by validity and completeness.\<close>

lemma canClaimAbsence_iff: "canClaimAbsence r \<longleftrightarrow> is_ok (coverageValidate r) \<and> cvComplete r"
  by (auto simp: canClaimAbsence_def coverageValidate_def)

lemma canonicalHash_Inr: "canonicalHash jcs raw = Inr h \<longleftrightarrow> (\<exists>c. canonicalize jcs raw = Inr c \<and> h = sha256Hex c)"
  by (auto simp: canonicalHash_def andThen_Inr_iff)

lemma checkpointVerify_iff:
  "checkpointVerify jcs c p s b = Inr () \<longleftrightarrow> cpLedgerCommit c \<noteq> [] \<and> canonicalHash jcs p = Inr (cpProjectionSHA256 c) \<and>
     canonicalHash jcs s = Inr (cpSchemaSetSHA256 c) \<and> canonicalHash jcs b = Inr (cpBindingSetSHA256 c)"
  by (auto simp: checkpointVerify_def checkpointBuild_def andThen_Inr_iff wrap_Inr_iff split: if_split_asm)

lemma canRead_iff: "canRead c r \<longleftrightarrow> (\<exists>i j. mget accessRank c = Some i \<and> mget accessRank r = Some j \<and> j \<le> i)"
  by (auto simp: canRead_def split: option.splits)

lemma catalogEnvelope_Inr:
  assumes "catalogEnvelope c i clearance score = Inr env"
  shows "\<exists>r. mget (ctRecords c) i = Some r \<and> canRead clearance (crClassification r) \<and>
    eeClassification env = crClassification r \<and> eeRecordID env = crID r \<and> envelopeValidate env = Inr () \<and>
    sorted (eeConflicts env) \<and>
    set (eeConflicts env) = {csID s | s k. (k, s) \<in> set (ctConflicts c) \<and> i \<in> set (csRecords s)}"
proof -
  obtain r where r: "mget (ctRecords c) i = Some r" "canRead clearance (crClassification r)"
    using assms by (auto simp: catalogEnvelope_def split: option.splits if_split_asm)
  then have e: "eeClassification env = crClassification r \<and> eeRecordID env = crID r \<and> envelopeValidate env = Inr () \<and>
      eeConflicts env = sort (map csID (conflictFor (ctConflicts c) i))"
    using assms by (auto simp: catalogEnvelope_def Let_def andThen_Inr_iff)
  have "set (sort (map csID (conflictFor (ctConflicts c) i))) =
      {csID s | s k. (k, s) \<in> set (ctConflicts c) \<and> i \<in> set (csRecords s)}"
    unfolding set_sort set_map conflictFor_set by blast
  with r e show ?thesis by simp
qed

lemma conflictRun_wf:
  assumes "foldM conflictAdd [] as = Inr r" shows "conflictWf r"
proof (rule foldM_invariant [OF assms])
  show "conflictWf []" by (simp add: conflictWf_def)
qed (rule conflictAdd_wf)

section \<open>Properties\<close>

text \<open>C32: in a provenance graph built with \<open>Add\<close>, \<open>Lineage\<close> of a record terminates with exactly its
  ancestors, each once, every record after all of its parents and the record itself last.\<close>

theorem lineage_is_topological:
  "foldM provAdd [] rs = Inr g \<Longrightarrow> mget g i = Some r \<Longrightarrow>
     \<exists>out. lineage g i = Inr out \<and> topo g out \<and> pvID ` set out = ancestors g i \<and> last out = r"
  using lineage_topo provRun_ordered by blast

definition sampleRecords :: "provRecord list" where
  "sampleRecords = [\<lparr>pvID = ''a'', pvSourceVersions = [], pvDerivedFrom = [], pvProducerID = [], pvTransformationID = []\<rparr>,
     \<lparr>pvID = ''b'', pvSourceVersions = [], pvDerivedFrom = [''a''], pvProducerID = ''p'', pvTransformationID = ''t''\<rparr>]"

theorem lineage_is_topological_witness:
  "\<exists>out. lineage (map (\<lambda>r. (pvID r, r)) sampleRecords) ''b'' = Inr out \<and> length out = 2 \<and> pvID (last out) = ''b''"
proof -
  have g: "foldM provAdd [] sampleRecords = Inr (map (\<lambda>r. (pvID r, r)) sampleRecords)" by code_simp
  have m: "mget (map (\<lambda>r. (pvID r, r)) sampleRecords) ''b'' = Some (sampleRecords ! 1)" by code_simp
  have l: "lineage (map (\<lambda>r. (pvID r, r)) sampleRecords) ''b'' = Inr sampleRecords" by code_simp
  from lineage_is_topological [OF g m] l show ?thesis by (auto simp: sampleRecords_def)
qed

text \<open>\<open>Add\<close> accepts a provenance record exactly when it is complete, new and all its parents are
  already present: the depth-first cycle check after the insertion never fires.\<close>

lemma provenance_add_exact:
  "foldM provAdd [] rs = Inr g \<Longrightarrow>
   (provAdd g r = Inr g' \<longleftrightarrow>
    pvID r \<noteq> [] \<and> mget g (pvID r) = None \<and> (pvDerivedFrom r \<noteq> [] \<longrightarrow> pvProducerID r \<noteq> [] \<and> pvTransformationID r \<noteq> []) \<and>
    (\<forall>ref\<in>set (pvSourceVersions r). srSourceID ref \<noteq> [] \<and> srVersionID ref \<noteq> []) \<and>
    set (pvDerivedFrom r) \<subseteq> fst ` set g \<and> g' = g @ [(pvID r, r)])"
  by (rule provAdd_Inr [OF provRun_ordered])

lemma provenance_add_exact_witness:
  "provAdd [] (hd sampleRecords) = Inr [(''a'', hd sampleRecords)]"
proof -
  have "foldM provAdd [] [] = Inr []" by simp
  from provenance_add_exact [OF this] show ?thesis by (simp add: sampleRecords_def)
qed

text \<open>The conflicts reported for a record do not depend on the order in which the conflict sets were
  added, nor on Go's map iteration order.\<close>

lemma conflicts_order_independent:
  assumes "foldM conflictAdd [] as = Inr r" "foldM conflictAdd [] bs = Inr r'" "set as = set bs"
  shows "conflictFor r i = conflictFor r' i"
proof -
  have wf: "conflictWf r" "conflictWf r'" using conflictRun_wf assms(1,2) by blast+
  have "\<forall>k. mget r k = mget r' k" using conflicts.run_order [OF assms] by blast
  then have "set r = set r'" using mget_eq_set_eq wf unfolding conflictWf_def by blast
  then show ?thesis by (rule conflictFor_order [OF wf])
qed

definition sampleConflict :: "string \<Rightarrow> conflictSet" where
  "sampleConflict i = \<lparr>csID = i, csRecords = [''y'', ''x''], csMaterial = True, csState = conflictOpen, csResolutionEventID = []\<rparr>"

lemma conflicts_order_independent_witness:
  "\<exists>r r'. foldM conflictAdd [] [sampleConflict ''1'', sampleConflict ''2''] = Inr r \<and>
     foldM conflictAdd [] [sampleConflict ''2'', sampleConflict ''1''] = Inr r' \<and>
     conflictFor r ''x'' = conflictFor r' ''x''"
proof -
  have "is_ok (foldM conflictAdd [] [sampleConflict ''1'', sampleConflict ''2''])"
    "is_ok (foldM conflictAdd [] [sampleConflict ''2'', sampleConflict ''1''])" by code_simp+
  then obtain r r' where r: "foldM conflictAdd [] [sampleConflict ''1'', sampleConflict ''2''] = Inr r"
    "foldM conflictAdd [] [sampleConflict ''2'', sampleConflict ''1''] = Inr r'" by (auto simp only: is_ok_iff)
  from conflicts_order_independent [OF r, of "''x''"] r show ?thesis by auto
qed

text \<open>A window that \<open>Validate\<close> accepts was observed before it was accepted, and an instant at which
  it is effective exists unless a bound is the zero time, in which case the order check is skipped:
  such a window may never be effective.\<close>

lemma window_accepted:
  assumes "windowValidate w = Inr ()"
  shows "(\<exists>observed accepted. timeParse (wnObservedAt w) = Some observed \<and> timeParse (wnAcceptedAt w) = Some accepted \<and>
      observed \<le> accepted) \<and>
    (\<forall>frm until. timeParse (wnEffectiveFrom w) = Some frm \<longrightarrow> timeParse (wnEffectiveUntil w) = Some until \<longrightarrow>
      frm \<noteq> 0 \<longrightarrow> until \<noteq> 0 \<longrightarrow> frm \<le> until) \<and>
    windowValidate \<lparr>wnEffectiveFrom = ''2024-01-01T00:00:00Z'', wnEffectiveUntil = ''0001-01-01T00:00:00Z'',
       wnObservedAt = ''2024-01-01T00:00:00Z'', wnAcceptedAt = ''2024-01-01T00:00:00Z''\<rparr> = Inr () \<and>
    \<not> effectiveAt \<lparr>wnEffectiveFrom = ''2024-01-01T00:00:00Z'', wnEffectiveUntil = ''0001-01-01T00:00:00Z'',
       wnObservedAt = ''2024-01-01T00:00:00Z'', wnAcceptedAt = ''2024-01-01T00:00:00Z''\<rparr> at"
proof -
  define late where "late = (\<lparr>wnEffectiveFrom = ''2024-01-01T00:00:00Z'', wnEffectiveUntil = ''0001-01-01T00:00:00Z'',
       wnObservedAt = ''2024-01-01T00:00:00Z'', wnAcceptedAt = ''2024-01-01T00:00:00Z''\<rparr> :: window)"
  have t: "timeParse ''2024-01-01T00:00:00Z'' = Some 63839664000000000000" "timeParse ''0001-01-01T00:00:00Z'' = Some 0"
    by code_simp+
  have "windowValidate late = Inr ()" unfolding late_def by code_simp
  moreover have "\<not> effectiveAt late at" unfolding late_def effectiveAt_def by (simp add: t) linarith
  moreover have e: "timeParse [] = None" by code_simp
  moreover have "\<exists>observed accepted. timeParse (wnObservedAt w) = Some observed \<and> timeParse (wnAcceptedAt w) = Some accepted \<and>
      observed \<le> accepted"
    using assms unfolding windowValidate_iff by blast
  moreover have "frm \<le> until" if "timeParse (wnEffectiveFrom w) = Some frm" "timeParse (wnEffectiveUntil w) = Some until"
    "frm \<noteq> 0" "until \<noteq> 0" for frm until
  proof -
    have "wnEffectiveFrom w \<noteq> []" "wnEffectiveUntil w \<noteq> []" using that e by auto
    then show ?thesis using assms that unfolding windowValidate_iff by auto
  qed
  ultimately show ?thesis unfolding late_def by blast
qed

lemma window_accepted_witness:
  "\<not> effectiveAt \<lparr>wnEffectiveFrom = ''2024-01-01T00:00:00Z'', wnEffectiveUntil = ''0001-01-01T00:00:00Z'',
       wnObservedAt = ''2024-01-01T00:00:00Z'', wnAcceptedAt = ''2024-01-01T00:00:00Z''\<rparr> 5"
proof -
  have "windowValidate \<lparr>wnEffectiveFrom = [], wnEffectiveUntil = [], wnObservedAt = ''2024-01-01T00:00:00Z'',
     wnAcceptedAt = ''2024-01-01T00:00:00Z''\<rparr> = Inr ()" by code_simp
  from window_accepted [OF this] show ?thesis by blast
qed

text \<open>The catalog hands out an evidence envelope only for a record that the caller's clearance may
  read; the envelope carries the record's classification and, sorted, the identifiers of exactly the
  conflict sets that name the record.\<close>

lemma envelope_is_readable:
  "catalogEnvelope c i clearance score = Inr env \<Longrightarrow>
    \<exists>r. mget (ctRecords c) i = Some r \<and> eeClassification env = crClassification r \<and>
      (\<exists>a b. mget accessRank clearance = Some a \<and> mget accessRank (eeClassification env) = Some b \<and> b \<le> a) \<and>
      sorted (eeConflicts env) \<and>
      set (eeConflicts env) = {csID s | s k. (k, s) \<in> set (ctConflicts c) \<and> i \<in> set (csRecords s)}"
  using catalogEnvelope_Inr [of c i clearance score env] by (auto simp: canRead_iff)

definition sampleCatalog :: catalog where
  "sampleCatalog = \<lparr>ctRecords = [(''x'', \<lparr>crID = ''x'', crType = ''note'', crAuthorityClass = ''a'', crSourceID = [],
       crSourceVersions = [], crProvenanceIDs = [], crSuperseded = False, crProjectionVersion = [], crCoverage = None,
       crTemporal = None, crClassification = ''internal''\<rparr>)],
     ctProvenance = [], ctRelationships = newRelGraph, ctConflicts = [(''1'', sampleConflict ''1'')]\<rparr>"

lemma envelope_is_readable_witness:
  "\<exists>env. catalogEnvelope sampleCatalog ''x'' ''restricted'' None = Inr env \<and> set (eeConflicts env) = {''1''} \<and>
     \<not> is_ok (catalogEnvelope sampleCatalog ''x'' ''public'' None)"
proof -
  have "is_ok (catalogEnvelope sampleCatalog ''x'' ''restricted'' None)" by code_simp
  then obtain env where env: "catalogEnvelope sampleCatalog ''x'' ''restricted'' None = Inr env" by (auto simp only: is_ok_iff)
  have "\<not> is_ok (catalogEnvelope sampleCatalog ''x'' ''public'' None)" by code_simp
  with envelope_is_readable [OF env] env show ?thesis
    by (auto simp: sampleCatalog_def sampleConflict_def)
qed

text \<open>Content put into the escrow store is what \<open>Get\<close> returns for the snapshot, also when the blob
  was already there, unless another content has the same digest; blobs are never overwritten, and a
  failed write leaves the store as it was.\<close>

lemma escrow_put_get:
  assumes "blobsNamed dir" "escrowPut fault dir sid vid media content = (dir', res)"
  shows "blobsNamed dir' \<and> (\<forall>name c. mget dir name = Some c \<longrightarrow> mget dir' name = Some c) \<and>
    (\<not> is_ok res \<longrightarrow> dir' = dir) \<and>
    (\<forall>snap. res = Inr snap \<longrightarrow> (\<forall>c'. hashContent c' = hashContent content \<longrightarrow> c' = content) \<longrightarrow>
       escrowGet NoFault dir' snap = Inr content)"
proof (intro conjI allI impI)
  show "blobsNamed dir'" using escrowPut_named [OF assms(1), of fault sid vid media content] assms(2) by simp
  show "mget dir' name = Some c" if "mget dir name = Some c" for name c
    using escrowPut_kept [OF that, of fault sid vid media content] assms(2) by simp
  show "dir' = dir" if "\<not> is_ok res"
    using that assms(2) by (auto simp: escrowPut_def Let_def mdel_mput_fresh split: option.splits if_split_asm)
  show "escrowGet NoFault dir' snap = Inr content"
    if "res = Inr snap" "\<forall>c'. hashContent c' = hashContent content \<longrightarrow> c' = content" for snap
    using escrowGet_put [OF assms(1) assms(2) [unfolded that(1)]] that(2) by blast
qed

lemma escrow_put_get_witness:
  "\<exists>snap. escrowPut NoFault [] ''s'' ''v'' [] ''data'' = ([(blobName (hashContent ''data''), ''data'')], Inr snap) \<and>
     blobsNamed [(blobName (hashContent ''data''), ''data'')]"
proof -
  have p: "escrowPut NoFault [] ''s'' ''v'' [] ''data'' = ([(blobName (hashContent ''data''), ''data'')],
      Inr \<lparr>esSourceID = ''s'', esVersionID = ''v'', esContentSHA256 = hashContent ''data'', esSize = 4, esMediaType = []\<rparr>)"
    by (simp add: escrowPut_def Let_def)
  have "blobsNamed []" by (simp add: blobsNamed_def)
  from escrow_put_get [OF this p] p show ?thesis by blast
qed

text \<open>The key of a relationship joins its parts with NUL bytes, which identifiers may contain: two
  different edges of two defined types collide, and the second is refused as already existing.\<close>

lemma relationship_key_collision:
  "\<exists>g g' a b. reFrom a \<noteq> reFrom b \<and> reType a \<noteq> reType b \<and> relAdd g a = Inr g' \<and>
     is_ok (relAdd g b) \<and> relAdd g' b = Inl (Errorf ''RELATIONSHIP_EXISTS'' [])"
proof -
  define g where "g = \<lparr>rgDefs = [(''t'', \<lparr>rdType = ''t'', rdSymmetric = False\<rparr>),
     (''x'' @ [CHR 0x00] @ ''t'', \<lparr>rdType = ''x'' @ [CHR 0x00] @ ''t'', rdSymmetric = False\<rparr>)], rgEdges = []\<rparr>"
  define a where "a = \<lparr>reFrom = ''a'', reType = ''x'' @ [CHR 0x00] @ ''t'', reTo = ''b'', reEvidence = []\<rparr>"
  define b where "b = \<lparr>reFrom = ''a'' @ [CHR 0x00] @ ''x'', reType = ''t'', reTo = ''b'', reEvidence = []\<rparr>"
  have "relAdd g a = Inr (g\<lparr>rgEdges := [(edgeKey a, a)]\<rparr>)" "is_ok (relAdd g b)"
    "relAdd (g\<lparr>rgEdges := [(edgeKey a, a)]\<rparr>) b = Inl (Errorf ''RELATIONSHIP_EXISTS'' [])"
    unfolding g_def a_def b_def by code_simp+
  moreover have "reFrom a \<noteq> reFrom b" "reType a \<noteq> reType b" by (simp_all add: a_def b_def)
  ultimately show ?thesis by blast
qed

end
