(* ===== verification/Git_Reader.thy ===== *)
theory Git_Reader
  imports Go_Json Interfaces
begin

text \<open>
  internal/gitledger, read side: reader.go, repository\_safety.go, immutable.go, tree\_changes.go,
  regular\_file.go and event\_path.go. The operating system and the git executable are a \<open>host\<close>, a
  parameter of every operation: what \<open>os.Lstat\<close>, \<open>os.ReadFile\<close> and the other calls return, and what
  a git process started with given environment, input and arguments answers. The lock around the
  pinned directory handle and the finalizer have no counterpart, operations run one at a time.
\<close>

section \<open>The host\<close>

datatype fileKind = RegularFile | Directory | SymbolicLink | SpecialFile

record fileInfo =
  fiKind :: fileKind
  fiIdent :: nat

text \<open>What \<open>filepath.WalkDir\<close> finds below a path: name, kind and, for a directory, its entries in
  lexical order or the error of reading it.\<close>

datatype fsTree = FsTree string fileKind "goerr + fsTree list"

datatype procOutcome = ProcOk string | ProcTimeout | ProcFailed goerr

record host =
  hsGetwd :: "string res"
  hsLstat :: "string \<Rightarrow> fileInfo res"
  hsStat :: "string \<Rightarrow> fileInfo res"
  hsReadFile :: "string \<Rightarrow> string res"
  hsEvalSymlinks :: "string \<Rightarrow> string res"
  hsOpen :: "string \<Rightarrow> nat res"
  hsHandleStat :: "nat \<Rightarrow> fileInfo res"
  hsTree :: "string \<Rightarrow> fsTree res"
  hsLookPath :: "string \<Rightarrow> string res"
  hsProc :: "string \<Rightarrow> string list \<Rightarrow> string option \<Rightarrow> string list \<Rightarrow> procOutcome"
  hsWindows :: bool
  hsEnviron :: "string list"

definition errNotExist :: goerr where "errNotExist = ErrNew ''file does not exist''"

text \<open>\<open>path/filepath\<close> on Unix: \<open>Join\<close>, \<open>Dir\<close> and \<open>Abs\<close>.\<close>

definition pathJoin :: "string list \<Rightarrow> string" where
  "pathJoin ps = (let qs = filter (\<lambda>p. p \<noteq> []) ps in if qs = [] then [] else pathClean (joinWith ''/'' qs))"

definition pathDir :: "string \<Rightarrow> string" where
  "pathDir p = pathClean (rev (dropWhile (\<lambda>c. c \<noteq> CHR ''/'') (rev p)))"

definition pathAbs :: "host \<Rightarrow> string \<Rightarrow> string res" where
  "pathAbs h p = (if pathIsAbs p then Inr (pathClean p) else andThen (hsGetwd h) (\<lambda>wd. Inr (pathJoin [wd, p])))"

section \<open>The reader and its root\<close>

definition defaultRef :: string where "defaultRef = ''refs/heads/main''"

definition errNonLinearHistory :: goerr where
  "errNonLinearHistory = ErrNew ''INTEGRITY_FAILURE: authoritative ledger history is not linear''"

record reader =
  rdGitPath :: string
  rdGitDir :: string
  rdRootHandle :: "nat option"
  rdRef :: string

record commit =
  cmID :: string
  cmParent :: string

record eventAddition =
  eaCommit :: string
  eaPath :: string

record treeChange =
  tcStatus :: string
  tcPath :: string

definition integrity :: "string \<Rightarrow> goerr" where
  "integrity msg = Errorf (''INTEGRITY_FAILURE: '' @ msg) []"

definition isObjectID :: "string \<Rightarrow> bool" where
  "isObjectID s = ((length s = 40 \<or> length s = 64) \<and> list_all isHexChar s)"

text \<open>The loop climbs from the path to its topmost directory, which is its own parent; each round drops
  a component, so the length of the path is enough fuel.\<close>

fun rejectComponents :: "nat \<Rightarrow> host \<Rightarrow> string \<Rightarrow> unit res option" where
  "rejectComponents 0 h current = None"
| "rejectComponents (Suc n) h current =
    (case hsLstat h current of
       Inl e \<Rightarrow> Some (Inl (Errorf ''inspect authoritative ledger path component'' [e]))
     | Inr info \<Rightarrow>
         if fiKind info = SymbolicLink
         then Some (Inl (integrity ''symlinked Git repository root or ancestor is forbidden in authoritative ledger''))
         else if pathDir current = current then Some (Inr ())
         else rejectComponents n h (pathDir current))"

definition rejectSymlinkedPathComponents :: "host \<Rightarrow> string \<Rightarrow> unit res" where
  "rejectSymlinkedPathComponents h p =
    (case rejectComponents (length (pathClean p)) h (pathClean p) of
       Some r \<Rightarrow> r | None \<Rightarrow> Inl (ErrNew ''path loop''))"

definition canonicalLedgerRoot :: "host \<Rightarrow> string \<Rightarrow> string res" where
  "canonicalLedgerRoot h gitDir =
    andThen (wrapw ''resolve ledger path'' (pathAbs h gitDir)) (\<lambda>a.
    let absolute = pathClean a in
    andThen (rejectSymlinkedPathComponents h absolute) (\<lambda>_.
    andThen (wrapw ''resolve canonical ledger path'' (hsEvalSymlinks h absolute)) (\<lambda>r0.
    andThen (wrapw ''resolve canonical ledger path'' (pathAbs h r0)) (\<lambda>r1.
    let resolved = pathClean r1 in
    if resolved \<noteq> absolute
    then Inl (integrity ''symlinked Git repository root or ancestor is forbidden in authoritative ledger'')
    else andThen (wrapw ''inspect ledger root'' (hsLstat h absolute)) (\<lambda>info.
      if fiKind info \<noteq> Directory then Inl (integrity ''authoritative ledger Git root is not a directory'')
      else Inr resolved)))))"

definition sameFile :: "fileInfo \<Rightarrow> fileInfo \<Rightarrow> bool" where
  "sameFile a b = (fiIdent a = fiIdent b)"

definition holdRepositoryRoot :: "host \<Rightarrow> reader \<Rightarrow> unit res" where
  "holdRepositoryRoot h r =
    andThen (canonicalLedgerRoot h (rdGitDir r)) (\<lambda>canonical.
    if canonical \<noteq> rdGitDir r
    then Inl (integrity ''authoritative ledger root changed after Reader construction'')
    else case rdRootHandle r of
      None \<Rightarrow> Inl (integrity ''authoritative ledger Reader is closed'')
    | Some handle \<Rightarrow>
      andThen (wrapw ''inspect pinned authoritative ledger root'' (hsHandleStat h handle)) (\<lambda>pinned.
      andThen (wrapw ''inspect current authoritative ledger root identity'' (hsLstat h (rdGitDir r))) (\<lambda>current.
      if \<not> sameFile pinned current
      then Inl (integrity ''authoritative ledger filesystem identity changed after Reader construction'')
      else Inr ())))"

definition checkRepositoryRootSafety :: "host \<Rightarrow> reader \<Rightarrow> unit res" where
  "checkRepositoryRootSafety h r = holdRepositoryRoot h r"

definition backslash :: char where "backslash = CHR 0x5C"

definition lineBreaks :: string where "lineBreaks = [CHR 0x00, CHR 0x0D, CHR 0x0A]"

definition safeParts :: "string \<Rightarrow> bool" where
  "safeParts p = list_all plainPart (splitOn CHR ''/'' p)"

definition checkAuthoritativeRefSafety :: "host \<Rightarrow> reader \<Rightarrow> unit res" where
  "checkAuthoritativeRefSafety h r =
    andThen (checkRepositoryRootSafety h r) (\<lambda>_.
    let ref = rdRef r in
    if \<not> hasPrefix ref ''refs/'' \<or> pathClean ref \<noteq> ref \<or> containsStr ref [backslash] \<or> containsAny ref lineBreaks
    then Inl (integrity ''invalid authoritative ref path'')
    else if \<not> safeParts ref then Inl (integrity ''invalid authoritative ref path'')
    else let full = pathJoin [rdGitDir r, ref] in
      case hsLstat h full of
        Inl e \<Rightarrow> if errors_is e errNotExist then Inr () else Inl (Errorf ''inspect authoritative ref'' [e])
      | Inr info \<Rightarrow>
        if fiKind info \<noteq> RegularFile
        then Inl (integrity ''authoritative ref must be a regular direct ref'')
        else andThen (wrapw ''read authoritative ref'' (hsReadFile h full)) (\<lambda>raw.
          let v = trimSpace raw in
          if hasPrefix v ''ref:'' then Inl (integrity ''symbolic authoritative refs are forbidden in authoritative ledger'')
          else if \<not> isObjectID v then Inl (integrity ''malformed loose authoritative ref'')
          else Inr ()))"

text \<open>\<open>New\<close> opens a reader; a failure after the handle was opened closes it, which leaves no trace.\<close>

definition newReader :: "host \<Rightarrow> string \<Rightarrow> string \<Rightarrow> reader res" where
  "newReader h gitDir ref0 =
    (if gitDir = [] then Inl (Errorf ''ledger git directory is required'' []) else
    andThen (canonicalLedgerRoot h gitDir) (\<lambda>canonical.
    andThen (wrapw ''pin live ledger root'' (hsOpen h canonical)) (\<lambda>handle.
    andThen (wrapw ''inspect pinned ledger root'' (hsHandleStat h handle)) (\<lambda>pinned.
    if fiKind pinned \<noteq> Directory then Inl (integrity ''authoritative ledger Git root is not a directory'') else
    andThen (wrapw ''inspect current ledger root'' (hsLstat h canonical)) (\<lambda>current.
    if \<not> sameFile pinned current then Inl (integrity ''authoritative ledger root changed while it was being opened'') else
    andThen (wrapw ''open ledger'' (hsLstat h (pathJoin [canonical, ''HEAD'']))) (\<lambda>_.
    andThen (wrapw ''GIT_FAILURE: git executable not found'' (hsLookPath h ''git'')) (\<lambda>gitPath.
    let ref = (if ref0 = [] then defaultRef else ref0) in
    if \<not> hasPrefix ref ''refs/'' \<or> containsAny ref lineBreaks then Inl (Errorf ''invalid authoritative ref'' []) else
    let r = \<lparr>rdGitPath = gitPath, rdGitDir = canonical, rdRootHandle = Some handle, rdRef = ref\<rparr> in
    andThen (checkAuthoritativeRefSafety h r) (\<lambda>_. Inr r))))))))"

definition closeReader :: "reader \<Rightarrow> reader" where
  "closeReader r = r\<lparr>rdRootHandle := None\<rparr>"

section \<open>Running git\<close>

definition devNull :: "host \<Rightarrow> string" where
  "devNull h = (if hsWindows h then ''NUL'' else ''/dev/null'')"

text \<open>\<open>strings.Cut(item, "=")\<close> and \<open>strings.EqualFold\<close> with an upper-case ASCII name.\<close>

fun lookupEnvFold :: "string list \<Rightarrow> string \<Rightarrow> string option" where
  "lookupEnvFold [] want = None"
| "lookupEnvFold (item # rest) want =
    (let key = takeWhile (\<lambda>c. c \<noteq> CHR ''='') item; v = drop (Suc (length key)) item in
     if CHR ''='' \<in> set item \<and> foldName key = foldName want then Some v else lookupEnvFold rest want)"

definition controlledEnv :: "host \<Rightarrow> string list" where
  "controlledEnv h =
    [''GIT_CONFIG_NOSYSTEM=1'', ''GIT_CONFIG_GLOBAL='' @ devNull h, ''GIT_TERMINAL_PROMPT=0'', ''GIT_PAGER=cat'',
     ''PAGER=cat'', ''GIT_OPTIONAL_LOCKS=0'', ''GIT_NO_REPLACE_OBJECTS=1'', ''GIT_ATTR_NOSYSTEM=1'',
     ''GIT_NO_LAZY_FETCH=1'', ''LC_ALL=C'', ''LANG=C'']
    @ (if hsWindows h
       then concat (map (\<lambda>key. case lookupEnvFold (hsEnviron h) key of
              Some v \<Rightarrow> [key @ ''='' @ v] | None \<Rightarrow> []) [''SYSTEMROOT'', ''WINDIR''])
       else [])"

definition procResult :: "procOutcome \<Rightarrow> string res" where
  "procResult p = (case p of
      ProcOk out \<Rightarrow> Inr out
    | ProcTimeout \<Rightarrow> Inl (Errorf ''GIT_FAILURE: command timed out'' [])
    | ProcFailed e \<Rightarrow> Inl (Errorf ''GIT_FAILURE: git command failed'' [e]))"

definition gitRun :: "host \<Rightarrow> reader \<Rightarrow> string list \<Rightarrow> string res" where
  "gitRun h r args =
    andThen (holdRepositoryRoot h r) (\<lambda>_.
    procResult (hsProc h (rdGitPath r) (controlledEnv h) None
      ([''--no-replace-objects'', ''--git-dir='' @ rdGitDir r] @ args)))"

definition readHead :: "host \<Rightarrow> reader \<Rightarrow> string res" where
  "readHead h r =
    andThen (checkAuthoritativeRefSafety h r) (\<lambda>_.
    andThen (gitRun h r [''rev-parse'', ''--verify'', rdRef r @ ''^{commit}'']) (\<lambda>out.
    let i = trimSpace out in
    if \<not> isObjectID i then Inl (integrity ''invalid commit object id'') else Inr (toLower i)))"

definition objectFormat :: "host \<Rightarrow> reader \<Rightarrow> string res" where
  "objectFormat h r =
    andThen (gitRun h r [''rev-parse'', ''--show-object-format'']) (\<lambda>out.
    let f = trimSpace out in
    if f \<noteq> ''sha1'' \<and> f \<noteq> ''sha256'' then Inl (integrity ''unsupported Git object format'') else Inr f)"

definition isBare :: "host \<Rightarrow> reader \<Rightarrow> bool res" where
  "isBare h r =
    andThen (gitRun h r [''rev-parse'', ''--is-bare-repository'']) (\<lambda>out.
    if trimSpace out = ''true'' then Inr True
    else if trimSpace out = ''false'' then Inr False
    else Inl (Errorf ''GIT_FAILURE: unexpected --is-bare-repository output'' []))"

section \<open>Repository safety\<close>

text \<open>\<open>rejectSymlinksUnder\<close>: WalkDir stops at the first symbolic link or unreadable directory.\<close>

fun walkTree :: "fsTree \<Rightarrow> unit res" and walkTrees :: "fsTree list \<Rightarrow> unit res" where
  "walkTree (FsTree name kind (Inl e)) =
    (if kind = SymbolicLink then Inl (integrity ''symlinked Git repository path is forbidden in authoritative ledger'')
     else if kind = Directory then Inl (Errorf ''inspect Git repository tree'' [e]) else Inr ())"
| "walkTree (FsTree name kind (Inr ts)) =
    (if kind = SymbolicLink then Inl (integrity ''symlinked Git repository path is forbidden in authoritative ledger'')
     else if kind = Directory then walkTrees ts else Inr ())"
| "walkTrees [] = Inr ()"
| "walkTrees (t # ts) = andThen (walkTree t) (\<lambda>_. walkTrees ts)"

definition rejectSymlinksUnder :: "host \<Rightarrow> string \<Rightarrow> unit res" where
  "rejectSymlinksUnder h root =
    (case hsLstat h root of
       Inl e \<Rightarrow> if errors_is e errNotExist then Inr () else Inl (Errorf ''inspect Git repository tree'' [e])
     | Inr _ \<Rightarrow> (case hsTree h root of
         Inl e \<Rightarrow> Inl (Errorf ''inspect Git repository tree'' [e])
       | Inr t \<Rightarrow> walkTree t))"

text \<open>A path that must not exist, looked at with \<open>Lstat\<close> or \<open>Stat\<close>.\<close>

definition mustNotExist :: "fileInfo res \<Rightarrow> goerr \<Rightarrow> string \<Rightarrow> unit res" where
  "mustNotExist st present msg = (case st of
      Inr _ \<Rightarrow> Inl present
    | Inl e \<Rightarrow> if errors_is e errNotExist then Inr () else Inl (Errorf msg [e]))"

definition mayNotBeSymlink :: "host \<Rightarrow> reader \<Rightarrow> string \<Rightarrow> unit res" where
  "mayNotBeSymlink h r rel = (case hsLstat h (pathJoin [rdGitDir r, rel]) of
      Inl e \<Rightarrow> if errors_is e errNotExist then Inr () else Inl (Errorf ''inspect Git repository path'' [e])
    | Inr info \<Rightarrow> if fiKind info = SymbolicLink
        then Inl (integrity ''symlinked Git repository path is forbidden in authoritative ledger'') else Inr ())"

definition checkRepositoryLayoutSafety :: "host \<Rightarrow> reader \<Rightarrow> unit res" where
  "checkRepositoryLayoutSafety h r =
    andThen (checkRepositoryRootSafety h r) (\<lambda>_.
    andThen (mustNotExist (hsLstat h (pathJoin [rdGitDir r, ''commondir'']))
       (integrity ''Git common-dir indirection is forbidden in authoritative ledger'') ''inspect Git commondir metadata'') (\<lambda>_.
    andThen (checkAll (\<lambda>(rel, reason). mustNotExist (hsLstat h (pathJoin [rdGitDir r, rel])) (integrity reason)
         ''inspect Git repository path'')
       [(''config.worktree'', ''worktree-specific Git configuration is forbidden in authoritative ledger''),
        (''reftable'', ''Git reftable ref storage is unsupported in authoritative ledger v1'')]) (\<lambda>_.
    andThen (checkAll (mayNotBeSymlink h r) [''HEAD'', ''config'', ''packed-refs'', ''objects'', ''refs'']) (\<lambda>_.
    checkAll (\<lambda>rel. rejectSymlinksUnder h (pathJoin [rdGitDir r, rel])) [''objects'', ''refs'']))))"

definition checkConfig :: "string \<Rightarrow> unit res" where
  "checkConfig config =
    (let lower = lowerText config in
     if containsStr lower ''[include'' then Inl (integrity ''Git config includes are forbidden in authoritative ledger'')
     else if containsStr lower ''[fsck'' then Inl (integrity ''repository-local fsck overrides are forbidden'')
     else if containsStr lower ''promisor'' \<or> containsStr lower ''partialclone''
     then Inl (integrity ''Git promisor/partial-clone repositories are forbidden in authoritative ledger'')
     else if containsStr lower ''refstorage'' then Inl (integrity ''alternate Git ref-storage backends are forbidden'')
     else if containsStr lower ''worktreeconfig''
     then Inl (integrity ''worktree-specific Git configuration is forbidden in authoritative ledger'')
     else Inr ())"

definition checkHistorySafety :: "host \<Rightarrow> reader \<Rightarrow> unit res" where
  "checkHistorySafety h r =
    andThen (checkRepositoryLayoutSafety h r) (\<lambda>_.
    andThen (checkAuthoritativeRefSafety h r) (\<lambda>_.
    andThen (gitRun h r [''rev-parse'', ''--is-shallow-repository'']) (\<lambda>out.
    if trimSpace out = ''true'' then Inl (integrity ''shallow authoritative ledger histories are forbidden'') else
    andThen (mustNotExist (hsStat h (pathJoin [rdGitDir r, ''shallow'']))
       (integrity ''shallow metadata exists in authoritative ledger'') ''inspect shallow metadata'') (\<lambda>_.
    andThen (mustNotExist (hsStat h (pathJoin [rdGitDir r, ''info'', ''grafts'']))
       (integrity ''Git grafts are forbidden in authoritative ledger'') ''inspect graft metadata'') (\<lambda>_.
    andThen (checkAll (\<lambda>rel. mustNotExist (hsLstat h (pathJoin [rdGitDir r, rel]))
         (integrity ''Git object alternates are forbidden in authoritative ledger'') ''inspect Git object alternates'')
       [pathJoin [''objects'', ''info'', ''alternates''], pathJoin [''objects'', ''info'', ''http-alternates'']]) (\<lambda>_.
    andThen (wrapw ''read ledger Git config'' (hsReadFile h (pathJoin [rdGitDir r, ''config'']))) (\<lambda>config.
    checkConfig config)))))))"

definition fsck :: "host \<Rightarrow> reader \<Rightarrow> unit res" where
  "fsck h r = andThen (wrapw ''INTEGRITY_FAILURE: git fsck''
      (gitRun h r [''-c'', ''fsck.skipList='' @ devNull h, ''fsck'', ''--full'', ''--strict'', ''--no-dangling''])) (\<lambda>_. Inr ())"

section \<open>History\<close>

definition newline :: char where "newline = CHR 0x0A"

fun historyLoop :: "nat \<Rightarrow> string \<Rightarrow> commit list \<Rightarrow> string list \<Rightarrow> commit list res" where
  "historyLoop i previous commits [] = Inr commits"
| "historyLoop i previous commits (line # lines) =
    (if trimSpace line = [] then historyLoop (Suc i) previous commits lines
     else let fields = strFields line in
       if length fields > 2 \<or> length fields = 0 then Inl errNonLinearHistory
       else let ident = toLower (fields ! 0) in
         if \<not> isObjectID ident then Inl (integrity ''invalid history object id'')
         else if length fields = 2 then
           let parent = toLower (fields ! 1) in
           if i = 0 \<or> parent \<noteq> previous then Inl errNonLinearHistory
           else historyLoop (Suc i) ident (commits @ [\<lparr>cmID = ident, cmParent = parent\<rparr>]) lines
         else if i \<noteq> 0 then Inl errNonLinearHistory
         else historyLoop (Suc i) ident (commits @ [\<lparr>cmID = ident, cmParent = []\<rparr>]) lines)"

definition readHistory :: "host \<Rightarrow> reader \<Rightarrow> string \<Rightarrow> commit list res" where
  "readHistory h r head =
    (if \<not> isObjectID head then Inl (Errorf ''invalid head object id'' []) else
     andThen (gitRun h r [''rev-list'', ''--reverse'', ''--parents'', head]) (\<lambda>out.
     andThen (historyLoop 0 [] [] (splitOn newline (trimSpace out))) (\<lambda>commits.
     if commits = [] \<or> cmID (last commits) \<noteq> toLower head
     then Inl (integrity ''history does not terminate at authoritative head'')
     else Inr commits)))"

section \<open>Tree entries and changes\<close>

definition tabChar :: char where "tabChar = CHR 0x09"

definition requireRegularBlobAt :: "host \<Rightarrow> reader \<Rightarrow> string \<Rightarrow> string \<Rightarrow> unit res" where
  "requireRegularBlobAt h r commit path =
    (if \<not> isObjectID commit \<or> path = [] \<or> containsAny path lineBreaks
     then Inl (Errorf ''invalid Git tree entry request'' []) else
     andThen (gitRun h r [''ls-tree'', ''-z'', commit, ''--'', path]) (\<lambda>out.
     case filter (\<lambda>e. e \<noteq> []) (splitOn (CHR 0x00) out) of
       [] \<Rightarrow> Inl (integrity ''Git tree entry is missing'')
     | [entry] \<Rightarrow>
         let head = takeWhile (\<lambda>c. c \<noteq> tabChar) entry; rest = dropWhile (\<lambda>c. c \<noteq> tabChar) entry in
         if head = [] \<or> length rest \<le> 1 then Inl (integrity ''malformed Git tree entry'')
         else let meta = strFields head in
           if length meta \<noteq> 3 then Inl (integrity ''malformed Git tree metadata'')
           else if tl rest \<noteq> path \<or> meta ! 0 \<noteq> ''100644'' \<or> meta ! 1 \<noteq> ''blob'' \<or> \<not> isObjectID (meta ! 2)
           then Inl (integrity ''durable JSON path must be a 100644 regular blob'')
           else Inr ()
     | _ \<Rightarrow> Inl (integrity ''multiple Git tree entries matched'')))"

text \<open>The loop over the NUL-separated name-status output that three functions share; \<open>step\<close> is the body
  after the status and the path have been read.\<close>

fun nameStatus :: "goerr \<Rightarrow> (string \<Rightarrow> string \<Rightarrow> 'a list \<Rightarrow> 'a list res) \<Rightarrow> string list \<Rightarrow> 'a list \<Rightarrow> 'a list res" where
  "nameStatus malformed step [] acc = Inr acc"
| "nameStatus malformed step [t] acc = (if t = [] then Inr acc else Inl malformed)"
| "nameStatus malformed step (t # p # ts) acc =
    (if t = [] then nameStatus malformed step (p # ts) acc
     else if p = [] then Inl malformed
     else andThen (step t p acc) (nameStatus malformed step ts))"

definition eventStep :: "host \<Rightarrow> reader \<Rightarrow> string \<Rightarrow> string \<Rightarrow> string \<Rightarrow> eventAddition list \<Rightarrow> eventAddition list res" where
  "eventStep h r commit status path acc =
    (if status \<noteq> ''A'' then Inl (integrity ''durable event path changed; event files are immutable'')
     else if \<not> hasPrefix path ''events/'' then Inl (integrity ''unexpected event tree path'')
     else if \<not> hasSuffix path ''.json'' then Inl (integrity ''durable event file is not JSON'')
     else andThen (requireRegularBlobAt h r commit path) (\<lambda>_.
       Inr (acc @ [\<lparr>eaCommit = toLower commit, eaPath = path\<rparr>])))"

definition eventAdditions :: "host \<Rightarrow> reader \<Rightarrow> string \<Rightarrow> eventAddition list res" where
  "eventAdditions h r commit =
    andThen (gitRun h r [''diff-tree'', ''--root'', ''--no-commit-id'', ''--name-status'', ''-r'', ''-z'', commit, ''--'', ''events'']) (\<lambda>out.
    andThen (nameStatus (integrity ''malformed Git name-status output'') (eventStep h r commit) (splitOn (CHR 0x00) out) []) (\<lambda>adds.
    Inr (sort_key eaPath adds)))"

definition listJSON :: "host \<Rightarrow> reader \<Rightarrow> string \<Rightarrow> string \<Rightarrow> string list res" where
  "listJSON h r commit prefix =
    (if containsAny prefix lineBreaks then Inl (Errorf ''invalid tree prefix'' []) else
     andThen (gitRun h r [''ls-tree'', ''-r'', ''-z'', ''--name-only'', commit, ''--'', prefix]) (\<lambda>out.
     andThen (foldM (\<lambda>paths p.
         if p = [] \<or> \<not> hasSuffix p ''.json'' then Inr paths
         else andThen (requireRegularBlobAt h r commit p) (\<lambda>_. Inr (paths @ [p]))) [] (splitOn (CHR 0x00) out)) (\<lambda>paths.
     Inr (sort paths))))"

definition readFileAt :: "host \<Rightarrow> reader \<Rightarrow> string \<Rightarrow> string \<Rightarrow> string res" where
  "readFileAt h r commit path =
    (if \<not> isObjectID commit \<or> path = [] \<or> containsAny path lineBreaks
     then Inl (Errorf ''invalid Git object/path request'' [])
     else wrapw ''read'' (gitRun h r [''cat-file'', ''blob'', commit @ '':'' @ path]))"

definition readRegularFile :: "host \<Rightarrow> reader \<Rightarrow> string \<Rightarrow> string \<Rightarrow> string res" where
  "readRegularFile h r commit path =
    andThen (requireRegularBlobAt h r commit path) (\<lambda>_. readFileAt h r commit path)"

definition immutableStep :: "string \<Rightarrow> string \<Rightarrow> string \<Rightarrow> string list \<Rightarrow> string list res" where
  "immutableStep prefix status path acc =
    (if status \<noteq> ''A'' then Inl (integrity ''versioned ledger file changed; the tree is append-only'')
     else if \<not> hasPrefix path (trimSuffix prefix ''/'' @ ''/'') then Inl (integrity ''unexpected immutable tree path'')
     else if \<not> hasSuffix path ''.json'' then Inl (integrity ''versioned ledger file is not JSON'')
     else Inr (acc @ [path]))"

definition immutableJSONAdditions :: "host \<Rightarrow> reader \<Rightarrow> string \<Rightarrow> string \<Rightarrow> string list res" where
  "immutableJSONAdditions h r commit prefix =
    (if prefix = [] \<or> containsAny prefix lineBreaks then Inl (Errorf ''invalid immutable JSON prefix'' []) else
     andThen (gitRun h r [''diff-tree'', ''--root'', ''--no-commit-id'', ''--name-status'', ''-r'', ''-z'', commit, ''--'', prefix]) (\<lambda>out.
     andThen (nameStatus (integrity ''malformed Git name-status output'') (immutableStep prefix) (splitOn (CHR 0x00) out) []) (\<lambda>paths.
     Inr (sort paths))))"

definition changeStep :: "string \<Rightarrow> string \<Rightarrow> treeChange list \<Rightarrow> treeChange list res" where
  "changeStep status path acc =
    (if containsAny status ''RC'' then Inl (integrity ''unexpected rename/copy status'')
     else Inr (acc @ [\<lparr>tcStatus = status, tcPath = path\<rparr>]))"

definition commitTreeChanges :: "host \<Rightarrow> reader \<Rightarrow> string \<Rightarrow> treeChange list res" where
  "commitTreeChanges h r commit =
    andThen (gitRun h r [''diff-tree'', ''--root'', ''--no-commit-id'', ''--name-status'', ''-r'', ''--no-renames'', ''-z'', commit]) (\<lambda>out.
    andThen (nameStatus (integrity ''malformed Git tree-change output'') changeStep (splitOn (CHR 0x00) out) []) (\<lambda>changes.
    Inr (sort_key (\<lambda>c. [tcPath c, tcStatus c]) changes)))"

section \<open>Durable event paths\<close>

definition inRanges :: "(char \<times> char) list \<Rightarrow> char \<Rightarrow> bool" where
  "inRanges rs c = list_ex (\<lambda>(lo, hi). lo \<le> c \<and> c \<le> hi) rs"

definition alphanumeric :: "(char \<times> char) list" where
  "alphanumeric = [(CHR ''a'', CHR ''z''), (CHR ''A'', CHR ''Z''), (CHR ''0'', CHR ''9'')]"

definition eventPathChar :: "char \<Rightarrow> bool" where
  "eventPathChar c = (inRanges alphanumeric c \<or> c \<in> set ''-_.'')"

definition validateEventPath :: "string \<Rightarrow> unit res" where
  "validateEventPath p =
    (if \<not> hasPrefix p ''events/'' \<or> \<not> hasSuffix p ''.json'' \<or> p \<noteq> pathClean p \<or> containsStr p [backslash] \<or>
        containsAny p (lineBreaks @ ''*?['')
     then Inl (Errorf ''invalid durable event path'' [])
     else checkAll (\<lambda>part. if \<not> plainPart part \<or> \<not> list_all eventPathChar part
       then Inl (Errorf ''invalid durable event path'' []) else Inr ()) (splitOn CHR ''/'' p))"

section \<open>What History accepts\<close>

text \<open>The text \<open>git rev-list --reverse --parents\<close> prints: a line per commit with its identifier and those of
  its parents.\<close>

definition rowText :: "string \<times> string list \<Rightarrow> string" where
  "rowText row = joinWith '' '' (fst row # snd row)"

definition revListText :: "(string \<times> string list) list \<Rightarrow> string" where
  "revListText rows = concat (map (\<lambda>row. rowText row @ [newline]) rows)"

definition goodID :: "string \<Rightarrow> bool" where
  "goodID i = (isObjectID i \<and> toLower i = i)"

definition goodRow :: "string \<times> string list \<Rightarrow> bool" where
  "goodRow row = (goodID (fst row) \<and> list_all goodID (snd row))"

definition rowOf :: "commit \<Rightarrow> string \<times> string list" where
  "rowOf c = (cmID c, if cmParent c = [] then [] else [cmParent c])"

text \<open>Each commit's parent is the commit before it; the first has the given parent, none in a history.\<close>

fun chained :: "string \<Rightarrow> commit list \<Rightarrow> bool" where
  "chained p [] = True"
| "chained p (c # cs) = (cmParent c = p \<and> chained (cmID c) cs)"

definition linearHistory :: "commit list \<Rightarrow> bool" where
  "linearHistory cs = (cs \<noteq> [] \<and> chained [] cs)"

lemma goodID_facts: "goodID i \<Longrightarrow> i \<noteq> [] \<and> spaceFree i \<and> newline \<notin> set i \<and> isObjectID i \<and> toLower i = i"
proof -
  assume g: "goodID i"
  then have "list_all isHexChar i" "i \<noteq> []" by (auto simp: goodID_def isObjectID_def)
  moreover have "newline \<notin> set i"
  proof
    assume "newline \<in> set i"
    with \<open>list_all isHexChar i\<close> have "isHexChar newline" by (auto simp: list_all_iff)
    moreover have "\<not> isHexChar newline" by code_simp
    ultimately show False by simp
  qed
  ultimately show ?thesis using g hex_spaceFree by (auto simp: goodID_def)
qed

lemma spaceFree_ends: "spaceFree p \<Longrightarrow> p \<noteq> [] \<Longrightarrow> spaceFree [hd p] \<and> spaceFree [List.last p]"
  by (auto simp: spaceFree_def list_all_iff)

lemma rowOf_eq:
  "rowOf z = (i, []) \<longleftrightarrow> z = \<lparr>cmID = i, cmParent = []\<rparr>"
  "p \<noteq> [] \<Longrightarrow> rowOf z = (i, [p]) \<longleftrightarrow> z = \<lparr>cmID = i, cmParent = p\<rparr>"
  "rowOf z \<noteq> (i, p # q # ps)"
  by (cases z; auto simp: rowOf_def)+

lemma fieldsAux_words:
  "ws \<noteq> [] \<Longrightarrow> list_all (\<lambda>w. spaceFree w \<and> w \<noteq> []) ws \<Longrightarrow> fieldsAux [] (joinWith '' '' ws) = ws"
proof (induction "'' ''" ws rule: joinWith.induct)
  case (2 p)
  then show ?case using fieldsAux_free [of p "[]" "[]"] by simp
next
  case (3 p q ps)
  then show ?case
    using fieldsAux_free [of p "[]" "CHR '' '' # joinWith '' '' (q # ps)"] by (simp add: newline_width)
qed simp

lemma trimSpace_ends:
  assumes "s \<noteq> []" "spaceFree [hd s]" "spaceFree [List.last s]"
  shows "trimSpace s = s" "trimSpace (s @ [newline]) = s"
proof -
  obtain a m where a: "s = [a] @ m" using assms(1) by (cases s) auto
  obtain b n where b: "s = n @ [b]" using assms(1) by (cases s rule: rev_cases) auto
  have l: "trimBy spaceWidth (s @ t) = s @ t" for t
    using trimBy_free(1) [of "[a]" "m @ t"] assms(2) by (simp add: a)
  have r: "trimBy (widthIn (map rev spaceRunes)) (rev s) = rev s"
    using trimBy_free(2) [of "[b]" "rev n"] assms(3) by (simp add: b)
  show "trimSpace s = s" using l [of "[]"] r by (simp add: trimSpace_def)
  have "trimBy (widthIn (map rev spaceRunes)) (newline # rev s) = trimBy (widthIn (map rev spaceRunes)) (rev s)"
    by (subst trimBy.simps) (simp add: newline_width newline_def)
  then show "trimSpace (s @ [newline]) = s" using l r by (simp add: trimSpace_def)
qed

lemma rowText_facts:
  assumes "goodRow row"
  shows "rowText row \<noteq> []" "spaceFree [hd (rowText row)]" "spaceFree [List.last (rowText row)]"
    "newline \<notin> set (rowText row)" "strFields (rowText row) = fst row # snd row"
proof -
  have ws: "list_all (\<lambda>w. spaceFree w \<and> w \<noteq> [] \<and> newline \<notin> set w) (fst row # snd row)"
    using assms by (auto simp: goodRow_def list_all_iff dest: goodID_facts)
  show "strFields (rowText row) = fst row # snd row"
    using fieldsAux_words [of "fst row # snd row"] ws unfolding strFields_def rowText_def
    by (auto simp: list_all_iff)
  have "joinWith '' '' us \<noteq> [] \<and> spaceFree [hd (joinWith '' '' us)] \<and> spaceFree [List.last (joinWith '' '' us)] \<and>
      newline \<notin> set (joinWith '' '' us)"
    if "us \<noteq> []" "list_all (\<lambda>w. spaceFree w \<and> w \<noteq> [] \<and> newline \<notin> set w) us" for us
    using that
  proof (induction "'' ''" us rule: joinWith.induct)
    case (2 p)
    then show ?case using spaceFree_ends [of p] by simp
  next
    case (3 p q ps)
    then show ?case using spaceFree_ends [of p] by (auto simp: newline_def)
  qed simp
  from this [OF _ ws] show "rowText row \<noteq> []" "spaceFree [hd (rowText row)]" "spaceFree [List.last (rowText row)]"
    "newline \<notin> set (rowText row)" by (auto simp: rowText_def)
qed

lemma revListText_lines:
  assumes "rows \<noteq> []" "list_all goodRow rows"
  shows "splitOn newline (trimSpace (revListText rows)) = map rowText rows"
proof -
  have j: "revListText rows = joinWith [newline] (map rowText rows) @ [newline] \<and>
      joinWith [newline] (map rowText rows) \<noteq> [] \<and> spaceFree [hd (joinWith [newline] (map rowText rows))] \<and>
      spaceFree [List.last (joinWith [newline] (map rowText rows))]"
    using assms
  proof (induction rows)
    case (Cons r rows)
    then show ?case
      using rowText_facts [of r] by (cases rows) (auto simp: revListText_def)
  qed simp
  then have "trimSpace (revListText rows) = joinWith [newline] (map rowText rows)"
    using trimSpace_ends(2) by metis
  moreover have "splitOn newline (joinWith [newline] (map rowText rows)) = map rowText rows"
    by (rule split_join) (use assms rowText_facts(4) in \<open>auto simp: list_all_iff\<close>)
  ultimately show ?thesis by simp
qed

lemma historyLoop_rows:
  assumes "list_all goodRow rows" "i = 0 \<longleftrightarrow> previous = []"
  shows "historyLoop i previous acc (map rowText rows) = Inr cs \<longleftrightarrow>
    (\<exists>cs'. cs = acc @ cs' \<and> rows = map rowOf cs' \<and> chained previous cs')"
  using assms
proof (induction rows arbitrary: i previous acc)
  case (Cons row rows)
  obtain ident ps where row: "row = (ident, ps)" by (cases row)
  have g: "goodRow row" using Cons.prems by simp
  have ident: "ident \<noteq> []" "isObjectID ident" "toLower ident = ident"
    using g goodID_facts [of ident] by (auto simp: row goodRow_def)
  have ne: "trimSpace (rowText row) \<noteq> []" using trimSpace_ends(1) rowText_facts [OF g] by simp
  have f: "strFields (rowText row) = ident # ps" using rowText_facts(5) [OF g] by (simp add: row)
  have IH: "historyLoop (Suc i) ident acc' (map rowText rows) = Inr cs \<longleftrightarrow>
      (\<exists>cs'. cs = acc' @ cs' \<and> rows = map rowOf cs' \<and> chained ident cs')" for acc'
    using Cons.IH [of "Suc i" ident acc'] Cons.prems(1) ident(1) by simp
  show ?case
  proof (cases ps)
    case Nil
    then show ?thesis using ne f ident IH [of "acc @ [\<lparr>cmID = ident, cmParent = []\<rparr>]"] Cons.prems(2)
      by (auto simp: row Cons_eq_map_conv rowOf_eq eq_commute [of _ "rowOf _"] Let_def split: if_split_asm)
  next
    case (Cons p qs)
    note ps = this
    show ?thesis
    proof (cases qs)
      case Nil
      have p: "toLower p = p" "p \<noteq> []" using g goodID_facts [of p] by (auto simp: row ps goodRow_def)
      then show ?thesis using ne f ident IH [of "acc @ [\<lparr>cmID = ident, cmParent = p\<rparr>]"] Cons.prems(2)
        by (auto simp: row ps Nil Cons_eq_map_conv rowOf_eq eq_commute [of _ "rowOf _"] Let_def split: if_split_asm)
    next
      case (Cons q rs)
      then show ?thesis using ne f by (auto simp: row ps Cons_eq_map_conv rowOf_eq eq_commute [of _ "rowOf _"] split: if_split_asm)
    qed
  qed
qed auto

lemma readHistory_iff:
  assumes "gitRun h r [''rev-list'', ''--reverse'', ''--parents'', head] = Inr (revListText rows)"
    and "list_all goodRow rows" "isObjectID head"
  shows "readHistory h r head = Inr cs \<longleftrightarrow> rows = map rowOf cs \<and> linearHistory cs \<and> cmID (List.last cs) = toLower head"
proof (cases "rows = []")
  case True
  have "historyLoop 0 [] [] (splitOn newline (trimSpace [])) = Inr []" by code_simp
  then show ?thesis using True assms by (auto simp: readHistory_def revListText_def linearHistory_def)
next
  case False
  then show ?thesis
    using assms historyLoop_rows [OF assms(2), of 0 "[]" "[]" cs] revListText_lines [OF False assms(2)]
    by (auto simp: readHistory_def linearHistory_def res_simps historyLoop_rows)
qed

section \<open>Name-status output\<close>

text \<open>What \<open>git diff-tree --name-status -z\<close> prints: status and path of each change, each ended by NUL.\<close>

definition statusText :: "(string \<times> string) list \<Rightarrow> string" where
  "statusText changes = concat (map (\<lambda>(s, p). s @ [CHR 0x00] @ p @ [CHR 0x00]) changes)"

definition goodChange :: "string \<times> string \<Rightarrow> bool" where
  "goodChange c = (fst c \<noteq> [] \<and> snd c \<noteq> [] \<and> CHR 0x00 \<notin> set (fst c) \<and> CHR 0x00 \<notin> set (snd c))"

lemma statusText_tokens:
  "list_all goodChange changes \<Longrightarrow>
   splitOn (CHR 0x00) (statusText changes) = concat (map (\<lambda>(s, p). [s, p]) changes) @ [[]]"
  by (induction changes) (auto simp: statusText_def goodChange_def split_append_sep)

lemma nameStatus_tokens:
  "list_all goodChange changes \<Longrightarrow>
   nameStatus m step (concat (map (\<lambda>(s, p). [s, p]) changes) @ [[]]) acc = foldM (\<lambda>acc (s, p). step s p acc) acc changes"
proof (induction changes arbitrary: acc)
  case (Cons c changes)
  obtain s p where c: "c = (s, p)" by (cases c)
  have "nameStatus m step (concat (map (\<lambda>(s, p). [s, p]) changes) @ [[]]) =
      (\<lambda>acc. foldM (\<lambda>acc (s, p). step s p acc) acc changes)"
    using Cons by (intro ext) simp
  then show ?case using Cons.prems by (simp add: c goodChange_def)
qed simp

text \<open>A loop that checks each element and collects an image of it.\<close>

lemma foldM_collect:
  assumes "\<And>acc x. x \<in> set xs \<Longrightarrow> step acc x = (if P x then Inr (acc @ [f x]) else Inl (e x))"
  shows "foldM step acc xs = Inr ys \<longleftrightarrow> (\<forall>x\<in>set xs. P x) \<and> ys = acc @ map f xs"
  using assms
proof (induction xs arbitrary: acc)
  case (Cons x xs)
  then show ?case by (cases "P x") auto
qed auto

lemma immutableJSONAdditions_iff:
  assumes "gitRun h r [''diff-tree'', ''--root'', ''--no-commit-id'', ''--name-status'', ''-r'', ''-z'', commit, ''--'', prefix]
      = Inr (statusText changes)"
    and "list_all goodChange changes" "prefix \<noteq> []" "\<not> containsAny prefix lineBreaks"
  shows "immutableJSONAdditions h r commit prefix = Inr paths \<longleftrightarrow>
    (\<forall>(s, p)\<in>set changes. s = ''A'' \<and> hasPrefix p (trimSuffix prefix ''/'' @ ''/'') \<and> hasSuffix p ''.json'') \<and>
    paths = sort (map snd changes)"
proof -
  let ?P = "\<lambda>(s, p). s = ''A'' \<and> hasPrefix p (trimSuffix prefix ''/'' @ ''/'') \<and> hasSuffix p ''.json''"
  let ?e = "\<lambda>(s, p). if s \<noteq> ''A'' then integrity ''versioned ledger file changed; the tree is append-only''
     else if \<not> hasPrefix p (trimSuffix prefix ''/'' @ ''/'') then integrity ''unexpected immutable tree path''
     else integrity ''versioned ledger file is not JSON''"
  have step: "(\<lambda>acc (s, p). immutableStep prefix s p acc) acc x = (if ?P x then Inr (acc @ [snd x]) else Inl (?e x))" for acc x
    by (cases x) (simp add: immutableStep_def)
  have "foldM (\<lambda>acc (s, p). immutableStep prefix s p acc) [] changes = Inr ys \<longleftrightarrow> (\<forall>x\<in>set changes. ?P x) \<and> ys = map snd changes" for ys
    using foldM_collect [of changes "\<lambda>acc (s, p). immutableStep prefix s p acc" ?P snd ?e "[]" ys, OF step] by simp
  then show ?thesis using assms
    by (auto simp: immutableJSONAdditions_def statusText_tokens nameStatus_tokens res_simps)
qed

lemma eventAdditions_iff:
  assumes "gitRun h r [''diff-tree'', ''--root'', ''--no-commit-id'', ''--name-status'', ''-r'', ''-z'', commit, ''--'', ''events'']
      = Inr (statusText changes)"
    and "list_all goodChange changes"
  shows "eventAdditions h r commit = Inr adds \<longleftrightarrow>
    (\<forall>(s, p)\<in>set changes. s = ''A'' \<and> hasPrefix p ''events/'' \<and> hasSuffix p ''.json'' \<and> requireRegularBlobAt h r commit p = Inr ()) \<and>
    adds = sort_key eaPath (map (\<lambda>c. \<lparr>eaCommit = toLower commit, eaPath = snd c\<rparr>) changes)"
proof -
  let ?P = "\<lambda>(s, p). s = ''A'' \<and> hasPrefix p ''events/'' \<and> hasSuffix p ''.json'' \<and> requireRegularBlobAt h r commit p = Inr ()"
  let ?f = "\<lambda>c. \<lparr>eaCommit = toLower commit, eaPath = snd c\<rparr>"
  let ?e = "\<lambda>x. case eventStep h r commit (fst x) (snd x) [] of Inl e \<Rightarrow> e | Inr _ \<Rightarrow> errNotExist"
  have step: "(\<lambda>acc (s, p). eventStep h r commit s p acc) acc x = (if ?P x then Inr (acc @ [?f x]) else Inl (?e x))" for acc x
    by (cases x; cases "requireRegularBlobAt h r commit (snd x)") (auto simp: eventStep_def)
  have "foldM (\<lambda>acc (s, p). eventStep h r commit s p acc) [] changes = Inr ys \<longleftrightarrow> (\<forall>x\<in>set changes. ?P x) \<and> ys = map ?f changes" for ys
    using foldM_collect [of changes "\<lambda>acc (s, p). eventStep h r commit s p acc" ?P ?f ?e "[]" ys, OF step] by simp
  then show ?thesis using assms
    by (auto simp: eventAdditions_def statusText_tokens nameStatus_tokens res_simps)
qed

section \<open>Paths\<close>

lemma hasPrefix_trans: "hasPrefix p (q @ s) \<Longrightarrow> hasPrefix p q"
  by (auto simp: hasPrefix_iff)

lemma parts_chars:
  assumes "\<forall>part\<in>set (splitOn CHR ''/'' p). list_all Q part" "c \<in> set p"
  shows "c = CHR ''/'' \<or> Q c"
proof -
  have "c \<in> set (joinWith [CHR ''/''] (splitOn CHR ''/'' p))" using assms(2) by simp
  then have "c = CHR ''/'' \<or> (\<exists>part\<in>set (splitOn CHR ''/'' p). c \<in> set part)"
    using set_joinWith [of "CHR ''/''" "splitOn CHR ''/'' p"] by auto
  then show ?thesis using assms(1) by (auto simp: list_all_iff)
qed

lemma eventPathChar_plain:
  "eventPathChar c \<Longrightarrow> c \<noteq> backslash \<and> c \<notin> set (lineBreaks @ ''*?['')"
  by (auto simp: eventPathChar_def inRanges_def alphanumeric_def backslash_def lineBreaks_def char_le_iff)

lemma validateEventPath_iff:
  "validateEventPath p = Inr () \<longleftrightarrow> hasPrefix p ''events/'' \<and> hasSuffix p ''.json'' \<and>
     (\<forall>part\<in>set (splitOn CHR ''/'' p). plainPart part \<and> list_all eventPathChar part)" (is "?L \<longleftrightarrow> ?R")
proof
  assume ?R
  then have parts: "\<forall>part\<in>set (splitOn CHR ''/'' p). plainPart part"
    "\<forall>part\<in>set (splitOn CHR ''/'' p). list_all eventPathChar part" by auto
  have chars: "c \<noteq> backslash \<and> c \<notin> set (lineBreaks @ ''*?['')" if "c \<in> set p" for c
  proof -
    have "CHR ''/'' \<noteq> backslash \<and> CHR ''/'' \<notin> set (lineBreaks @ ''*?['')" by code_simp
    moreover have "c = CHR ''/'' \<or> eventPathChar c" by (rule parts_chars [OF parts(2) that])
    ultimately show ?thesis using eventPathChar_plain [of c] by (elim disjE) simp_all
  qed
  have "\<not> containsStr p [backslash]" "\<not> containsAny p (lineBreaks @ ''*?['')"
    unfolding containsStr_single containsAny_iff using chars by blast+
  with \<open>?R\<close> show ?L using pathClean_plain [OF parts(1)]
    by (simp add: validateEventPath_def checkAll_ok_iff is_ok_def)
qed (auto simp: validateEventPath_def checkAll_ok_iff ok_if split: if_split_asm)

section \<open>Symbolic links below a directory\<close>

fun nodeKind :: "fsTree \<Rightarrow> fileKind" where
  "nodeKind (FsTree name kind listing) = kind"

text \<open>The nodes reached from a tree through readable directories.\<close>

inductive below :: "fsTree \<Rightarrow> fsTree \<Rightarrow> bool" where
  here: "below t t"
| there: "t \<in> set ts \<Longrightarrow> below t n \<Longrightarrow> below (FsTree name Directory (Inr ts)) n"

inductive_simps below_simps: "below (FsTree name kind listing) n"

definition plainNode :: "fsTree \<Rightarrow> bool" where
  "plainNode t = (case t of FsTree name kind listing \<Rightarrow>
     kind \<noteq> SymbolicLink \<and> (kind = Directory \<longrightarrow> is_ok listing))"

lemma walkTree_iff:
  "walkTree t = Inr () \<longleftrightarrow> (\<forall>n. below t n \<longrightarrow> plainNode n)"
  "walkTrees ts = Inr () \<longleftrightarrow> (\<forall>t\<in>set ts. \<forall>n. below t n \<longrightarrow> plainNode n)"
proof (induction t and ts rule: walkTree_walkTrees.induct)
  case (1 name kind e)
  show ?case by (auto simp: below_simps plainNode_def)
next
  case (2 name kind ts)
  show ?case
  proof (cases "kind = Directory")
    case True
    then show ?thesis using 2 by (auto simp: below_simps plainNode_def)
  next
    case False
    then show ?thesis by (auto simp: below_simps plainNode_def)
  qed
qed (auto simp: res_simps)

section \<open>Climbing to the root\<close>

definition rootedPath :: "string list \<Rightarrow> string" where
  "rootedPath ps = CHR ''/'' # joinWith ''/'' ps"

lemma plain_no_slash: "list_all (\<lambda>p. plainPart p \<and> CHR ''/'' \<notin> set p) ps \<Longrightarrow> \<forall>p\<in>set ps. CHR ''/'' \<notin> set p"
  by (auto simp: list_all_iff)

lemma clean_rooted: "list_all plainPart st \<Longrightarrow> list_all plainPart (cleanParts True st ps)"
proof (induction ps arbitrary: st)
  case (Cons p ps)
  show ?case
  proof (cases st)
    case Nil
    have "list_all plainPart [p]" if "p \<noteq> []" "p \<noteq> ''.''" "p \<noteq> ''..''" using that by (simp add: plainPart_def)
    then show ?thesis using Cons.IH [of "[]"] Cons.IH [of "[p]"] by (simp add: Nil)
  next
    case (Cons q st')
    note st = this
    have "list_all plainPart (p # st)" if "p \<noteq> []" "p \<noteq> ''.''" "p \<noteq> ''..''"
      using that Cons.prems by (simp add: list_all_iff) (simp add: plainPart_def)
    moreover have "list_all plainPart st'" "q \<noteq> ''..''" using \<open>list_all plainPart st\<close> by (simp_all add: Cons plainPart_def)
    ultimately show ?thesis
      using Cons.IH [of st] Cons.IH [of "p # st"] Cons.IH [of st'] \<open>list_all plainPart st\<close> by (simp add: Cons)
  qed
qed (simp add: list_all_iff)

lemma cleanParts_set: "set (cleanParts b st ps) \<subseteq> set st \<union> set ps"
  by (induction b st ps rule: cleanParts.induct) (auto split: list.splits if_splits)

definition goodParts :: "string list \<Rightarrow> bool" where
  "goodParts ps = (\<forall>p\<in>set ps. plainPart p \<and> CHR ''/'' \<notin> set p)"

lemma pathClean_rooted:
  assumes "pathIsAbs p" shows "\<exists>ps. pathClean p = rootedPath ps \<and> goodParts ps"
proof -
  have "p \<noteq> []" using assms by (auto simp: pathIsAbs_def hasPrefix_def)
  then have "pathClean p = rootedPath (cleanParts True [] (splitOn CHR ''/'' p))"
    using assms by (simp add: pathClean_def rootedPath_def Let_def)
  moreover have "goodParts (cleanParts True [] (splitOn CHR ''/'' p))"
    using clean_rooted [of "[]" "splitOn CHR ''/'' p"] cleanParts_set [of True "[]" "splitOn CHR ''/'' p"]
      splitOn_no_sep [of _ "CHR ''/''" p] by (force simp: goodParts_def list_all_iff)
  ultimately show ?thesis by blast
qed

lemma dropWhile_last: "d \<notin> set p \<Longrightarrow> rev (dropWhile (\<lambda>c. c \<noteq> d) (rev (q @ d # p))) = q @ [d]"
  by (induction p rule: rev_induct) auto

lemma cleanParts_empties:
  assumes "goodParts ps" shows "cleanParts True [] ([] # ps @ [[]]) = ps" "cleanParts True [] ([] # [[]]) = []"
proof -
  have "cleanParts True st (ps @ [[]]) = rev st @ ps" for st
    using assms by (induction ps arbitrary: st) (auto simp: goodParts_def plainPart_def)
  then show "cleanParts True [] ([] # ps @ [[]]) = ps" "cleanParts True [] ([] # [[]]) = []" by simp_all
qed

lemma pathDir_rooted:
  assumes "goodParts ps" shows "pathDir (rootedPath ps) = rootedPath (butlast ps)"
proof (cases ps rule: rev_cases)
  case Nil
  show ?thesis unfolding Nil rootedPath_def by code_simp
next
  case (snoc qs q)
  have q: "CHR ''/'' \<notin> set q" and qs: "goodParts qs" using assms by (auto simp: goodParts_def snoc)
  show ?thesis
  proof (cases "qs = []")
    case True
    then have "rootedPath ps = [] @ CHR ''/'' # q" by (simp add: snoc rootedPath_def)
    then have "pathDir (rootedPath ps) = pathClean ''/''" unfolding pathDir_def using dropWhile_last [OF q, of "[]"] by simp
    also have "\<dots> = rootedPath []" by code_simp
    finally show ?thesis by (simp add: snoc True)
  next
    case False
    have j: "joinWith ''/'' (us @ [q]) = joinWith ''/'' us @ CHR ''/'' # q" if "us \<noteq> []" for us
      using that by (induction "''/''" us rule: joinWith.induct) auto
    have "rootedPath ps = rootedPath qs @ CHR ''/'' # q" using j [OF False] by (simp add: snoc rootedPath_def)
    then have d: "pathDir (rootedPath ps) = pathClean (rootedPath qs @ ''/'')"
      unfolding pathDir_def using dropWhile_last [OF q, of "rootedPath qs"] by simp
    have "splitOn CHR ''/'' (joinWith ''/'' qs @ ''/'') = qs @ [[]]"
    proof -
      have "joinWith ''/'' qs @ ''/'' = joinWith ''/'' (qs @ [[]])"
        using False by (induction "''/''" qs rule: joinWith.induct) auto
      then show ?thesis using split_join [of "qs @ [[]]" "CHR ''/''"] qs by (auto simp: goodParts_def)
    qed
    then have "pathClean (rootedPath qs @ ''/'') = rootedPath (cleanParts True [] ([] # qs @ [[]]))"
      by (simp add: pathClean_def rootedPath_def pathIsAbs_def hasPrefix_def Let_def)
    then show ?thesis using d cleanParts_empties(1) [OF qs] by (simp add: snoc)
  qed
qed

lemma rootedPath_inj: "goodParts ps \<Longrightarrow> goodParts qs \<Longrightarrow> rootedPath ps = rootedPath qs \<Longrightarrow> ps = qs"
proof -
  assume g: "goodParts ps" "goodParts qs" and e: "rootedPath ps = rootedPath qs"
  have s: "us \<noteq> [] \<Longrightarrow> goodParts us \<Longrightarrow> splitOn CHR ''/'' (joinWith ''/'' us) = us" for us
    by (rule split_join) (auto simp: goodParts_def)
  have n: "joinWith ''/'' us \<noteq> []" if "us \<noteq> []" "goodParts us" for us
  proof
    assume "joinWith ''/'' us = []"
    then have "us = [[]]" using s [OF that] by simp
    with that(2) show False by (simp add: goodParts_def plainPart_def)
  qed
  from e have j: "joinWith ''/'' ps = joinWith ''/'' qs" by (simp add: rootedPath_def)
  show "ps = qs"
  proof (cases "ps = [] \<or> qs = []")
    case True
    then show ?thesis using j n [of ps] n [of qs] g by (cases "ps = []"; cases "qs = []") simp_all
  next
    case False
    then have p: "splitOn CHR ''/'' (joinWith ''/'' ps) = ps" and q: "splitOn CHR ''/'' (joinWith ''/'' qs) = qs"
      using s g by blast+
    have "ps = splitOn CHR ''/'' (joinWith ''/'' ps)" by (rule p [symmetric])
    also have "\<dots> = splitOn CHR ''/'' (joinWith ''/'' qs)" by (rule arg_cong [OF j])
    also have "\<dots> = qs" by (rule q)
    finally show ?thesis .
  qed
qed

lemma length_rooted: "goodParts ps \<Longrightarrow> length ps < length (rootedPath ps)"
proof -
  have "goodParts ps \<Longrightarrow> length ps \<le> length (joinWith ''/'' ps)"
    by (induction "''/''" ps rule: joinWith.induct) (auto simp: goodParts_def plainPart_def neq_Nil_conv)
  then show "goodParts ps \<Longrightarrow> ?thesis" by (simp add: rootedPath_def)
qed

lemma rejectComponents_rooted:
  assumes "goodParts ps" "length ps < n"
  shows "\<exists>res. rejectComponents n h (rootedPath ps) = Some res \<and>
    (res = Inr () \<longleftrightarrow> (\<forall>k\<le>length ps. \<exists>info. hsLstat h (rootedPath (take k ps)) = Inr info \<and> fiKind info \<noteq> SymbolicLink))"
  using assms
proof (induction n arbitrary: ps)
  case (Suc n)
  show ?case
  proof (cases "hsLstat h (rootedPath ps)")
    case (Inl e)
    then show ?thesis by (auto intro!: exI [of _ "length ps"])
  next
    case (Inr info)
    have b: "goodParts (butlast ps)" using Suc.prems(1) by (auto simp: goodParts_def dest: in_set_butlastD)
    have all: "(\<forall>k\<le>length ps. Q (take k ps)) \<longleftrightarrow> Q ps \<and> (ps \<noteq> [] \<longrightarrow> (\<forall>k\<le>length (butlast ps). Q (take k (butlast ps))))" for Q
    proof (cases ps rule: rev_cases)
      case (snoc qs q)
      show ?thesis by (auto simp: snoc le_Suc_eq)
    qed auto
    show ?thesis
    proof (cases "ps = []")
      case True
      then show ?thesis using Inr pathDir_rooted [OF Suc.prems(1)] by auto
    next
      case False
      then have ne: "pathDir (rootedPath ps) \<noteq> rootedPath ps"
        using pathDir_rooted [OF Suc.prems(1)] rootedPath_inj [OF b Suc.prems(1)]
        by (metis append_butlast_last_id append_self_conv not_Cons_self2)
      have "length (butlast ps) < n" using Suc.prems(2) False by (cases ps) auto
      from Suc.IH [OF b this] show ?thesis
        using Inr ne pathDir_rooted [OF Suc.prems(1)] all [of "\<lambda>us. \<exists>info. hsLstat h (rootedPath us) = Inr info \<and> fiKind info \<noteq> SymbolicLink"] False
        by auto
    qed
  qed
qed simp

lemma rejectSymlinked_iff:
  assumes "pathIsAbs p"
  shows "\<exists>ps. pathClean p = rootedPath ps \<and> goodParts ps \<and>
    rejectComponents (length (pathClean p)) h (pathClean p) \<noteq> None \<and>
    (rejectSymlinkedPathComponents h p = Inr () \<longleftrightarrow>
      (\<forall>k\<le>length ps. \<exists>info. hsLstat h (rootedPath (take k ps)) = Inr info \<and> fiKind info \<noteq> SymbolicLink))"
proof -
  obtain ps where ps: "pathClean p = rootedPath ps" "goodParts ps" using pathClean_rooted [OF assms] by blast
  from rejectComponents_rooted [OF ps(2) length_rooted [OF ps(2)], of h] ps show ?thesis
    by (auto simp: rejectSymlinkedPathComponents_def)
qed

section \<open>What a git command runs on\<close>

lemma holdRepositoryRoot_iff:
  "holdRepositoryRoot h r = Inr () \<longleftrightarrow> (\<exists>handle pinned current. rdRootHandle r = Some handle \<and>
     canonicalLedgerRoot h (rdGitDir r) = Inr (rdGitDir r) \<and> hsHandleStat h handle = Inr pinned \<and>
     hsLstat h (rdGitDir r) = Inr current \<and> fiIdent pinned = fiIdent current)"
  by (auto simp: holdRepositoryRoot_def res_simps sameFile_def split: option.splits)

lemma procResult_Inr: "procResult p = Inr out \<longleftrightarrow> p = ProcOk out"
  by (cases p) (auto simp: procResult_def)

lemma gitRun_Inr:
  "gitRun h r args = Inr out \<longleftrightarrow> holdRepositoryRoot h r = Inr () \<and>
     hsProc h (rdGitPath r) (controlledEnv h) None ([''--no-replace-objects'', ''--git-dir='' @ rdGitDir r] @ args) = ProcOk out"
  by (auto simp: gitRun_def res_simps procResult_Inr)

lemma canonicalLedgerRoot_Inr:
  assumes "canonicalLedgerRoot h p = Inr c"
  shows "\<exists>p'. pathAbs h p = Inr p' \<and> pathClean p' = c \<and> rejectSymlinkedPathComponents h c = Inr () \<and>
    (\<exists>info. hsLstat h c = Inr info \<and> fiKind info = Directory)"
  using assms by (auto simp: canonicalLedgerRoot_def res_simps Let_def)

section \<open>A small repository\<close>

text \<open>A host with a repository of two commits at \<open>/l\<close>, for evaluating the model on.\<close>

definition demoRoot :: string where "demoRoot = replicate 40 CHR ''a''"
definition demoNext :: string where "demoNext = replicate 40 CHR ''b''"

definition demoAnswer :: "string \<Rightarrow> string list \<Rightarrow> procOutcome" where
  "demoAnswer head args =
    (if args = [''rev-parse'', ''--verify'', ''refs/heads/main^{commit}''] then ProcOk (head @ [newline])
     else if args = [''rev-parse'', ''--is-shallow-repository''] then ProcOk (''false'' @ [newline])
     else if args = [''rev-list'', ''--parents'', ''-n'', ''1'', demoNext]
     then ProcOk (demoNext @ '' '' @ demoRoot @ [newline])
     else if args = [''rev-list'', ''--reverse'', ''--parents'', demoRoot] then ProcOk (demoRoot @ [newline])
     else if args = [''rev-list'', ''--reverse'', ''--parents'', demoNext]
     then ProcOk (demoRoot @ [newline] @ demoNext @ '' '' @ demoRoot @ [newline])
     else if args = [''diff-tree'', ''--no-commit-id'', ''--name-status'', ''-r'', ''-z'', demoNext]
     then ProcOk (''A'' @ [CHR 0x00] @ ''events/a.json'' @ [CHR 0x00])
     else if take 1 args = [''ls-tree''] then ProcOk []
     else if take 1 args = [''diff-tree''] then ProcOk (''A'' @ [CHR 0x00] @ ''config/schemas/a.json'' @ [CHR 0x00])
     else ProcFailed errNotExist)"

definition demoHost :: "string \<Rightarrow> host" where
  "demoHost head = \<lparr>hsGetwd = Inr ''/'',
     hsLstat = (\<lambda>p. if p = ''/'' \<or> p = ''/l'' then Inr \<lparr>fiKind = Directory, fiIdent = 1\<rparr>
                else if p = ''/l/refs/heads/main'' \<or> p = ''/l/HEAD'' then Inr \<lparr>fiKind = RegularFile, fiIdent = 2\<rparr>
                else Inl errNotExist),
     hsStat = (\<lambda>p. Inl errNotExist),
     hsReadFile = (\<lambda>p. if p = ''/l/config'' then Inr ''[core]'' else Inr head),
     hsEvalSymlinks = Inr, hsOpen = (\<lambda>p. Inr 0), hsHandleStat = (\<lambda>n. Inr \<lparr>fiKind = Directory, fiIdent = 1\<rparr>),
     hsTree = (\<lambda>p. Inl errNotExist), hsLookPath = (\<lambda>n. Inr ''/usr/bin/git''),
     hsProc = (\<lambda>g env stdin args. demoAnswer head (drop 2 args)), hsWindows = False, hsEnviron = []\<rparr>"

definition demoReader :: reader where
  "demoReader = \<lparr>rdGitPath = ''/usr/bin/git'', rdGitDir = ''/l'', rdRootHandle = Some 0, rdRef = ''refs/heads/main''\<rparr>"

lemma demo_reader: "newReader (demoHost demoRoot) ''/l'' [] = Inr demoReader"
  by code_simp

lemma demo_safe: "checkHistorySafety (demoHost demoRoot) demoReader = Inr ()"
  "checkHistorySafety (demoHost demoNext) demoReader = Inr ()"
  by code_simp+

section \<open>Properties\<close>

text \<open>C12: \<open>History\<close> accepts the output of \<open>git rev-list --reverse --parents\<close> exactly when the commits form
  one chain: the first has no parent, every other has the commit before it as its only parent, and the
  last is the requested head; it then returns that chain.\<close>

theorem history_accepts_exactly_linear:
  assumes "gitRun h r [''rev-list'', ''--reverse'', ''--parents'', head] = Inr (revListText rows)"
    and "list_all goodRow rows" "isObjectID head"
  shows "readHistory h r head = Inr cs \<longleftrightarrow> rows = map rowOf cs \<and> linearHistory cs \<and> cmID (List.last cs) = toLower head"
  using assms by (rule readHistory_iff)

theorem history_accepts_exactly_linear_witness:
  "readHistory (demoHost demoNext) demoReader demoNext =
     Inr [\<lparr>cmID = demoRoot, cmParent = []\<rparr>, \<lparr>cmID = demoNext, cmParent = demoRoot\<rparr>]"
proof -
  have "gitRun (demoHost demoNext) demoReader [''rev-list'', ''--reverse'', ''--parents'', demoNext] =
      Inr (revListText [(demoRoot, []), (demoNext, [demoRoot])])" by code_simp
  moreover have "list_all goodRow [(demoRoot, []), (demoNext, [demoRoot])]" by code_simp
  moreover have "isObjectID demoNext" by code_simp
  moreover have "map rowOf [\<lparr>cmID = demoRoot, cmParent = []\<rparr>, \<lparr>cmID = demoNext, cmParent = demoRoot\<rparr>] =
      [(demoRoot, []), (demoNext, [demoRoot])]" "toLower demoNext = demoNext" by code_simp+
  ultimately show ?thesis using history_accepts_exactly_linear by (simp add: linearHistory_def)
qed

text \<open>Git is started only while the configured path is canonical, has no symbolic link in it and still
  names the directory whose handle the reader holds, and (outside Windows) with a fixed environment that
  takes nothing from the process's own.\<close>

lemma git_runs_on_pinned_root:
  assumes "gitRun h r args = Inr out"
  shows "\<exists>handle pinned current env. rdRootHandle r = Some handle \<and> hsHandleStat h handle = Inr pinned \<and>
    hsLstat h (rdGitDir r) = Inr current \<and> fiIdent pinned = fiIdent current \<and> fiKind current = Directory \<and>
    rejectSymlinkedPathComponents h (rdGitDir r) = Inr () \<and>
    hsProc h (rdGitPath r) env None ([''--no-replace-objects'', ''--git-dir='' @ rdGitDir r] @ args) = ProcOk out \<and>
    (\<not> hsWindows h \<longrightarrow> env = controlledEnv (h\<lparr>hsEnviron := []\<rparr>)) \<and> ''GIT_NO_REPLACE_OBJECTS=1'' \<in> set env"
proof -
  have run: "holdRepositoryRoot h r = Inr ()"
    "hsProc h (rdGitPath r) (controlledEnv h) None ([''--no-replace-objects'', ''--git-dir='' @ rdGitDir r] @ args) = ProcOk out"
    using assms by (simp_all only: gitRun_Inr)
  have env: "(\<not> hsWindows h \<longrightarrow> controlledEnv h = controlledEnv (h\<lparr>hsEnviron := []\<rparr>)) \<and> ''GIT_NO_REPLACE_OBJECTS=1'' \<in> set (controlledEnv h)"
    by (simp add: controlledEnv_def devNull_def)
  obtain handle pinned current where c: "rdRootHandle r = Some handle" "hsHandleStat h handle = Inr pinned"
    "hsLstat h (rdGitDir r) = Inr current" "fiIdent pinned = fiIdent current" "canonicalLedgerRoot h (rdGitDir r) = Inr (rdGitDir r)"
    using run(1) unfolding holdRepositoryRoot_iff by blast
  with canonicalLedgerRoot_Inr [OF c(5)] run(2) env show ?thesis by auto
qed

lemma git_runs_on_pinned_root_witness:
  "\<exists>pinned. hsHandleStat (demoHost demoRoot) 0 = Inr pinned \<and> fiIdent pinned = 1"
proof -
  have "gitRun (demoHost demoRoot) demoReader [''rev-parse'', ''--is-shallow-repository''] = Inr (''false'' @ [newline])" by code_simp
  from git_runs_on_pinned_root [OF this] show ?thesis by (auto simp: demoReader_def demoHost_def)
qed

text \<open>The climb through the ancestors of an absolute path ends within the length of the path and succeeds
  exactly when the path and every ancestor up to the root exist and none is a symbolic link.\<close>

lemma every_ancestor_checked:
  "pathIsAbs p \<Longrightarrow> \<exists>ps. pathClean p = rootedPath ps \<and> goodParts ps \<and>
    rejectComponents (length (pathClean p)) h (pathClean p) \<noteq> None \<and>
    (rejectSymlinkedPathComponents h p = Inr () \<longleftrightarrow>
      (\<forall>k\<le>length ps. \<exists>info. hsLstat h (rootedPath (take k ps)) = Inr info \<and> fiKind info \<noteq> SymbolicLink))"
  by (rule rejectSymlinked_iff)

lemma every_ancestor_checked_witness:
  "rejectComponents (length (pathClean ''/l'')) (demoHost demoRoot) (pathClean ''/l'') \<noteq> None"
proof -
  have "pathIsAbs ''/l''" by code_simp
  from every_ancestor_checked [OF this, of "demoHost demoRoot"] show ?thesis by blast
qed

text \<open>The walk below \<open>objects\<close> and \<open>refs\<close> accepts exactly the trees in which no reachable entry is a
  symbolic link and every reachable directory can be read.\<close>

lemma walk_rejects_exactly_symlinks:
  "walkTree t = Inr () \<longleftrightarrow> (\<nexists>n. below t n \<and> \<not> plainNode n)"
  using walkTree_iff(1) by blast

text \<open>C27: \<open>ImmutableJSONAdditions\<close> succeeds exactly when every change git reports below the prefix is the
  addition of a JSON file there; it returns the added paths, sorted.\<close>

theorem versioned_files_append_only:
  assumes "gitRun h r [''diff-tree'', ''--root'', ''--no-commit-id'', ''--name-status'', ''-r'', ''-z'', commit, ''--'', prefix]
      = Inr (statusText changes)"
    and "list_all goodChange changes" "prefix \<noteq> []" "\<not> containsAny prefix lineBreaks"
  shows "immutableJSONAdditions h r commit prefix = Inr paths \<longleftrightarrow>
    (\<forall>(s, p)\<in>set changes. s = ''A'' \<and> hasPrefix p (trimSuffix prefix ''/'' @ ''/'') \<and> hasSuffix p ''.json'') \<and>
    paths = sort (map snd changes)"
  using assms by (rule immutableJSONAdditions_iff)

theorem versioned_files_append_only_witness:
  "immutableJSONAdditions (demoHost demoRoot) demoReader demoRoot ''config/schemas'' = Inr [''config/schemas/a.json'']"
proof -
  have g: "gitRun (demoHost demoRoot) demoReader [''diff-tree'', ''--root'', ''--no-commit-id'', ''--name-status'', ''-r'', ''-z'',
      demoRoot, ''--'', ''config/schemas''] = Inr (statusText [(''A'', ''config/schemas/a.json'')])"
    "list_all goodChange [(''A'', ''config/schemas/a.json'')]" "''config/schemas'' \<noteq> []" "\<not> containsAny ''config/schemas'' lineBreaks"
    "hasPrefix ''config/schemas/a.json'' (trimSuffix ''config/schemas'' ''/'' @ ''/'')" "hasSuffix ''config/schemas/a.json'' ''.json''"
    by code_simp+
  from versioned_files_append_only [OF g(1-4)] g(5,6) show ?thesis by simp
qed

text \<open>The grammar of durable event paths: below \<open>events/\<close>, ending in \<open>.json\<close>, made of non-empty parts of
  letters, digits, dashes, underscores and dots that are neither \<open>.\<close> nor \<open>..\<close>; the other checks follow.\<close>

lemma event_path_grammar:
  "validateEventPath p = Inr () \<longleftrightarrow> hasPrefix p ''events/'' \<and> hasSuffix p ''.json'' \<and>
     list_all (\<lambda>part. plainPart part \<and> list_all eventPathChar part) (splitOn CHR ''/'' p)"
  unfolding list_all_iff [of "\<lambda>part. plainPart part \<and> list_all eventPathChar part"] by (rule validateEventPath_iff)

end
