(* ===== verification/Git_Writer.thy ===== *)
theory Git_Writer
  imports Git_Reader
begin

text \<open>
  internal/gitledger, write side: writer.go (candidate construction and the compare-and-swap of the
  authoritative ref) and bootstrap.go. A git process that may change the repository takes the host to
  a new host; whatever other processes do to the repository meanwhile is part of that change.
\<close>

section \<open>Operations that change the host\<close>

record world =
  wdExec :: "host \<Rightarrow> string \<Rightarrow> string list \<Rightarrow> string option \<Rightarrow> string list \<Rightarrow> host \<times> procOutcome"
  wdMkdirTemp :: "host \<Rightarrow> string \<Rightarrow> string res"
  wdMkdir :: "host \<Rightarrow> string \<Rightarrow> host \<times> unit res"

type_synonym 'a hostop = "(host, 'a) stateop"

section \<open>Errors and candidates\<close>

definition errStaleState :: goerr where "errStaleState = ErrNew ''STALE_STATE''"
definition errCandidateNotChild :: goerr where "errCandidateNotChild = ErrNew ''CANDIDATE_NOT_EXACT_CHILD''"
definition errCASOutcomeUnknown :: goerr where "errCASOutcomeUnknown = ErrNew ''POST_CAS_RECOVERY_REQUIRED''"
definition errPostCASVerification :: goerr where "errPostCASVerification = ErrNew ''POST_CAS_VERIFICATION_FAILED''"
definition errCASAcceptanceRecovered :: goerr where
  "errCASAcceptanceRecovered = Errorf ''CAS_ACCEPTANCE_RECOVERED'' [errStaleState]"

record candidateCommit =
  ccExpectedHead :: string
  ccCommit :: string
  ccTree :: string
  ccEventPath :: string
  ccEventBlob :: string

record recoveredState =
  rsHead :: string
  rsCandidateInHistory :: bool

definition controlledWriteEnv :: "host \<Rightarrow> string list \<Rightarrow> string list" where
  "controlledWriteEnv h extra =
    filter (\<lambda>item. \<not> (hasPrefix item ''GIT_AUTHOR_'' \<or> hasPrefix item ''GIT_COMMITTER_'' \<or> hasPrefix item ''EMAIL=''))
      (controlledEnv h) @ extra"

definition runWrite :: "world \<Rightarrow> reader \<Rightarrow> string option \<Rightarrow> string list \<Rightarrow> string \<Rightarrow> string list \<Rightarrow> string hostop" where
  "runWrite w r stdin extra hooksDir args h =
    (case holdRepositoryRoot h r of
       Inl e \<Rightarrow> (h, Inl e)
     | Inr _ \<Rightarrow> (case wdExec w h (rdGitPath r) (controlledWriteEnv h extra) stdin
          ([''--no-replace-objects'', ''--git-dir='' @ rdGitDir r, ''-c'', ''core.hooksPath='' @ hooksDir,
            ''-c'', ''commit.gpgSign=false''] @ args) of
         (h', p) \<Rightarrow> (h', procResult p)))"

section \<open>Candidate commits\<close>

definition verifyExactChild :: "host \<Rightarrow> reader \<Rightarrow> string \<Rightarrow> string \<Rightarrow> unit res" where
  "verifyExactChild h r expectedHead candidate =
    andThen (gitRun h r [''rev-list'', ''--parents'', ''-n'', ''1'', candidate]) (\<lambda>out.
    let fields = strFields (trimSpace out) in
    if length fields \<noteq> 2 \<or> toLower (fields ! 0) \<noteq> toLower candidate \<or> toLower (fields ! 1) \<noteq> toLower expectedHead
    then Inl (Errorf ''candidate must have sole parent'' [errCandidateNotChild]) else Inr ())"

definition verifySinglePathAddition :: "host \<Rightarrow> reader \<Rightarrow> string \<Rightarrow> string \<Rightarrow> unit res" where
  "verifySinglePathAddition h r candidate eventPath =
    andThen (gitRun h r [''diff-tree'', ''--no-commit-id'', ''--name-status'', ''-r'', ''-z'', candidate]) (\<lambda>out.
    if filter (\<lambda>t. t \<noteq> []) (splitOn (CHR 0x00) out) \<noteq> [''A'', eventPath]
    then Inl (Errorf ''CANDIDATE_TREE_MISMATCH'' []) else Inr ())"

definition verifyEventCandidate :: "host \<Rightarrow> reader \<Rightarrow> string \<Rightarrow> string \<Rightarrow> string \<Rightarrow> unit res" where
  "verifyEventCandidate h r expectedHead candidate eventPath =
    (if \<not> isObjectID expectedHead \<or> \<not> isObjectID candidate then Inl (Errorf ''invalid candidate object id'' []) else
     andThen (validateEventPath eventPath) (\<lambda>_.
     andThen (checkHistorySafety h r) (\<lambda>_.
     andThen (verifyExactChild h r (toLower expectedHead) (toLower candidate)) (\<lambda>_.
     verifySinglePathAddition h r (toLower candidate) eventPath))))"

definition gitFailure :: "string \<Rightarrow> goerr" where
  "gitFailure msg = Errorf (''GIT_FAILURE: '' @ msg) []"

text \<open>A write command whose output is an object identifier.\<close>

definition runObject :: "string \<Rightarrow> string hostop \<Rightarrow> string hostop" where
  "runObject msg m = hbind m (\<lambda>out. let i = trimSpace out in if \<not> isObjectID i then hfail (gitFailure msg) else hreturn i)"

definition coreIdentity :: "string list" where
  "coreIdentity = [''GIT_AUTHOR_NAME=Threadkeeper Core'', ''GIT_AUTHOR_EMAIL=threadkeeper-core@localhost'',
     ''GIT_AUTHOR_DATE=2000-01-01T00:00:00Z'', ''GIT_COMMITTER_NAME=Threadkeeper Core'',
     ''GIT_COMMITTER_EMAIL=threadkeeper-core@localhost'', ''GIT_COMMITTER_DATE=2000-01-01T00:00:00Z'']"

definition prepareChecks :: "reader \<Rightarrow> string \<Rightarrow> string \<Rightarrow> host \<Rightarrow> unit res" where
  "prepareChecks r expectedHead eventPath h =
    andThen (checkHistorySafety h r) (\<lambda>_.
    andThen (readHead h r) (\<lambda>current.
    if current \<noteq> expectedHead then Inl (Errorf ''expected current'' [errStaleState]) else
    andThen (gitRun h r [''ls-tree'', ''-z'', expectedHead, ''--'', eventPath]) (\<lambda>out.
    if out \<noteq> [] then Inl (Errorf ''EVENT_PATH_EXISTS'' []) else Inr ())))"

definition prepareEventCommit ::
  "world \<Rightarrow> reader \<Rightarrow> string \<Rightarrow> string \<Rightarrow> string \<Rightarrow> string \<Rightarrow> candidateCommit hostop" where
  "prepareEventCommit w r expectedHead0 eventPath event eventID =
    (if \<not> isObjectID expectedHead0 then hfail (Errorf ''invalid expected head'' []) else
     let expectedHead = toLower expectedHead0 in
     hbind (hread (\<lambda>_. validateEventPath eventPath)) (\<lambda>_.
     if eventID = [] \<or> containsAny eventID lineBreaks then hfail (Errorf ''invalid event id'' []) else
     hbind (hread (prepareChecks r expectedHead eventPath)) (\<lambda>_.
     hbind (hread (\<lambda>h. wrapw ''create private Git index directory'' (wdMkdirTemp w h ''threadkeeper-index-*''))) (\<lambda>indexDir.
     hbind (hread (\<lambda>h. wrapw ''create empty hooks directory'' (wdMkdirTemp w h ''threadkeeper-no-hooks-*''))) (\<lambda>hooksDir.
     let extra = [''GIT_INDEX_FILE='' @ pathJoin [indexDir, ''index'']] in
     hbind (runWrite w r None extra hooksDir [''read-tree'', expectedHead]) (\<lambda>_.
     hbind (runObject ''invalid event blob id'' (runWrite w r (Some event) [] hooksDir [''hash-object'', ''-w'', ''--stdin''])) (\<lambda>blob.
     hbind (runWrite w r None extra hooksDir [''update-index'', ''--add'', ''--cacheinfo'', ''100644'', blob, eventPath]) (\<lambda>_.
     hbind (runObject ''invalid candidate tree id'' (runWrite w r None extra hooksDir [''write-tree''])) (\<lambda>tree.
     hbind (runObject ''invalid candidate commit id'' (runWrite w r (Some (''Threadkeeper event '' @ eventID @ [newline])) coreIdentity hooksDir
         [''commit-tree'', tree, ''-p'', expectedHead])) (\<lambda>commit.
     hbind (hread (\<lambda>h. verifyEventCandidate h r expectedHead commit eventPath)) (\<lambda>_.
     hreturn \<lparr>ccExpectedHead = expectedHead, ccCommit = toLower commit, ccTree = toLower tree,
              ccEventPath = eventPath, ccEventBlob = toLower blob\<rparr>)))))))))))"

section \<open>Compare and swap\<close>

definition recoverState :: "host \<Rightarrow> reader \<Rightarrow> string \<Rightarrow> recoveredState res" where
  "recoverState h r candidate =
    andThen (wrapw ''repository safety check'' (checkHistorySafety h r)) (\<lambda>_.
    andThen (readHead h r) (\<lambda>got.
    if got = candidate then Inr \<lparr>rsHead = got, rsCandidateInHistory = True\<rparr>
    else andThen (readHistory h r got) (\<lambda>history.
      Inr \<lparr>rsHead = got, rsCandidateInHistory = list_ex (\<lambda>c. cmID c = candidate) history\<rparr>)))"

text \<open>The polls of the settle window: the hosts seen until the deadline, at least one.\<close>

fun settleLoop :: "reader \<Rightarrow> string \<Rightarrow> string \<Rightarrow> recoveredState \<Rightarrow> host list \<Rightarrow> recoveredState res" where
  "settleLoop r expectedHead candidate seen [] = Inr seen"
| "settleLoop r expectedHead candidate seen (h # hs) =
    andThen (recoverState h r candidate) (\<lambda>st.
    if rsCandidateInHistory st \<or> rsHead st \<noteq> expectedHead then Inr st
    else settleLoop r expectedHead candidate st hs)"

definition settleState :: "reader \<Rightarrow> string \<Rightarrow> string \<Rightarrow> host \<Rightarrow> host list \<Rightarrow> recoveredState res" where
  "settleState r expectedHead candidate p ps =
    settleLoop r expectedHead candidate \<lparr>rsHead = [], rsCandidateInHistory = False\<rparr> (p # ps)"

definition casChecks :: "reader \<Rightarrow> string \<Rightarrow> string \<Rightarrow> host \<Rightarrow> unit res" where
  "casChecks r expectedHead candidate h =
    andThen (checkHistorySafety h r) (\<lambda>_.
    andThen (verifyExactChild h r expectedHead candidate) (\<lambda>_.
    andThen (readHead h r) (\<lambda>current.
    if current \<noteq> expectedHead then Inl (Errorf ''expected current'' [errStaleState])
    else checkHistorySafety h r)))"

text \<open>What \<open>update-ref\<close> answered and what the recovery reads after it decide the result; the polls are
  the hosts of the settle window.\<close>

definition casVerdict :: "reader \<Rightarrow> string \<Rightarrow> string \<Rightarrow> host \<Rightarrow> host \<times> host list \<Rightarrow> string res \<Rightarrow> unit res" where
  "casVerdict r expectedHead candidate h polls update =
    (case (update, recoverState h r candidate) of
       (Inl _, Inl _) \<Rightarrow> Inl (Errorf ''authoritative-state recovery failed'' [errCASOutcomeUnknown])
     | (Inl _, Inr st) \<Rightarrow>
         if rsCandidateInHistory st then Inl (Errorf ''candidate is present in recovered authoritative history'' [errCASAcceptanceRecovered])
         else if rsHead st = expectedHead then
           (case settleState r expectedHead candidate (fst polls) (snd polls) of
              Inl _ \<Rightarrow> Inl (Errorf ''contention recovery failed'' [errCASOutcomeUnknown])
            | Inr settled \<Rightarrow>
                if rsCandidateInHistory settled
                then Inl (Errorf ''candidate appeared during contention recovery'' [errCASAcceptanceRecovered])
                else if rsHead settled \<noteq> expectedHead then Inl (Errorf ''expected current'' [errStaleState])
                else Inl (Errorf ''authoritative ref remained'' [errCASOutcomeUnknown]))
         else Inl (Errorf ''expected current'' [errStaleState])
     | (Inr _, Inl _) \<Rightarrow> Inl (Errorf ''verification failed'' [errPostCASVerification])
     | (Inr _, Inr st) \<Rightarrow>
         if \<not> rsCandidateInHistory st
         then Inl (Errorf ''recovered head does not contain it'' [errPostCASVerification])
         else Inr ())"

definition compareAndSwap :: "world \<Rightarrow> reader \<Rightarrow> (host \<Rightarrow> host \<times> host list) \<Rightarrow> string \<Rightarrow> string \<Rightarrow> unit hostop" where
  "compareAndSwap w r polls expectedHead0 candidate0 =
    (if \<not> isObjectID expectedHead0 \<or> \<not> isObjectID candidate0
     then hfail (Errorf ''invalid compare-and-swap object id'' []) else
     let expectedHead = toLower expectedHead0; candidate = toLower candidate0 in
     hbind (hread (casChecks r expectedHead candidate)) (\<lambda>_.
     hbind (hread (\<lambda>h. wrapw ''create empty hooks directory'' (wdMkdirTemp w h ''threadkeeper-no-hooks-*''))) (\<lambda>hooksDir h.
     case runWrite w r None [] hooksDir [''update-ref'', ''--no-deref'', rdRef r, candidate, expectedHead] h of
       (h', update) \<Rightarrow> (h', casVerdict r expectedHead candidate h' (polls h') update))))"

section \<open>Bootstrap of a fresh repository\<close>

definition errLedgerAlreadyExists :: goerr where "errLedgerAlreadyExists = ErrNew ''LEDGER_ALREADY_EXISTS''"

definition errExist :: goerr where "errExist = ErrNew ''file already exists''"

definition freshErr :: "string \<Rightarrow> goerr" where
  "freshErr msg = Errorf (''FRESH_GENESIS_INVALID: '' @ msg) []"

definition validateBootstrapRef :: "string \<Rightarrow> unit res" where
  "validateBootstrapRef ref =
    (if \<not> hasPrefix ref ''refs/'' \<or> pathClean ref \<noteq> ref \<or> containsStr ref [backslash] \<or> containsAny ref lineBreaks
     then Inl (freshErr ''invalid authoritative ref'')
     else if \<not> safeParts ref then Inl (freshErr ''invalid authoritative ref'') else Inr ())"

definition validateBootstrapPath :: "string \<Rightarrow> unit res" where
  "validateBootstrapPath p =
    (if p = [] \<or> hasPrefix p ''-'' \<or> containsStr p [backslash] \<or> containsAny p lineBreaks \<or> pathIsAbs p \<or> pathClean p \<noteq> p
     then Inl (freshErr ''unsafe root path'')
     else if \<not> safeParts p then Inl (freshErr ''unsafe root path'') else Inr ())"

definition runBootstrapGit :: "world \<Rightarrow> string \<Rightarrow> string option \<Rightarrow> string list \<Rightarrow> string list \<Rightarrow> string hostop" where
  "runBootstrapGit w gitPath stdin extra args h =
    (case wdExec w h gitPath (controlledEnv h @ extra) stdin args of (h', p) \<Rightarrow> (h', procResult p))"

definition runBootstrapRepoGit ::
  "world \<Rightarrow> string \<Rightarrow> string \<Rightarrow> string \<Rightarrow> string option \<Rightarrow> string list \<Rightarrow> string list \<Rightarrow> string hostop" where
  "runBootstrapRepoGit w gitPath gitDir hooksDir stdin extra args =
    runBootstrapGit w gitPath stdin extra
      ([''--no-replace-objects'', ''--git-dir='' @ gitDir, ''-c'', ''core.hooksPath='' @ hooksDir,
        ''-c'', ''commit.gpgSign=false''] @ args)"

definition genesisIdentity :: "string list" where
  "genesisIdentity = [''GIT_AUTHOR_NAME=Threadkeeper Core Genesis'', ''GIT_AUTHOR_EMAIL=threadkeeper-core@localhost'',
     ''GIT_AUTHOR_DATE=2000-01-01T00:00:00Z'', ''GIT_COMMITTER_NAME=Threadkeeper Core Genesis'',
     ''GIT_COMMITTER_EMAIL=threadkeeper-core@localhost'', ''GIT_COMMITTER_DATE=2000-01-01T00:00:00Z'']"

text \<open>The part of \<open>InitializeBareRoot\<close> before anything is created: the git executable, the absolute path of
  the target and the ref.\<close>

definition bootstrapTarget :: "string \<Rightarrow> string \<Rightarrow> (string, string) gomap \<Rightarrow> host \<Rightarrow> (string \<times> string \<times> string) res" where
  "bootstrapTarget gitDir ref0 files h =
    (if gitDir = [] then Inl (Errorf ''ledger git directory is required'' []) else
     let ref = (if ref0 = [] then defaultRef else ref0) in
     andThen (validateBootstrapRef ref) (\<lambda>_.
     if files = [] then Inl (freshErr ''root file set is empty'') else
     andThen (checkAll validateBootstrapPath (map fst files)) (\<lambda>_.
     andThen (wrapw ''GIT_FAILURE: git executable not found'' (hsLookPath h ''git'')) (\<lambda>gitPath.
     andThen (wrapw ''resolve fresh ledger path'' (pathAbs h (pathClean gitDir))) (\<lambda>target.
     andThen (wrapw ''FRESH_GENESIS_INVALID: unsafe target parent'' (canonicalLedgerRoot h (pathDir target))) (\<lambda>canonicalParent.
     if canonicalParent \<noteq> pathDir target then Inl (freshErr ''target parent changed canonical identity'')
     else Inr (gitPath, target, ref)))))))"

definition createRoot :: "world \<Rightarrow> string \<Rightarrow> unit hostop" where
  "createRoot w target h = (case wdMkdir w h target of
      (h', Inl e) \<Rightarrow> (h', Inl (if errors_is e errExist then Errorf ''target already exists'' [errLedgerAlreadyExists]
                            else Errorf ''create fresh ledger root'' [e]))
    | (h', Inr _) \<Rightarrow> (h', Inr ()))"

definition addRootFile ::
  "world \<Rightarrow> string \<Rightarrow> string \<Rightarrow> string \<Rightarrow> string list \<Rightarrow> (string, string) gomap \<Rightarrow> string \<Rightarrow> unit hostop" where
  "addRootFile w gitPath target hooksDir extra files p =
    hbind (runObject ''invalid bootstrap blob id''
       (runBootstrapRepoGit w gitPath target hooksDir (mget files p) [] [''hash-object'', ''-w'', ''--stdin''])) (\<lambda>blob.
    hbind (runBootstrapRepoGit w gitPath target hooksDir None extra
       [''update-index'', ''--add'', ''--cacheinfo'', ''100644'', blob, p]) (\<lambda>_. hreturn ()))"

definition verifyFresh :: "string \<Rightarrow> string \<Rightarrow> string \<Rightarrow> host \<Rightarrow> string res" where
  "verifyFresh target ref commit h =
    andThen (wrapw ''reopen fresh ledger through hardened reader'' (newReader h target ref)) (\<lambda>r.
    andThen (wrapw ''fresh ledger safety verification'' (checkHistorySafety h r)) (\<lambda>_.
    andThen (wrapw ''resolve fresh authoritative head'' (readHead h r)) (\<lambda>head.
    if head \<noteq> commit
    then Inl (Errorf ''FRESH_GENESIS_INTEGRITY_FAILURE: authoritative head differs from created root'' [])
    else Inr commit)))"

definition initializeBareRoot :: "world \<Rightarrow> string \<Rightarrow> string \<Rightarrow> (string, string) gomap \<Rightarrow> string hostop" where
  "initializeBareRoot w gitDir ref0 files =
    hbind (hread (bootstrapTarget gitDir ref0 files)) (\<lambda>(gitPath, target, ref).
    hbind (hread (\<lambda>h. wrapw ''create empty Genesis Git template'' (wdMkdirTemp w h ''threadkeeper-genesis-template-*''))) (\<lambda>templateDir.
    hbind (createRoot w target) (\<lambda>_.
    hbind (hwrap ''initialize fresh bare ledger'' (runBootstrapGit w gitPath None []
       [''init'', ''--bare'', ''--initial-branch=main'', ''--object-format=sha1'', ''--template='' @ templateDir, target])) (\<lambda>_.
    hbind (hread (\<lambda>h. wrapw ''create private Genesis index directory'' (wdMkdirTemp w h ''threadkeeper-genesis-index-*''))) (\<lambda>indexDir.
    hbind (hread (\<lambda>h. wrapw ''create empty Genesis hooks directory'' (wdMkdirTemp w h ''threadkeeper-genesis-no-hooks-*''))) (\<lambda>hooksDir.
    let extra = [''GIT_INDEX_FILE='' @ pathJoin [indexDir, ''index'']] in
    hbind (runBootstrapRepoGit w gitPath target hooksDir None extra [''read-tree'', ''--empty'']) (\<lambda>_.
    hbind (hforeach (addRootFile w gitPath target hooksDir extra files) (sort (map fst files))) (\<lambda>_.
    hbind (runObject ''invalid Genesis tree id'' (runBootstrapRepoGit w gitPath target hooksDir None extra [''write-tree''])) (\<lambda>tree.
    hbind (runBootstrapRepoGit w gitPath target hooksDir (Some (''Threadkeeper Genesis'' @ [newline])) genesisIdentity
       [''commit-tree'', tree]) (\<lambda>commitOut.
    let commit = toLower (trimSpace commitOut) in
    if \<not> isObjectID commit then hfail (gitFailure ''invalid Genesis commit id'') else
    hbind (hwrap ''establish fresh authoritative ref'' (runBootstrapRepoGit w gitPath target hooksDir None []
       [''update-ref'', ''--no-deref'', ref, commit, replicate 40 (CHR ''0'')])) (\<lambda>_.
    hread (verifyFresh target ref commit))))))))))))"

section \<open>What recovery sees\<close>

text \<open>A commit is authoritative on a host when it is the head of the configured ref or in its history.\<close>

definition authoritative :: "host \<Rightarrow> reader \<Rightarrow> string \<Rightarrow> bool" where
  "authoritative h r c = (\<exists>head. readHead h r = Inr head \<and>
     (c = head \<or> (\<exists>cs. readHistory h r head = Inr cs \<and> c \<in> cmID ` set cs)))"

lemma recoverState_Inr:
  assumes "recoverState h r c = Inr st"
  shows "readHead h r = Inr (rsHead st) \<and> (rsCandidateInHistory st \<longleftrightarrow> authoritative h r c)"
  using assms by (auto simp: recoverState_def res_simps authoritative_def list_ex_iff split: if_split_asm)

lemma settleLoop_Inr:
  assumes "settleLoop r e c seen hs = Inr st"
  shows "st = seen \<or> (\<exists>x\<in>set hs. recoverState x r c = Inr st)"
  using assms by (induction hs arbitrary: seen) (auto simp: res_simps split: if_split_asm)

lemma settleState_Inr:
  assumes "settleState r e c p ps = Inr st"
  shows "\<exists>x\<in>set (p # ps). recoverState x r c = Inr st"
  using assms settleLoop_Inr [of r e c _ ps st] by (auto simp: settleState_def res_simps split: if_split_asm)

section \<open>What the result of a compare-and-swap means\<close>

text \<open>The command the swap runs, and the hosts recovery looks at.\<close>

definition swapArgs :: "reader \<Rightarrow> string \<Rightarrow> string \<Rightarrow> string list" where
  "swapArgs r expectedHead candidate = [''update-ref'', ''--no-deref'', rdRef r, candidate, expectedHead]"

lemma compareAndSwap_cases:
  assumes "compareAndSwap w r polls e0 c0 h = (h', res)"
  obtains
    (refused) err where "h' = h" "res = Inl err"
      "\<not> (isObjectID e0 \<and> isObjectID c0 \<and> casChecks r (toLower e0) (toLower c0) h = Inr () \<and> is_ok (wdMkdirTemp w h ''threadkeeper-no-hooks-*''))"
  | (ran) hooksDir update where "isObjectID e0" "isObjectID c0" "casChecks r (toLower e0) (toLower c0) h = Inr ()"
      "runWrite w r None [] hooksDir (swapArgs r (toLower e0) (toLower c0)) h = (h', update)"
      "res = casVerdict r (toLower e0) (toLower c0) h' (polls h') update"
proof (cases "isObjectID e0 \<and> isObjectID c0")
  case False
  then show thesis using assms refused by (auto simp: compareAndSwap_def)
next
  case ids: True
  show thesis
  proof (cases "casChecks r (toLower e0) (toLower c0) h")
    case (Inl e)
    show thesis by (rule refused [of e]) (use Inl assms ids in \<open>auto simp: compareAndSwap_def Let_def hbind_read\<close>)
  next
    case (Inr u)
    show thesis
    proof (cases "wdMkdirTemp w h ''threadkeeper-no-hooks-*''")
      case (Inl e)
      show thesis by (rule refused [of "Errorf ''create empty hooks directory'' [e]"])
        (use Inl assms ids \<open>casChecks _ _ _ _ = _\<close> in \<open>auto simp: compareAndSwap_def Let_def hbind_read\<close>)
    next
      case (Inr hooksDir)
      then show thesis using assms ids \<open>casChecks _ _ _ _ = _\<close> ran [of hooksDir]
        by (auto simp: compareAndSwap_def Let_def hbind_read swapArgs_def split: prod.splits)
    qed
  qed
qed

lemma casChecks_Inr:
  "casChecks r e c h = Inr () \<longleftrightarrow> checkHistorySafety h r = Inr () \<and> verifyExactChild h r e c = Inr () \<and> readHead h r = Inr e"
  by (auto simp: casChecks_def res_simps)

lemma casVerdict_Inr:
  "casVerdict r e c h polls update = Inr () \<longleftrightarrow>
     is_ok update \<and> (\<exists>st. recoverState h r c = Inr st \<and> rsCandidateInHistory st)"
  by (auto simp: casVerdict_def split: sum.splits if_split_asm)

lemma verdict_kinds:
  "errors_is (Errorf m [errCASOutcomeUnknown]) errCASOutcomeUnknown"
  "errors_is (Errorf m [errPostCASVerification]) errPostCASVerification"
  "errors_is (Errorf m [errCASAcceptanceRecovered]) errCASAcceptanceRecovered"
  "errors_is (Errorf m [errStaleState]) errStaleState"
  "\<not> errors_is (Errorf m [errCASOutcomeUnknown]) errCASAcceptanceRecovered"
  "\<not> errors_is (Errorf m [errPostCASVerification]) errCASAcceptanceRecovered"
  "\<not> errors_is (Errorf ''expected current'' [errStaleState]) errCASAcceptanceRecovered"
  "\<not> errors_is (Errorf m [errCASOutcomeUnknown]) errStaleState"
  "\<not> errors_is (Errorf m [errPostCASVerification]) errStaleState"
  by (simp_all add: errCASOutcomeUnknown_def errPostCASVerification_def errCASAcceptanceRecovered_def errStaleState_def)

lemma casVerdict_Inl:
  assumes "casVerdict r e c h polls update = Inl err"
  shows "errors_is err errCASOutcomeUnknown \<or> errors_is err errPostCASVerification \<or>
    errors_is err errCASAcceptanceRecovered \<and> (\<exists>x\<in>set (h # fst polls # snd polls). authoritative x r c) \<or>
    errors_is err errStaleState \<and> \<not> is_ok update \<and>
      (\<exists>x\<in>set (h # fst polls # snd polls). \<exists>head. readHead x r = Inr head \<and> head \<noteq> e \<and> \<not> authoritative x r c)"
proof (cases update)
  case (Inr out)
  then have "\<exists>m. err = Errorf m [errPostCASVerification]"
    using assms by (auto simp: casVerdict_def split: sum.splits if_split_asm)
  then show ?thesis using verdict_kinds(2) by blast
next
  case u: (Inl ue)
  show ?thesis
  proof (cases "recoverState h r c")
    case (Inl e')
    then have "\<exists>m. err = Errorf m [errCASOutcomeUnknown]" using assms u by (auto simp: casVerdict_def)
    then show ?thesis using verdict_kinds(1) by blast
  next
    case rec: (Inr st)
    note st = recoverState_Inr [OF rec]
    have fst: "h \<in> set (h # fst polls # snd polls)" by simp
    consider (present) "rsCandidateInHistory st" | (lost) "\<not> rsCandidateInHistory st" "rsHead st \<noteq> e"
      | (still) "\<not> rsCandidateInHistory st" "rsHead st = e" by blast
    then show ?thesis
    proof cases
      case present
      then have "\<exists>m. err = Errorf m [errCASAcceptanceRecovered]" using assms u rec by (auto simp: casVerdict_def)
      then show ?thesis using verdict_kinds(3) st present fst by blast
    next
      case lost
      then have "\<exists>m. err = Errorf m [errStaleState]" using assms u rec by (auto simp: casVerdict_def)
      then show ?thesis using verdict_kinds(4) st lost fst u by auto
    next
      case still
      show ?thesis
      proof (cases "settleState r e c (fst polls) (snd polls)")
        case (Inl e')
        then have "\<exists>m. err = Errorf m [errCASOutcomeUnknown]" using assms u rec still by (auto simp: casVerdict_def)
        then show ?thesis using verdict_kinds(1) by blast
      next
        case settled: (Inr st')
        obtain x where "x \<in> set (fst polls # snd polls)" "recoverState x r c = Inr st'"
          using settleState_Inr [OF settled] by blast
        then have x: "x \<in> set (h # fst polls # snd polls)" "readHead x r = Inr (rsHead st')"
          "rsCandidateInHistory st' \<longleftrightarrow> authoritative x r c" using recoverState_Inr by auto
        consider (present) "rsCandidateInHistory st'" | (lost) "\<not> rsCandidateInHistory st'" "rsHead st' \<noteq> e"
          | (same) "\<not> rsCandidateInHistory st'" "rsHead st' = e" by blast
        then show ?thesis
        proof cases
          case present
          then have "\<exists>m. err = Errorf m [errCASAcceptanceRecovered]" using assms u rec still settled by (auto simp: casVerdict_def)
          then show ?thesis using verdict_kinds(3) x present by blast
        next
          case lost
          then have "\<exists>m. err = Errorf m [errStaleState]" using assms u rec still settled by (auto simp: casVerdict_def)
          then show ?thesis using verdict_kinds(4) x lost u by auto
        next
          case same
          then have "\<exists>m. err = Errorf m [errCASOutcomeUnknown]" using assms u rec still settled by (auto simp: casVerdict_def)
          then show ?thesis using verdict_kinds(1) by blast
        qed
      qed
    qed
  qed
qed

lemma runWrite_Inr:
  assumes "runWrite w r stdin extra hooksDir args h = (h', Inr out)"
  shows "\<exists>env pre. wdExec w h (rdGitPath r) env stdin (pre @ args) = (h', ProcOk out)"
proof -
  have "wdExec w h (rdGitPath r) (controlledWriteEnv h extra) stdin
      ([''--no-replace-objects'', ''--git-dir='' @ rdGitDir r, ''-c'', ''core.hooksPath='' @ hooksDir,
        ''-c'', ''commit.gpgSign=false''] @ args) = (h', ProcOk out)"
    using assms by (auto simp: runWrite_def procResult_Inr split: sum.splits prod.splits)
  then show ?thesis by blast
qed

lemma casVerdict_accepted:
  assumes "recoverState h r c = Inr st" "rsCandidateInHistory st"
  shows "casVerdict r e c h polls update = Inr () \<or> (\<exists>m. casVerdict r e c h polls update = Inl (Errorf m [errCASAcceptanceRecovered]))"
  using assms by (cases update) (auto simp: casVerdict_def)

section \<open>One winner for each head\<close>

text \<open>
  What git documents of \<open>update-ref\<close> with an old value, over the sequence \<open>chain\<close> of the values the ref has had so
  far, the last of which is the head that is read: no command changes this past, and an \<open>update-ref\<close> that succeeds has put the new value right after the old
  one, in the time of its own run. Other processes may have moved the ref in any way before and after, back to
  earlier values too.
\<close>

definition refLaw :: "world \<Rightarrow> reader \<Rightarrow> (host \<Rightarrow> string list) \<Rightarrow> bool" where
  "refLaw w r chain = ((\<forall>h head. readHead h r = Inr head \<longrightarrow> chain h \<noteq> [] \<and> List.last (chain h) = head) \<and>
     (\<forall>h gp env stdin args h' p. wdExec w h gp env stdin args = (h', p) \<longrightarrow>
     (\<exists>ext. chain h' = chain h @ ext) \<and>
     (\<forall>pre new old out. args = pre @ [''update-ref'', ''--no-deref'', rdRef r, new, old] \<longrightarrow> p = ProcOk out \<longrightarrow>
        (\<exists>a b. chain h' = a @ old # new # b \<and> length (chain h) \<le> Suc (length a)))))"

lemma cas_winner:
  assumes "refLaw w r chain" "compareAndSwap w r polls e c h = (h', Inr ())"
  shows "\<exists>a b ext. chain h' = chain h @ ext \<and> chain h' = a @ toLower e # toLower c # b \<and> length (chain h) \<le> Suc (length a)"
  using assms(2)
proof (cases rule: compareAndSwap_cases)
  case (ran hooksDir update)
  then obtain out where "runWrite w r None [] hooksDir (swapArgs r (toLower e) (toLower c)) h = (h', Inr out)"
    by (metis casVerdict_Inr is_ok_iff)
  then obtain env pre where "wdExec w h (rdGitPath r) env None (pre @ swapArgs r (toLower e) (toLower c)) = (h', ProcOk out)"
    using runWrite_Inr by blast
  then show ?thesis using assms(1) unfolding refLaw_def swapArgs_def by blast
qed simp

lemma cas_second_winner:
  assumes law: "refLaw w r chain" and win: "compareAndSwap w r polls e c h = (h1, Inr ())" and later: "chain h2 = chain h1 @ ext"
    and win': "compareAndSwap w r polls' e c' h2 = (h3, Inr ())"
  shows "\<exists>a q b. chain h3 = a @ toLower e # toLower c # q @ toLower c' # b \<and> (toLower c = toLower e \<or> toLower e \<in> set q)"
proof -
  obtain a b where ab: "chain h1 = a @ toLower e # toLower c # b" using cas_winner [OF law win] by blast
  obtain a' b' ext' where ab': "chain h3 = chain h2 @ ext'" "chain h3 = a' @ toLower e # toLower c' # b'" "length (chain h2) \<le> Suc (length a')"
    using cas_winner [OF law win'] by blast
  have "(a' @ [toLower e]) @ toLower c' # b' = chain h2 @ ext'" "length (chain h2) \<le> length (a' @ [toLower e])"
    using ab' by simp_all
  then have "take (length (chain h2)) (a' @ [toLower e]) = chain h2"
    by (metis append_eq_conv_conj append_eq_append_conv_if)
  then obtain q where q: "a' @ [toLower e] = chain h2 @ q" by (metis append_take_drop_id)
  define m where "m = b @ ext @ q"
  have m: "a' @ [toLower e] = a @ toLower e # toLower c # m" using q ab later by (simp add: m_def)
  have "List.last (toLower c # m) = List.last (a' @ [toLower e])" unfolding m by simp
  then have l: "List.last (toLower c # m) = toLower e" by simp
  have "toLower c = toLower e \<or> toLower e \<in> set m"
  proof (cases "m = []")
    case False
    then have "List.last m = toLower e" using l by simp
    then show ?thesis using last_in_set [OF False] by simp
  qed (use l in simp)
  moreover have "chain h3 = (a' @ [toLower e]) @ toLower c' # b'" using ab'(2) by simp
  then have "chain h3 = a @ toLower e # toLower c # m @ toLower c' # b'" unfolding m by simp
  ultimately show ?thesis by blast
qed

section \<open>A small world\<close>

text \<open>A mark in the environment, which git does not see, tells a host after the head was put back from one before.\<close>

definition demoAgain :: "bool \<Rightarrow> string \<Rightarrow> host" where
  "demoAgain back head = (demoHost head)\<lparr>hsEnviron := (if back then [''again''] else [])\<rparr>"

definition demoWorld :: world where
  "demoWorld = \<lparr>wdExec = (\<lambda>h gp env stdin args.
       if drop 6 args = [''update-ref'', ''--no-deref'', ''refs/heads/main'', demoNext, demoRoot] \<and>
          readHead h demoReader = Inr demoRoot
       then (demoAgain (hsEnviron h \<noteq> []) demoNext, ProcOk []) else (h, ProcFailed errNotExist)),
     wdMkdirTemp = (\<lambda>h n. Inr ''/tmp/x''), wdMkdir = (\<lambda>h p. (h, Inr ()))\<rparr>"

definition demoChain :: "host \<Rightarrow> string list" where
  "demoChain h = (if hsEnviron h = [] then [] else [demoRoot, demoNext]) @
     (case readHead h demoReader of Inl err \<Rightarrow> [] | Inr head \<Rightarrow> if head = demoNext then [demoRoot, demoNext] else [head])"

definition demoPolls :: "host \<Rightarrow> host \<times> host list" where
  "demoPolls h = (h, [])"

lemma demo_ids: "demoRoot \<noteq> demoNext" "isObjectID demoRoot" "isObjectID demoNext" "toLower demoRoot = demoRoot"
  "toLower demoNext = demoNext"
  by code_simp+

lemma demo_first: "demoAgain False head = demoHost head"
  by (simp add: demoAgain_def demoHost_def)

lemma demo_heads: "readHead (demoHost demoRoot) demoReader = Inr demoRoot" "readHead (demoHost demoNext) demoReader = Inr demoNext"
  by code_simp+

lemma demo_again_heads: "readHead (demoAgain b demoRoot) demoReader = Inr demoRoot" "readHead (demoAgain b demoNext) demoReader = Inr demoNext"
  by (cases b; code_simp)+

lemma demo_again_chain:
  "demoChain (demoAgain b demoRoot) = (if b then [demoRoot, demoNext] else []) @ [demoRoot]"
  "demoChain (demoAgain b demoNext) = (if b then [demoRoot, demoNext] else []) @ [demoRoot, demoNext]"
  unfolding demoChain_def demo_again_heads using demo_ids(1) by (simp_all add: demoAgain_def)

lemma demo_law: "refLaw demoWorld demoReader demoChain"
  unfolding refLaw_def
proof (intro conjI allI impI)
  fix h head
  assume "readHead h demoReader = Inr head"
  then show "demoChain h \<noteq> []" "List.last (demoChain h) = head" by (simp_all add: demoChain_def)
next
  fix h gp env stdin args h' p
  assume x: "wdExec demoWorld h gp env stdin args = (h', p)"
  have "(\<exists>ext. demoChain h' = demoChain h @ ext) \<and>
     (\<forall>pre new old out. args = pre @ [''update-ref'', ''--no-deref'', rdRef demoReader, new, old] \<longrightarrow> p = ProcOk out \<longrightarrow>
        (\<exists>a b. demoChain h' = a @ old # new # b \<and> length (demoChain h) \<le> Suc (length a)))"
  proof (cases "drop 6 args = [''update-ref'', ''--no-deref'', ''refs/heads/main'', demoNext, demoRoot] \<and> readHead h demoReader = Inr demoRoot")
    case True
    define past where "past = (if hsEnviron h = [] then [] else [demoRoot, demoNext])"
    have c: "demoChain h = past @ [demoRoot]" "demoChain h' = past @ [demoRoot, demoNext]"
      using x True demo_again_chain(2) [of "hsEnviron h \<noteq> []"] demo_ids(1) by (simp_all add: demoWorld_def demoChain_def past_def)
    have "new = demoNext \<and> old = demoRoot"
      if "args = pre @ [''update-ref'', ''--no-deref'', rdRef demoReader, new, old]" for pre new old
    proof -
      have len: "length args = 11" using True by (cases args) (auto dest: arg_cong [where f = length])
      have "drop 6 args = drop (length pre) args" using that len by simp
      then show ?thesis using True that by simp
    qed
    moreover have "demoChain h' = past @ demoRoot # demoNext # []" "length (demoChain h) \<le> Suc (length past)" "demoChain h' = demoChain h @ [demoNext]"
      using c by simp_all
    ultimately show ?thesis by blast
  next
    case False
    then have "h' = h \<and> p = ProcFailed errNotExist" using x by (auto simp: demoWorld_def split: if_split_asm)
    then show ?thesis by simp
  qed
  then show "\<exists>ext. demoChain h' = demoChain h @ ext"
    "\<And>pre new old out. args = pre @ [''update-ref'', ''--no-deref'', rdRef demoReader, new, old] \<Longrightarrow> p = ProcOk out \<Longrightarrow>
       \<exists>a b. demoChain h' = a @ old # new # b \<and> length (demoChain h) \<le> Suc (length a)"
    by blast+
qed

lemma demo_again_swap:
  "compareAndSwap demoWorld demoReader demoPolls demoRoot demoNext (demoAgain b demoRoot) = (demoAgain b demoNext, Inr ())"
proof -
  have v: "verifyExactChild (demoAgain b demoRoot) demoReader demoRoot demoNext = Inr ()" by (cases b; code_simp)
  have safe: "checkHistorySafety (demoAgain b demoRoot) demoReader = Inr ()" by (cases b; code_simp)
  have r: "is_ok (recoverState (demoAgain b demoNext) demoReader demoNext)" by (cases b; code_simp)
  have hold: "holdRepositoryRoot (demoAgain b demoRoot) demoReader = Inr ()" by (cases b; code_simp)
  have same: "demoAgain (hsEnviron (demoAgain b demoRoot) \<noteq> []) demoNext = demoAgain b demoNext" by (simp add: demoAgain_def)
  have "casChecks demoReader demoRoot demoNext (demoAgain b demoRoot) = Inr ()"
    using safe demo_again_heads v by (simp add: casChecks_Inr)
  moreover have "runWrite demoWorld demoReader None [] ''/tmp/x'' [''update-ref'', ''--no-deref'', rdRef demoReader, demoNext, demoRoot]
      (demoAgain b demoRoot) = (demoAgain b demoNext, Inr [])"
    using hold demo_again_heads same by (simp add: runWrite_def demoWorld_def procResult_def demoReader_def)
  moreover have "casVerdict demoReader demoRoot demoNext (demoAgain b demoNext) (demoPolls (demoAgain b demoNext)) (Inr []) = Inr ()"
  proof -
    obtain st where st: "recoverState (demoAgain b demoNext) demoReader demoNext = Inr st" using r by (auto simp: is_ok_iff)
    have "rsCandidateInHistory st" using recoverState_Inr [OF st] demo_again_heads by (simp add: authoritative_def)
    then show ?thesis using st by (auto simp: casVerdict_Inr)
  qed
  moreover have "wdMkdirTemp demoWorld (demoAgain b demoRoot) ''threadkeeper-no-hooks-*'' = Inr ''/tmp/x''" by (simp add: demoWorld_def)
  ultimately show ?thesis using demo_ids by (simp add: compareAndSwap_def Let_def hbind_read)
qed

lemma demo_swap: "compareAndSwap demoWorld demoReader demoPolls demoRoot demoNext (demoHost demoRoot) = (demoHost demoNext, Inr ())"
  using demo_again_swap [of False] by (simp add: demo_first)

section \<open>Properties\<close>

text \<open>C10: when \<open>CompareAndSwap\<close> reports success, the repository was safe, its head was the expected one and
  the candidate the exact child of it, the one command run was \<open>update-ref\<close> with the expected head as old
  value, git reported that it succeeded, and the candidate was then found in the authoritative history.\<close>

theorem cas_success:
  assumes "compareAndSwap w r polls e c h = (h', Inr ())"
  shows "checkHistorySafety h r = Inr () \<and> readHead h r = Inr (toLower e) \<and> verifyExactChild h r (toLower e) (toLower c) = Inr () \<and>
    (\<exists>env pre out. wdExec w h (rdGitPath r) env None (pre @ [''update-ref'', ''--no-deref'', rdRef r, toLower c, toLower e]) = (h', ProcOk out)) \<and>
    authoritative h' r (toLower c)"
  using assms
proof (cases rule: compareAndSwap_cases)
  case (ran hooksDir update)
  then obtain out where run: "runWrite w r None [] hooksDir (swapArgs r (toLower e) (toLower c)) h = (h', Inr out)"
    by (metis casVerdict_Inr is_ok_iff)
  have "authoritative h' r (toLower c)" using ran(5) recoverState_Inr casVerdict_Inr by metis
  with ran(3) runWrite_Inr [OF run] show ?thesis unfolding casChecks_Inr swapArgs_def by blast
qed simp

theorem cas_success_witness: "authoritative (demoHost demoNext) demoReader demoNext"
  using cas_success [OF demo_swap] demo_ids by simp

text \<open>C25: what a failure of \<open>CompareAndSwap\<close> says. Either nothing was run and the repository is as it was; or
  the outcome is reported as unknown or unverified; or the candidate was seen in the authoritative history
  and the error says so; or \<open>update-ref\<close> failed and the head was seen to have moved elsewhere without the
  candidate. A candidate that the recovery finds accepted is never reported as anything else.\<close>

theorem cas_failure_meaning:
  assumes "compareAndSwap w r polls e c h = (h', Inl err)"
  shows "h' = h \<and> \<not> (isObjectID e \<and> isObjectID c \<and> casChecks r (toLower e) (toLower c) h = Inr () \<and>
        is_ok (wdMkdirTemp w h ''threadkeeper-no-hooks-*'')) \<or>
    (errors_is err errCASOutcomeUnknown \<or> errors_is err errPostCASVerification \<or>
     errors_is err errCASAcceptanceRecovered \<and>
       (\<exists>x\<in>set (h' # fst (polls h') # snd (polls h')). authoritative x r (toLower c)) \<or>
     errors_is err errStaleState \<and>
       (\<exists>x\<in>set (h' # fst (polls h') # snd (polls h')). \<exists>head. readHead x r = Inr head \<and> head \<noteq> toLower e \<and>
          \<not> authoritative x r (toLower c))) \<and>
    (\<forall>st. recoverState h' r (toLower c) = Inr st \<longrightarrow> rsCandidateInHistory st \<longrightarrow> errors_is err errCASAcceptanceRecovered)"
  using assms
proof (cases rule: compareAndSwap_cases)
  case (ran hooksDir update)
  have v: "casVerdict r (toLower e) (toLower c) h' (polls h') update = Inl err" using ran(5) by simp
  have "errors_is err errCASAcceptanceRecovered" if "recoverState h' r (toLower c) = Inr st" "rsCandidateInHistory st" for st
    using casVerdict_accepted [OF that, of "toLower e" "polls h'" update] v verdict_kinds(3) by auto
  with casVerdict_Inl [OF v] show ?thesis by blast
qed blast

theorem cas_failure_meaning_witness:
  "\<exists>err. compareAndSwap demoWorld demoReader demoPolls demoNext demoRoot (demoHost demoRoot) = (demoHost demoRoot, Inl err)"
proof -
  have "\<not> is_ok (casChecks demoReader demoNext demoRoot (demoHost demoRoot))" by code_simp
  then obtain err where "casChecks demoReader demoNext demoRoot (demoHost demoRoot) = Inl err"
    by (cases "casChecks demoReader demoNext demoRoot (demoHost demoRoot)") auto
  then have x: "compareAndSwap demoWorld demoReader demoPolls demoNext demoRoot (demoHost demoRoot) = (demoHost demoRoot, Inl err)"
    using demo_ids by (simp add: compareAndSwap_def hbind_read)
  from cas_failure_meaning [OF x] x show ?thesis by blast
qed



lemma verifyFresh_Inr:
  "verifyFresh target ref c h = Inr x \<longleftrightarrow> x = c \<and>
     (\<exists>r. newReader h target ref = Inr r \<and> checkHistorySafety h r = Inr () \<and> readHead h r = Inr c)"
  by (auto simp: verifyFresh_def res_simps)

lemma runObject_Inr: "runObject msg m h = (h', Inr i) \<Longrightarrow> isObjectID i"
  by (auto simp: runObject_def hbind_Inr Let_def split: if_split_asm)

text \<open>C26: a candidate commit that \<open>PrepareEventCommit\<close> returns was made on the expected head, at a path that did
  not exist there, and was re-verified in the repository it leaves: its only parent is the expected head
  and it adds exactly the event path.\<close>

theorem prepared_candidate_verified:
  assumes "prepareEventCommit w r e path event ident h = (h', Inr cand)"
  shows "readHead h r = Inr (toLower e) \<and> gitRun h r [''ls-tree'', ''-z'', toLower e, ''--'', path] = Inr [] \<and>
    validateEventPath path = Inr () \<and> ccExpectedHead cand = toLower e \<and> ccEventPath cand = path \<and>
    (\<exists>commit. ccCommit cand = toLower commit \<and> verifyExactChild h' r (toLower e) (toLower commit) = Inr () \<and>
      verifySinglePathAddition h' r (toLower commit) path = Inr ())"
proof -
  have pre: "prepareChecks r (toLower e) path h = Inr ()" "validateEventPath path = Inr ()"
    using assms by (auto simp: prepareEventCommit_def Let_def hbind_Inr split: if_split_asm)
  obtain commit where c: "verifyEventCandidate h' r (toLower e) commit path = Inr ()" "ccCommit cand = toLower commit"
      "ccExpectedHead cand = toLower e" "ccEventPath cand = path"
    using assms by (auto simp: prepareEventCommit_def Let_def hbind_Inr split: if_split_asm)
  have "readHead h r = Inr (toLower e)" "gitRun h r [''ls-tree'', ''-z'', toLower e, ''--'', path] = Inr []"
    using pre(1) by (auto simp: prepareChecks_def res_simps)
  with pre(2) c show ?thesis by (auto simp: verifyEventCandidate_def res_simps)
qed

definition nextWorld :: world where
  "nextWorld = \<lparr>wdExec = (\<lambda>h gp env stdin args. (demoHost demoRoot, ProcOk (demoNext @ [newline]))),
     wdMkdirTemp = (\<lambda>h n. Inr ''/tmp/x''), wdMkdir = (\<lambda>h p. (demoHost demoRoot, Inr ()))\<rparr>"

theorem prepared_candidate_verified_witness:
  "verifySinglePathAddition (demoHost demoRoot) demoReader demoNext ''events/a.json'' = Inr ()"
proof -
  have "snd (prepareEventCommit nextWorld demoReader demoRoot ''events/a.json'' ''{}'' ''e1'' (demoHost demoRoot)) =
      Inr \<lparr>ccExpectedHead = demoRoot, ccCommit = demoNext, ccTree = demoNext, ccEventPath = ''events/a.json'', ccEventBlob = demoNext\<rparr>"
    by code_simp
  then obtain h' where p: "prepareEventCommit nextWorld demoReader demoRoot ''events/a.json'' ''{}'' ''e1'' (demoHost demoRoot) = (h',
      Inr \<lparr>ccExpectedHead = demoRoot, ccCommit = demoNext, ccTree = demoNext, ccEventPath = ''events/a.json'', ccEventBlob = demoNext\<rparr>)"
    by (metis prod.collapse)
  have "verifySinglePathAddition (demoHost demoRoot) demoReader demoNext ''events/a.json'' = Inr ()" by code_simp
  then show ?thesis using prepared_candidate_verified [OF p] by simp
qed

text \<open>\<open>InitializeBareRoot\<close> succeeds only after it has itself created the target directory, for paths that are
  clean and relative; the hardened reader then opens the new repository, finds it safe and its head to be
  the returned root commit.\<close>

lemma bootstrap_creates_and_verifies:
  assumes "initializeBareRoot w dir ref files h = (h', Inr commit)"
  shows "files \<noteq> [] \<and> (\<forall>p\<in>fst ` set files. validateBootstrapPath p = Inr ()) \<and>
    (\<exists>target h1. wdMkdir w h target = (h1, Inr ()) \<and>
      (\<exists>r. newReader h' target (if ref = [] then defaultRef else ref) = Inr r \<and> checkHistorySafety h' r = Inr () \<and>
         readHead h' r = Inr commit))"
proof -
  obtain gitPath target ref' c where t: "bootstrapTarget dir ref files h = Inr (gitPath, target, ref')"
      "\<exists>h1. createRoot w target h = (h1, Inr ())" "verifyFresh target ref' c h' = Inr commit"
    using assms by (auto simp: initializeBareRoot_def Let_def hbind_Inr split: if_split_asm) metis
  then have "ref' = (if ref = [] then defaultRef else ref)" "files \<noteq> []" "\<forall>p\<in>fst ` set files. validateBootstrapPath p = Inr ()"
    by (auto simp: bootstrapTarget_def Let_def res_simps is_ok_iff split: if_split_asm)
  moreover obtain h1 where "wdMkdir w h target = (h1, Inr ())"
    using t(2) by (auto simp: createRoot_def split: prod.splits sum.splits)
  ultimately show ?thesis using t(3) by (auto simp: verifyFresh_Inr)
qed

definition rootWorld :: world where
  "rootWorld = \<lparr>wdExec = (\<lambda>h gp env stdin args. (demoHost demoRoot, ProcOk (demoRoot @ [newline]))),
     wdMkdirTemp = (\<lambda>h n. Inr ''/tmp/x''), wdMkdir = (\<lambda>h p. (demoHost demoRoot, Inr ()))\<rparr>"

lemma bootstrap_creates_and_verifies_witness:
  "\<exists>h'. initializeBareRoot rootWorld ''/l'' [] [(''config/genesis/root.json'', ''{}'')] (demoHost demoRoot) = (h', Inr demoRoot) \<and>
     validateBootstrapPath ''config/genesis/root.json'' = Inr ()"
proof -
  have "snd (initializeBareRoot rootWorld ''/l'' [] [(''config/genesis/root.json'', ''{}'')] (demoHost demoRoot)) = Inr demoRoot"
    by code_simp
  then obtain h' where i: "initializeBareRoot rootWorld ''/l'' [] [(''config/genesis/root.json'', ''{}'')] (demoHost demoRoot) = (h', Inr demoRoot)"
    by (metis prod.collapse)
  from bootstrap_creates_and_verifies [OF i] i show ?thesis by auto
qed

end
