(* ===== verification/Ledger_Config.thy ===== *)
theory Ledger_Config
  imports Git_Reader Canonical Go_Std Actor_Auth Reducer
begin

text \<open>
  The configuration a ledger carries: internal/schema (the registry of JSON schemas and its cache of
  compiled schemas), internal/genesis (the Genesis root record and the adoption record) and
  internal/policy (the reducer bindings read from a commit). The JSON Schema library is a parameter:
  adding a resource to a compiler, compiling a schema from the added resources, validating a value.
\<close>

section \<open>Schema registry\<close>

record 'sch schemaLib =
  slAddResource :: "string \<Rightarrow> json \<Rightarrow> unit res"
  slCompile :: "(string, json) gomap \<Rightarrow> string \<Rightarrow> 'sch res"
  slValidate :: "'sch \<Rightarrow> json \<Rightarrow> unit res"

definition draft2020URL :: string where
  "draft2020URL = ''https://json-schema.org/draft/2020-12/schema''"

record 'sch schemaRegistry =
  srResources :: "(string, json) gomap"
  srCompiled :: "(string, 'sch) gomap"

definition newRegistry :: "'sch schemaRegistry" where
  "newRegistry = \<lparr>srResources = [], srCompiled = []\<rparr>"

text \<open>\<open>obj[key].(string)\<close> with the empty string when the assertion fails.\<close>

definition memberString :: "(string \<times> json) list \<Rightarrow> string \<Rightarrow> string" where
  "memberString obj key = (case mget obj key of Some (JStr s) \<Rightarrow> s | _ \<Rightarrow> [])"

definition registryAdd :: "'sch schemaRegistry \<Rightarrow> string \<Rightarrow> string \<Rightarrow> 'sch schemaRegistry res" where
  "registryAdd reg ident raw =
    (if ident = [] then Inl (Errorf ''schema id is required'' []) else
     andThen (strictDecode raw) (\<lambda>v.
     case v of
       JObj obj \<Rightarrow>
         if memberString obj ''$schema'' \<noteq> draft2020URL then Inl (Errorf ''SCHEMA_INVALID: must declare the draft'' [])
         else if memberString obj ''$id'' \<noteq> ident then Inl (Errorf ''SCHEMA_INVALID: $id does not match registered id'' [])
         else if mhas (srResources reg) ident then Inl (Errorf ''schema already registered'' [])
         else Inr \<lparr>srResources = mput ident v (srResources reg), srCompiled = mdel ident (srCompiled reg)\<rparr>
     | _ \<Rightarrow> Inl (Errorf ''schema root must be an object'' [])))"

text \<open>\<open>cloneResources\<close> copies the map; the compiler sees the copy.\<close>

definition cloneResources :: "(string, json) gomap \<Rightarrow> (string, json) gomap" where
  "cloneResources src = fold (\<lambda>(k, v) dst. mput k v dst) src []"

definition registryCompile :: "'sch schemaLib \<Rightarrow> 'sch schemaRegistry \<Rightarrow> string \<Rightarrow> ('sch schemaRegistry \<times> 'sch) res" where
  "registryCompile lib reg ident =
    (case mget (srCompiled reg) ident of
       Some sch \<Rightarrow> Inr (reg, sch)
     | None \<Rightarrow>
       let resources = cloneResources (srResources reg) in
       if \<not> mhas resources ident then Inl (Errorf ''UNKNOWN_SCHEMA'' [])
       else andThen (checkAll (\<lambda>(rid, doc). wrapw ''add local schema resource'' (slAddResource lib rid doc)) resources) (\<lambda>_.
         andThen (wrapw ''SCHEMA_INVALID: compile'' (slCompile lib resources ident)) (\<lambda>sch.
         Inr (reg\<lparr>srCompiled := mput ident sch (srCompiled reg)\<rparr>, sch))))"

definition registryValidate :: "'sch schemaLib \<Rightarrow> 'sch schemaRegistry \<Rightarrow> string \<Rightarrow> string \<Rightarrow> 'sch schemaRegistry res" where
  "registryValidate lib reg ident raw =
    andThen (strictDecode raw) (\<lambda>v.
    andThen (registryCompile lib reg ident) (\<lambda>(reg', sch).
    andThen (wrapw ''SCHEMA_VALIDATION_FAILED'' (slValidate lib sch v)) (\<lambda>_. Inr reg')))"

section \<open>Genesis\<close>

definition genesisPrefix :: string where "genesisPrefix = ''config/genesis''"
definition genesisPath :: string where "genesisPath = genesisPrefix @ ''/root.json''"

text \<open>\<open>initial_schemas\<close> may be a nil slice, which is marshalled as \<open>null\<close>.\<close>

record genesisRoot =
  grProjectID :: string
  grLedgerID :: string
  grCreatedAt :: string
  grInitialAuthorityPolicy :: string
  grInitialSchemas :: "string list option"
  grInitialAuthorities :: "string list option"
  grContentSHA256 :: string

definition sliceOf :: "'a list option \<Rightarrow> 'a list" where
  "sliceOf s = (case s of None \<Rightarrow> [] | Some xs \<Rightarrow> xs)"

definition decSlice :: "json list \<Rightarrow> string list option res" where
  "decSlice vs = andThen (decStrings vs) (\<lambda>ss. Inr (if vs = [] \<or> List.last vs = JNull then None else Some ss))"

definition genesisFields :: "string list" where
  "genesisFields = [''project_id'', ''ledger_id'', ''created_at'', ''initial_authority_policy'', ''initial_schemas'',
     ''initial_authorities'', ''content_sha256'']"

definition decGenesis :: "string \<Rightarrow> genesisRoot res" where
  "decGenesis raw =
    andThen (topMembersDec raw) (\<lambda>ms.
    andThen (require (knownFields genesisFields ms) errUnmarshal) (\<lambda>_.
    let f = fieldValues genesisFields ms in
    andThen (decString (f ''project_id'')) (\<lambda>p.
    andThen (decString (f ''ledger_id'')) (\<lambda>l.
    andThen (decString (f ''created_at'')) (\<lambda>c.
    andThen (decString (f ''initial_authority_policy'')) (\<lambda>a.
    andThen (decSlice (f ''initial_schemas'')) (\<lambda>s.
    andThen (decSlice (f ''initial_authorities'')) (\<lambda>i.
    andThen (decString (f ''content_sha256'')) (\<lambda>d.
      Inr \<lparr>grProjectID = p, grLedgerID = l, grCreatedAt = c, grInitialAuthorityPolicy = a, grInitialSchemas = s,
           grInitialAuthorities = i, grContentSHA256 = d\<rparr>)))))))))"

fun noEmptyOrRepeated :: "string option \<Rightarrow> string list \<Rightarrow> unit res" where
  "noEmptyOrRepeated prev [] = Inr ()"
| "noEmptyOrRepeated prev (v # vs) =
    (if v = [] then Inl (Errorf ''values must not be empty'' [])
     else if prev = Some v then Inl (Errorf ''duplicate value'' [])
     else noEmptyOrRepeated (Some v) vs)"

definition sortedUnique :: "string list \<Rightarrow> unit res" where
  "sortedUnique values =
    (if \<not> sorted values then Inl (Errorf ''values must be lexicographically sorted'' []) else noEmptyOrRepeated None values)"

definition genesisErr :: "string \<Rightarrow> goerr" where
  "genesisErr msg = Errorf (''GENESIS_INVALID: '' @ msg) []"

definition genesisValidate :: "(string \<Rightarrow> string res) \<Rightarrow> string \<Rightarrow> genesisRoot res" where
  "genesisValidate jcs raw =
    andThen (strictValidate raw) (\<lambda>_.
    andThen (canonicalize jcs raw) (\<lambda>canonical.
    if raw \<noteq> canonical then Inl (genesisErr ''record must be RFC 8785 canonical JSON'') else
    andThen (wrapw ''GENESIS_INVALID'' (digestVerify jcs raw)) (\<lambda>_.
    andThen (wrapw ''GENESIS_INVALID: decode'' (decGenesis raw)) (\<lambda>root.
    if grProjectID root = [] \<or> grLedgerID root = [] \<or> grInitialAuthorityPolicy root = [] \<or> sliceOf (grInitialAuthorities root) = []
    then Inl (genesisErr ''project_id, ledger_id, initial_authority_policy and initial_authorities are required'') else
    andThen (wrapw ''GENESIS_INVALID: created_at'' (parseTime (grCreatedAt root))) (\<lambda>_.
    andThen (wrapw ''GENESIS_INVALID: initial_schemas'' (sortedUnique (sliceOf (grInitialSchemas root)))) (\<lambda>_.
    andThen (wrapw ''GENESIS_INVALID: initial_authorities'' (sortedUnique (sliceOf (grInitialAuthorities root)))) (\<lambda>_.
    Inr root)))))))"

record adoption =
  adProjectID :: string
  adLedgerID :: string
  adPreAdoptionHead :: string
  adAuthorityPolicy :: string
  adAuthority :: string
  adContractVersion :: string
  adAdoptedAt :: string
  adContentSHA256 :: string

definition adoptionFields :: "string list" where
  "adoptionFields = [''project_id'', ''ledger_id'', ''pre_adoption_ledger_head'', ''authority_policy'',
     ''adoption_authority'', ''genesis_contract_version'', ''adopted_at'', ''content_sha256'']"

definition decAdoption :: "string \<Rightarrow> adoption res" where
  "decAdoption raw =
    andThen (topMembersDec raw) (\<lambda>ms.
    andThen (require (knownFields adoptionFields ms) errUnmarshal) (\<lambda>_.
    let f = fieldValues adoptionFields ms in
    andThen (decString (f ''project_id'')) (\<lambda>p.
    andThen (decString (f ''ledger_id'')) (\<lambda>l.
    andThen (decString (f ''pre_adoption_ledger_head'')) (\<lambda>h.
    andThen (decString (f ''authority_policy'')) (\<lambda>a.
    andThen (decString (f ''adoption_authority'')) (\<lambda>u.
    andThen (decString (f ''genesis_contract_version'')) (\<lambda>v.
    andThen (decString (f ''adopted_at'')) (\<lambda>t.
    andThen (decString (f ''content_sha256'')) (\<lambda>d.
      Inr \<lparr>adProjectID = p, adLedgerID = l, adPreAdoptionHead = h, adAuthorityPolicy = a, adAuthority = u,
           adContractVersion = v, adAdoptedAt = t, adContentSHA256 = d\<rparr>))))))))))"

definition fullGitObjectID :: "string \<Rightarrow> bool" where
  "fullGitObjectID v = ((length v = 40 \<or> length v = 64) \<and> list_all isHexChar v)"

definition adoptionErr :: "string \<Rightarrow> goerr" where
  "adoptionErr msg = Errorf (''GENESIS_ADOPTION_INVALID: '' @ msg) []"

definition validateAdoption :: "(string \<Rightarrow> string res) \<Rightarrow> string \<Rightarrow> adoption res" where
  "validateAdoption jcs raw =
    andThen (strictValidate raw) (\<lambda>_.
    andThen (canonicalize jcs raw) (\<lambda>canonical.
    if raw \<noteq> canonical then Inl (adoptionErr ''record must be RFC 8785 canonical JSON'') else
    andThen (wrapw ''GENESIS_ADOPTION_INVALID'' (digestVerify jcs raw)) (\<lambda>_.
    andThen (wrapw ''GENESIS_ADOPTION_INVALID: decode'' (decAdoption raw)) (\<lambda>ad.
    if adProjectID ad = [] \<or> adLedgerID ad = [] \<or> adAuthorityPolicy ad = [] \<or> adAuthority ad = [] \<or> adContractVersion ad = []
    then Inl (adoptionErr ''required fields'')
    else if \<not> fullGitObjectID (adPreAdoptionHead ad) then Inl (adoptionErr ''pre_adoption_ledger_head'')
    else andThen (wrapw ''GENESIS_ADOPTION_INVALID: adopted_at'' (parseTime (adAdoptedAt ad))) (\<lambda>_. Inr ad)))))"

section \<open>Reducer bindings\<close>

definition reducerBindingSchemaV1 :: string where
  "reducerBindingSchemaV1 = ''urn:threadkeeper:schema:reducer-binding:v1''"
definition exclusiveRecordEventSchemaV1 :: string where
  "exclusiveRecordEventSchemaV1 = ''urn:threadkeeper:schema:exclusive-governed-record-event:v1''"

definition reducerBindingPrefix :: string where
  "reducerBindingPrefix = ''config/authority/reducer-bindings''"

record reducerBinding =
  rbSchemaVersion :: string
  rbBindingID :: string
  rbRecordKind :: string
  rbStateModel :: string
  rbEventSchema :: string
  rbAuthorityPolicyVersion :: string
  rbContentSHA256 :: string

record bindingSnapshot =
  bsByRecordKind :: "(string, reducerBinding) gomap"
  bsByBindingID :: "(string, reducerBinding) gomap"

definition bindingFields :: "string list" where
  "bindingFields = [''schema_version'', ''binding_id'', ''record_kind'', ''state_model'', ''event_schema'',
     ''authority_policy_version'', ''content_sha256'']"

definition decBinding :: "string \<Rightarrow> reducerBinding res" where
  "decBinding raw =
    andThen (topMembers raw) (\<lambda>ms.
    let f = fieldValues bindingFields ms in
    andThen (decString (f ''schema_version'')) (\<lambda>s.
    andThen (decString (f ''binding_id'')) (\<lambda>b.
    andThen (decString (f ''record_kind'')) (\<lambda>k.
    andThen (decString (f ''state_model'')) (\<lambda>m.
    andThen (decString (f ''event_schema'')) (\<lambda>e.
    andThen (decString (f ''authority_policy_version'')) (\<lambda>a.
    andThen (decString (f ''content_sha256'')) (\<lambda>d.
      Inr \<lparr>rbSchemaVersion = s, rbBindingID = b, rbRecordKind = k, rbStateModel = m, rbEventSchema = e,
           rbAuthorityPolicyVersion = a, rbContentSHA256 = d\<rparr>))))))))"

text \<open>One round of the loop over the binding files; the registry is threaded for its cache.\<close>

definition loadBinding ::
  "(string \<Rightarrow> string res) \<Rightarrow> 'sch schemaLib \<Rightarrow> 'sch schemaRegistry \<times> bindingSnapshot \<Rightarrow> string
     \<Rightarrow> ('sch schemaRegistry \<times> bindingSnapshot) res" where
  "loadBinding jcs lib st raw =
    (case st of (reg, snapshot) \<Rightarrow>
     andThen (wrapw ''reducer binding'' (strictValidate raw)) (\<lambda>_.
     andThen (wrapw ''reducer binding canonicalization'' (canonicalize jcs raw)) (\<lambda>canonical.
     if raw \<noteq> canonical then Inl (integrity ''reducer binding is not stored as RFC 8785 canonical JSON'') else
     andThen (wrapw ''reducer binding'' (digestVerify jcs raw)) (\<lambda>_.
     andThen (wrapw ''reducer binding decode'' (decBinding raw)) (\<lambda>binding.
     if rbSchemaVersion binding \<noteq> reducerBindingSchemaV1 then Inl (Errorf ''UNKNOWN_SCHEMA: reducer binding'' []) else
     andThen (wrapw ''reducer binding'' (registryValidate lib reg (rbSchemaVersion binding) raw)) (\<lambda>reg1.
     if rbStateModel binding \<noteq> modelExclusiveV1 then Inl (Errorf ''UNKNOWN_REDUCER_MODEL'' [])
     else if rbEventSchema binding \<noteq> exclusiveRecordEventSchemaV1 then Inl (Errorf ''REDUCER_EVENT_SCHEMA_MISMATCH'' []) else
     andThen (wrapw ''reducer binding event schema'' (registryCompile lib reg1 (rbEventSchema binding))) (\<lambda>(reg2, _).
     if mhas (bsByBindingID snapshot) (rbBindingID binding) then Inl (integrity ''duplicate reducer binding_id'')
     else if mhas (bsByRecordKind snapshot) (rbRecordKind binding) then Inl (integrity ''record_kind has multiple reducer bindings'')
     else Inr (reg2, snapshot\<lparr>bsByBindingID := mput (rbBindingID binding) binding (bsByBindingID snapshot),
                              bsByRecordKind := mput (rbRecordKind binding) binding (bsByRecordKind snapshot)\<rparr>))))))))"

definition loadReducerBindingsAt ::
  "(string \<Rightarrow> string res) \<Rightarrow> 'sch schemaLib \<Rightarrow> host \<Rightarrow> reader \<Rightarrow> 'sch schemaRegistry \<Rightarrow> string
     \<Rightarrow> ('sch schemaRegistry \<times> bindingSnapshot) res" where
  "loadReducerBindingsAt jcs lib h r reg commit =
    andThen (listJSON h r commit reducerBindingPrefix) (\<lambda>paths.
    foldM (\<lambda>st path. andThen (readFileAt h r commit path) (loadBinding jcs lib st))
      (reg, \<lparr>bsByRecordKind = [], bsByBindingID = []\<rparr>) paths)"

definition snapshotBindings :: "bindingSnapshot \<Rightarrow> bindings" where
  "snapshotBindings s = map (\<lambda>(kind, b). (kind, rbStateModel b)) (bsByRecordKind s)"

section \<open>Genesis roots\<close>

definition strictlySorted :: "string list \<Rightarrow> bool" where
  "strictlySorted xs = (sorted xs \<and> distinct xs \<and> [] \<notin> set xs)"

lemma noEmptyOrRepeated_iff:
  "sorted xs \<Longrightarrow> noEmptyOrRepeated prev xs = Inr () \<longleftrightarrow>
     [] \<notin> set xs \<and> distinct_adj xs \<and> (case xs of [] \<Rightarrow> True | x # _ \<Rightarrow> prev \<noteq> Some x)"
proof (induction xs arbitrary: prev)
  case (Cons x xs)
  then show ?case by (cases xs) auto
qed simp

lemma sortedUnique_iff: "sortedUnique xs = Inr () \<longleftrightarrow> strictlySorted xs"
  by (auto simp: sortedUnique_def strictlySorted_def noEmptyOrRepeated_iff sorted_distinct_adj split: list.splits)

definition goodRoot :: "genesisRoot \<Rightarrow> bool" where
  "goodRoot root = (grProjectID root \<noteq> [] \<and> grLedgerID root \<noteq> [] \<and> grInitialAuthorityPolicy root \<noteq> [] \<and>
     timeParse (grCreatedAt root) \<noteq> None \<and> strictlySorted (sliceOf (grInitialSchemas root)) \<and>
     sliceOf (grInitialAuthorities root) \<noteq> [] \<and> strictlySorted (sliceOf (grInitialAuthorities root)))"

lemma genesisValidate_iff:
  "genesisValidate jcs raw = Inr root \<longleftrightarrow>
     canonicalize jcs raw = Inr raw \<and> digestVerify jcs raw = Inr () \<and> decGenesis raw = Inr root \<and> goodRoot root"
proof
  assume "genesisValidate jcs raw = Inr root"
  then show "canonicalize jcs raw = Inr raw \<and> digestVerify jcs raw = Inr () \<and> decGenesis raw = Inr root \<and> goodRoot root"
    by (auto simp: genesisValidate_def res_simps sortedUnique_iff goodRoot_def parseTime_def split: option.splits)
next
  assume a: "canonicalize jcs raw = Inr raw \<and> digestVerify jcs raw = Inr () \<and> decGenesis raw = Inr root \<and> goodRoot root"
  then have "strictValidate raw = Inr ()" by (auto simp: canonicalize_Inr_iff strictValidate_iff)
  with a show "genesisValidate jcs raw = Inr root"
    by (auto simp: genesisValidate_def goodRoot_def parseTime_def iffD2 [OF sortedUnique_iff] split: option.splits)
qed

end
