(* ===== verification/Replay.thy ===== *)
theory Replay
  imports Ledger_Config
begin

text \<open>
  internal/ledger, read side: replay.go (the full validation of an authoritative history), namespace.go,
  actor\_policy.go and recovery\_proof.go. A \<open>deps\<close> value collects the third-party parameters: the JCS
  transform and the JSON Schema library.
\<close>

record 'sch deps =
  dpJcs :: "string \<Rightarrow> string res"
  dpSchema :: "'sch schemaLib"

section \<open>The path namespace of a ledger\<close>

definition schemaPrefix :: string where "schemaPrefix = ''config/schemas''"

definition validateVersionedJSONLedgerPath :: "string \<Rightarrow> string \<Rightarrow> unit res" where
  "validateVersionedJSONLedgerPath path prefix =
    (if \<not> hasPrefix path (prefix @ ''/'') \<or> \<not> hasSuffix path ''.json'' \<or> path \<noteq> pathClean path \<or>
        containsStr path [backslash] \<or> containsAny path lineBreaks
     then Inl (integrity ''invalid Core v1 ledger path'')
     else if \<not> safeParts path then Inl (integrity ''invalid Core v1 ledger path'') else Inr ())"

definition validateAuthoritativeLedgerPath :: "string \<Rightarrow> unit res" where
  "validateAuthoritativeLedgerPath path =
    (if path = genesisPath \<or> path = ledgerPolicyPath then Inr ()
     else if hasPrefix path (schemaPrefix @ ''/'') then validateVersionedJSONLedgerPath path schemaPrefix
     else if hasPrefix path (reducerBindingPrefix @ ''/'') then validateVersionedJSONLedgerPath path reducerBindingPrefix
     else if hasPrefix path ''events/'' then
       (if \<not> hasSuffix path ''.json'' then Inl (integrity ''durable event file is not JSON'')
        else wrapw ''INTEGRITY_FAILURE: invalid Core v1 event path'' (validateEventPath path))
     else Inl (integrity ''unrecognized Core v1 ledger path''))"

definition validateAuthoritativeLedgerNamespace :: "host \<Rightarrow> reader \<Rightarrow> commit list \<Rightarrow> unit res" where
  "validateAuthoritativeLedgerNamespace h r history =
    checkAll (\<lambda>c. andThen (commitTreeChanges h r (cmID c)) (\<lambda>changes.
      checkAll (\<lambda>change. wrapw ''at commit status'' (validateAuthoritativeLedgerPath (tcPath change))) changes)) history"

section \<open>Schemas and Genesis of a history\<close>

definition schemaID :: "string \<Rightarrow> string res" where
  "schemaID raw =
    andThen (wrapw ''schema'' (strictDecode raw)) (\<lambda>v.
    case v of
      JObj obj \<Rightarrow> let i = memberString obj ''$id'' in
        if i = [] then Inl (Errorf ''SCHEMA_INVALID: schema has no $id'' []) else Inr i
    | _ \<Rightarrow> Inl (Errorf ''SCHEMA_INVALID: schema root must be object'' []))"

definition schemaIDsAt :: "host \<Rightarrow> reader \<Rightarrow> string \<Rightarrow> string list res" where
  "schemaIDsAt h r commit =
    andThen (listJSON h r commit schemaPrefix) (\<lambda>paths.
    andThen (mapM (\<lambda>path. andThen (readFileAt h r commit path) schemaID) paths) (\<lambda>ids.
    Inr (sort ids)))"

definition loadSchemasAt :: "host \<Rightarrow> reader \<Rightarrow> string \<Rightarrow> 'sch schemaRegistry res" where
  "loadSchemasAt h r commit =
    andThen (listJSON h r commit schemaPrefix) (\<lambda>paths.
    if paths = [] then Inl (Errorf ''UNKNOWN_SCHEMA: no accepted schemas at commit'' []) else
    foldM (\<lambda>reg path. andThen (readFileAt h r commit path) (\<lambda>raw. andThen (schemaID raw) (\<lambda>i.
      wrapw ''schema'' (registryAdd reg i raw)))) newRegistry paths)"

text \<open>The checks that a later commit adds nothing below a prefix.\<close>

definition nothingLater :: "string \<Rightarrow> host \<Rightarrow> reader \<Rightarrow> string \<Rightarrow> commit list \<Rightarrow> unit res" where
  "nothingLater msg h r prefix commits =
    checkAll (\<lambda>c. andThen (wrapw msg (immutableJSONAdditions h r (cmID c) prefix)) (\<lambda>added.
      if added \<noteq> [] then Inl (Errorf msg []) else Inr ())) commits"

definition validateInitialActorPolicyHistory ::
  "(string \<Rightarrow> string res) \<Rightarrow> host \<Rightarrow> reader \<Rightarrow> commit list \<Rightarrow> genesisRoot \<Rightarrow> policyDocument res" where
  "validateInitialActorPolicyHistory jcs h r history root =
    (case history of
       [] \<Rightarrow> Inl (policyErr ''authoritative history is empty'')
     | rootCommit # later \<Rightarrow>
       andThen (wrapw ''AUTH_POLICY_INVALID: root actor-policy tree''
          (immutableJSONAdditions h r (cmID rootCommit) ledgerPolicyPrefix)) (\<lambda>changes.
       if changes \<noteq> [ledgerPolicyPath] then Inl (policyErr ''Genesis commit must add exactly the root policy'') else
       andThen (wrapw ''AUTH_POLICY_INVALID: read root actor policy'' (readRegularFile h r (cmID rootCommit) ledgerPolicyPath)) (\<lambda>raw.
       andThen (parsePolicyDocument jcs raw (grLedgerID root) (grInitialAuthorityPolicy root)) (\<lambda>(doc, _).
       andThen (validateInitialAuthorities doc (sliceOf (grInitialAuthorities root))) (\<lambda>_.
       andThen (nothingLater ''AUTH_POLICY_IMMUTABLE'' h r ledgerPolicyPrefix later) (\<lambda>_. Inr doc))))))"

definition validateGenesisHistory ::
  "(string \<Rightarrow> string res) \<Rightarrow> host \<Rightarrow> reader \<Rightarrow> commit list \<Rightarrow> (genesisRoot \<times> string \<times> policyDocument) res" where
  "validateGenesisHistory jcs h r history =
    (case history of
       [] \<Rightarrow> Inl (genesisErr ''authoritative ledger has no root commit'')
     | c # later \<Rightarrow>
       let rootCommit = cmID c in
       andThen (wrapw ''GENESIS_INVALID: root Genesis tree'' (immutableJSONAdditions h r rootCommit genesisPrefix)) (\<lambda>changes.
       if changes \<noteq> [genesisPath] then Inl (genesisErr ''root commit must add exactly the Genesis record'') else
       andThen (wrapw ''GENESIS_ROOT_INVALID: inspect root events'' (eventAdditions h r rootCommit)) (\<lambda>rootEvents.
       if rootEvents \<noteq> [] then Inl (Errorf ''GENESIS_ROOT_INVALID: root commit must not contain durable events'' []) else
       andThen (wrapw ''GENESIS_INVALID: read root record'' (readRegularFile h r rootCommit genesisPath)) (\<lambda>raw.
       andThen (wrapw ''GENESIS_INVALID: root record'' (genesisValidate jcs raw)) (\<lambda>root.
       andThen (wrapw ''GENESIS_INVALID: inspect initial schemas'' (schemaIDsAt h r rootCommit)) (\<lambda>actual.
       if actual \<noteq> sliceOf (grInitialSchemas root) then Inl (Errorf ''GENESIS_SCHEMA_MISMATCH'' []) else
       andThen (validateInitialActorPolicyHistory jcs h r history root) (\<lambda>doc.
       andThen (nothingLater ''GENESIS_IMMUTABLE'' h r genesisPrefix later) (\<lambda>_.
       Inr (root, rootCommit, doc)))))))))"

section \<open>Events\<close>

record replayEntry =
  reSequence :: nat
  reAcceptedCommit :: string
  rePath :: string
  reEventID :: string
  reEventType :: string
  reSchemaVersion :: string
  reContentSHA256 :: string
  reTargetCount :: nat

record eventDocument =
  edSchemaVersion :: string
  edEventID :: string
  edEventType :: string
  edExpectedLedgerCommit :: string
  edAuthorityPolicyVersion :: string
  edTargets :: "string list"
  edRecordKind :: string
  edValue :: string
  edPriorState :: string
  edResultingState :: string
  edIdempotencyKey :: string

record validatedEvent =
  veEntry :: replayEntry
  veDocument :: eventDocument

definition eventFields :: "string list" where
  "eventFields = [''schema_version'', ''event_id'', ''event_type'', ''expected_ledger_commit'',
     ''authority_policy_version'', ''targets'', ''record_kind'', ''value'', ''prior_state'', ''resulting_state'',
     ''idempotency_key'']"

text \<open>A \<open>json.RawMessage\<close> field keeps the text of the last member decoded into it.\<close>

definition lastOr :: "'a \<Rightarrow> 'a list \<Rightarrow> 'a" where
  "lastOr d xs = (if xs = [] then d else List.last xs)"

definition rawField :: "string list \<Rightarrow> string \<Rightarrow> string \<Rightarrow> string" where
  "rawField names raw name =
    (case rawMembers raw of None \<Rightarrow> [] | Some ms \<Rightarrow> lastOr [] (fieldValues names ms name))"

definition decEvent :: "string \<Rightarrow> eventDocument res" where
  "decEvent raw =
    andThen (topMembers raw) (\<lambda>ms.
    let f = fieldValues eventFields ms in
    andThen (decString (f ''schema_version'')) (\<lambda>sv.
    andThen (decString (f ''event_id'')) (\<lambda>i.
    andThen (decString (f ''event_type'')) (\<lambda>t.
    andThen (decString (f ''expected_ledger_commit'')) (\<lambda>x.
    andThen (decString (f ''authority_policy_version'')) (\<lambda>a.
    andThen (decStrings (f ''targets'')) (\<lambda>ts.
    andThen (decString (f ''record_kind'')) (\<lambda>k.
    andThen (decString (f ''idempotency_key'')) (\<lambda>ik.
      Inr \<lparr>edSchemaVersion = sv, edEventID = i, edEventType = t, edExpectedLedgerCommit = x,
           edAuthorityPolicyVersion = a, edTargets = ts, edRecordKind = k,
           edValue = rawField eventFields raw ''value'', edPriorState = rawField eventFields raw ''prior_state'',
           edResultingState = rawField eventFields raw ''resulting_state'', edIdempotencyKey = ik\<rparr>)))))))))"

definition validateEventBytes ::
  "'sch deps \<Rightarrow> 'sch schemaRegistry \<Rightarrow> eventAddition \<Rightarrow> string \<Rightarrow> ('sch schemaRegistry \<times> validatedEvent) res" where
  "validateEventBytes d reg addition raw =
    andThen (wrapw ''event'' (strictValidate raw)) (\<lambda>_.
    andThen (wrapw ''event canonicalization'' (canonicalize (dpJcs d) raw)) (\<lambda>canonical.
    if raw \<noteq> canonical then Inl (integrity ''event is not stored as RFC 8785 canonical JSON'') else
    andThen (wrapw ''event'' (digestVerify (dpJcs d) raw)) (\<lambda>_.
    andThen (wrapw ''event decode'' (decEvent raw)) (\<lambda>doc.
    if edSchemaVersion doc = [] then Inl (Errorf ''UNKNOWN_SCHEMA: event has no schema_version'' []) else
    andThen (wrapw ''event'' (registryValidate (dpSchema d) reg (edSchemaVersion doc) raw)) (\<lambda>reg'.
    andThen (strictDecode raw) (\<lambda>v.
    case v of
      JObj obj \<Rightarrow>
        let contentSHA = memberString obj digestField in
        if edEventID doc = [] \<or> edEventType doc = [] \<or> contentSHA = []
        then Inl (integrity ''event lacks replay identity fields'')
        else Inr (reg', \<lparr>veEntry = \<lparr>reSequence = 0, reAcceptedCommit = eaCommit addition, rePath = eaPath addition,
               reEventID = edEventID doc, reEventType = edEventType doc, reSchemaVersion = edSchemaVersion doc,
               reContentSHA256 = contentSHA, reTargetCount = length (edTargets doc)\<rparr>, veDocument = doc\<rparr>)
    | _ \<Rightarrow> Inl (Errorf ''event root must be object'' [])))))))"

definition validateEvent ::
  "'sch deps \<Rightarrow> host \<Rightarrow> reader \<Rightarrow> 'sch schemaRegistry \<Rightarrow> eventAddition \<Rightarrow> ('sch schemaRegistry \<times> validatedEvent) res" where
  "validateEvent d h r reg addition =
    andThen (readFileAt h r (eaCommit addition) (eaPath addition)) (validateEventBytes d reg addition)"

definition reducerEvent :: "eventDocument \<Rightarrow> event" where
  "reducerEvent doc = \<lparr>evEventID = edEventID doc, evEventType = edEventType doc, evTargets = edTargets doc,
     evRecordKind = edRecordKind doc, evValue = edValue doc, evPriorState = edPriorState doc,
     evResultingState = edResultingState doc\<rparr>"

definition applyGovernedRecordEvent ::
  "(string \<Rightarrow> string res) \<Rightarrow> projection \<Rightarrow> bindingSnapshot \<Rightarrow> genesisRoot \<Rightarrow> commit \<Rightarrow> validatedEvent \<Rightarrow> projection res" where
  "applyGovernedRecordEvent jcs current snapshot root commit validated =
    (let doc = veDocument validated in
     case mget (bsByRecordKind snapshot) (edRecordKind doc) of
       None \<Rightarrow> Inl (Errorf ''record_kind'' [errPolicyUnbound])
     | Some binding \<Rightarrow>
       if reSchemaVersion (veEntry validated) \<noteq> rbEventSchema binding then Inl (Errorf ''REDUCER_EVENT_SCHEMA_MISMATCH'' [])
       else if edAuthorityPolicyVersion doc \<noteq> rbAuthorityPolicyVersion binding then Inl (Errorf ''AUTHORITY_POLICY_VERSION_MISMATCH'' [])
       else if cmParent commit = [] then Inl (Errorf ''EXPECTED_LEDGER_COMMIT_MISMATCH: root commit'' [])
       else if edExpectedLedgerCommit doc \<noteq> cmParent commit then Inl (Errorf ''EXPECTED_LEDGER_COMMIT_MISMATCH'' [])
       else andThen (if edRecordKind doc = policyRecordKind \<and> (edEventType doc = eventCreated \<or> edEventType doc = eventReplaced)
            then andThen (parsePolicyDocument jcs (edValue doc) (grLedgerID root) (rbAuthorityPolicyVersion binding)) (\<lambda>_. Inr ())
            else Inr ()) (\<lambda>_.
         reducerApply jcs current (snapshotBindings snapshot) (reducerEvent doc)))"

section \<open>Replay\<close>

record manifest =
  mfLedgerCommit :: string
  mfAuthoritativeRef :: string
  mfGitObjectFormat :: string
  mfBareRepository :: bool
  mfGenesisCommit :: string
  mfGenesisRoot :: genesisRoot
  mfActorPolicyVersion :: string
  mfActorPolicyRootSHA256 :: string
  mfHistoryCommitCount :: nat
  mfEventCount :: nat
  mfReducerBindingCount :: nat
  mfGovernedRecordCount :: nat
  mfGovernedRecordsSHA256 :: string
  mfGovernedRecords :: projection
  mfReplaySHA256 :: string
  mfEvents :: "replayEntry list"

text \<open>The variables of the replay loop.\<close>

record replayState =
  rpEvents :: "replayEntry list"
  rpSeenEventIDs :: "(string, replayEntry) gomap"
  rpSeenKeys :: "(string, replayEntry) gomap"
  rpProjection :: projection
  rpBindingCount :: nat

definition replayStart :: replayState where
  "replayStart = \<lparr>rpEvents = [], rpSeenEventIDs = [], rpSeenKeys = [], rpProjection = [], rpBindingCount = 0\<rparr>"

definition replayEvent ::
  "'sch deps \<Rightarrow> bindingSnapshot \<Rightarrow> genesisRoot \<Rightarrow> commit \<Rightarrow> replayState \<Rightarrow> validatedEvent \<Rightarrow> replayState res" where
  "replayEvent d snapshot root commit st validated =
    (let entry = veEntry validated; doc = veDocument validated in
     if mhas (rpSeenEventIDs st) (reEventID entry) then Inl (integrity ''duplicate logical event_id'')
     else if edIdempotencyKey doc \<noteq> [] \<and> mhas (rpSeenKeys st) (edIdempotencyKey doc)
     then Inl (integrity ''duplicate idempotency_key'')
     else andThen (if hasPrefix (reEventType entry) ''core.record.''
          then wrapw ''event reducer'' (applyGovernedRecordEvent (dpJcs d) (rpProjection st) snapshot root commit validated)
          else Inr (rpProjection st)) (\<lambda>projection.
       let numbered = entry\<lparr>reSequence := Suc (length (rpEvents st))\<rparr> in
       Inr (st\<lparr>rpEvents := rpEvents st @ [numbered],
              rpSeenEventIDs := mput (reEventID entry) numbered (rpSeenEventIDs st),
              rpSeenKeys := (if edIdempotencyKey doc \<noteq> [] then mput (edIdempotencyKey doc) entry (rpSeenKeys st) else rpSeenKeys st),
              rpProjection := projection\<rparr>)))"

definition replayAddition ::
  "'sch deps \<Rightarrow> host \<Rightarrow> reader \<Rightarrow> bindingSnapshot \<Rightarrow> genesisRoot \<Rightarrow> commit \<Rightarrow> 'sch schemaRegistry \<times> replayState
     \<Rightarrow> eventAddition \<Rightarrow> ('sch schemaRegistry \<times> replayState) res" where
  "replayAddition d h r snapshot root commit st addition =
    (case st of (reg, rs) \<Rightarrow>
     andThen (validateEvent d h r reg addition) (\<lambda>(reg', validated).
     andThen (replayEvent d snapshot root commit rs validated) (\<lambda>rs'. Inr (reg', rs'))))"

definition replayCommit ::
  "'sch deps \<Rightarrow> host \<Rightarrow> reader \<Rightarrow> genesisRoot \<Rightarrow> string \<Rightarrow> replayState \<Rightarrow> commit \<Rightarrow> replayState res" where
  "replayCommit d h r root genesisCommit st commit =
    andThen (immutableJSONAdditions h r (cmID commit) schemaPrefix) (\<lambda>schemaChanges.
    andThen (immutableJSONAdditions h r (cmID commit) reducerBindingPrefix) (\<lambda>bindingChanges.
    andThen (eventAdditions h r (cmID commit)) (\<lambda>additions.
    if schemaChanges = [] \<and> bindingChanges = [] \<and> additions = [] then Inr st else
    andThen (wrapw ''schema snapshot'' (loadSchemasAt h r (cmID commit))) (\<lambda>registry.
    andThen (wrapw ''reducer binding snapshot'' (loadReducerBindingsAt (dpJcs d) (dpSchema d) h r registry (cmID commit))) (\<lambda>(reg1, snapshot).
    if cmID commit = genesisCommit \<and>
       list_ex (\<lambda>(_, b). rbAuthorityPolicyVersion b \<noteq> grInitialAuthorityPolicy root) (bsByBindingID snapshot)
    then Inl (Errorf ''GENESIS_POLICY_MISMATCH'' []) else
    andThen (foldM (replayAddition d h r snapshot root commit)
       (reg1, st\<lparr>rpBindingCount := length (bsByRecordKind snapshot)\<rparr>) additions) (\<lambda>(_, st'). Inr st'))))))"

definition jnat :: "nat \<Rightarrow> json" where "jnat n = JNum (natDec n)"

definition jslice :: "string list option \<Rightarrow> json" where
  "jslice s = (case s of None \<Rightarrow> JNull | Some xs \<Rightarrow> JArr (map JStr xs))"

definition genesisJson :: "genesisRoot \<Rightarrow> json" where
  "genesisJson g = JObj
    [(''project_id'', JStr (grProjectID g)), (''ledger_id'', JStr (grLedgerID g)), (''created_at'', JStr (grCreatedAt g)),
     (''initial_authority_policy'', JStr (grInitialAuthorityPolicy g)), (''initial_schemas'', jslice (grInitialSchemas g)),
     (''initial_authorities'', jslice (grInitialAuthorities g)), (''content_sha256'', JStr (grContentSHA256 g))]"

definition entryJson :: "replayEntry \<Rightarrow> json" where
  "entryJson e = JObj
    [(''sequence'', jnat (reSequence e)), (''accepted_commit'', JStr (reAcceptedCommit e)), (''path'', JStr (rePath e)),
     (''event_id'', JStr (reEventID e)), (''event_type'', JStr (reEventType e)), (''schema_version'', JStr (reSchemaVersion e)),
     (''content_sha256'', JStr (reContentSHA256 e)), (''target_count'', jnat (reTargetCount e))]"

definition replayPayload :: "manifest \<Rightarrow> json" where
  "replayPayload m = JObj
    [(''ledger_commit'', JStr (mfLedgerCommit m)), (''authoritative_ref'', JStr (mfAuthoritativeRef m)),
     (''git_object_format'', JStr (mfGitObjectFormat m)), (''genesis_commit'', JStr (mfGenesisCommit m)),
     (''genesis_root'', genesisJson (mfGenesisRoot m)), (''actor_policy_version'', JStr (mfActorPolicyVersion m)),
     (''actor_policy_root_content_sha256'', JStr (mfActorPolicyRootSHA256 m)),
     (''history_commit_count'', jnat (mfHistoryCommitCount m)), (''reducer_binding_count'', jnat (mfReducerBindingCount m)),
     (''governed_record_count'', jnat (mfGovernedRecordCount m)),
     (''governed_records_sha256'', JStr (mfGovernedRecordsSHA256 m)), (''events'', JArr (map entryJson (mfEvents m)))]"

definition replayDigest :: "(string \<Rightarrow> string res) \<Rightarrow> manifest \<Rightarrow> string res" where
  "replayDigest jcs m =
    andThen (wrapw ''canonicalize replay projection'' (canonicalize jcs (render (replayPayload m)))) (\<lambda>c. Inr (sha256Hex c))"

definition finishManifest :: "(string \<Rightarrow> string res) \<Rightarrow> manifest \<Rightarrow> replayState \<Rightarrow> manifest res" where
  "finishManifest jcs m st =
    (let m1 = m\<lparr>mfEvents := rpEvents st, mfEventCount := length (rpEvents st), mfReducerBindingCount := rpBindingCount st,
                mfGovernedRecordCount := length (rpProjection st), mfGovernedRecords := rpProjection st\<rparr> in
     andThen (canonicalProjection jcs (rpProjection st)) (\<lambda>c.
     let m2 = m1\<lparr>mfGovernedRecordsSHA256 := sha256Hex c\<rparr> in
     andThen (replayDigest jcs m2) (\<lambda>dg. Inr (m2\<lparr>mfReplaySHA256 := dg\<rparr>))))"

definition replay :: "'sch deps \<Rightarrow> host \<Rightarrow> reader \<Rightarrow> manifest res" where
  "replay d h r =
    andThen (checkHistorySafety h r) (\<lambda>_.
    andThen (readHead h r) (\<lambda>head.
    andThen (fsck h r) (\<lambda>_.
    andThen (objectFormat h r) (\<lambda>fmt.
    andThen (isBare h r) (\<lambda>bare.
    andThen (readHistory h r head) (\<lambda>history.
    andThen (validateAuthoritativeLedgerNamespace h r history) (\<lambda>_.
    andThen (validateGenesisHistory (dpJcs d) h r history) (\<lambda>(root, genesisCommit, rootPolicy).
    let m = \<lparr>mfLedgerCommit = head, mfAuthoritativeRef = rdRef r, mfGitObjectFormat = fmt, mfBareRepository = bare,
             mfGenesisCommit = genesisCommit, mfGenesisRoot = root, mfActorPolicyVersion = pdPolicyVersion rootPolicy,
             mfActorPolicyRootSHA256 = pdContentSHA256 rootPolicy, mfHistoryCommitCount = length history,
             mfEventCount = 0, mfReducerBindingCount = 0, mfGovernedRecordCount = 0, mfGovernedRecordsSHA256 = [],
             mfGovernedRecords = [], mfReplaySHA256 = [], mfEvents = []\<rparr> in
    andThen (foldM (replayCommit d h r root genesisCommit) replayStart history) (\<lambda>st.
    finishManifest (dpJcs d) m st)))))))))"

section \<open>Recovery proofs\<close>

record recoveryProof =
  rvLedgerCommit :: string
  rvAuthoritativeRef :: string
  rvGitObjectFormat :: string
  rvGenesisCommit :: string
  rvProjectID :: string
  rvLedgerID :: string
  rvGenesisSHA256 :: string
  rvActorPolicyVersion :: string
  rvActorPolicyRootSHA256 :: string
  rvHistoryCommitCount :: int
  rvEventCount :: int
  rvReducerBindingCount :: int
  rvGovernedRecordCount :: int
  rvGovernedRecordsSHA256 :: string
  rvReplaySHA256 :: string

definition proofOf :: "manifest \<Rightarrow> recoveryProof" where
  "proofOf m = \<lparr>rvLedgerCommit = mfLedgerCommit m, rvAuthoritativeRef = mfAuthoritativeRef m,
     rvGitObjectFormat = mfGitObjectFormat m, rvGenesisCommit = mfGenesisCommit m,
     rvProjectID = grProjectID (mfGenesisRoot m), rvLedgerID = grLedgerID (mfGenesisRoot m),
     rvGenesisSHA256 = grContentSHA256 (mfGenesisRoot m), rvActorPolicyVersion = mfActorPolicyVersion m,
     rvActorPolicyRootSHA256 = mfActorPolicyRootSHA256 m, rvHistoryCommitCount = int (mfHistoryCommitCount m),
     rvEventCount = int (mfEventCount m), rvReducerBindingCount = int (mfReducerBindingCount m),
     rvGovernedRecordCount = int (mfGovernedRecordCount m), rvGovernedRecordsSHA256 = mfGovernedRecordsSHA256 m,
     rvReplaySHA256 = mfReplaySHA256 m\<rparr>"

definition proveRecovery :: "'sch deps \<Rightarrow> host \<Rightarrow> reader \<Rightarrow> recoveryProof res" where
  "proveRecovery d h r = andThen (replay d h r) (\<lambda>m. Inr (proofOf m))"

definition compareRecoveryProofs :: "recoveryProof \<Rightarrow> recoveryProof \<Rightarrow> unit res" where
  "compareRecoveryProofs original restored =
    (if original \<noteq> restored then Inl (Errorf ''RECOVERY_PROOF_MISMATCH'' []) else Inr ())"

section \<open>The current actor policy\<close>

record policySnapshot =
  psLedgerCommit :: string
  psGenesisCommit :: string
  psLedgerID :: string
  psPolicyVersion :: string
  psPolicyContentSHA :: string
  psSourceEventID :: string
  psDocument :: policyDocument
  psPolicy :: authPolicy

text \<open>The governed policy record, when there is one, replaces the Genesis policy; a revoked one is an error.\<close>

definition governedPolicy ::
  "(string \<Rightarrow> string res) \<Rightarrow> manifest \<Rightarrow> policyDocument \<times> authPolicy \<Rightarrow> (policyDocument \<times> authPolicy \<times> string) res" where
  "governedPolicy jcs m root =
    (case mget (mfGovernedRecords m) policyTarget of
       None \<Rightarrow> Inr (fst root, snd root, [])
     | Some st \<Rightarrow>
       if rsRecordKind st \<noteq> policyRecordKind then Inl (policyErr ''governed target has record kind'')
       else if rsStatus st = statusRevoked then Inl (Errorf ''AUTH_POLICY_REVOKED'' [])
       else if rsStatus st \<noteq> statusActive then Inl (policyErr ''governed actor policy has status'')
       else andThen (parsePolicyDocument jcs (rsValue st) (grLedgerID (mfGenesisRoot m)) (grInitialAuthorityPolicy (mfGenesisRoot m)))
         (\<lambda>(doc, policy). Inr (doc, policy, rsCurrentEventID st)))"

definition loadCurrentActorPolicy :: "'sch deps \<Rightarrow> host \<Rightarrow> reader \<Rightarrow> policySnapshot res" where
  "loadCurrentActorPolicy d h r =
    andThen (replay d h r) (\<lambda>m.
    andThen (wrapw ''AUTH_POLICY_INVALID: read root actor policy'' (readRegularFile h r (mfGenesisCommit m) ledgerPolicyPath)) (\<lambda>raw.
    andThen (parsePolicyDocument (dpJcs d) raw (grLedgerID (mfGenesisRoot m)) (grInitialAuthorityPolicy (mfGenesisRoot m))) (\<lambda>root.
    andThen (governedPolicy (dpJcs d) m root) (\<lambda>(doc, policy, source).
      Inr \<lparr>psLedgerCommit = mfLedgerCommit m, psGenesisCommit = mfGenesisCommit m, psLedgerID = grLedgerID (mfGenesisRoot m),
           psPolicyVersion = grInitialAuthorityPolicy (mfGenesisRoot m), psPolicyContentSHA = pdContentSHA256 doc,
           psSourceEventID = source, psDocument = doc, psPolicy = policy\<rparr>))))"

end
