(* ===== verification/Replay_Log.thy ===== *)
theory Replay_Log
  imports Replay
begin

text \<open>
  What a successful replay means: a log of the accepted events, commit by commit, from which the loop
  of \<open>Replay\<close> computed the manifest; and the trust root it established.
\<close>

section \<open>The log behind a replay\<close>

text \<open>An accepted event with the commit that added it and the bindings in force there.\<close>

record acceptance =
  acCommit :: commit
  acSnapshot :: bindingSnapshot
  acEvent :: validatedEvent

definition acEntry :: "acceptance \<Rightarrow> replayEntry" where
  "acEntry a = veEntry (acEvent a)"

definition acKey :: "acceptance \<Rightarrow> string" where
  "acKey a = edIdempotencyKey (veDocument (acEvent a))"

definition isGoverned :: "acceptance \<Rightarrow> bool" where
  "isGoverned a = hasPrefix (reEventType (acEntry a)) ''core.record.''"

definition boundEvent :: "acceptance \<Rightarrow> bindings \<times> event" where
  "boundEvent a = (snapshotBindings (acSnapshot a), reducerEvent (veDocument (acEvent a)))"

text \<open>What the code requires of a governed event besides the reducer's own guards.\<close>

definition tiedToParent :: "acceptance \<Rightarrow> bool" where
  "tiedToParent a = (cmParent (acCommit a) \<noteq> [] \<and>
     edExpectedLedgerCommit (veDocument (acEvent a)) = cmParent (acCommit a) \<and>
     (\<exists>b. mget (bsByRecordKind (acSnapshot a)) (edRecordKind (veDocument (acEvent a))) = Some b \<and>
          edAuthorityPolicyVersion (veDocument (acEvent a)) = rbAuthorityPolicyVersion b \<and>
          reSchemaVersion (acEntry a) = rbEventSchema b))"

fun numberFrom :: "nat \<Rightarrow> replayEntry list \<Rightarrow> replayEntry list" where
  "numberFrom n [] = []"
| "numberFrom n (e # es) = e\<lparr>reSequence := n\<rparr> # numberFrom (Suc n) es"

definition keysOf :: "acceptance list \<Rightarrow> string list" where
  "keysOf log = filter (\<lambda>k. k \<noteq> []) (map acKey log)"

definition logged :: "(string \<Rightarrow> string res) \<Rightarrow> acceptance list \<Rightarrow> replayState \<Rightarrow> bool" where
  "logged jcs log st =
    (rpEvents st = numberFrom 1 (map acEntry log) \<and>
     fst ` set (rpSeenEventIDs st) = reEventID ` acEntry ` set log \<and>
     fst ` set (rpSeenKeys st) = set (keysOf log) \<and>
     distinct (map (reEventID \<circ> acEntry) log) \<and> distinct (keysOf log) \<and>
     replayEvents jcs (map boundEvent (filter isGoverned log)) = Inr (rpProjection st) \<and>
     (\<forall>a\<in>set log. isGoverned a \<longrightarrow> tiedToParent a))"

lemma numberFrom_append: "numberFrom n (xs @ ys) = numberFrom n xs @ numberFrom (n + length xs) ys"
  by (induction xs arbitrary: n) auto

lemma numberFrom_length [simp]: "length (numberFrom n es) = length es"
  by (induction es arbitrary: n) auto

lemma numberFrom_sequence: "map reSequence (numberFrom n es) = [n..<n + length es]"
proof (induction es arbitrary: n)
  case (Cons e es)
  have "[n..<n + length (e # es)] = n # [Suc n..<Suc n + length es]" by (subst upt_conv_Cons) simp_all
  then show ?case using Cons.IH [of "Suc n"] by simp
qed simp

lemma numberFrom_fields:
  "map rePath (numberFrom n es) = map rePath es" "map reEventID (numberFrom n es) = map reEventID es"
  "map reAcceptedCommit (numberFrom n es) = map reAcceptedCommit es"
  by (induction es arbitrary: n) auto

lemma andThen_Inr: "andThen r Inr = r"
  by (cases r) simp_all

lemma replayEvents_snoc: "replayEvents jcs (bes @ [(b, e)]) = andThen (replayEvents jcs bes) (\<lambda>p. reducerApply jcs p b e)"
  by (simp add: replayEvents_def foldM_append andThen_Inr)

lemma keysOf_snoc: "keysOf (log @ [a]) = keysOf log @ (if acKey a = [] then [] else [acKey a])"
  by (simp add: keysOf_def)

lemma governed_applied:
  assumes "applyGovernedRecordEvent jcs p snapshot root c v = Inr p'"
  shows "tiedToParent \<lparr>acCommit = c, acSnapshot = snapshot, acEvent = v\<rparr>"
    and "reducerApply jcs p (snapshotBindings snapshot) (reducerEvent (veDocument v)) = Inr p'"
  using assms
  by (auto simp: applyGovernedRecordEvent_def Let_def tiedToParent_def acEntry_def res_simps split: option.splits if_split_asm)

lemma logged_start: "logged jcs [] replayStart"
  by (simp add: logged_def replayStart_def keysOf_def replayEvents_def)

lemma replayEvent_logged:
  assumes ok: "replayEvent d snapshot root c st v = Inr st'" and l: "logged (dpJcs d) log st"
  shows "logged (dpJcs d) (log @ [\<lparr>acCommit = c, acSnapshot = snapshot, acEvent = v\<rparr>]) st'"
proof -
  define a where "a = \<lparr>acCommit = c, acSnapshot = snapshot, acEvent = v\<rparr>"
  from ok obtain p where new: "\<not> mhas (rpSeenEventIDs st) (reEventID (acEntry a))"
      "acKey a \<noteq> [] \<Longrightarrow> \<not> mhas (rpSeenKeys st) (acKey a)"
    and p: "if isGoverned a then applyGovernedRecordEvent (dpJcs d) (rpProjection st) snapshot root c v = Inr p
            else p = rpProjection st"
    and st': "st' = st\<lparr>rpEvents := rpEvents st @ [(acEntry a)\<lparr>reSequence := Suc (length (rpEvents st))\<rparr>],
       rpSeenEventIDs := mput (reEventID (acEntry a)) ((acEntry a)\<lparr>reSequence := Suc (length (rpEvents st))\<rparr>) (rpSeenEventIDs st),
       rpSeenKeys := (if acKey a \<noteq> [] then mput (acKey a) (acEntry a) (rpSeenKeys st) else rpSeenKeys st),
       rpProjection := p\<rparr>"
    by (auto simp: replayEvent_def Let_def a_def acEntry_def acKey_def isGoverned_def res_simps split: if_split_asm)
  have evs: "rpEvents st' = numberFrom 1 (map acEntry (log @ [a]))"
    using l by (simp add: st' logged_def numberFrom_append)
  have ids: "fst ` set (rpSeenEventIDs st') = reEventID ` acEntry ` set (log @ [a])"
    using l by (simp add: st' logged_def mkeys_mput)
  have keys: "fst ` set (rpSeenKeys st') = set (keysOf (log @ [a]))"
    using l by (auto simp: st' logged_def mkeys_mput keysOf_snoc)
  have d1: "distinct (map (reEventID \<circ> acEntry) (log @ [a]))"
  proof -
    have "reEventID (acEntry a) \<notin> reEventID ` acEntry ` set log"
      using l new(1) by (simp add: logged_def map_of_eq_None_iff)
    then show ?thesis using l by (simp add: logged_def image_image)
  qed
  have d2: "distinct (keysOf (log @ [a]))"
  proof -
    have "acKey a \<noteq> [] \<Longrightarrow> acKey a \<notin> set (keysOf log)"
      using l new(2) by (simp add: logged_def map_of_eq_None_iff)
    then show ?thesis using l by (simp add: logged_def keysOf_snoc)
  qed
  have g: "isGoverned a \<Longrightarrow> tiedToParent a" "isGoverned a \<Longrightarrow>
      reducerApply (dpJcs d) (rpProjection st) (snapshotBindings snapshot) (reducerEvent (veDocument v)) = Inr p"
    using p governed_applied unfolding a_def by (metis)+
  have pr: "replayEvents (dpJcs d) (map boundEvent (filter isGoverned (log @ [a]))) = Inr (rpProjection st')"
  proof (cases "isGoverned a")
    case True
    have be: "boundEvent a = (snapshotBindings snapshot, reducerEvent (veDocument v))"
      by (simp add: boundEvent_def a_def)
    show ?thesis using l True g(2) by (simp add: logged_def st' be replayEvents_snoc)
  next
    case False
    then show ?thesis using l p by (simp add: logged_def st')
  qed
  show ?thesis using evs ids keys d1 d2 pr g(1) l unfolding logged_def a_def [symmetric] by auto
qed


section \<open>Commits\<close>

text \<open>An acceptance of an event file: the file passed the validation of an event at its commit.\<close>

definition acceptedFrom :: "'sch deps \<Rightarrow> host \<Rightarrow> reader \<Rightarrow> eventAddition \<Rightarrow> acceptance \<Rightarrow> bool" where
  "acceptedFrom d h r x a = (\<exists>reg reg'. validateEvent d h r reg x = Inr (reg', acEvent a))"

text \<open>The events of a commit, each with the commit and the bindings in force there: what the repository itself says, with
  none of the checks that \<open>Replay\<close> makes across events.\<close>

fun commitAcceptances ::
  "'sch deps \<Rightarrow> host \<Rightarrow> reader \<Rightarrow> commit \<Rightarrow> bindingSnapshot \<Rightarrow> 'sch schemaRegistry \<Rightarrow> eventAddition list \<Rightarrow> acceptance list res" where
  "commitAcceptances d h r c snapshot reg [] = Inr []"
| "commitAcceptances d h r c snapshot reg (x # xs) =
    andThen (validateEvent d h r reg x) (\<lambda>(reg', v).
    andThen (commitAcceptances d h r c snapshot reg' xs) (\<lambda>log.
    Inr (\<lparr>acCommit = c, acSnapshot = snapshot, acEvent = v\<rparr> # log)))"

definition commitEvents :: "'sch deps \<Rightarrow> host \<Rightarrow> reader \<Rightarrow> commit \<Rightarrow> acceptance list res" where
  "commitEvents d h r c =
    andThen (eventAdditions h r (cmID c)) (\<lambda>additions.
    if additions = [] then Inr [] else
    andThen (loadSchemasAt h r (cmID c)) (\<lambda>registry.
    andThen (loadReducerBindingsAt (dpJcs d) (dpSchema d) h r registry (cmID c)) (\<lambda>(reg, snapshot).
    commitAcceptances d h r c snapshot reg additions)))"

text \<open>The log of a ledger: the events of all commits up to a head.\<close>

definition ledgerLog :: "'sch deps \<Rightarrow> host \<Rightarrow> reader \<Rightarrow> string \<Rightarrow> acceptance list res" where
  "ledgerLog d h r head =
    andThen (readHistory h r head) (\<lambda>history.
    andThen (mapM (commitEvents d h r) history) (\<lambda>logs. Inr (concat logs)))"

text \<open>The acceptances of a commit: one for each event file the commit adds, in the order of the listing.\<close>

definition commitLog :: "'sch deps \<Rightarrow> host \<Rightarrow> reader \<Rightarrow> commit \<Rightarrow> acceptance list \<Rightarrow> bool" where
  "commitLog d h r c log =
    (\<exists>adds. eventAdditions h r (cmID c) = Inr adds \<and> list_all2 (acceptedFrom d h r) adds log \<and>
      (\<forall>a\<in>set log. acCommit a = c))"

lemma object_case_Inr:
  "(case v of JObj obj \<Rightarrow> f obj | _ \<Rightarrow> Inl e) = Inr x \<longleftrightarrow> (\<exists>obj. v = JObj obj \<and> f obj = Inr x)"
  by (cases v) auto

lemma validateEvent_origin:
  "validateEvent d h r reg addition = Inr (reg', v) \<Longrightarrow>
     rePath (veEntry v) = eaPath addition \<and> reAcceptedCommit (veEntry v) = eaCommit addition \<and>
     reEventID (veEntry v) = edEventID (veDocument v) \<and> reEventType (veEntry v) = edEventType (veDocument v)"
  by (auto simp: validateEvent_def validateEventBytes_def Let_def res_simps object_case_Inr)

lemma replayAddition_Inr:
  "replayAddition d h r snapshot root c (reg, st) x = Inr s \<longleftrightarrow> (\<exists>reg' v st'. s = (reg', st') \<and>
     validateEvent d h r reg x = Inr (reg', v) \<and> replayEvent d snapshot root c st v = Inr st')"
  by (auto simp: replayAddition_def res_simps)

lemma commitAcceptances_from:
  "commitAcceptances d h r c snapshot reg adds = Inr log \<Longrightarrow>
     list_all2 (acceptedFrom d h r) adds log \<and> (\<forall>a\<in>set log. acCommit a = c)"
  by (induction adds arbitrary: reg log) (fastforce simp: andThen_Inr_iff acceptedFrom_def)+

lemma commitEvents_log: "commitEvents d h r c = Inr log \<Longrightarrow> commitLog d h r c log"
  by (auto simp: commitEvents_def commitLog_def andThen_Inr_iff split: if_split_asm dest: commitAcceptances_from)

lemma replayAdditions_logged:
  assumes "foldM (replayAddition d h r snapshot root c) (reg, st) adds = Inr (reg', st')" "logged (dpJcs d) log st"
  shows "\<exists>new. logged (dpJcs d) (log @ new) st' \<and> commitAcceptances d h r c snapshot reg adds = Inr new"
  using assms
proof (induction adds arbitrary: reg st log)
  case Nil
  then show ?case by (intro exI [of _ "[]"]) simp
next
  case (Cons x adds)
  then obtain reg1 v st1 where v: "validateEvent d h r reg x = Inr (reg1, v)"
      "replayEvent d snapshot root c st v = Inr st1"
      "foldM (replayAddition d h r snapshot root c) (reg1, st1) adds = Inr (reg', st')"
    by (auto simp only: foldM.simps andThen_Inr_iff replayAddition_Inr)
  define a where "a = \<lparr>acCommit = c, acSnapshot = snapshot, acEvent = v\<rparr>"
  have "logged (dpJcs d) (log @ [a]) st1" unfolding a_def by (rule replayEvent_logged [OF v(2) Cons.prems(2)])
  from Cons.IH [OF v(3) this] obtain new where new: "logged (dpJcs d) ((log @ [a]) @ new) st'"
      "commitAcceptances d h r c snapshot reg1 adds = Inr new" by blast
  then show ?case using v(1) by (intro exI [of _ "a # new"]) (simp add: a_def)
qed

lemma logged_bindingCount: "logged jcs log (st\<lparr>rpBindingCount := n\<rparr>) = logged jcs log st"
  by (simp add: logged_def)

lemma replayCommit_logged:
  assumes "replayCommit d h r root g st c = Inr st'" "logged (dpJcs d) log st"
  shows "\<exists>new. logged (dpJcs d) (log @ new) st' \<and> commitEvents d h r c = Inr new"
proof -
  from assms(1) obtain adds where adds: "eventAdditions h r (cmID c) = Inr adds"
    and "(st' = st \<and> adds = []) \<or> (\<exists>reg0 reg snapshot reg'. loadSchemasAt h r (cmID c) = Inr reg0 \<and>
       loadReducerBindingsAt (dpJcs d) (dpSchema d) h r reg0 (cmID c) = Inr (reg, snapshot) \<and>
       foldM (replayAddition d h r snapshot root c)
         (reg, st\<lparr>rpBindingCount := length (bsByRecordKind snapshot)\<rparr>) adds = Inr (reg', st'))"
    by (auto simp: replayCommit_def res_simps split: if_split_asm)
  then show ?thesis
  proof (elim disjE conjE exE)
    assume "st' = st" "adds = []"
    then show ?thesis using adds assms(2) by (intro exI [of _ "[]"]) (simp add: commitEvents_def)
  next
    fix reg0 reg snapshot reg'
    assume l: "loadSchemasAt h r (cmID c) = Inr reg0"
        "loadReducerBindingsAt (dpJcs d) (dpSchema d) h r reg0 (cmID c) = Inr (reg, snapshot)"
      and f: "foldM (replayAddition d h r snapshot root c)
       (reg, st\<lparr>rpBindingCount := length (bsByRecordKind snapshot)\<rparr>) adds = Inr (reg', st')"
    obtain new where "logged (dpJcs d) (log @ new) st'" "commitAcceptances d h r c snapshot reg adds = Inr new"
      using replayAdditions_logged [OF f, of log] assms(2) unfolding logged_bindingCount by blast
    then show ?thesis using adds l by (intro exI [of _ new]) (auto simp: commitEvents_def)
  qed
qed

lemma replayCommits_logged:
  assumes "foldM (replayCommit d h r root g) st cs = Inr st'" "logged (dpJcs d) log st"
  shows "\<exists>logs. logged (dpJcs d) (log @ concat logs) st' \<and> mapM (commitEvents d h r) cs = Inr logs"
  using assms
proof (induction cs arbitrary: st log)
  case Nil
  then show ?case by (intro exI [of _ "[]"]) simp
next
  case (Cons c cs)
  then obtain st1 where s: "replayCommit d h r root g st c = Inr st1" "foldM (replayCommit d h r root g) st1 cs = Inr st'"
    by (auto simp: res_simps)
  obtain new where new: "logged (dpJcs d) (log @ new) st1" "commitEvents d h r c = Inr new"
    using replayCommit_logged [OF s(1) Cons.prems(2)] by blast
  from Cons.IH [OF s(2) new(1)] obtain logs where
    "logged (dpJcs d) ((log @ new) @ concat logs) st'" "mapM (commitEvents d h r) cs = Inr logs" by blast
  then show ?case using new(2) by (intro exI [of _ "new # logs"]) simp
qed

lemma finishManifest_Inr:
  assumes "finishManifest jcs m0 st = Inr m"
  shows "mfEvents m = rpEvents st \<and> mfEventCount m = length (rpEvents st) \<and> mfGovernedRecords m = rpProjection st \<and>
     mfReducerBindingCount m = rpBindingCount st \<and> mfGovernedRecordCount m = length (rpProjection st) \<and>
     mfLedgerCommit m = mfLedgerCommit m0 \<and> mfAuthoritativeRef m = mfAuthoritativeRef m0 \<and>
     mfGenesisCommit m = mfGenesisCommit m0 \<and> mfGenesisRoot m = mfGenesisRoot m0 \<and>
     mfActorPolicyVersion m = mfActorPolicyVersion m0 \<and> mfActorPolicyRootSHA256 m = mfActorPolicyRootSHA256 m0 \<and>
     mfHistoryCommitCount m = mfHistoryCommitCount m0 \<and>
     (\<exists>c. canonicalProjection jcs (rpProjection st) = Inr c \<and> mfGovernedRecordsSHA256 m = sha256Hex c) \<and>
     replayDigest jcs m = Inr (mfReplaySHA256 m)"
  using assms by (auto simp: finishManifest_def Let_def res_simps replayDigest_def replayPayload_def)

lemma replay_Inr:
  assumes "replay d h r = Inr m"
  shows "\<exists>history doc st. checkHistorySafety h r = Inr () \<and> readHead h r = Inr (mfLedgerCommit m) \<and> fsck h r = Inr () \<and>
     readHistory h r (mfLedgerCommit m) = Inr history \<and> mfHistoryCommitCount m = length history \<and>
     validateAuthoritativeLedgerNamespace h r history = Inr () \<and>
     validateGenesisHistory (dpJcs d) h r history = Inr (mfGenesisRoot m, mfGenesisCommit m, doc) \<and>
     mfActorPolicyVersion m = pdPolicyVersion doc \<and> mfActorPolicyRootSHA256 m = pdContentSHA256 doc \<and>
     foldM (replayCommit d h r (mfGenesisRoot m) (mfGenesisCommit m)) replayStart history = Inr st \<and>
     mfEvents m = rpEvents st \<and> mfEventCount m = length (rpEvents st) \<and> mfGovernedRecords m = rpProjection st \<and>
     mfGovernedRecordCount m = length (rpProjection st)"
proof -
  from assms obtain head fmt bare history root gc doc st m0 where
    s: "checkHistorySafety h r = Inr ()" "readHead h r = Inr head" "fsck h r = Inr ()" "readHistory h r head = Inr history"
      "validateAuthoritativeLedgerNamespace h r history = Inr ()"
      "validateGenesisHistory (dpJcs d) h r history = Inr (root, gc, doc)"
      "foldM (replayCommit d h r root gc) replayStart history = Inr st"
    and f: "finishManifest (dpJcs d) m0 st = Inr m"
    and m0: "m0 = \<lparr>mfLedgerCommit = head, mfAuthoritativeRef = rdRef r, mfGitObjectFormat = fmt, mfBareRepository = bare,
             mfGenesisCommit = gc, mfGenesisRoot = root, mfActorPolicyVersion = pdPolicyVersion doc,
             mfActorPolicyRootSHA256 = pdContentSHA256 doc, mfHistoryCommitCount = length history,
             mfEventCount = 0, mfReducerBindingCount = 0, mfGovernedRecordCount = 0, mfGovernedRecordsSHA256 = [],
             mfGovernedRecords = [], mfReplaySHA256 = [], mfEvents = []\<rparr>"
    by (auto simp: replay_def Let_def res_simps)
  from finishManifest_Inr [OF f] s show ?thesis
    by (intro exI [of _ history] exI [of _ doc] exI [of _ st]) (simp add: m0)
qed

text \<open>A replay that succeeds is backed by a log of acceptances, grouped by commit.\<close>

lemma replay_logged:
  assumes "replay d h r = Inr m"
  obtains history doc logs st where "readHead h r = Inr (mfLedgerCommit m)"
    "readHistory h r (mfLedgerCommit m) = Inr history" "mfHistoryCommitCount m = length history"
    "validateAuthoritativeLedgerNamespace h r history = Inr ()"
    "validateGenesisHistory (dpJcs d) h r history = Inr (mfGenesisRoot m, mfGenesisCommit m, doc)"
    "mfActorPolicyRootSHA256 m = pdContentSHA256 doc"
    "mapM (commitEvents d h r) history = Inr logs" "logged (dpJcs d) (concat logs) st"
    "mfEvents m = rpEvents st" "mfEventCount m = length (rpEvents st)" "mfGovernedRecords m = rpProjection st"
proof -
  from replay_Inr [OF assms] obtain history doc st where
    s: "readHead h r = Inr (mfLedgerCommit m)" "readHistory h r (mfLedgerCommit m) = Inr history"
      "mfHistoryCommitCount m = length history" "validateAuthoritativeLedgerNamespace h r history = Inr ()"
      "validateGenesisHistory (dpJcs d) h r history = Inr (mfGenesisRoot m, mfGenesisCommit m, doc)"
      "mfActorPolicyRootSHA256 m = pdContentSHA256 doc"
      "foldM (replayCommit d h r (mfGenesisRoot m) (mfGenesisCommit m)) replayStart history = Inr st"
      "mfEvents m = rpEvents st" "mfEventCount m = length (rpEvents st)" "mfGovernedRecords m = rpProjection st" by blast
  from replayCommits_logged [OF s(7) logged_start] obtain logs where
    "logged (dpJcs d) (concat logs) st" "mapM (commitEvents d h r) history = Inr logs" by auto
  with that s show thesis by blast
qed

section \<open>What the log says of a manifest\<close>

lemma acceptedFrom_fields:
  "acceptedFrom d h r x a \<Longrightarrow> rePath (acEntry a) = eaPath x \<and> reAcceptedCommit (acEntry a) = eaCommit x \<and>
     reEventID (acEntry a) = evEventID (snd (boundEvent a)) \<and> reEventType (acEntry a) = evEventType (snd (boundEvent a))"
  by (auto simp: acceptedFrom_def acEntry_def boundEvent_def reducerEvent_def dest!: validateEvent_origin)

lemma accepted_listing:
  assumes "list_all2 (acceptedFrom d h r) adds log"
  shows "map (rePath \<circ> acEntry) log = map eaPath adds \<and> map (reAcceptedCommit \<circ> acEntry) log = map eaCommit adds \<and>
    list_all (\<lambda>a. reEventID (acEntry a) = evEventID (snd (boundEvent a)) \<and> reEventType (acEntry a) = evEventType (snd (boundEvent a))) log"
  using assms by (induction rule: list_all2_induct) (auto dest: acceptedFrom_fields)

lemma commitLogs_listing:
  assumes "mapM (commitEvents d h r) cs = Inr logs"
  shows "\<exists>addss. mapM (\<lambda>c. eventAdditions h r (cmID c)) cs = Inr addss \<and>
     list_all2 (acceptedFrom d h r) (concat addss) (concat logs)"
  using assms unfolding mapM_Inr_iff [of _ cs logs]
proof (induction rule: list_all2_induct)
  case (Cons c cs log logs)
  note commitEvents_log [OF Cons.hyps(1)]
  with Cons obtain adds addss where "eventAdditions h r (cmID c) = Inr adds" "list_all2 (acceptedFrom d h r) adds log"
    "mapM (\<lambda>c. eventAdditions h r (cmID c)) cs = Inr addss" "list_all2 (acceptedFrom d h r) (concat addss) (concat logs)"
    by (auto simp: commitLog_def)
  then show ?case by (intro exI [of _ "adds # addss"]) (simp add: list_all2_appendI)
qed simp

lemma replay_listing:
  assumes "replay d h r = Inr m"
  shows "\<exists>history addss. readHistory h r (mfLedgerCommit m) = Inr history \<and> mfHistoryCommitCount m = length history \<and>
    mapM (\<lambda>c. eventAdditions h r (cmID c)) history = Inr addss \<and>
    map rePath (mfEvents m) = map eaPath (concat addss) \<and> map reAcceptedCommit (mfEvents m) = map eaCommit (concat addss) \<and>
    map reSequence (mfEvents m) = [1..<Suc (length (mfEvents m))] \<and> mfEventCount m = length (mfEvents m) \<and>
    distinct (map reEventID (mfEvents m))"
proof -
  from replay_logged [OF assms] obtain history doc logs st where
    h: "readHistory h r (mfLedgerCommit m) = Inr history" "mfHistoryCommitCount m = length history"
    and l: "mapM (commitEvents d h r) history = Inr logs" "logged (dpJcs d) (concat logs) st"
    and e: "mfEvents m = rpEvents st" "mfEventCount m = length (rpEvents st)" by blast
  from commitLogs_listing [OF l(1)] obtain addss where
    a: "mapM (\<lambda>c. eventAdditions h r (cmID c)) history = Inr addss" "list_all2 (acceptedFrom d h r) (concat addss) (concat logs)" by blast
  have ev: "mfEvents m = numberFrom 1 (map acEntry (concat logs))" "distinct (map (reEventID \<circ> acEntry) (concat logs))"
    using l(2) e(1) by (simp_all add: logged_def)
  have "map rePath (mfEvents m) = map eaPath (concat addss)" "map reAcceptedCommit (mfEvents m) = map eaCommit (concat addss)"
    using accepted_listing [OF a(2)] by (simp_all only: ev(1) numberFrom_fields map_map)
  moreover have "distinct (map reEventID (mfEvents m))" using ev(2) by (simp only: ev(1) numberFrom_fields map_map)
  moreover have "map reSequence (mfEvents m) = [1..<Suc (length (mfEvents m))]"
    by (simp only: ev(1) numberFrom_sequence numberFrom_length plus_1_eq_Suc)
  ultimately show ?thesis using h a(1) e by auto
qed

text \<open>The events of the manifest are those of the log of the ledger, and the governed records are those its governed
  events explain.\<close>

definition governedLog :: "'sch deps \<Rightarrow> host \<Rightarrow> reader \<Rightarrow> manifest \<Rightarrow> acceptance list \<Rightarrow> bool" where
  "governedLog d h r m log =
    (ledgerLog d h r (mfLedgerCommit m) = Inr log \<and> mfEvents m = numberFrom 1 (map acEntry log) \<and>
     list_all (\<lambda>a. reEventID (acEntry a) = evEventID (snd (boundEvent a)) \<and> reEventType (acEntry a) = evEventType (snd (boundEvent a))) log \<and>
     list_all (\<lambda>a. isGoverned a \<longrightarrow> tiedToParent a) log \<and>
     replayEvents (dpJcs d) (map boundEvent (filter isGoverned log)) = Inr (mfGovernedRecords m))"

lemma replay_governedLog:
  assumes "replay d h r = Inr m"
  obtains log where "governedLog d h r m log"
proof -
  from replay_logged [OF assms] obtain history logs st where
    h: "readHistory h r (mfLedgerCommit m) = Inr history" "mapM (commitEvents d h r) history = Inr logs"
    and l: "logged (dpJcs d) (concat logs) st"
    and e: "mfEvents m = rpEvents st" "mfGovernedRecords m = rpProjection st" by metis
  from commitLogs_listing [OF h(2)] obtain addss where
    a: "list_all2 (acceptedFrom d h r) (concat addss) (concat logs)" by blast
  have "ledgerLog d h r (mfLedgerCommit m) = Inr (concat logs)" using h by (simp add: ledgerLog_def)
  then have "governedLog d h r m (concat logs)"
    using l accepted_listing [OF a] by (auto simp: governedLog_def logged_def e list_all_iff)
  then show thesis by (rule that)
qed

lemma governedLog_explains:
  "jcsLaws (dpJcs d) nf \<Longrightarrow> governedLog d h r m log \<Longrightarrow>
    explains (map (snd \<circ> boundEvent) (filter isGoverned log)) (mfGovernedRecords m)"
  using replay_explains [of "dpJcs d" nf "map boundEvent (filter isGoverned log)"] by (simp add: governedLog_def)

section \<open>The trust root\<close>

lemma nothingLater_Inr:
  "nothingLater msg h r prefix cs = Inr u \<longleftrightarrow> list_all (\<lambda>c. immutableJSONAdditions h r (cmID c) prefix = Inr []) cs"
  by (induction cs) (auto simp: nothingLater_def res_simps)

lemma validateGenesisHistory_Inr:
  assumes "validateGenesisHistory jcs h r history = Inr (root, genesisCommit, doc)"
  shows "\<exists>c later raw praw pol. history = c # later \<and> genesisCommit = cmID c \<and>
    immutableJSONAdditions h r (cmID c) genesisPrefix = Inr [genesisPath] \<and>
    immutableJSONAdditions h r (cmID c) ledgerPolicyPrefix = Inr [ledgerPolicyPath] \<and>
    eventAdditions h r (cmID c) = Inr [] \<and> schemaIDsAt h r (cmID c) = Inr (sliceOf (grInitialSchemas root)) \<and>
    readRegularFile h r (cmID c) genesisPath = Inr raw \<and> genesisValidate jcs raw = Inr root \<and>
    readRegularFile h r (cmID c) ledgerPolicyPath = Inr praw \<and>
    parsePolicyDocument jcs praw (grLedgerID root) (grInitialAuthorityPolicy root) = Inr (doc, pol) \<and>
    validateInitialAuthorities doc (sliceOf (grInitialAuthorities root)) = Inr () \<and>
    list_all (\<lambda>c. immutableJSONAdditions h r (cmID c) genesisPrefix = Inr [] \<and>
                  immutableJSONAdditions h r (cmID c) ledgerPolicyPrefix = Inr []) later"
proof (cases history)
  case Nil
  then show ?thesis using assms by (simp add: validateGenesisHistory_def)
next
  case (Cons c later)
  from assms show ?thesis
    by (auto simp: Cons validateGenesisHistory_def validateInitialActorPolicyHistory_def Let_def res_simps nothingLater_Inr list_all_iff)
qed

end
