(* ===== verification/Sample_Ledger.thy ===== *)
theory Sample_Ledger
  imports Replay_Log
begin

text \<open>
  A small ledger on which the whole of \<open>Replay\<close> is evaluated: a root commit with Genesis, the root actor
  policy, two schemas and a reducer binding, and a second commit with one governed event. Records that carry
  a digest are built the way \<open>digest.Complete\<close> builds them; the digests themselves stay symbolic.
\<close>

section \<open>Raw members of a printed object\<close>

lemma rawObj_member:
  assumes "reads v" "wfJson v" "2 * length (render v) \<le> n" "stops t" "rawObj n False t = Some ms"
  shows "rawObj (Suc n) True (memberText (k, v) @ t) = Some ((k, render v) # ms)"
    "rawObj (Suc n) False (CHR '','' # memberText (k, v) @ t) = Some ((k, render v) # ms)"
proof -
  obtain c u where c: "render v = c # u" "\<not> isJsonSpace c" using render_head [OF assms(2)] by auto
  have sk: "skipWs (render v @ t) = render v @ t" using c by simp
  have p: "parseAny n (render v @ t) = Some (v, t)" using assms by (simp add: reads_def)
  have l: "lexString (escString k @ CHR 0x22 # CHR '':'' # render v @ t) = Some (k, CHR '':'' # render v @ t)"
    by (rule lexString_escString)
  show "rawObj (Suc n) True (memberText (k, v) @ t) = Some ((k, render v) # ms)"
    "rawObj (Suc n) False (CHR '','' # memberText (k, v) @ t) = Some ((k, render v) # ms)"
    using p sk l assms(5) by (simp_all add: memberText_def skipWs_quote quote_def)
qed

lemma rawObj_tail:
  assumes "\<forall>m\<in>set ms. reads (snd m) \<and> wfJson (snd m)"
    and "2 * length (tailText (map memberText ms)) + 1 \<le> n"
  shows "rawObj n False (tailText (map memberText ms) @ CHR ''}'' # r) = Some (map (\<lambda>(k, v). (k, render v)) ms)"
  using assms
proof (induction ms arbitrary: n)
  case Nil
  then show ?case by (cases n) auto
next
  case (Cons m ms)
  obtain k v where m: "m = (k, v)" by fastforce
  obtain n' where n: "n = Suc n'" using Cons.prems(2) by (cases n) auto
  have len: "2 * length (render v) \<le> n'" "2 * length (tailText (map memberText ms)) + 1 \<le> n'"
    using Cons.prems(2) by (simp_all add: n m length_memberText)
  have "rawObj n' False (tailText (map memberText ms) @ CHR ''}'' # r) = Some (map (\<lambda>(k, v). (k, render v)) ms)"
    using Cons len by simp
  then show ?case
    using rawObj_member(2) [OF _ _ len(1) stops_tail(1)] Cons.prems(1)
    by (simp add: m n del: rawObj.simps)
qed

lemma rawMembers_render:
  assumes "wfJson (JObj ms)"
  shows "rawMembers (render (JObj ms)) = Some (map (\<lambda>(k, v). (k, render v)) ms)"
proof (cases ms)
  case Nil
  then show ?thesis by (simp add: rawMembers_def jsonFuel_def eval_nat_numeral)
next
  case (Cons m ws)
  obtain k v where m: "m = (k, v)" by fastforce
  have ok: "\<forall>m\<in>set ms. reads (snd m) \<and> wfJson (snd m)" using assms by (auto intro: render_reads)
  have j: "joinWith '','' (map memberText ms) = memberText m @ tailText (map memberText ws)"
    by (simp only: Cons list.map joinWith_tail)
  define n where "n = 2 * length (render (JObj ms)) + 1"
  have f: "jsonFuel (render (JObj ms)) = Suc n" by (simp add: jsonFuel_def n_def)
  have len: "2 * length (render v) \<le> n" "2 * length (tailText (map memberText ws)) + 1 \<le> n"
    unfolding n_def render_obj by (simp_all add: j m length_memberText)
  have "rawObj (Suc n) True (memberText m @ tailText (map memberText ws) @ CHR ''}'' # []) =
      Some (map (\<lambda>(k, v). (k, render v)) ms)"
    using rawObj_member(1) [OF _ _ len(1) stops_tail(1) rawObj_tail [OF _ len(2)]] ok Cons m by simp
  then show ?thesis
    unfolding rawMembers_def f unfolding render_obj by (simp add: j del: rawObj.simps)
qed

section \<open>Stored records\<close>

text \<open>A canonical record with its digest, as \<open>digest.Complete\<close> makes it; the digest stays symbolic.\<close>

definition recordDigest :: "(string \<times> json) list \<Rightarrow> string" where
  "recordDigest obj = sha256Hex (marshalAny (JObj obj))"

definition withDigest :: "(string \<times> json) list \<Rightarrow> string \<Rightarrow> (string \<times> json) list" where
  "withDigest obj d = (case sortJson (JObj (mput digestField (JStr d) obj)) of JObj ms \<Rightarrow> ms | _ \<Rightarrow> [])"

definition storedRecord :: "(string \<times> json) list \<Rightarrow> string" where
  "storedRecord obj = render (JObj (withDigest obj (recordDigest obj)))"

definition printable :: "(string \<times> json) list \<Rightarrow> bool" where
  "printable obj = (wfJson (JObj obj) \<and> textJson (JObj obj) \<and> strictTree 0 (JObj obj) \<and>
     sortJson (JObj obj) = JObj obj \<and> mget obj digestField = None)"

lemma withDigest_sort: "sortJson (JObj (mput digestField (JStr d) obj)) = JObj (withDigest obj d)"
  by (simp add: withDigest_def)

lemma mdel_fresh: "mget m k = None \<Longrightarrow> mdel k m = m"
  by (induction m) (auto split: if_split_asm)

lemma storedRecord_completes:
  assumes "printable obj"
  shows "digestComplete sortingJcs (marshalAny (JObj obj)) = Inr (storedRecord obj, recordDigest obj)"
proof -
  have c: "canonicalize sortingJcs (marshalAny v) = Inr (marshalAny v)"
    if "strictText (marshalAny v) (sortJson v)" for v
    using sortingJcs_marshal [OF that] that by (auto simp: canonicalize_Inr_iff)
  have s: "strictText (marshalAny (JObj obj)) (JObj obj)"
    using assms strictText_marshal [of "JObj obj"] by (auto simp: printable_def)
  then have d: "strictDecode (marshalAny (JObj obj)) = Inr (JObj obj)" by (rule strictDecode_ok)
  have del: "mdel digestField obj = obj" using assms by (simp add: printable_def mdel_fresh)
  have st: "storedRecord obj = marshalAny (JObj (mput digestField (JStr (recordDigest obj)) obj))"
    by (simp only: storedRecord_def marshalAny_def withDigest_sort)
  show ?thesis
    using c [of "JObj obj"] s assms c [OF strictText_stored [OF s utf8Valid_digest(2,1)]]
    unfolding st by (simp add: digestComplete_def digestCompute_def d asObject_def del recordDigest_def printable_def)
qed


lemma storedRecord_strict:
  assumes "printable obj"
  shows "strictText (storedRecord obj) (JObj (withDigest obj (recordDigest obj)))"
proof -
  have "strictText (marshalAny (JObj obj)) (JObj obj)"
    using assms strictText_marshal [of "JObj obj"] by (auto simp: printable_def)
  from strictText_stored [OF this utf8Valid_digest(2,1)] show ?thesis
    unfolding storedRecord_def recordDigest_def marshalAny_def withDigest_sort .
qed

text \<open>What the readers of a record see of it.\<close>

lemma storedRecord_reads:
  assumes "printable obj"
  shows "strictValidate (storedRecord obj) = Inr ()" "canonicalize sortingJcs (storedRecord obj) = Inr (storedRecord obj)"
    "digestVerify sortingJcs (storedRecord obj) = Inr ()"
    "topMembers (storedRecord obj) = Inr (withDigest obj (recordDigest obj))"
    "topMembersDec (storedRecord obj) = Inr (withDigest obj (recordDigest obj))"
    "strictDecode (storedRecord obj) = Inr (JObj (withDigest obj (recordDigest obj)))"
    "rawMembers (storedRecord obj) = Some (map (\<lambda>(k, v). (k, render v)) (withDigest obj (recordDigest obj)))"
proof -
  note s = storedRecord_strict [OF assms]
  show "strictValidate (storedRecord obj) = Inr ()" using s strictValidate_iff by blast
  show "strictDecode (storedRecord obj) = Inr (JObj (withDigest obj (recordDigest obj)))" using s strictDecode_iff by blast
  show "digestVerify sortingJcs (storedRecord obj) = Inr ()"
    by (rule complete_verifies [OF sortingJcs_laws storedRecord_completes [OF assms]])
  have "canonicalize sortingJcs (storedRecord obj) = Inr (storedRecord obj)"
    using storedRecord_completes [OF assms] canonicalize_idem [OF sortingJcs_laws]
    by (auto simp: digestComplete_def res_simps)
  then show "canonicalize sortingJcs (storedRecord obj) = Inr (storedRecord obj)" .
  have u: "jsonUnmarshal (storedRecord obj) = Some (JObj (withDigest obj (recordDigest obj)))"
    using s by (simp add: strictText_def)
  then show "topMembers (storedRecord obj) = Inr (withDigest obj (recordDigest obj))"
    by (simp add: topMembers_def structMembers_def)
  from u have "jsonDecode (storedRecord obj) = Some (JObj (withDigest obj (recordDigest obj)))"
    by (auto simp: jsonUnmarshal_def jsonDecode_def split: option.splits if_splits)
  then show "topMembersDec (storedRecord obj) = Inr (withDigest obj (recordDigest obj))"
    by (simp add: topMembersDec_def structMembers_def)
  have "wfJson (JObj (withDigest obj (recordDigest obj)))" using strictText_parts [OF s] by simp
  then show "rawMembers (storedRecord obj) = Some (map (\<lambda>(k, v). (k, render v)) (withDigest obj (recordDigest obj)))"
    unfolding storedRecord_def by (rule rawMembers_render)
qed

section \<open>A small ledger\<close>

definition strsJson :: "string list \<Rightarrow> json" where "strsJson xs = JArr (map JStr xs)"

definition sampleGenesis :: "(string \<times> json) list" where
  "sampleGenesis = [(''created_at'', JStr ''2024-01-01T00:00:00Z''), (''initial_authorities'', strsJson [''ada'']),
     (''initial_authority_policy'', JStr ''v1''),
     (''initial_schemas'', strsJson [exclusiveRecordEventSchemaV1, reducerBindingSchemaV1]),
     (''ledger_id'', JStr ''L''), (''project_id'', JStr ''P'')]"

definition samplePolicy :: "(string \<times> json) list" where
  "samplePolicy = [(''authority_policy_version'', JStr ''v1''),
     (''grants'', JArr [JObj [(''action'', JStr ''propose''), (''actor_id'', JStr ''ada''), (''target'', JStr ''T'')]]),
     (''keys'', JArr [JObj [(''actor_id'', JStr ''ada''), (''key_id'', JStr ''k1''),
        (''public_key'', JStr (replicate 43 CHR ''A'')), (''revoked'', JBool False)]]),
     (''ledger_id'', JStr ''L''), (''max_proof_lifetime_seconds'', JNum ''60'')]"

definition sampleBinding :: "(string \<times> json) list" where
  "sampleBinding = [(''authority_policy_version'', JStr ''v1''), (''binding_id'', JStr ''b1''),
     (''event_schema'', JStr exclusiveRecordEventSchemaV1), (''record_kind'', JStr ''note''),
     (''schema_version'', JStr reducerBindingSchemaV1), (''state_model'', JStr modelExclusiveV1)]"

definition sampleState0 :: json where
  "sampleState0 = JObj [(''exists'', JBool False), (''target_id'', JStr ''t'')]"

definition sampleState1 :: json where
  "sampleState1 = JObj [(''current_event_id'', JStr ''e1''), (''previous_event_id'', JNull), (''record_kind'', JStr ''note''),
     (''revision'', JNum ''1''), (''status'', JStr ''active''), (''target_id'', JStr ''t''), (''value'', JStr ''hello'')]"

definition sampleNote :: "(string \<times> json) list" where
  "sampleNote = [(''authority_policy_version'', JStr ''v1''), (''event_id'', JStr ''e1''), (''event_type'', JStr eventCreated),
     (''expected_ledger_commit'', JStr demoRoot), (''idempotency_key'', JStr ''i1''), (''prior_state'', sampleState0),
     (''record_kind'', JStr ''note''), (''resulting_state'', sampleState1),
     (''schema_version'', JStr exclusiveRecordEventSchemaV1), (''targets'', strsJson [''t'']), (''value'', JStr ''hello'')]"

lemma samples_printable: "printable sampleGenesis" "printable samplePolicy" "printable sampleBinding" "printable sampleNote"
  by code_simp+

definition sampleRoot :: "string \<Rightarrow> genesisRoot" where
  "sampleRoot d = \<lparr>grProjectID = ''P'', grLedgerID = ''L'', grCreatedAt = ''2024-01-01T00:00:00Z'',
     grInitialAuthorityPolicy = ''v1'', grInitialSchemas = Some [exclusiveRecordEventSchemaV1, reducerBindingSchemaV1],
     grInitialAuthorities = Some [''ada''], grContentSHA256 = d\<rparr>"

lemma sample_decGenesis:
  assumes "topMembersDec raw = Inr (withDigest sampleGenesis d)"
  shows "decGenesis raw = Inr (sampleRoot d)"
  unfolding decGenesis_def assms andThen_simps by code_simp

lemma sample_goodRoot: "goodRoot (sampleRoot d)"
  by code_simp

lemma sample_genesis: "genesisValidate sortingJcs (storedRecord sampleGenesis) = Inr (sampleRoot (recordDigest sampleGenesis))"
  using storedRecord_reads [OF samples_printable(1)] sample_goodRoot
  by (simp add: genesisValidate_iff sample_decGenesis)

definition samplePolicyDoc :: "string \<Rightarrow> policyDocument" where
  "samplePolicyDoc d = sampleDocument\<lparr>pdContentSHA256 := d\<rparr>"

lemma sample_decPolicy:
  assumes "topMembersDec raw = Inr (withDigest samplePolicy d)"
  shows "decPolicyDocument raw = Inr (samplePolicyDoc d)"
  unfolding decPolicyDocument_def assms andThen_simps by code_simp

lemma sample_buildPolicy: "buildPolicy (samplePolicyDoc d) = Inr (policyOf sampleDocument)"
  by code_simp

lemma sample_policy: "parsePolicyDocument sortingJcs (storedRecord samplePolicy) ''L'' ''v1'' =
    Inr (samplePolicyDoc (recordDigest samplePolicy), policyOf sampleDocument)"
proof -
  note r = storedRecord_reads [OF samples_printable(2)]
  have "parsePolicyDoc sortingJcs (storedRecord samplePolicy) =
      Inr (samplePolicyDoc (recordDigest samplePolicy), policyOf sampleDocument)"
    using r sample_decPolicy [OF r(5)] sample_buildPolicy by (simp add: parsePolicyDoc_def)
  then show ?thesis by (simp add: parsePolicyDocument_def samplePolicyDoc_def sampleDocument_def)
qed

definition schemaJson :: "string \<Rightarrow> (string \<times> json) list" where
  "schemaJson i = [(''$id'', JStr i), (''$schema'', JStr draft2020URL)]"

definition schemaText :: "string \<Rightarrow> string" where
  "schemaText i = render (JObj (schemaJson i))"

definition sampleLib :: "unit schemaLib" where
  "sampleLib = \<lparr>slAddResource = (\<lambda>_ _. Inr ()), slCompile = (\<lambda>_ _. Inr ()), slValidate = (\<lambda>_ _. Inr ())\<rparr>"

definition eventSchemaPath :: string where "eventSchemaPath = ''config/schemas/event.json''"
definition bindingSchemaPath :: string where "bindingSchemaPath = ''config/schemas/binding.json''"
definition bindingPath :: string where "bindingPath = reducerBindingPrefix @ ''/note.json''"
definition notePath :: string where "notePath = ''events/e1.json''"

definition zsep :: "string list \<Rightarrow> string" where
  "zsep xs = concat (map (\<lambda>x. x @ [CHR 0x00]) xs)"

definition blobEntry :: "string \<Rightarrow> string" where
  "blobEntry p = ''100644 blob '' @ demoRoot @ [tabChar] @ p @ [CHR 0x00]"

definition changesArgs :: "string \<Rightarrow> string list" where
  "changesArgs c = [''diff-tree'', ''--root'', ''--no-commit-id'', ''--name-status'', ''-r'', ''--no-renames'', ''-z'', c]"

definition listArgs :: "string \<Rightarrow> string \<Rightarrow> string list" where
  "listArgs c prefix = [''ls-tree'', ''-r'', ''-z'', ''--name-only'', c, ''--'', prefix]"

text \<open>Git's answers for a repository of two commits: the root with Genesis, the policy, two schemas and a
  binding; then one event. The texts of the records with digests are parameters.\<close>

definition sampleFiles :: "string \<Rightarrow> string \<Rightarrow> string \<Rightarrow> string \<Rightarrow> (string \<times> string) list" where
  "sampleFiles g p b e = [(genesisPath, g), (ledgerPolicyPath, p), (bindingPath, b), (notePath, e),
     (bindingSchemaPath, schemaText reducerBindingSchemaV1), (eventSchemaPath, schemaText exclusiveRecordEventSchemaV1)]"

definition sampleDiff :: "string \<Rightarrow> string \<Rightarrow> string" where
  "sampleDiff c prefix = (if c = demoRoot then
      (if prefix = genesisPrefix then zsep [''A'', genesisPath]
       else if prefix = ledgerPolicyPrefix then zsep [''A'', ledgerPolicyPath]
       else if prefix = schemaPrefix then zsep [''A'', bindingSchemaPath, ''A'', eventSchemaPath]
       else if prefix = reducerBindingPrefix then zsep [''A'', bindingPath] else [])
     else if prefix = ''events'' then zsep [''A'', notePath] else [])"

definition sampleTable :: "(string list \<times> string) list" where
  "sampleTable =
    [([''rev-parse'', ''--verify'', ''refs/heads/main^{commit}''], demoNext @ [newline]),
     ([''rev-parse'', ''--is-shallow-repository''], ''false''),
     ([''rev-parse'', ''--show-object-format''], ''sha1''),
     ([''rev-parse'', ''--is-bare-repository''], ''true''),
     ([''-c'', ''fsck.skipList=/dev/null'', ''fsck'', ''--full'', ''--strict'', ''--no-dangling''], []),
     ([''rev-list'', ''--reverse'', ''--parents'', demoNext], demoRoot @ [newline] @ demoNext @ '' '' @ demoRoot @ [newline]),
     (changesArgs demoRoot, zsep [''A'', ledgerPolicyPath, ''A'', genesisPath, ''A'', bindingPath, ''A'', bindingSchemaPath, ''A'', eventSchemaPath]),
     (changesArgs demoNext, zsep [''A'', notePath]),
     (listArgs demoRoot schemaPrefix, zsep [bindingSchemaPath, eventSchemaPath]),
     (listArgs demoNext schemaPrefix, zsep [bindingSchemaPath, eventSchemaPath]),
     (listArgs demoRoot reducerBindingPrefix, zsep [bindingPath]),
     (listArgs demoNext reducerBindingPrefix, zsep [bindingPath])]"

definition sampleAnswer :: "string \<Rightarrow> string \<Rightarrow> string \<Rightarrow> string \<Rightarrow> string list \<Rightarrow> procOutcome" where
  "sampleAnswer g p b e args =
    (if take 2 args = [''ls-tree'', ''-z''] then ProcOk (blobEntry (args ! 4))
     else if take 1 args = [''cat-file''] then
       (case map_of (sampleFiles g p b e) (drop 41 (args ! 2)) of Some text \<Rightarrow> ProcOk text | None \<Rightarrow> ProcFailed errNotExist)
     else if length args = 9 then ProcOk (sampleDiff (args ! 6) (args ! 8))
     else case map_of sampleTable args of Some out \<Rightarrow> ProcOk out | None \<Rightarrow> ProcFailed errNotExist)"

definition sampleHost :: "string \<Rightarrow> string \<Rightarrow> string \<Rightarrow> string \<Rightarrow> host" where
  "sampleHost g p b e = (demoHost demoNext)\<lparr>hsProc := \<lambda>git env stdin args. sampleAnswer g p b e (drop 2 args)\<rparr>"

definition sampleRegistry :: "unit schemaRegistry" where
  "sampleRegistry = \<lparr>srResources = [(reducerBindingSchemaV1, JObj (schemaJson reducerBindingSchemaV1)),
     (exclusiveRecordEventSchemaV1, JObj (schemaJson exclusiveRecordEventSchemaV1))], srCompiled = []\<rparr>"

lemma sample_run: "gitRun (sampleHost g p b e) demoReader args = procResult (sampleAnswer g p b e args)"
proof -
  have "holdRepositoryRoot (sampleHost g p b e) demoReader = Inr ()" by code_simp
  then show ?thesis by (simp add: gitRun_def sampleHost_def)
qed

lemma sample_host:
  "checkHistorySafety (sampleHost g p b e) demoReader = Inr ()"
  "readHead (sampleHost g p b e) demoReader = Inr demoNext"
  by code_simp+

lemma sample_facts:
  "fsck (sampleHost g p b e) demoReader = Inr ()"
  "objectFormat (sampleHost g p b e) demoReader = Inr ''sha1''"
  "isBare (sampleHost g p b e) demoReader = Inr True"
  "readHistory (sampleHost g p b e) demoReader demoNext =
     Inr [\<lparr>cmID = demoRoot, cmParent = []\<rparr>, \<lparr>cmID = demoNext, cmParent = demoRoot\<rparr>]"
  unfolding fsck_def objectFormat_def isBare_def readHistory_def sample_run by code_simp+

lemma sample_namespace:
  "validateAuthoritativeLedgerNamespace (sampleHost g p b e) demoReader
     [\<lparr>cmID = demoRoot, cmParent = []\<rparr>, \<lparr>cmID = demoNext, cmParent = demoRoot\<rparr>] = Inr ()"
  unfolding validateAuthoritativeLedgerNamespace_def commitTreeChanges_def sample_run by code_simp

lemma sample_changes:
  "immutableJSONAdditions (sampleHost g p b e) demoReader demoRoot genesisPrefix = Inr [genesisPath]"
  "immutableJSONAdditions (sampleHost g p b e) demoReader demoRoot ledgerPolicyPrefix = Inr [ledgerPolicyPath]"
  "immutableJSONAdditions (sampleHost g p b e) demoReader demoRoot schemaPrefix = Inr [bindingSchemaPath, eventSchemaPath]"
  "immutableJSONAdditions (sampleHost g p b e) demoReader demoRoot reducerBindingPrefix = Inr [bindingPath]"
  "eventAdditions (sampleHost g p b e) demoReader demoRoot = Inr []"
  "immutableJSONAdditions (sampleHost g p b e) demoReader demoNext genesisPrefix = Inr []"
  "immutableJSONAdditions (sampleHost g p b e) demoReader demoNext ledgerPolicyPrefix = Inr []"
  "immutableJSONAdditions (sampleHost g p b e) demoReader demoNext schemaPrefix = Inr []"
  "immutableJSONAdditions (sampleHost g p b e) demoReader demoNext reducerBindingPrefix = Inr []"
  "eventAdditions (sampleHost g p b e) demoReader demoNext = Inr [\<lparr>eaCommit = demoNext, eaPath = notePath\<rparr>]"
  unfolding immutableJSONAdditions_def eventAdditions_def eventStep_def requireRegularBlobAt_def sample_run by code_simp+

lemma sample_files:
  "readRegularFile (sampleHost g p b e) demoReader demoRoot genesisPath = Inr g"
  "readRegularFile (sampleHost g p b e) demoReader demoRoot ledgerPolicyPath = Inr p"
  "readFileAt (sampleHost g p b e) demoReader demoRoot bindingPath = Inr b"
  "readFileAt (sampleHost g p b e) demoReader demoNext bindingPath = Inr b"
  "readFileAt (sampleHost g p b e) demoReader demoNext notePath = Inr e"
  "listJSON (sampleHost g p b e) demoReader demoRoot reducerBindingPrefix = Inr [bindingPath]"
  "listJSON (sampleHost g p b e) demoReader demoNext reducerBindingPrefix = Inr [bindingPath]"
  unfolding readRegularFile_def readFileAt_def listJSON_def requireRegularBlobAt_def sample_run by code_simp+

lemma sample_schema_files:
  "listJSON (sampleHost g p b e) demoReader demoRoot schemaPrefix = Inr [bindingSchemaPath, eventSchemaPath]"
  "listJSON (sampleHost g p b e) demoReader demoNext schemaPrefix = Inr [bindingSchemaPath, eventSchemaPath]"
  "readFileAt (sampleHost g p b e) demoReader demoRoot bindingSchemaPath = Inr (schemaText reducerBindingSchemaV1)"
  "readFileAt (sampleHost g p b e) demoReader demoRoot eventSchemaPath = Inr (schemaText exclusiveRecordEventSchemaV1)"
  "readFileAt (sampleHost g p b e) demoReader demoNext bindingSchemaPath = Inr (schemaText reducerBindingSchemaV1)"
  "readFileAt (sampleHost g p b e) demoReader demoNext eventSchemaPath = Inr (schemaText exclusiveRecordEventSchemaV1)"
  unfolding readFileAt_def listJSON_def requireRegularBlobAt_def sample_run by code_simp+

lemma schemaText_decodes:
  assumes "utf8Valid i"
  shows "strictDecode (schemaText i) = Inr (JObj (schemaJson i))"
proof -
  have u: "utf8Valid draft2020URL" "utf8Valid ''$id''" "utf8Valid ''$schema''" by code_simp+
  have "strictText (render (JObj (schemaJson i))) (JObj (schemaJson i))"
    by (rule strictText_render) (use assms u in \<open>simp_all add: schemaJson_def\<close>)
  then show ?thesis by (intro strictDecode_ok) (simp only: schemaText_def)
qed

lemma sample_ids: "utf8Valid reducerBindingSchemaV1" "utf8Valid exclusiveRecordEventSchemaV1"
  "reducerBindingSchemaV1 \<noteq> []" "exclusiveRecordEventSchemaV1 \<noteq> []" "exclusiveRecordEventSchemaV1 \<noteq> reducerBindingSchemaV1" "reducerBindingSchemaV1 \<noteq> exclusiveRecordEventSchemaV1"
  "\<not> reducerBindingSchemaV1 \<le> exclusiveRecordEventSchemaV1"
  by code_simp+

lemma schemaJson_members: "memberString (schemaJson i) ''$id'' = i" "memberString (schemaJson i) ''$schema'' = draft2020URL"
  by (simp_all add: memberString_def schemaJson_def)

lemma schemaID_text: "utf8Valid i \<Longrightarrow> i \<noteq> [] \<Longrightarrow> schemaID (schemaText i) = Inr i"
  by (simp add: schemaID_def schemaText_decodes schemaJson_members)

lemma sample_schemas:
  "schemaIDsAt (sampleHost g p b e) demoReader demoRoot = Inr [exclusiveRecordEventSchemaV1, reducerBindingSchemaV1]"
  "loadSchemasAt (sampleHost g p b e) demoReader demoRoot = Inr sampleRegistry"
  "loadSchemasAt (sampleHost g p b e) demoReader demoNext = Inr sampleRegistry"
  by (simp_all add: schemaIDsAt_def loadSchemasAt_def sample_schema_files schemaID_text sample_ids registryAdd_def
      schemaText_decodes schemaJson_members newRegistry_def sampleRegistry_def)

definition sampleBindingDoc :: "string \<Rightarrow> reducerBinding" where
  "sampleBindingDoc d = \<lparr>rbSchemaVersion = reducerBindingSchemaV1, rbBindingID = ''b1'', rbRecordKind = ''note'',
     rbStateModel = modelExclusiveV1, rbEventSchema = exclusiveRecordEventSchemaV1, rbAuthorityPolicyVersion = ''v1'',
     rbContentSHA256 = d\<rparr>"

lemma sample_decBinding:
  assumes "topMembers raw = Inr (withDigest sampleBinding d)"
  shows "decBinding raw = Inr (sampleBindingDoc d)"
  unfolding decBinding_def assms andThen_simps by code_simp

definition compiledRegistry :: "unit schemaRegistry" where
  "compiledRegistry = sampleRegistry\<lparr>srCompiled := [(reducerBindingSchemaV1, ()), (exclusiveRecordEventSchemaV1, ())]\<rparr>"

definition halfCompiled :: "unit schemaRegistry" where
  "halfCompiled = sampleRegistry\<lparr>srCompiled := [(reducerBindingSchemaV1, ())]\<rparr>"

lemma sample_compile:
  "registryCompile sampleLib sampleRegistry reducerBindingSchemaV1 = Inr (halfCompiled, ())"
  "registryCompile sampleLib halfCompiled exclusiveRecordEventSchemaV1 = Inr (compiledRegistry, ())"
  "registryCompile sampleLib compiledRegistry exclusiveRecordEventSchemaV1 = Inr (compiledRegistry, ())"
  by (simp_all add: registryCompile_def sampleRegistry_def halfCompiled_def compiledRegistry_def cloneResources_def
      sampleLib_def sample_ids Let_def)

definition sampleSnapshot :: "string \<Rightarrow> bindingSnapshot" where
  "sampleSnapshot d = \<lparr>bsByRecordKind = [(''note'', sampleBindingDoc d)], bsByBindingID = [(''b1'', sampleBindingDoc d)]\<rparr>"

lemma sample_loadBinding:
  "loadBinding sortingJcs sampleLib (sampleRegistry, \<lparr>bsByRecordKind = [], bsByBindingID = []\<rparr>) (storedRecord sampleBinding) =
     Inr (compiledRegistry, sampleSnapshot (recordDigest sampleBinding))"
proof -
  note r = storedRecord_reads [OF samples_printable(3)]
  have v: "registryValidate sampleLib sampleRegistry reducerBindingSchemaV1 (storedRecord sampleBinding) = Inr halfCompiled"
    by (simp add: registryValidate_def r sample_compile) (simp add: sampleLib_def)
  show ?thesis
    using r sample_decBinding [OF r(4)] v
    by (simp add: loadBinding_def sampleBindingDoc_def sample_compile sampleSnapshot_def)
qed

definition sampleDoc :: eventDocument where
  "sampleDoc = \<lparr>edSchemaVersion = exclusiveRecordEventSchemaV1, edEventID = ''e1'', edEventType = eventCreated,
     edExpectedLedgerCommit = demoRoot, edAuthorityPolicyVersion = ''v1'', edTargets = [''t''], edRecordKind = ''note'',
     edValue = render (JStr ''hello''), edPriorState = render sampleState0, edResultingState = render sampleState1,
     edIdempotencyKey = ''i1''\<rparr>"

lemma sample_decEvent:
  assumes "topMembers raw = Inr (withDigest sampleNote d)"
    "rawMembers raw = Some (map (\<lambda>(k, v). (k, render v)) (withDigest sampleNote d))"
  shows "decEvent raw = Inr sampleDoc"
  unfolding decEvent_def rawField_def assms andThen_simps by code_simp

definition sampleEntry :: "string \<Rightarrow> replayEntry" where
  "sampleEntry d = \<lparr>reSequence = 0, reAcceptedCommit = demoNext, rePath = notePath, reEventID = ''e1'',
     reEventType = eventCreated, reSchemaVersion = exclusiveRecordEventSchemaV1, reContentSHA256 = d, reTargetCount = 1\<rparr>"

definition sampleDeps :: "unit deps" where
  "sampleDeps = \<lparr>dpJcs = sortingJcs, dpSchema = sampleLib\<rparr>"

lemma sample_validateBytes:
  "validateEventBytes sampleDeps compiledRegistry \<lparr>eaCommit = demoNext, eaPath = notePath\<rparr> (storedRecord sampleNote) =
     Inr (compiledRegistry, \<lparr>veEntry = sampleEntry (recordDigest sampleNote), veDocument = sampleDoc\<rparr>)"
proof -
  note r = storedRecord_reads [OF samples_printable(4)]
  have v: "registryValidate sampleLib compiledRegistry exclusiveRecordEventSchemaV1 (storedRecord sampleNote) = Inr compiledRegistry"
    by (simp add: registryValidate_def r sample_compile) (simp add: sampleLib_def)
  have m: "memberString (withDigest sampleNote d) digestField = d" for d by code_simp
  have n: "recordDigest sampleNote \<noteq> []" by (simp add: recordDigest_def)
  have e: "eventCreated \<noteq> []" by code_simp
  show ?thesis
    using r sample_decEvent [OF r(4) r(7)] v m n e
    by (simp add: validateEventBytes_def sampleDeps_def sampleDoc_def sampleEntry_def sample_ids)
qed

lemma sample_reducer:
  "reducerApply sortingJcs [] [(''note'', modelExclusiveV1)] (reducerEvent sampleDoc) =
     Inr [(''t'', \<lparr>rsTargetID = ''t'', rsRecordKind = ''note'', rsStatus = statusActive, rsRevision = 1, rsCurrentEventID = ''e1'',
        rsPreviousEventID = None, rsValue = render (JStr ''hello'')\<rparr>)]"
  by code_simp

definition sampleLedger :: host where
  "sampleLedger = sampleHost (storedRecord sampleGenesis) (storedRecord samplePolicy) (storedRecord sampleBinding) (storedRecord sampleNote)"

definition sampleCommits :: "commit list" where
  "sampleCommits = [\<lparr>cmID = demoRoot, cmParent = []\<rparr>, \<lparr>cmID = demoNext, cmParent = demoRoot\<rparr>]"

lemma sample_genesisHistory:
  "validateGenesisHistory sortingJcs sampleLedger demoReader sampleCommits =
     Inr (sampleRoot (recordDigest sampleGenesis), demoRoot, samplePolicyDoc (recordDigest samplePolicy))"
proof -
  have f: "grLedgerID (sampleRoot d) = ''L''" "grInitialAuthorityPolicy (sampleRoot d) = ''v1''"
    "sliceOf (grInitialSchemas (sampleRoot d)) = [exclusiveRecordEventSchemaV1, reducerBindingSchemaV1]"
    "sliceOf (grInitialAuthorities (sampleRoot d)) = [''ada'']" for d
    by (simp_all add: sampleRoot_def sliceOf_def)
  have a: "validateInitialAuthorities (samplePolicyDoc d) [''ada''] = Inr ()" for d by code_simp
  show ?thesis
    by (simp add: validateGenesisHistory_def validateInitialActorPolicyHistory_def sampleCommits_def sampleLedger_def
        sample_changes sample_files sample_schemas sample_genesis sample_policy f a nothingLater_def Let_def)
qed

definition sampleRecord :: rstate where
  "sampleRecord = \<lparr>rsTargetID = ''t'', rsRecordKind = ''note'', rsStatus = statusActive, rsRevision = 1, rsCurrentEventID = ''e1'',
     rsPreviousEventID = None, rsValue = render (JStr ''hello'')\<rparr>"

lemma sample_rootCommit:
  "replayCommit sampleDeps sampleLedger demoReader (sampleRoot dg) demoRoot replayStart \<lparr>cmID = demoRoot, cmParent = []\<rparr> =
     Inr (replayStart\<lparr>rpBindingCount := 1\<rparr>)"
  by (simp add: replayCommit_def sampleLedger_def sample_changes sample_files sample_schemas sampleDeps_def
      loadReducerBindingsAt_def sample_loadBinding sampleSnapshot_def sampleBindingDoc_def sampleRoot_def)

definition sampleEnd :: replayState where
  "sampleEnd = \<lparr>rpEvents = [(sampleEntry (recordDigest sampleNote))\<lparr>reSequence := 1\<rparr>],
     rpSeenEventIDs = [(''e1'', (sampleEntry (recordDigest sampleNote))\<lparr>reSequence := 1\<rparr>)],
     rpSeenKeys = [(''i1'', sampleEntry (recordDigest sampleNote))], rpProjection = [(''t'', sampleRecord)], rpBindingCount = 1\<rparr>"

lemma sample_event:
  "replayEvent sampleDeps (sampleSnapshot bd) (sampleRoot dg) \<lparr>cmID = demoNext, cmParent = demoRoot\<rparr>
     (replayStart\<lparr>rpBindingCount := 1\<rparr>) \<lparr>veEntry = sampleEntry (recordDigest sampleNote), veDocument = sampleDoc\<rparr> = Inr sampleEnd"
proof -
  have s: "demoRoot \<noteq> []" "hasPrefix eventCreated ''core.record.''" "''note'' \<noteq> policyRecordKind" by code_simp+
  have b: "snapshotBindings (sampleSnapshot bd) = [(''note'', modelExclusiveV1)]"
    by (simp add: snapshotBindings_def sampleSnapshot_def sampleBindingDoc_def)
  have "applyGovernedRecordEvent sortingJcs [] (sampleSnapshot bd) (sampleRoot dg) \<lparr>cmID = demoNext, cmParent = demoRoot\<rparr>
      \<lparr>veEntry = sampleEntry (recordDigest sampleNote), veDocument = sampleDoc\<rparr> = Inr [(''t'', sampleRecord)]"
    using s(1,3) sample_reducer unfolding applyGovernedRecordEvent_def b
    by (simp add: sampleSnapshot_def sampleBindingDoc_def sampleDoc_def sampleEntry_def sampleRecord_def)
  then show ?thesis using s(2)
    by (simp add: replayEvent_def sampleDeps_def replayStart_def sampleEnd_def sampleEntry_def sampleDoc_def Let_def)
qed

lemma sample_nextCommit:
  "replayCommit sampleDeps sampleLedger demoReader (sampleRoot dg) demoRoot (replayStart\<lparr>rpBindingCount := 1\<rparr>)
     \<lparr>cmID = demoNext, cmParent = demoRoot\<rparr> = Inr sampleEnd"
proof -
  have n: "demoNext \<noteq> demoRoot" by code_simp
  have c: "length (bsByRecordKind (sampleSnapshot bd)) = 1" for bd by (simp add: sampleSnapshot_def)
  have u: "replayStart\<lparr>rpBindingCount := 1, rpBindingCount := 1\<rparr> = replayStart\<lparr>rpBindingCount := 1\<rparr>" by simp
  have v: "validateEvent sampleDeps sampleLedger demoReader compiledRegistry \<lparr>eaCommit = demoNext, eaPath = notePath\<rparr> =
      Inr (compiledRegistry, \<lparr>veEntry = sampleEntry (recordDigest sampleNote), veDocument = sampleDoc\<rparr>)"
    by (simp add: validateEvent_def sampleLedger_def sample_files sample_validateBytes)
  have l: "loadReducerBindingsAt (dpJcs sampleDeps) (dpSchema sampleDeps) sampleLedger demoReader sampleRegistry demoNext =
      Inr (compiledRegistry, sampleSnapshot (recordDigest sampleBinding))"
    by (simp add: loadReducerBindingsAt_def sampleLedger_def sample_files sample_loadBinding sampleDeps_def)
  show ?thesis
    unfolding replayCommit_def
    by (simp add: sampleLedger_def [symmetric] n c l v sample_event [unfolded One_nat_def] replayAddition_def
        sample_changes [of "storedRecord sampleGenesis" "storedRecord samplePolicy" "storedRecord sampleBinding" "storedRecord sampleNote", folded sampleLedger_def]
        sample_schemas [of "storedRecord sampleGenesis" "storedRecord samplePolicy" "storedRecord sampleBinding" "storedRecord sampleNote", folded sampleLedger_def])
qed

lemma canonicalize_render:
  assumes "wfJson v" "textJson v" "strictTree 0 v"
  shows "canonicalize sortingJcs (render v) = Inr (marshalAny v)"
  using strictText_render [OF assms] by (auto simp: canonicalize_Inr_iff sortingJcs_def strictText_def)

definition sampleManifest :: "string \<Rightarrow> string \<Rightarrow> string \<Rightarrow> string \<Rightarrow> string \<Rightarrow> manifest" where
  "sampleManifest g p n records dg = \<lparr>mfLedgerCommit = demoNext, mfAuthoritativeRef = ''refs/heads/main'',
     mfGitObjectFormat = ''sha1'', mfBareRepository = True, mfGenesisCommit = demoRoot, mfGenesisRoot = sampleRoot g,
     mfActorPolicyVersion = ''v1'', mfActorPolicyRootSHA256 = p, mfHistoryCommitCount = 2, mfEventCount = 1,
     mfReducerBindingCount = 1, mfGovernedRecordCount = 1, mfGovernedRecordsSHA256 = records,
     mfGovernedRecords = [(''t'', sampleRecord)], mfReplaySHA256 = dg, mfEvents = [(sampleEntry n)\<lparr>reSequence := 1\<rparr>]\<rparr>"

lemma sample_projection: "is_ok (canonicalProjection sortingJcs [(''t'', sampleRecord)])"
  by code_simp

lemma sample_payload:
  assumes "utf8Valid g" "utf8Valid p" "utf8Valid n" "utf8Valid records"
  shows "is_ok (replayDigest sortingJcs (sampleManifest g p n records []))"
proof -
  have nums: "natDec 1 = ''1''" "natDec 2 = ''2''" "lexNumber ''1'' = Some (''1'', [])" "lexNumber ''2'' = Some (''2'', [])"
    "\<not> isNegativeZero ''1''" "\<not> isNegativeZero ''2''" by code_simp+
  have strs: "utf8Valid demoRoot" "utf8Valid demoNext" "utf8Valid notePath" "utf8Valid eventCreated" by code_simp+
  let ?v = "replayPayload (sampleManifest g p n records [])"
  have "wfJson ?v"
    by (simp add: replayPayload_def sampleManifest_def genesisJson_def entryJson_def jnat_def jslice_def sampleRoot_def sampleEntry_def
        nums [unfolded One_nat_def])
  moreover have "strictTree 0 ?v"
    by (simp add: replayPayload_def sampleManifest_def genesisJson_def entryJson_def jnat_def jslice_def sampleRoot_def sampleEntry_def
        nums [unfolded One_nat_def])
  moreover have "textJson ?v"
    using assms strs sample_ids(1,2)
    by (simp add: replayPayload_def sampleManifest_def genesisJson_def entryJson_def jnat_def jslice_def sampleRoot_def sampleEntry_def
        utf8Valid_Cons_ascii)
  ultimately show ?thesis by (simp add: replayDigest_def canonicalize_render)
qed

lemma sample_replay_ok:
  "\<exists>records dg. replay sampleDeps sampleLedger demoReader =
     Inr (sampleManifest (recordDigest sampleGenesis) (recordDigest samplePolicy) (recordDigest sampleNote) records dg)"
proof -
  obtain c where c: "canonicalProjection sortingJcs [(''t'', sampleRecord)] = Inr c"
    using is_ok_iff by (metis (mono_tags) sample_projection)
  let ?m = "sampleManifest (recordDigest sampleGenesis) (recordDigest samplePolicy) (recordDigest sampleNote) (sha256Hex c) []"
  obtain dg where dg: "replayDigest sortingJcs ?m = Inr dg"
    using sample_payload utf8Valid_digest(1) unfolding recordDigest_def is_ok_iff by blast
  have st: "foldM (replayCommit sampleDeps sampleLedger demoReader (sampleRoot (recordDigest sampleGenesis)) demoRoot) replayStart sampleCommits = Inr sampleEnd"
    by (simp add: sampleCommits_def sample_rootCommit sample_nextCommit [unfolded One_nat_def])
  have h: "checkHistorySafety sampleLedger demoReader = Inr ()" "readHead sampleLedger demoReader = Inr demoNext"
    "fsck sampleLedger demoReader = Inr ()" "objectFormat sampleLedger demoReader = Inr ''sha1''"
    "isBare sampleLedger demoReader = Inr True" "readHistory sampleLedger demoReader demoNext = Inr sampleCommits"
    "validateAuthoritativeLedgerNamespace sampleLedger demoReader sampleCommits = Inr ()"
    by (simp_all only: sampleLedger_def sample_host sample_facts sampleCommits_def sample_namespace)
  have r: "rdRef demoReader = ''refs/heads/main''" by (simp add: demoReader_def)
  have "replay sampleDeps sampleLedger demoReader = Inr (?m\<lparr>mfReplaySHA256 := dg\<rparr>)"
  proof -
    have d: "dpJcs sampleDeps = sortingJcs" by (simp add: sampleDeps_def)
    have "finishManifest sortingJcs (\<lparr>mfLedgerCommit = demoNext, mfAuthoritativeRef = ''refs/heads/main'',
         mfGitObjectFormat = ''sha1'', mfBareRepository = True, mfGenesisCommit = demoRoot,
         mfGenesisRoot = sampleRoot (recordDigest sampleGenesis),
         mfActorPolicyVersion = pdPolicyVersion (samplePolicyDoc (recordDigest samplePolicy)),
         mfActorPolicyRootSHA256 = pdContentSHA256 (samplePolicyDoc (recordDigest samplePolicy)),
         mfHistoryCommitCount = length sampleCommits, mfEventCount = 0, mfReducerBindingCount = 0, mfGovernedRecordCount = 0,
         mfGovernedRecordsSHA256 = [], mfGovernedRecords = [], mfReplaySHA256 = [], mfEvents = []\<rparr>) sampleEnd =
       Inr (?m\<lparr>mfReplaySHA256 := dg\<rparr>)"
      using c dg by (simp add: finishManifest_def sampleManifest_def sampleEnd_def sampleCommits_def samplePolicyDoc_def
          sampleDocument_def Let_def numeral_2_eq_2)
    then show ?thesis
      unfolding replay_def h andThen_simps d sample_genesisHistory prod.case Let_def st r by simp
  qed
  then show ?thesis by (auto simp: sampleManifest_def)
qed

end
