(* ===== verification/Replay_Properties.thy ===== *)
theory Replay_Properties
  imports Sample_Ledger
begin

text \<open>
  What replay and the configuration it loads guarantee: laws of the schema registry, the reducer bindings and
  the path namespace, and the properties of \<open>Replay\<close> and \<open>LoadCurrentActorPolicy\<close>, each evaluated on the
  sample ledger.
\<close>

declare map_of_eq_Some_iff [simp del]

section \<open>Schema registries\<close>

text \<open>A registry made by \<open>Add\<close> and \<open>Compile\<close>.\<close>

inductive registryReach :: "'sch schemaLib \<Rightarrow> 'sch schemaRegistry \<Rightarrow> bool" for lib where
  fresh: "registryReach lib newRegistry"
| add: "registryReach lib reg \<Longrightarrow> registryAdd reg i raw = Inr reg' \<Longrightarrow> registryReach lib reg'"
| compile: "registryReach lib reg \<Longrightarrow> registryCompile lib reg i = Inr (reg', sch) \<Longrightarrow> registryReach lib reg'"

text \<open>What the compiler promises: the compiled schema is a function of the resources as a map, and resources that
  were not there when a schema compiled do not change it.\<close>

definition compilerLaws :: "'sch schemaLib \<Rightarrow> bool" where
  "compilerLaws lib = (\<forall>res res' i sch. slCompile lib res i = Inr sch \<and>
     (\<forall>k v. mget res k = Some v \<longrightarrow> mget res' k = Some v) \<longrightarrow> slCompile lib res' i = Inr sch)"

lemma fold_mput_mget:
  "mwf res \<Longrightarrow> mget (fold (\<lambda>(k, v) dst. mput k v dst) res dst) k =
     (case mget res k of Some v \<Rightarrow> Some v | None \<Rightarrow> mget dst k)"
proof (induction res arbitrary: dst)
  case (Cons m res)
  obtain a b where m: "m = (a, b)" by fastforce
  have "mget res a = None" using Cons.prems by (simp add: m map_of_eq_None_iff)
  then show ?case using Cons by (simp add: m mget_mput split: option.split)
qed simp

lemma cloneResources_mget: "mwf res \<Longrightarrow> mget (cloneResources res) k = mget res k"
  by (simp add: cloneResources_def fold_mput_mget split: option.split)

definition coherent :: "'sch schemaLib \<Rightarrow> 'sch schemaRegistry \<Rightarrow> bool" where
  "coherent lib reg = (mwf (srResources reg) \<and> (\<forall>i sch. mget (srCompiled reg) i = Some sch \<longrightarrow>
     mhas (srResources reg) i \<and> slCompile lib (srResources reg) i = Inr sch))"

lemma registryAdd_Inr:
  assumes "registryAdd reg i raw = Inr reg'"
  shows "\<exists>v. mget (srResources reg) i = None \<and> srResources reg' = mput i v (srResources reg) \<and> srCompiled reg' = mdel i (srCompiled reg)"
  using assms by (auto simp: registryAdd_def res_simps object_case_Inr)

lemma registryCompile_Inr:
  assumes "registryCompile lib reg i = Inr (reg', sch)"
  shows "srResources reg' = srResources reg \<and>
    (mget (srCompiled reg) i = Some sch \<and> reg' = reg \<or>
     mhas (cloneResources (srResources reg)) i \<and> slCompile lib (cloneResources (srResources reg)) i = Inr sch \<and>
     srCompiled reg' = mput i sch (srCompiled reg))"
  using assms by (auto simp: registryCompile_def res_simps Let_def split: option.splits if_split_asm)

lemma reach_coherent:
  assumes "registryReach lib reg" "compilerLaws lib"
  shows "coherent lib reg"
  using assms
proof (induction rule: registryReach.induct)
  case fresh
  then show ?case by (simp add: coherent_def newRegistry_def)
next
  case (add reg i raw reg')
  then obtain v where v: "mget (srResources reg) i = None" "srResources reg' = mput i v (srResources reg)"
    "srCompiled reg' = mdel i (srCompiled reg)" using registryAdd_Inr by blast
  have c: "coherent lib reg" using add by blast
  show ?case unfolding coherent_def
  proof (intro conjI allI impI)
    show "mwf (srResources reg')" using c by (simp add: v(2) coherent_def mwf_mput del: distinct_map)
    fix k sch
    assume "mget (srCompiled reg') k = Some sch"
    then have "mget (srCompiled reg) k = Some sch" unfolding v(3) mget_mdel by (simp split: if_split_asm)
    with c have k: "mhas (srResources reg) k" "slCompile lib (srResources reg) k = Inr sch" by (auto simp: coherent_def)
    then show "mhas (srResources reg') k" by (simp add: v(2) mget_mput)
    have "mget (srResources reg) j = Some w \<Longrightarrow> mget (srResources reg') j = Some w" for j w
      using v(1) by (auto simp: v(2) mget_mput)
    then show "slCompile lib (srResources reg') k = Inr sch"
      using add.prems k(2) unfolding compilerLaws_def by blast
  qed
next
  case (compile reg i reg' sch)
  then have c: "coherent lib reg" by blast
  from registryCompile_Inr [OF compile.hyps(2)] show ?case
  proof (elim conjE disjE)
    assume "reg' = reg" then show ?thesis using c by simp
  next
    assume r: "srResources reg' = srResources reg" "mhas (cloneResources (srResources reg)) i"
      "slCompile lib (cloneResources (srResources reg)) i = Inr sch" "srCompiled reg' = mput i sch (srCompiled reg)"
    have g: "mget (cloneResources (srResources reg)) k = mget (srResources reg) k" for k
      by (rule cloneResources_mget) (use c in \<open>simp add: coherent_def\<close>)
    have "slCompile lib (srResources reg) i = Inr sch"
      using compile.prems r(3) g unfolding compilerLaws_def by metis
    then show ?thesis using c r(2) g by (auto simp: coherent_def r mget_mput)
  qed
qed

section \<open>Reducer bindings\<close>

definition goodSnapshot :: "bindingSnapshot \<Rightarrow> bool" where
  "goodSnapshot s = (mwf (bsByRecordKind s) \<and> mwf (bsByBindingID s) \<and>
     length (bsByRecordKind s) = length (bsByBindingID s) \<and>
     (\<forall>k b. mget (bsByRecordKind s) k = Some b \<longrightarrow> rbRecordKind b = k \<and> mget (bsByBindingID s) (rbBindingID b) = Some b \<and>
        rbStateModel b = modelExclusiveV1 \<and> rbEventSchema b = exclusiveRecordEventSchemaV1) \<and>
     (\<forall>i b. mget (bsByBindingID s) i = Some b \<longrightarrow> rbBindingID b = i \<and> mget (bsByRecordKind s) (rbRecordKind b) = Some b))"

lemma loadBinding_Inr:
  assumes "loadBinding jcs lib (reg, s) raw = Inr (reg', s')"
  shows "\<exists>b. rbStateModel b = modelExclusiveV1 \<and> rbEventSchema b = exclusiveRecordEventSchemaV1 \<and>
    mget (bsByBindingID s) (rbBindingID b) = None \<and> mget (bsByRecordKind s) (rbRecordKind b) = None \<and>
    bsByBindingID s' = mput (rbBindingID b) b (bsByBindingID s) \<and> bsByRecordKind s' = mput (rbRecordKind b) b (bsByRecordKind s)"
  using assms by (auto simp: loadBinding_def res_simps split: if_split_asm)

lemma loadBinding_good:
  assumes "loadBinding jcs lib (reg, s) raw = Inr (reg', s')" "goodSnapshot s"
  shows "goodSnapshot s'"
proof -
  from loadBinding_Inr [OF assms(1)] obtain b where b: "rbStateModel b = modelExclusiveV1" "rbEventSchema b = exclusiveRecordEventSchemaV1"
    "mget (bsByBindingID s) (rbBindingID b) = None" "mget (bsByRecordKind s) (rbRecordKind b) = None"
    "bsByBindingID s' = mput (rbBindingID b) b (bsByBindingID s)" "bsByRecordKind s' = mput (rbRecordKind b) b (bsByRecordKind s)" by blast
  have g: "\<And>k c. mget (bsByRecordKind s) k = Some c \<Longrightarrow> rbRecordKind c = k \<and> mget (bsByBindingID s) (rbBindingID c) = Some c \<and>
        rbStateModel c = modelExclusiveV1 \<and> rbEventSchema c = exclusiveRecordEventSchemaV1"
    "\<And>i c. mget (bsByBindingID s) i = Some c \<Longrightarrow> rbBindingID c = i \<and> mget (bsByRecordKind s) (rbRecordKind c) = Some c"
    "mwf (bsByRecordKind s)" "mwf (bsByBindingID s)" "length (bsByRecordKind s) = length (bsByBindingID s)"
    using assms(2) by (auto simp: goodSnapshot_def simp del: distinct_map)
  have k: "rbRecordKind b \<noteq> rbRecordKind c" if "mget (bsByBindingID s) i = Some c" for i c
    using g(2) [OF that] b(4) by auto
  have i: "rbBindingID b \<noteq> rbBindingID c" if "mget (bsByRecordKind s) i = Some c" for i c
    using g(1) [OF that] b(3) by auto
  show ?thesis
    unfolding goodSnapshot_def b(5,6) mget_mput mlen_mput
    using g b(1-4) by (auto simp: mwf_mput split: if_split_asm simp del: distinct_map) (metis k i)+
qed

lemma bindings_good:
  assumes "loadReducerBindingsAt jcs lib h r reg commit = Inr (reg', s)"
  shows "goodSnapshot s"
proof -
  from assms obtain paths where f: "foldM (\<lambda>st path. andThen (readFileAt h r commit path) (loadBinding jcs lib st))
      (reg, \<lparr>bsByRecordKind = [], bsByBindingID = []\<rparr>) paths = Inr (reg', s)"
    by (auto simp: loadReducerBindingsAt_def res_simps)
  have "goodSnapshot (snd (reg', s))"
    by (rule foldM_invariant [OF f, of "\<lambda>st. goodSnapshot (snd st)"])
      (auto simp: goodSnapshot_def andThen_Inr_iff dest: loadBinding_good)
  then show ?thesis by simp
qed

lemma snapshotBindings_good: "goodSnapshot s \<Longrightarrow> mget (snapshotBindings s) k = Some model \<longleftrightarrow>
    (\<exists>b. mget (bsByRecordKind s) k = Some b) \<and> model = modelExclusiveV1"
proof -
  have "mget (snapshotBindings s) k = map_option rbStateModel (mget (bsByRecordKind s) k)"
    unfolding snapshotBindings_def by (simp add: map_of_map)
  then show "goodSnapshot s \<Longrightarrow> ?thesis" by (auto simp: goodSnapshot_def)
qed

section \<open>The namespace\<close>

lemma versionedPath_iff:
  "validateVersionedJSONLedgerPath p prefix = Inr () \<longleftrightarrow> hasPrefix p (prefix @ ''/'') \<and> hasSuffix p ''.json'' \<and>
     list_all plainPart (splitOn CHR ''/'' p) \<and> \<not> containsAny p (backslash # lineBreaks)"
proof -
  have "containsAny p (backslash # lineBreaks) \<longleftrightarrow> containsStr p [backslash] \<or> containsAny p lineBreaks"
    unfolding containsStr_single containsAny_iff by auto
  then show ?thesis
    using pathClean_plain [of p]
    by (auto simp: validateVersionedJSONLedgerPath_def safeParts_def list_all_iff split: if_split_asm)
qed

section \<open>The current policy\<close>

lemma governedPolicy_Inr:
  "governedPolicy jcs m root = Inr (doc, policy, source) \<longleftrightarrow>
    (case mget (mfGovernedRecords m) policyTarget of
       None \<Rightarrow> root = (doc, policy) \<and> source = []
     | Some st \<Rightarrow> rsRecordKind st = policyRecordKind \<and> rsStatus st = statusActive \<and> source = rsCurrentEventID st \<and>
         parsePolicyDocument jcs (rsValue st) (grLedgerID (mfGenesisRoot m)) (grInitialAuthorityPolicy (mfGenesisRoot m)) = Inr (doc, policy))"
  by (cases root) (auto simp: governedPolicy_def res_simps statusActive_def statusRevoked_def split: option.splits)

lemma lifecycle_active:
  assumes "lifecycle es st" "rsStatus st = statusActive"
  shows "\<forall>e\<in>set es. evEventType e \<noteq> eventRevoked"
proof -
  have ne: "es \<noteq> []" using assms(1) by (simp add: lifecycle_def)
  have "statusActive \<noteq> statusRevoked" by code_simp
  then have "evEventType (last es) \<noteq> eventRevoked" using assms by (auto simp: lifecycle_def split: if_split_asm)
  moreover have "\<forall>e\<in>set (butlast es). evEventType e \<noteq> eventRevoked" using assms(1) by (simp add: lifecycle_def)
  moreover have "set es = insert (last es) (set (butlast es))" using ne by (metis append_butlast_last_id list.simps(15) rotate1.simps(2) set_rotate1)
  ultimately show ?thesis by auto
qed

section \<open>Properties\<close>

text \<open>C1: every event file of the history is accounted for: when \<open>Replay\<close> succeeds, the history of the head is read,
  and the events of the manifest are exactly the event files that its commits add, commit by commit and in path
  order, numbered from 1 without gaps, and no two have the same event identifier.\<close>

theorem replay_covers_history:
  assumes "replay d h r = Inr m"
  shows "\<exists>history addss. readHistory h r (mfLedgerCommit m) = Inr history \<and> mfHistoryCommitCount m = length history \<and>
    mapM (\<lambda>c. eventAdditions h r (cmID c)) history = Inr addss \<and>
    map rePath (mfEvents m) = map eaPath (concat addss) \<and> map reAcceptedCommit (mfEvents m) = map eaCommit (concat addss) \<and>
    map reSequence (mfEvents m) = [1..<Suc (length (mfEvents m))] \<and> mfEventCount m = length (mfEvents m) \<and>
    distinct (map reEventID (mfEvents m))"
  using assms by (rule replay_listing)

theorem replay_covers_history_witness:
  "\<exists>m. replay sampleDeps sampleLedger demoReader = Inr m \<and> map rePath (mfEvents m) = [''events/e1.json''] \<and>
     map reSequence (mfEvents m) = [1]"
proof -
  obtain m where m: "replay sampleDeps sampleLedger demoReader = Inr m" "mfLedgerCommit m = demoNext"
    using sample_replay_ok by (auto simp: sampleManifest_def)
  have hist: "readHistory sampleLedger demoReader demoNext = Inr sampleCommits"
    by (simp only: sampleLedger_def sample_facts sampleCommits_def)
  have adds: "mapM (\<lambda>c. eventAdditions sampleLedger demoReader (cmID c)) sampleCommits =
      Inr [[], [\<lparr>eaCommit = demoNext, eaPath = notePath\<rparr>]]"
    by (simp add: sampleCommits_def sampleLedger_def sample_changes)
  from replay_covers_history [OF m(1)] hist adds m(2) have p: "map rePath (mfEvents m) = [notePath]"
    "map reSequence (mfEvents m) = [1..<Suc (length (mfEvents m))]" by auto
  have "length (mfEvents m) = 1" using arg_cong [OF p(1), of length] by simp
  with p m(1) show ?thesis by (simp add: notePath_def)
qed

text \<open>C2: the governed records of a successful replay are exactly what the events of the ledger explain. The log is the
  one the repository itself has: commit by commit, the event files that the commit adds, each with that commit and
  the reducer bindings in force at it. The events of the manifest are those of the log, numbered from 1; every governed one
  names the parent of the commit that has it as the ledger it expects, its record kind is bound at that commit, and it
  has the schema and the policy version of the binding; and for every target the record is the result of the life
  cycle of the events on that target (or there is no such event).\<close>

theorem replay_records_explained:
  assumes "jcsLaws (dpJcs d) nf" "replay d h r = Inr m"
  shows "\<exists>log. ledgerLog d h r (mfLedgerCommit m) = Inr log \<and> mfEvents m = numberFrom 1 (map acEntry log) \<and>
    list_all (\<lambda>a. isGoverned a \<longrightarrow> tiedToParent a) log \<and>
    (\<forall>t. let es = targetEvents t (map (snd \<circ> boundEvent) (filter isGoverned log)) in
       case mget (mfGovernedRecords m) t of
         None \<Rightarrow> es = []
       | Some st \<Rightarrow> lifecycle es st \<and> rsTargetID st = t)"
proof -
  obtain log where l: "governedLog d h r m log" by (rule replay_governedLog [OF assms(2)])
  have e: "explains (map (snd \<circ> boundEvent) (filter isGoverned log)) (mfGovernedRecords m)"
    by (rule governedLog_explains [OF assms(1) l])
  have "let es = targetEvents t (map (snd \<circ> boundEvent) (filter isGoverned log)) in
       case mget (mfGovernedRecords m) t of None \<Rightarrow> es = [] | Some st \<Rightarrow> lifecycle es st \<and> rsTargetID st = t" for t
    using explains_at [OF e, of t] by (auto simp: explained_def Let_def split: option.splits)
  then show ?thesis using l unfolding governedLog_def by blast
qed

theorem replay_records_explained_witness:
  "\<exists>m log. replay sampleDeps sampleLedger demoReader = Inr m \<and> ledgerLog sampleDeps sampleLedger demoReader demoNext = Inr log \<and>
     list_all (\<lambda>a. isGoverned a \<longrightarrow> tiedToParent a) log \<and> mget (mfGovernedRecords m) ''t'' = Some sampleRecord \<and>
     lifecycle (targetEvents ''t'' (map (snd \<circ> boundEvent) (filter isGoverned log))) sampleRecord"
proof -
  obtain m where m: "replay sampleDeps sampleLedger demoReader = Inr m" "mfGovernedRecords m = [(''t'', sampleRecord)]"
    "mfLedgerCommit m = demoNext"
    using sample_replay_ok by (auto simp: sampleManifest_def)
  have "jcsLaws (dpJcs sampleDeps) sortJson" by (simp add: sampleDeps_def sortingJcs_laws)
  from replay_records_explained [OF this m(1)] obtain log where
    l: "ledgerLog sampleDeps sampleLedger demoReader demoNext = Inr log" "list_all (\<lambda>a. isGoverned a \<longrightarrow> tiedToParent a) log"
    and t: "\<And>t. let es = targetEvents t (map (snd \<circ> boundEvent) (filter isGoverned log)) in
       case mget (mfGovernedRecords m) t of None \<Rightarrow> es = [] | Some st \<Rightarrow> lifecycle es st \<and> rsTargetID st = t"
    unfolding m(3) by blast
  from t [of "''t''"] have "lifecycle (targetEvents ''t'' (map (snd \<circ> boundEvent) (filter isGoverned log))) sampleRecord"
    by (simp add: m(2) Let_def)
  with m l show ?thesis by auto
qed

text \<open>C3: the trust root is fixed by the first commit: when \<open>Replay\<close> succeeds, that commit adds exactly the Genesis
  record, exactly the root actor policy and no event; the Genesis record is valid, the policy parses for its
  ledger and policy version and its granted actors are Genesis's initial authorities, the schemas of the
  commit are those Genesis lists; and no later commit adds, changes or removes Genesis or policy files.\<close>

theorem replay_trust_root:
  assumes "replay d h r = Inr m"
  shows "\<exists>c later raw praw doc pol. readHistory h r (mfLedgerCommit m) = Inr (c # later) \<and> mfGenesisCommit m = cmID c \<and>
    immutableJSONAdditions h r (cmID c) genesisPrefix = Inr [genesisPath] \<and>
    immutableJSONAdditions h r (cmID c) ledgerPolicyPrefix = Inr [ledgerPolicyPath] \<and>
    eventAdditions h r (cmID c) = Inr [] \<and> schemaIDsAt h r (cmID c) = Inr (sliceOf (grInitialSchemas (mfGenesisRoot m))) \<and>
    readRegularFile h r (cmID c) genesisPath = Inr raw \<and> genesisValidate (dpJcs d) raw = Inr (mfGenesisRoot m) \<and>
    readRegularFile h r (cmID c) ledgerPolicyPath = Inr praw \<and>
    parsePolicyDocument (dpJcs d) praw (grLedgerID (mfGenesisRoot m)) (grInitialAuthorityPolicy (mfGenesisRoot m)) = Inr (doc, pol) \<and>
    pdContentSHA256 doc = mfActorPolicyRootSHA256 m \<and>
    validateInitialAuthorities doc (sliceOf (grInitialAuthorities (mfGenesisRoot m))) = Inr () \<and>
    list_all (\<lambda>c. immutableJSONAdditions h r (cmID c) genesisPrefix = Inr [] \<and>
                  immutableJSONAdditions h r (cmID c) ledgerPolicyPrefix = Inr []) later"
proof -
  from replay_logged [OF assms] obtain history doc where
    h: "readHistory h r (mfLedgerCommit m) = Inr history"
       "validateGenesisHistory (dpJcs d) h r history = Inr (mfGenesisRoot m, mfGenesisCommit m, doc)"
       "mfActorPolicyRootSHA256 m = pdContentSHA256 doc" by blast
  from validateGenesisHistory_Inr [OF h(2)] show ?thesis
  proof (elim exE conjE, goal_cases)
    case (1 c later raw praw pol)
    show ?case
      by (rule exI [of _ c], rule exI [of _ later], rule exI [of _ raw], rule exI [of _ praw], rule exI [of _ doc], rule exI [of _ pol])
        (use 1 h(1,3) in simp)
  qed
qed

theorem replay_trust_root_witness:
  "\<exists>m raw. replay sampleDeps sampleLedger demoReader = Inr m \<and> mfGenesisCommit m = demoRoot \<and>
     readRegularFile sampleLedger demoReader demoRoot genesisPath = Inr raw \<and>
     genesisValidate sortingJcs raw = Inr (mfGenesisRoot m)"
proof -
  obtain m where m: "replay sampleDeps sampleLedger demoReader = Inr m" "mfGenesisCommit m = demoRoot"
    using sample_replay_ok by (auto simp: sampleManifest_def)
  have "dpJcs sampleDeps = sortingJcs" by (simp add: sampleDeps_def)
  with replay_trust_root [OF m(1)] m show ?thesis by fastforce
qed

text \<open>C4: the current actor policy fails closed: when \<open>LoadCurrentActorPolicy\<close> succeeds, the history was replayed and none
  of the governed events on the policy record revokes it; without such events the policy is the one of the
  Genesis commit, and otherwise it is parsed from the value the last of them left, which is named as its source.\<close>

theorem current_policy_fails_closed:
  assumes "jcsLaws (dpJcs d) nf" "loadCurrentActorPolicy d h r = Inr s"
  shows "\<exists>m log es. replay d h r = Inr m \<and> governedLog d h r m log \<and>
    es = targetEvents policyTarget (map (snd \<circ> boundEvent) (filter isGoverned log)) \<and>
    list_all (\<lambda>e. evEventType e \<noteq> eventRevoked) es \<and>
    psSourceEventID s = (if es = [] then [] else evEventID (last es)) \<and>
    (\<exists>raw. parsePolicyDocument (dpJcs d) raw (psLedgerID s) (psPolicyVersion s) = Inr (psDocument s, psPolicy s) \<and>
      (if es = [] then readRegularFile h r (mfGenesisCommit m) ledgerPolicyPath = Inr raw
       else map_option rsValue (mget (mfGovernedRecords m) policyTarget) = Some raw))"
proof -
  from assms(2) obtain m raw root doc policy source where
    m: "replay d h r = Inr m" "readRegularFile h r (mfGenesisCommit m) ledgerPolicyPath = Inr raw"
    and p: "parsePolicyDocument (dpJcs d) raw (grLedgerID (mfGenesisRoot m)) (grInitialAuthorityPolicy (mfGenesisRoot m)) = Inr root"
    and g: "governedPolicy (dpJcs d) m root = Inr (doc, policy, source)"
    and s: "psLedgerID s = grLedgerID (mfGenesisRoot m)" "psPolicyVersion s = grInitialAuthorityPolicy (mfGenesisRoot m)"
      "psSourceEventID s = source" "psDocument s = doc" "psPolicy s = policy"
    by (auto simp: loadCurrentActorPolicy_def res_simps)
  obtain log where l: "governedLog d h r m log" by (rule replay_governedLog [OF m(1)])
  define es where "es = targetEvents policyTarget (map (snd \<circ> boundEvent) (filter isGoverned log))"
  have e: "explained (map (snd \<circ> boundEvent) (filter isGoverned log)) policyTarget (mget (mfGovernedRecords m) policyTarget)"
    by (rule explains_at [OF governedLog_explains [OF assms(1) l]])
  show ?thesis
  proof (cases "mget (mfGovernedRecords m) policyTarget")
    case None
    then have "es = []" "root = (doc, policy)" "source = []" using e g by (simp_all add: explained_def es_def governedPolicy_Inr)
    then show ?thesis using m p s l es_def [symmetric] by auto
  next
    case (Some st)
    then have st: "rsStatus st = statusActive" "source = rsCurrentEventID st"
      "parsePolicyDocument (dpJcs d) (rsValue st) (grLedgerID (mfGenesisRoot m)) (grInitialAuthorityPolicy (mfGenesisRoot m)) = Inr (doc, policy)"
      using g by (simp_all add: governedPolicy_Inr)
    have lc: "lifecycle es st" using e Some by (simp add: explained_def es_def)
    then have "es \<noteq> []" "rsCurrentEventID st = evEventID (last es)" by (simp_all add: lifecycle_def)
    moreover have "list_all (\<lambda>e. evEventType e \<noteq> eventRevoked) es"
      using lifecycle_active [OF lc st(1)] by (simp add: list_all_iff)
    ultimately show ?thesis using m(1) l Some st s es_def by auto
  qed
qed

theorem current_policy_fails_closed_witness:
  "\<exists>s. loadCurrentActorPolicy sampleDeps sampleLedger demoReader = Inr s \<and> psSourceEventID s = [] \<and>
    psPolicy s = policyOf sampleDocument \<and>
    parsePolicyDocument sortingJcs (storedRecord samplePolicy) ''L'' ''v1'' = Inr (psDocument s, psPolicy s)"
proof -
  obtain m where m: "replay sampleDeps sampleLedger demoReader = Inr m" "mfGovernedRecords m = [(''t'', sampleRecord)]"
    "mfGenesisCommit m = demoRoot" "mfGenesisRoot m = sampleRoot (recordDigest sampleGenesis)"
    using sample_replay_ok by (auto simp: sampleManifest_def)
  have t: "mget (mfGovernedRecords m) policyTarget = None" unfolding m(2) by code_simp
  have f: "readRegularFile sampleLedger demoReader demoRoot ledgerPolicyPath = Inr (storedRecord samplePolicy)"
    by (simp add: sampleLedger_def sample_files)
  have d: "dpJcs sampleDeps = sortingJcs" by (simp add: sampleDeps_def)
  obtain s where s: "loadCurrentActorPolicy sampleDeps sampleLedger demoReader = Inr s" "psLedgerID s = ''L''" "psPolicyVersion s = ''v1''"
    using m f t sample_policy by (simp add: loadCurrentActorPolicy_def governedPolicy_def d sampleRoot_def)
  have "jcsLaws (dpJcs sampleDeps) sortJson" unfolding d by (rule sortingJcs_laws)
  from current_policy_fails_closed [OF this s(1)] show ?thesis
  proof (elim exE conjE, goal_cases)
    case (1 m' log es raw)
    have "m' = m" using 1(1) m(1) by simp
    then have "es = []" using 1(7) t by (auto split: if_split_asm)
    with 1(5-7) f \<open>m' = m\<close> m(3) have "psSourceEventID s = []"
      "parsePolicyDocument sortingJcs (storedRecord samplePolicy) ''L'' ''v1'' = Inr (psDocument s, psPolicy s)"
      unfolding s d by simp_all
    then show ?case using s(1) sample_policy by simp
  qed
qed

text \<open>\<open>genesis.Validate\<close> accepts exactly the canonical, digest-verified records that decode, name project, ledger and
  policy, carry a valid creation time, list their schemas and authorities strictly sorted without empty names, and
  have at least one authority.\<close>

lemma genesis_root_accepted_iff:
  "genesisValidate jcs raw = Inr root \<longleftrightarrow>
     canonicalize jcs raw = Inr raw \<and> digestVerify jcs raw = Inr () \<and> decGenesis raw = Inr root \<and> goodRoot root"
  by (rule genesisValidate_iff)

text \<open>The cache of compiled schemas is coherent: in every registry made by \<open>Add\<close> and \<open>Compile\<close>, a cached schema is
  what compiling its identifier with the present resources gives, for a compiler that is not disturbed by
  further resources.\<close>

lemma schema_cache_coherent:
  assumes "registryReach lib reg" "compilerLaws lib" "mget (srCompiled reg) i = Some sch"
  shows "mhas (srResources reg) i \<and> slCompile lib (srResources reg) i = Inr sch"
  using reach_coherent [OF assms(1,2)] assms(3) by (simp add: coherent_def)

lemma schema_cache_coherent_witness:
  "slCompile sampleLib (srResources compiledRegistry) exclusiveRecordEventSchemaV1 = Inr ()"
proof -
  have a: "registryAdd newRegistry reducerBindingSchemaV1 (schemaText reducerBindingSchemaV1) =
      Inr \<lparr>srResources = [(reducerBindingSchemaV1, JObj (schemaJson reducerBindingSchemaV1))], srCompiled = []\<rparr>"
    "registryAdd \<lparr>srResources = [(reducerBindingSchemaV1, JObj (schemaJson reducerBindingSchemaV1))], srCompiled = []\<rparr>
       exclusiveRecordEventSchemaV1 (schemaText exclusiveRecordEventSchemaV1) = Inr sampleRegistry"
    by (simp_all add: registryAdd_def schemaText_decodes schemaJson_members newRegistry_def sampleRegistry_def sample_ids)
  have r: "registryReach sampleLib compiledRegistry"
    by (rule registryReach.compile [OF registryReach.compile [OF registryReach.add [OF registryReach.add [OF registryReach.fresh a(1)] a(2)]
        sample_compile(1)] sample_compile(2)])
  have c: "compilerLaws sampleLib" by (simp add: compilerLaws_def sampleLib_def)
  have "mget (srCompiled compiledRegistry) exclusiveRecordEventSchemaV1 = Some ()"
    by (simp add: compiledRegistry_def sample_ids)
  from schema_cache_coherent [OF r c this] show ?thesis by simp
qed

text \<open>A snapshot of reducer bindings is a bijection between record kinds and binding identifiers, and every bound
  kind is bound to the one model and event schema the reducer implements.\<close>

lemma bindings_one_per_kind:
  assumes "loadReducerBindingsAt jcs lib h r reg commit = Inr (reg', s)"
  shows "goodSnapshot s \<and> (mget (snapshotBindings s) k = Some model \<longleftrightarrow>
    (\<exists>b. mget (bsByRecordKind s) k = Some b) \<and> model = modelExclusiveV1)"
  using bindings_good [OF assms] snapshotBindings_good by blast

lemma bindings_one_per_kind_witness:
  "mget (snapshotBindings (sampleSnapshot (recordDigest sampleBinding))) ''note'' = Some modelExclusiveV1"
proof -
  have "loadReducerBindingsAt sortingJcs sampleLib sampleLedger demoReader sampleRegistry demoNext =
      Inr (compiledRegistry, sampleSnapshot (recordDigest sampleBinding))"
    by (simp add: loadReducerBindingsAt_def sampleLedger_def sample_files sample_loadBinding)
  from bindings_one_per_kind [OF this, of "''note''" modelExclusiveV1] show ?thesis by (simp add: sampleSnapshot_def)
qed

text \<open>The paths a commit may touch are exactly the Genesis record, the root policy, the JSON files below the schema and
  binding directories with plain path parts, and the durable event paths; in particular an accepted path is
  relative, clean and never leaves the tree.\<close>

lemma namespace_exact:
  "validateAuthoritativeLedgerPath p = Inr () \<longleftrightarrow> p = genesisPath \<or> p = ledgerPolicyPath \<or>
     (hasSuffix p ''.json'' \<and> list_all plainPart (splitOn CHR ''/'' p) \<and>
      (list_ex (\<lambda>prefix. hasPrefix p (prefix @ ''/'')) [schemaPrefix, reducerBindingPrefix] \<and> \<not> containsAny p (backslash # lineBreaks) \<or>
       hasPrefix p ''events/'' \<and> list_all (list_all eventPathChar) (splitOn CHR ''/'' p)))"
proof -
  have ev: "validateEventPath p = Inr () \<longleftrightarrow> hasPrefix p ''events/'' \<and> hasSuffix p ''.json'' \<and>
      list_all plainPart (splitOn CHR ''/'' p) \<and> list_all (list_all eventPathChar) (splitOn CHR ''/'' p)"
    unfolding validateEventPath_iff by (auto simp: list_all_iff)
  have d: "\<not> (hasPrefix p (schemaPrefix @ ''/'') \<and> hasPrefix p ''events/'')" "\<not> (hasPrefix p (reducerBindingPrefix @ ''/'') \<and> hasPrefix p ''events/'')"
    by (cases p; simp add: hasPrefix_def schemaPrefix_def reducerBindingPrefix_def)+
  show ?thesis
    using d unfolding validateAuthoritativeLedgerPath_def
    by (auto simp: versionedPath_iff wrap_Inr_iff ev)
qed

end
