(* ===== verification/Quarantine.thy ===== *)
theory Quarantine
  imports Git_Writer Sha256
begin

text \<open>
  internal/quarantine/store.go and internal/gitledger/quarantine.go: the directory of private candidate
  files. The disk keeps files by number, the directory entries everybody sees and those that survive a crash;
  every system call is one step in which other processes may first change the disk and which may fail.
\<close>

section \<open>The disk\<close>

text \<open>\<open>qnSynced\<close> is the content that survives a crash.\<close>

record qnode =
  qnKind :: fileKind
  qnData :: string
  qnSynced :: string
  qnModTime :: int

record qdisk =
  qdNodes :: "qnode list"
  qdNames :: "(string, nat) gomap"
  qdStable :: "(string, nat) gomap"

text \<open>One system call: what others do before it, whether it fails, how many bytes a write takes, the time,
  random bytes, and what reading a name that is not a regular file gives.\<close>

record qstep =
  qsOther :: "qdisk \<Rightarrow> qdisk"
  qsFault :: "goerr option"
  qsShort :: "nat option"
  qsTime :: int
  qsNonce :: string
  qsVia :: "string res"

definition quietStep :: qstep where
  "quietStep = \<lparr>qsOther = (\<lambda>d. d), qsFault = None, qsShort = None, qsTime = 0, qsNonce = replicate 16 (CHR 0x00), qsVia = Inl errNotExist\<rparr>"

type_synonym qstate = "qdisk \<times> qstep list"
type_synonym 'a qop = "(qstate, 'a) stateop"

definition sysCall :: "(qstep \<Rightarrow> qdisk \<Rightarrow> qdisk \<times> 'a res) \<Rightarrow> 'a qop" where
  "sysCall f st =
    (case st of (d, steps) \<Rightarrow>
     let s = (case steps of [] \<Rightarrow> quietStep | s # _ \<Rightarrow> s); d1 = qsOther s d in
     case (case qsFault s of Some e \<Rightarrow> (d1, Inl e) | None \<Rightarrow> f s d1) of (d2, r) \<Rightarrow> ((d2, drop 1 steps), r))"

definition nodeAt :: "qdisk \<Rightarrow> string \<Rightarrow> qnode option" where
  "nodeAt d name = (case mget (qdNames d) name of None \<Rightarrow> None
     | Some n \<Rightarrow> if n < length (qdNodes d) then Some (qdNodes d ! n) else None)"

definition sysRandom :: "string qop" where
  "sysRandom = sysCall (\<lambda>s d. (d, Inr (qsNonce s)))"

definition sysCreate :: "string \<Rightarrow> nat qop" where
  "sysCreate name = sysCall (\<lambda>s d.
     if mhas (qdNames d) name then (d, Inl errExist)
     else (d\<lparr>qdNodes := qdNodes d @ [\<lparr>qnKind = RegularFile, qnData = [], qnSynced = [], qnModTime = qsTime s\<rparr>],
             qdNames := mput name (length (qdNodes d)) (qdNames d)\<rparr>, Inr (length (qdNodes d))))"

definition setNode :: "nat \<Rightarrow> (qnode \<Rightarrow> qnode) \<Rightarrow> qdisk \<Rightarrow> qdisk" where
  "setNode n f d = d\<lparr>qdNodes := (qdNodes d)[n := f (qdNodes d ! n)]\<rparr>"

definition sysWrite :: "nat \<Rightarrow> string \<Rightarrow> nat qop" where
  "sysWrite n content = sysCall (\<lambda>s d.
     let k = (case qsShort s of None \<Rightarrow> length content | Some k \<Rightarrow> min k (length content)) in
     (setNode n (\<lambda>x. x\<lparr>qnData := qnData x @ take k content, qnModTime := qsTime s\<rparr>) d, Inr k))"

definition sysSync :: "nat \<Rightarrow> unit qop" where
  "sysSync n = sysCall (\<lambda>s d. (setNode n (\<lambda>x. x\<lparr>qnSynced := qnData x\<rparr>) d, Inr ()))"

definition sysClose :: "unit qop" where
  "sysClose = sysCall (\<lambda>s d. (d, Inr ()))"

definition sysLink :: "string \<Rightarrow> string \<Rightarrow> unit qop" where
  "sysLink old new = sysCall (\<lambda>s d. case mget (qdNames d) old of
       None \<Rightarrow> (d, Inl errNotExist)
     | Some n \<Rightarrow> if mhas (qdNames d) new then (d, Inl errExist) else (d\<lparr>qdNames := mput new n (qdNames d)\<rparr>, Inr ()))"

definition sysOpenDir :: "unit qop" where
  "sysOpenDir = sysCall (\<lambda>s d. (d, Inr ()))"

definition sysSyncDir :: "unit qop" where
  "sysSyncDir = sysCall (\<lambda>s d. (d\<lparr>qdStable := qdNames d\<rparr>, Inr ()))"

definition sysReadDir :: "string list qop" where
  "sysReadDir = sysCall (\<lambda>s d. (d, Inr (map fst (qdNames d))))"

definition sysLstat :: "string \<Rightarrow> qnode qop" where
  "sysLstat name = sysCall (\<lambda>s d. case nodeAt d name of None \<Rightarrow> (d, Inl errNotExist) | Some x \<Rightarrow> (d, Inr x))"

definition sysReadFile :: "string \<Rightarrow> string qop" where
  "sysReadFile name = sysCall (\<lambda>s d. case nodeAt d name of
       None \<Rightarrow> (d, Inl errNotExist)
     | Some x \<Rightarrow> (d, if qnKind x = RegularFile then Inr (qnData x) else qsVia s))"

definition sysRemove :: "string \<Rightarrow> unit qop" where
  "sysRemove name = sysCall (\<lambda>s d. case mget (qdNames d) name of
       None \<Rightarrow> (d, Inl errNotExist)
     | Some n \<Rightarrow> (d\<lparr>qdNames := mdel name (qdNames d)\<rparr>, Inr ()))"

section \<open>Names\<close>

record qentry =
  qeID :: string
  qeContentSHA256 :: string
  qeSize :: nat

definition candidateSuffix :: string where "candidateSuffix = ''.candidate''"
definition publicationTempPrefix :: string where "publicationTempPrefix = ''.publish-''"
definition publicationTempSuffix :: string where "publicationTempSuffix = ''.tmp''"
definition publicationNonceBytes :: nat where "publicationNonceBytes = 16"

definition candidateName :: "string \<Rightarrow> string" where
  "candidateName i = i @ candidateSuffix"

definition validID :: "string \<Rightarrow> bool" where
  "validID i = (i \<noteq> [] \<and> list_all (\<lambda>c. inRanges alphanumeric c \<or> c \<in> set ''-_'') i)"

definition entryFor :: "string \<Rightarrow> string \<Rightarrow> qentry" where
  "entryFor i content = \<lparr>qeID = i, qeContentSHA256 = sha256Hex content, qeSize = length content\<rparr>"

definition tempNameOf :: "string \<Rightarrow> string" where
  "tempNameOf nonce = publicationTempPrefix @ hexEncode nonce @ publicationTempSuffix"

definition newPublicationTempName :: "string qop" where
  "newPublicationTempName = hbind (hwrap ''QUARANTINE_INVALID: generate publication temp name'' sysRandom) (\<lambda>nonce.
     hreturn (tempNameOf nonce))"

definition validPublicationTempName :: "string \<Rightarrow> bool" where
  "validPublicationTempName name =
    (hasPrefix name publicationTempPrefix \<and> hasSuffix name publicationTempSuffix \<and>
     (let hexPart = trimSuffix (trimPrefix name publicationTempPrefix) publicationTempSuffix in
      length hexPart = publicationNonceBytes * 2 \<and> list_all isHexChar hexPart))"

definition qinvalid :: "string \<Rightarrow> goerr" where
  "qinvalid msg = Errorf (''QUARANTINE_INVALID: '' @ msg) []"
definition qintegrity :: "string \<Rightarrow> goerr" where
  "qintegrity msg = Errorf (''QUARANTINE_INTEGRITY_FAILURE: '' @ msg) []"
definition qconflict :: goerr where
  "qconflict = Errorf ''QUARANTINE_CONFLICT'' []"
definition errShortWrite :: goerr where "errShortWrite = ErrNew ''short write''"

section \<open>Reading\<close>

definition readID :: "string \<Rightarrow> (qentry \<times> string) qop" where
  "readID i =
    (if \<not> validID i then hfail (qinvalid ''unsafe candidate id'') else
     hbind (sysLstat (candidateName i)) (\<lambda>info.
     if qnKind info \<noteq> RegularFile then hfail (qintegrity ''candidate is not a regular file'') else
     hbind (sysReadFile (candidateName i)) (\<lambda>content. hreturn (entryFor i content, content))))"

definition readEntry :: "qentry \<Rightarrow> string qop" where
  "readEntry entry =
    hbind (readID (qeID entry)) (\<lambda>(actual, content).
    if qeSize actual \<noteq> qeSize entry \<or> qeContentSHA256 actual \<noteq> qeContentSHA256 entry
    then hfail (qintegrity ''candidate bytes changed'') else hreturn content)"

section \<open>Publishing\<close>

text \<open>\<open>dir.Sync\<close> and \<open>dir.Close\<close>: the first error wins.\<close>

definition finallyClose :: "'a qop \<Rightarrow> 'a qop" where
  "finallyClose m st = (case m st of (st1, r) \<Rightarrow> (case sysClose st1 of (st2, c) \<Rightarrow>
     (st2, case (r, c) of (Inl e, _) \<Rightarrow> Inl e | (Inr x, Inl e) \<Rightarrow> Inl e | (Inr x, Inr _) \<Rightarrow> Inr x)))"

definition syncRootDirectory :: "unit qop" where
  "syncRootDirectory = hbind sysOpenDir (\<lambda>_. finallyClose sysSyncDir)"

text \<open>The private file is closed after the sync; when anything fails before or at that, the deferred function
  closes it.\<close>

definition fillFile :: "nat \<Rightarrow> string \<Rightarrow> unit qop" where
  "fillFile n content st =
    (case hbind (sysWrite n content) (\<lambda>k. if k \<noteq> length content then hfail errShortWrite
            else hbind (sysSync n) (\<lambda>_. sysClose)) st of
       (st', Inl e) \<Rightarrow> (fst (sysClose st'), Inl e)
     | (st', Inr _) \<Rightarrow> (st', Inr ()))"

text \<open>The deferred removal of the private file, whose error is dropped.\<close>

definition thenRemove :: "string \<Rightarrow> 'a qop \<Rightarrow> 'a qop" where
  "thenRemove name m st = (case m st of (st', r) \<Rightarrow> (fst (sysRemove name st'), r))"

definition publish :: "string \<Rightarrow> string \<Rightarrow> string \<Rightarrow> nat \<Rightarrow> qentry qop" where
  "publish tempName i content n =
    hbind (fillFile n content) (\<lambda>_.
    hbind (sysLink tempName (candidateName i)) (\<lambda>_.
    hbind (hwrap ''QUARANTINE_DURABILITY_FAILURE: sync published candidate directory entry'' syncRootDirectory) (\<lambda>_.
    hbind (hwrap ''QUARANTINE_INTEGRITY_FAILURE: verify published candidate'' (readID i)) (\<lambda>(published, got).
    if got \<noteq> content then hfail (qintegrity ''published candidate bytes changed'') else hreturn published))))"

definition quarantinePut :: "string \<Rightarrow> string \<Rightarrow> qentry qop" where
  "quarantinePut i content =
    (if \<not> validID i then hfail (qinvalid ''unsafe candidate id'') else
     hbind newPublicationTempName (\<lambda>tempName.
     hbind (sysCreate tempName) (\<lambda>n. thenRemove tempName (publish tempName i content n))))"

text \<open>What \<open>Ensure\<close> does after a collision: \<open>None\<close> asks for another round.\<close>

definition converge :: "string \<Rightarrow> string \<Rightarrow> bool \<Rightarrow> qstate \<Rightarrow> qstate \<times> qentry res option" where
  "converge i content inTime st =
    (case readID i st of
       (st1, Inl e) \<Rightarrow> (st1, if errors_is e errNotExist \<and> inTime then None else Some (Inl e))
     | (st1, Inr (existing, got)) \<Rightarrow>
         if got \<noteq> content then (st1, Some (Inl qconflict)) else
         (case hwrap ''QUARANTINE_DURABILITY_FAILURE: sync existing candidate directory entry'' syncRootDirectory st1 of
            (st2, Inl e) \<Rightarrow> (st2, Some (Inl e))
          | (st2, Inr _) \<Rightarrow>
             (case readID i st2 of
                (st3, Inl e) \<Rightarrow> (st3, if errors_is e errNotExist \<and> inTime then None else Some (Inl e))
              | (st3, Inr (settled, settledBytes)) \<Rightarrow>
                  (st3, Some (if settledBytes \<noteq> content then Inl qconflict
                    else if settled \<noteq> existing then Inl (qintegrity ''candidate identity changed during durable convergence'')
                    else Inr settled)))))"

text \<open>The clock is the list of answers to \<open>time.Now().Before(deadline)\<close> in the rounds; at its end the deadline has
  passed.\<close>

fun quarantineEnsure :: "bool list \<Rightarrow> string \<Rightarrow> string \<Rightarrow> qentry qop" where
  "quarantineEnsure clock i content st =
    (case quarantinePut i content st of
       (st1, Inr entry) \<Rightarrow> (st1, Inr entry)
     | (st1, Inl e) \<Rightarrow>
        if \<not> errors_is e errExist then (st1, Inl e) else
        (case clock of
           [] \<Rightarrow> (case converge i content False st1 of (st2, Some r) \<Rightarrow> (st2, r) | (st2, None) \<Rightarrow> (st2, Inl errNotExist))
         | inTime # clock' \<Rightarrow> (case converge i content inTime st1 of
              (st2, Some r) \<Rightarrow> (st2, r) | (st2, None) \<Rightarrow> quarantineEnsure clock' i content st2)))"

section \<open>Removing\<close>

definition quarantineRemove :: "string \<Rightarrow> unit qop" where
  "quarantineRemove i =
    (if \<not> validID i then hfail (qinvalid ''unsafe candidate id'') else
     hbind (sysLstat (candidateName i)) (\<lambda>info.
     if qnKind info \<noteq> RegularFile then hfail (qintegrity ''candidate is not a regular file'')
     else sysRemove (candidateName i)))"

text \<open>The tail of a round of \<open>PruneBefore\<close> that the two kinds of files share.\<close>

definition pruneFile :: "int \<Rightarrow> string \<Rightarrow> nat \<Rightarrow> nat qop" where
  "pruneFile cutoff name removed =
    hbind (sysLstat name) (\<lambda>info.
    if qnKind info \<noteq> RegularFile then hfail (qintegrity ''not a regular file'')
    else if qnModTime info > cutoff then hreturn removed
    else hbind (sysRemove name) (\<lambda>_. hreturn (Suc removed)))"

definition pruneName :: "int \<Rightarrow> string \<Rightarrow> nat \<Rightarrow> nat qop" where
  "pruneName cutoff name removed =
    (if hasPrefix name publicationTempPrefix then
       (if \<not> validPublicationTempName name then hfail (qintegrity ''unsafe publication temp filename'')
        else pruneFile cutoff name removed)
     else if \<not> hasSuffix name candidateSuffix then hreturn removed
     else if \<not> validID (trimSuffix name candidateSuffix) then hfail (qintegrity ''unsafe candidate filename'')
     else pruneFile cutoff name removed)"

fun pruneLoop :: "int \<Rightarrow> string list \<Rightarrow> nat \<Rightarrow> nat qop" where
  "pruneLoop cutoff [] removed = hreturn removed"
| "pruneLoop cutoff (name # names) removed = hbind (pruneName cutoff name removed) (pruneLoop cutoff names)"

definition pruneBefore :: "int \<Rightarrow> nat qop" where
  "pruneBefore cutoff =
    hbind (hbind sysOpenDir (\<lambda>_. finallyClose sysReadDir)) (\<lambda>names. pruneLoop cutoff names 0)"

section \<open>Opening\<close>

text \<open>Opening looks at the host: \<open>MkdirAll\<close>, \<open>OpenRoot\<close> (with what \<open>Stat\<close> of the opened root tells) and \<open>Chmod\<close> are
  parameters.\<close>

record rootCalls =
  rcMkdirAll :: "host \<Rightarrow> string \<Rightarrow> host \<times> unit res"
  rcOpenRoot :: "host \<Rightarrow> string \<Rightarrow> fileInfo res res"
  rcChmod :: "host \<Rightarrow> host \<times> unit res"

definition openPinned :: "rootCalls \<Rightarrow> string \<Rightarrow> host \<Rightarrow> unit res" where
  "openPinned c dir h =
    andThen (hsLstat h dir) (\<lambda>before.
    if fiKind before \<noteq> Directory then Inl (qinvalid ''directory must be a real directory'') else
    andThen (rcOpenRoot c h dir) (\<lambda>stat. andThen stat (\<lambda>opened.
    andThen (hsLstat h dir) (\<lambda>after.
    if fiKind after \<noteq> Directory \<or> \<not> sameFile before opened \<or> \<not> sameFile opened after
    then Inl (qintegrity ''quarantine root changed while opening'') else Inr ()))))"

definition quarantineOpen :: "rootCalls \<Rightarrow> string \<Rightarrow> (host, unit) stateop" where
  "quarantineOpen c dir =
    (if dir = [] then hfail (qinvalid ''directory is required'') else
     hbind (hread (\<lambda>h. pathAbs h dir)) (\<lambda>absolute.
     hbind (hread (\<lambda>h. case hsLstat h absolute of
         Inr info \<Rightarrow> if fiKind info \<noteq> Directory then Inl (qinvalid ''directory must be a real directory'') else Inr ()
       | Inl e \<Rightarrow> if errors_is e errNotExist then Inr () else Inl e)) (\<lambda>_.
     hbind (\<lambda>h. rcMkdirAll c h absolute) (\<lambda>_.
     hbind (hread (openPinned c absolute)) (\<lambda>_. rcChmod c)))))"

definition quarantineOpenExisting :: "rootCalls \<Rightarrow> string \<Rightarrow> host \<Rightarrow> unit res" where
  "quarantineOpenExisting c dir h =
    (if dir = [] then Inl (qinvalid ''directory is required'') else
     andThen (pathAbs h dir) (\<lambda>absolute.
     case hsLstat h absolute of
       Inl e \<Rightarrow> if errors_is e errNotExist then Inl (Errorf ''QUARANTINE_MISSING'' [e]) else Inl e
     | Inr _ \<Rightarrow> openPinned c absolute h))"

section \<open>Invariants of operations under interference\<close>

definition harmless :: "(qdisk \<Rightarrow> bool) \<Rightarrow> qstep \<Rightarrow> bool" where
  "harmless P s \<longleftrightarrow> (\<forall>d. P d \<longrightarrow> P (qsOther s d))"

text \<open>Running \<open>m\<close> from a disk with \<open>P\<close> ends in a disk with \<open>Q r\<close>, provided every step's interference is in \<open>R\<close>;
  what is left of the steps is a tail of them.\<close>

definition runs :: "(qstep \<Rightarrow> bool) \<Rightarrow> (qdisk \<Rightarrow> bool) \<Rightarrow> (qstate \<Rightarrow> qstate \<times> 'r) \<Rightarrow> ('r \<Rightarrow> qdisk \<Rightarrow> bool) \<Rightarrow> bool" where
  "runs R P m Q \<longleftrightarrow> (\<forall>d steps d' steps' r. P d \<longrightarrow> list_all R steps \<longrightarrow> m (d, steps) = ((d', steps'), r) \<longrightarrow>
     Q r d' \<and> list_all R steps')"

abbreviation keeps :: "(qstep \<Rightarrow> bool) \<Rightarrow> (qdisk \<Rightarrow> bool) \<Rightarrow> (qstate \<Rightarrow> qstate \<times> 'r) \<Rightarrow> bool" where
  "keeps R P m \<equiv> runs R P m (\<lambda>_. P)"

lemma runsD: "runs R P m Q \<Longrightarrow> P d \<Longrightarrow> list_all R steps \<Longrightarrow> m (d, steps) = ((d', steps'), r) \<Longrightarrow> Q r d' \<and> list_all R steps'"
  unfolding runs_def by blast

lemma runs_weaken: "runs R P m Q \<Longrightarrow> (\<And>r d. Q r d \<Longrightarrow> Q' r d) \<Longrightarrow> runs R P m Q'"
  unfolding runs_def by blast

lemma runs_pre: "runs R P m Q \<Longrightarrow> (\<And>d. P' d \<Longrightarrow> P d) \<Longrightarrow> runs R P' m Q"
  unfolding runs_def by blast

lemma list_all_drop: "list_all R xs \<Longrightarrow> list_all R (drop n xs)"
  by (metis append_take_drop_id list_all_append)

lemma runs_sysCall:
  assumes "\<And>s. R s \<Longrightarrow> harmless P s"
    and "\<And>e d. P d \<Longrightarrow> Q (Inl e) d" "\<And>s d d' r. R s \<or> s = quietStep \<Longrightarrow> P d \<Longrightarrow> f s d = (d', r) \<Longrightarrow> Q r d'"
  shows "runs R P (sysCall f) Q"
  unfolding runs_def
proof (intro allI impI)
  fix d steps d' steps' r
  assume P: "P d" and R: "list_all R steps" and m: "sysCall f (d, steps) = ((d', steps'), r)"
  define s where "s = (case steps of [] \<Rightarrow> quietStep | s # _ \<Rightarrow> s)"
  have P1: "P (qsOther s d)"
  proof (cases steps)
    case Nil
    then show ?thesis using P by (simp add: s_def quietStep_def)
  next
    case (Cons a b)
    then show ?thesis using P R assms(1) [of a] by (simp add: s_def harmless_def)
  qed
  have s: "R s \<or> s = quietStep" using R by (cases steps) (simp_all add: s_def)
  have "Q r d'"
  proof (cases "qsFault s")
    case None
    then have "f s (qsOther s d) = (d', r)" using m by (auto simp: sysCall_def Let_def s_def split: prod.splits list.splits)
    then show ?thesis using assms(3) [OF s P1] by blast
  next
    case (Some e)
    then have "d' = qsOther s d" "r = Inl e" using m by (auto simp: sysCall_def Let_def s_def split: prod.splits list.splits)
    then show ?thesis using assms(2) P1 by blast
  qed
  moreover have "steps' = drop 1 steps" using m by (auto simp: sysCall_def Let_def split: prod.splits)
  ultimately show "Q r d' \<and> list_all R steps'" using R list_all_drop by blast
qed

lemma runs_hbind:
  assumes "runs R P m Q" "\<And>e d. Q (Inl e) d \<Longrightarrow> S (Inl e) d" "\<And>x. runs R (Q (Inr x)) (f x) S"
  shows "runs R P (hbind m f) S"
  unfolding runs_def
proof (intro allI impI)
  fix d steps d' steps' r
  assume P: "P d" and R: "list_all R steps" and x: "hbind m f (d, steps) = ((d', steps'), r)"
  obtain d1 s1 r1 where m: "m (d, steps) = ((d1, s1), r1)" by (metis prod.collapse)
  note q = runsD [OF assms(1) P R m]
  show "S r d' \<and> list_all R steps'"
  proof (cases r1)
    case (Inl e)
    then show ?thesis using q x m assms(2) by (auto simp: hbind_def)
  next
    case (Inr y)
    then show ?thesis using x m runsD [OF assms(3), of y d1 s1] q by (auto simp: hbind_def)
  qed
qed

lemma runs_hfail: "(\<And>d. P d \<Longrightarrow> Q (Inl e) d) \<Longrightarrow> runs R P (hfail e) Q"
  by (simp add: runs_def)

lemma runs_hreturn: "(\<And>d. P d \<Longrightarrow> Q (Inr x) d) \<Longrightarrow> runs R P (hreturn x) Q"
  by (simp add: runs_def)

lemma runs_hwrap:
  assumes "runs R P m Q" "\<And>e d. Q (Inl e) d \<Longrightarrow> Q (Inl (Errorf msg [e])) d"
  shows "runs R P (hwrap msg m) Q"
  unfolding runs_def
proof (intro allI impI)
  fix d steps d' steps' r
  assume P: "P d" and R: "list_all R steps" and x: "hwrap msg m (d, steps) = ((d', steps'), r)"
  obtain d1 s1 r1 where m: "m (d, steps) = ((d1, s1), r1)" by (metis prod.collapse)
  show "Q r d' \<and> list_all R steps'"
    using runsD [OF assms(1) P R m] x m assms(2) by (cases r1) (auto simp: hwrap_def)
qed

lemma runs_if: "(b \<Longrightarrow> runs R P m Q) \<Longrightarrow> (\<not> b \<Longrightarrow> runs R P m' Q) \<Longrightarrow> runs R P (if b then m else m') Q"
  by simp

lemma runs_read:
  assumes "\<And>s. R s \<Longrightarrow> harmless P s" "\<And>s d. fst (f s d) = d"
  shows "keeps R P (sysCall f)"
proof (rule runs_sysCall)
  show "P d'" if "P d" "f s d = (d', r)" for s d d' r using assms(2) [of s d] that by simp
qed (use assms(1) in auto)


section \<open>Sealed disks\<close>

text \<open>\<open>ok\<close> says which bytes publishers may store under which id. On a sealed disk every candidate name, the visible
  one and the one that survives a crash, has bytes that are allowed, complete and themselves durable.\<close>

definition named :: "qdisk \<Rightarrow> string \<Rightarrow> nat \<Rightarrow> bool" where
  "named d name n \<longleftrightarrow> mget (qdNames d) name = Some n \<or> mget (qdStable d) name = Some n"

definition sealedNode :: "(string \<Rightarrow> bool) \<Rightarrow> qnode \<Rightarrow> bool" where
  "sealedNode good x \<longleftrightarrow> qnSynced x = qnData x \<and> good (qnData x)"

definition sealedDisk :: "(string \<Rightarrow> string \<Rightarrow> bool) \<Rightarrow> qdisk \<Rightarrow> bool" where
  "sealedDisk ok d \<longleftrightarrow> (\<forall>name n. named d name n \<longrightarrow> n < length (qdNodes d)) \<and>
    (\<forall>i n. validID i \<longrightarrow> named d (candidateName i) n \<longrightarrow> sealedNode (ok i) (qdNodes d ! n))"

text \<open>File \<open>n\<close> has no name but \<open>T\<close>.\<close>

definition privateFile :: "string \<Rightarrow> nat \<Rightarrow> qdisk \<Rightarrow> bool" where
  "privateFile T n d \<longleftrightarrow> mget (qdNames d) T = Some n \<and> n < length (qdNodes d) \<and> (\<forall>name. named d name n \<longrightarrow> name = T)"

text \<open>Interference keeps the disk sealed and leaves the private files of this process alone.\<close>

definition civil :: "(string \<Rightarrow> string \<Rightarrow> bool) \<Rightarrow> string \<Rightarrow> (qdisk \<Rightarrow> qdisk) \<Rightarrow> bool" where
  "civil ok T f \<longleftrightarrow> (\<forall>d. sealedDisk ok d \<longrightarrow> sealedDisk ok (f d) \<and>
     (\<forall>n. privateFile T n d \<longrightarrow> privateFile T n (f d) \<and> qdNodes (f d) ! n = qdNodes d ! n))"

definition careful :: "(string \<Rightarrow> string \<Rightarrow> bool) \<Rightarrow> string set \<Rightarrow> qstep \<Rightarrow> bool" where
  "careful ok Ts s \<longleftrightarrow> tempNameOf (qsNonce s) \<in> Ts \<and> (\<forall>T\<in>Ts. civil ok T (qsOther s))"

lemma sealedD: "sealedDisk ok d \<Longrightarrow> named d name n \<Longrightarrow> n < length (qdNodes d)"
  "sealedDisk ok d \<Longrightarrow> validID i \<Longrightarrow> named d (candidateName i) n \<Longrightarrow> sealedNode (ok i) (qdNodes d ! n)"
  unfolding sealedDisk_def by blast+

lemma sealedI:
  assumes "\<And>name n. named d name n \<Longrightarrow> n < length (qdNodes d)"
    and "\<And>i n. validID i \<Longrightarrow> named d (candidateName i) n \<Longrightarrow> sealedNode (ok i) (qdNodes d ! n)"
  shows "sealedDisk ok d"
  using assms unfolding sealedDisk_def by blast

lemma careful_sealed: "Ts \<noteq> {} \<Longrightarrow> careful ok Ts s \<Longrightarrow> harmless (sealedDisk ok) s"
  unfolding careful_def civil_def harmless_def by blast

lemma careful_private:
  "T \<in> Ts \<Longrightarrow> careful ok Ts s \<Longrightarrow>
   harmless (\<lambda>d. sealedDisk ok d \<and> privateFile T n d \<and> X (qdNodes d ! n)) s"
  unfolding careful_def civil_def harmless_def by fastforce

lemma candidate_head: "validID i \<Longrightarrow> \<exists>c rest. candidateName i = c # rest \<and> c \<noteq> CHR ''.''"
  by (cases i) (auto simp: validID_def candidateName_def inRanges_def alphanumeric_def char_le_iff)

lemma temp_not_candidate: "validID i \<Longrightarrow> candidateName i \<noteq> tempNameOf nonce"
  using candidate_head [of i] by (auto simp: tempNameOf_def publicationTempPrefix_def)

text \<open>Changing a private file, naming nothing new, removing names and syncing the directory keep a disk sealed.\<close>

lemma private_not_candidate: "privateFile (tempNameOf nonce) n d \<Longrightarrow> validID i \<Longrightarrow> \<not> named d (candidateName i) n"
  using temp_not_candidate unfolding privateFile_def by metis

lemma named_setNode [simp]: "named (setNode n f d) = named d"
  by (simp add: fun_eq_iff named_def setNode_def)

lemma length_setNode [simp]: "length (qdNodes (setNode n f d)) = length (qdNodes d)"
  by (simp add: setNode_def)

lemma sealed_setNode:
  assumes s: "sealedDisk ok d" and p: "privateFile (tempNameOf nonce) n d"
  shows "sealedDisk ok (setNode n f d)"
proof (rule sealedI)
  fix i k
  assume i: "validID i" and k: "named (setNode n f d) (candidateName i) k"
  then have "k \<noteq> n" using private_not_candidate [OF p i] by auto
  then show "sealedNode (ok i) (qdNodes (setNode n f d) ! k)"
    using sealedD(2) [OF s i, of k] k unfolding named_setNode by (simp add: setNode_def)
qed (use sealedD(1) [OF s] in simp)

lemma private_setNode: "privateFile T n (setNode n f d) \<longleftrightarrow> privateFile T n d"
  by (simp add: privateFile_def) (simp add: setNode_def)

lemma node_setNode: "privateFile T n d \<Longrightarrow> qdNodes (setNode n f d) ! n = f (qdNodes d ! n)"
  by (simp add: privateFile_def setNode_def)

lemma sealed_fewer:
  assumes "sealedDisk ok d" "qdNodes d' = qdNodes d" "\<And>name n. named d' name n \<Longrightarrow> named d name n"
  shows "sealedDisk ok d'"
proof (rule sealedI)
  show "k < length (qdNodes d')" if "named d' name k" for name k
    using sealedD(1) [OF assms(1) assms(3) [OF that]] assms(2) by simp
  show "sealedNode (ok i) (qdNodes d' ! k)" if "validID i" "named d' (candidateName i) k" for i k
    using sealedD(2) [OF assms(1) that(1) assms(3) [OF that(2)]] assms(2) by simp
qed

lemma sealed_create:
  assumes s: "sealedDisk ok d" and T: "T = tempNameOf nonce" "\<not> mhas (qdNames d) T"
    and d': "d' = d\<lparr>qdNodes := qdNodes d @ [x], qdNames := mput T (length (qdNodes d)) (qdNames d)\<rparr>"
  shows "sealedDisk ok d' \<and> privateFile T (length (qdNodes d)) d' \<and> qdNodes d' ! length (qdNodes d) = x"
proof -
  have n: "named d' name k \<longleftrightarrow> (if name = T then k = length (qdNodes d) \<or> mget (qdStable d) T = Some k else named d name k)" for name k
    by (auto simp: named_def d' mget_mput)
  have old: "k < length (qdNodes d)" if "named d name k" for name k using sealedD(1) [OF s that] .
  have st: "mget (qdStable d) T = Some k \<Longrightarrow> k < length (qdNodes d)" for k using old [of T k] by (simp add: named_def)
  have "sealedDisk ok d'"
  proof (rule sealedI)
    fix name k
    assume "named d' name k"
    then show "k < length (qdNodes d')" using old st unfolding n by (fastforce simp: d' split: if_split_asm)
  next
    fix i k
    assume i: "validID i" and k: "named d' (candidateName i) k"
    then have "named d (candidateName i) k" using temp_not_candidate [OF i] T(1) unfolding n by metis
    then show "sealedNode (ok i) (qdNodes d' ! k)" using sealedD(2) [OF s i] old by (simp add: d' nth_append)
  qed
  moreover have "privateFile T (length (qdNodes d)) d'"
    unfolding privateFile_def n by (auto simp: d' mget_mput dest: old split: if_split_asm)
  ultimately show ?thesis by (simp add: d')
qed

lemma sealed_link:
  assumes s: "sealedDisk ok d" and i: "validID i" and x: "n < length (qdNodes d)" "sealedNode (ok i) (qdNodes d ! n)"
  shows "sealedDisk ok (d\<lparr>qdNames := mput (candidateName i) n (qdNames d)\<rparr>)"
proof -
  have n: "named (d\<lparr>qdNames := mput (candidateName i) n (qdNames d)\<rparr>) name k \<Longrightarrow> name = candidateName i \<and> k = n \<or> named d name k"
    for name k by (auto simp: named_def mget_mput split: if_split_asm)
  have "j = i" if "candidateName j = candidateName i" for j using that by (simp add: candidateName_def)
  then show ?thesis using n sealedD [OF s] x by (intro sealedI) (fastforce dest: n)+
qed


section \<open>The operations on a sealed disk\<close>

definition tempSet :: "string set \<Rightarrow> bool" where
  "tempSet Ts \<longleftrightarrow> Ts \<subseteq> range tempNameOf \<and> tempNameOf (qsNonce quietStep) \<in> Ts"

abbreviation keepsSealed :: "(string \<Rightarrow> string \<Rightarrow> bool) \<Rightarrow> string set \<Rightarrow> (qstate \<Rightarrow> qstate \<times> 'r) \<Rightarrow> bool" where
  "keepsSealed ok Ts m \<equiv> keeps (careful ok Ts) (sealedDisk ok) m"

abbreviation holding :: "(string \<Rightarrow> string \<Rightarrow> bool) \<Rightarrow> string \<Rightarrow> nat \<Rightarrow> (qnode \<Rightarrow> bool) \<Rightarrow> qdisk \<Rightarrow> bool" where
  "holding ok T n X d \<equiv> sealedDisk ok d \<and> privateFile T n d \<and> X (qdNodes d ! n)"

lemma tempSet_careful: "tempSet Ts \<Longrightarrow> careful ok Ts s \<Longrightarrow> harmless (sealedDisk ok) s"
  using careful_sealed by (auto simp: tempSet_def)

lemma keeps_fewer:
  assumes "tempSet Ts" "\<And>s d d' r. f s d = (d', r) \<Longrightarrow> qdNodes d' = qdNodes d \<and> (\<forall>name n. named d' name n \<longrightarrow> named d name n)"
  shows "keepsSealed ok Ts (sysCall f)"
proof (rule runs_sysCall)
  show "sealedDisk ok d'" if "sealedDisk ok d" "f s d = (d', r)" for s d d' r
    using sealed_fewer [OF that(1)] assms(2) [OF that(2)] by blast
qed (use tempSet_careful [OF assms(1)] in auto)

lemma named_delete: "named (d\<lparr>qdNames := mdel name0 (qdNames d)\<rparr>) name n \<Longrightarrow> named d name n"
  by (auto simp: named_def mget_mdel split: if_split_asm)

lemma keeps_simple:
  assumes "tempSet Ts"
  shows "keepsSealed ok Ts sysRandom" "keepsSealed ok Ts sysClose" "keepsSealed ok Ts sysOpenDir" "keepsSealed ok Ts sysSyncDir"
    "keepsSealed ok Ts sysReadDir" "keepsSealed ok Ts (sysLstat name)" "keepsSealed ok Ts (sysReadFile name)" "keepsSealed ok Ts (sysRemove name)"
  unfolding sysRandom_def sysClose_def sysOpenDir_def sysSyncDir_def sysReadDir_def sysLstat_def sysReadFile_def sysRemove_def
  by (rule keeps_fewer [OF assms]; force simp: named_def mget_mdel split: option.splits if_splits)+

lemma keeps_hbind: "keeps R P m \<Longrightarrow> (\<And>x. keeps R P (f x)) \<Longrightarrow> keeps R P (hbind m f)"
  by (rule runs_hbind) auto

lemma runs_then:
  assumes "runs R P m (\<lambda>_. Q)" "runs R Q m' (\<lambda>_. S)"
    and "\<And>st. \<exists>r. k st = (fst (m' (fst (m st))), r)"
  shows "runs R P k (\<lambda>_. S)"
  unfolding runs_def
proof (intro allI impI)
  fix d steps d' steps' r
  assume P: "P d" and R: "list_all R steps" and k: "k (d, steps) = ((d', steps'), r)"
  obtain d1 s1 r1 where m: "m (d, steps) = ((d1, s1), r1)" by (metis prod.collapse)
  obtain d2 s2 r2 where m': "m' (d1, s1) = ((d2, s2), r2)" by (metis prod.collapse)
  have "d2 = d'" "s2 = steps'" using assms(3) [of "(d, steps)"] m m' k by auto
  then show "S d' \<and> list_all R steps'" using runsD [OF assms(1) P R m] runsD [OF assms(2) _ _ m'] by simp
qed

lemma keeps_finally: "keeps R P m \<Longrightarrow> keeps R P sysClose \<Longrightarrow> keeps R P (finallyClose m)"
  by (rule runs_then [where m = m and m' = sysClose]) (auto simp: finallyClose_def split: prod.splits)

lemma keeps_thenRemove: "runs R P m (\<lambda>_. Q) \<Longrightarrow> keeps R Q (sysRemove T) \<Longrightarrow> runs R P (thenRemove T m) (\<lambda>_. Q)"
  by (rule runs_then [where m = m and m' = "sysRemove T"]) (auto simp: thenRemove_def split: prod.splits)

lemmas keeps_intros = keeps_hbind runs_hwrap runs_hfail runs_hreturn runs_if keeps_finally keeps_simple

lemma keeps_readID: "tempSet Ts \<Longrightarrow> keepsSealed ok Ts (readID i)"
  unfolding readID_def by (intro keeps_intros) auto

lemma keeps_syncRoot: "tempSet Ts \<Longrightarrow> keepsSealed ok Ts syncRootDirectory"
  unfolding syncRootDirectory_def by (intro keeps_intros) auto


definition filled :: "string \<Rightarrow> qnode \<Rightarrow> bool" where
  "filled content x \<longleftrightarrow> qnData x = content \<and> qnSynced x = content"

lemma runs_create:
  assumes "tempSet Ts" "T \<in> Ts"
  shows "runs (careful ok Ts) (sealedDisk ok) (sysCreate T)
    (\<lambda>r d. sealedDisk ok d \<and> (\<forall>n. r = Inr n \<longrightarrow> holding ok T n (\<lambda>x. qnData x = []) d))"
  unfolding sysCreate_def
proof (rule runs_sysCall)
  obtain nonce where T: "T = tempNameOf nonce" using assms by (auto simp: tempSet_def)
  fix s d d' r
  assume s: "sealedDisk ok d" and x: "(if mhas (qdNames d) T then (d, Inl errExist)
     else (d\<lparr>qdNodes := qdNodes d @ [\<lparr>qnKind = RegularFile, qnData = [], qnSynced = [], qnModTime = qsTime s\<rparr>],
             qdNames := mput T (length (qdNodes d)) (qdNames d)\<rparr>, Inr (length (qdNodes d)))) = (d', r)"
  show "sealedDisk ok d' \<and> (\<forall>n. r = Inr n \<longrightarrow> holding ok T n (\<lambda>x. qnData x = []) d')"
  proof (cases "mhas (qdNames d) T")
    case True
    then show ?thesis using s x by auto
  next
    case False
    then have "d' = d\<lparr>qdNodes := qdNodes d @ [\<lparr>qnKind = RegularFile, qnData = [], qnSynced = [], qnModTime = qsTime s\<rparr>],
             qdNames := mput T (length (qdNodes d)) (qdNames d)\<rparr>" "r = Inr (length (qdNodes d))" using x by auto
    then show ?thesis using sealed_create [OF s T False, of d'] by auto
  qed
qed (use tempSet_careful [OF assms(1)] in auto)

lemma runs_setNode:
  assumes "tempSet Ts" "T \<in> Ts" "\<And>s x. X x \<Longrightarrow> Y (h s) (f s x)"
  shows "runs (careful ok Ts) (holding ok T n X) (sysCall (\<lambda>s d. (setNode n (f s) d, Inr (h s))))
    (\<lambda>r d. sealedDisk ok d \<and> (\<forall>k. r = Inr k \<longrightarrow> holding ok T n (Y k) d))"
proof (rule runs_sysCall)
  obtain nonce where T: "T = tempNameOf nonce" using assms by (auto simp: tempSet_def)
  show "harmless (holding ok T n X) s" if "careful ok Ts s" for s by (rule careful_private [OF assms(2) that])
  fix s d d' r
  assume d: "holding ok T n X d" and "(setNode n (f s) d, Inr (h s)) = (d', r)"
  then show "sealedDisk ok d' \<and> (\<forall>k. r = Inr k \<longrightarrow> holding ok T n (Y k) d')"
    using sealed_setNode [of ok d nonce n] assms(3) [of "qdNodes d ! n" s] node_setNode [of T n d]
    by (auto simp: T private_setNode)
qed auto

lemma runs_readHolding:
  assumes "T \<in> Ts" "\<And>s d. fst (f s d) = d"
  shows "keeps (careful ok Ts) (holding ok T n X) (sysCall f)"
  by (rule runs_read [OF careful_private [OF assms(1)] assms(2)])

lemma runs_fillFile:
  assumes "tempSet Ts" "T \<in> Ts"
  shows "runs (careful ok Ts) (holding ok T n (\<lambda>x. qnData x = [])) (fillFile n content)
    (\<lambda>r d. sealedDisk ok d \<and> (r = Inr () \<longrightarrow> holding ok T n (filled content) d))"
proof -
  let ?Q = "\<lambda>r d. sealedDisk ok d \<and> (r = Inr () \<longrightarrow> holding ok T n (filled content) d)"
  let ?m = "hbind (sysWrite n content) (\<lambda>k. if k \<noteq> length content then hfail errShortWrite
            else hbind (sysSync n) (\<lambda>_. sysClose))"
  have "runs (careful ok Ts) (holding ok T n (\<lambda>x. qnData x = [])) ?m ?Q"
  proof (rule runs_hbind [where Q = "\<lambda>r d. sealedDisk ok d \<and> (\<forall>k. r = Inr k \<longrightarrow> holding ok T n (\<lambda>x. k = length content \<longrightarrow> qnData x = content) d)"])
    show "runs (careful ok Ts) (holding ok T n (\<lambda>x. qnData x = [])) (sysWrite n content)
       (\<lambda>r d. sealedDisk ok d \<and> (\<forall>k. r = Inr k \<longrightarrow> holding ok T n (\<lambda>x. k = length content \<longrightarrow> qnData x = content) d))"
      unfolding sysWrite_def Let_def by (rule runs_setNode [OF assms]) (auto split: option.splits)
  next
    fix k
    have "runs (careful ok Ts) (holding ok T n (\<lambda>x. qnData x = content)) (hbind (sysSync n) (\<lambda>_. sysClose)) ?Q"
    proof (rule runs_hbind [where Q = "\<lambda>r d. sealedDisk ok d \<and> (\<forall>k. r = Inr k \<longrightarrow> holding ok T n (filled content) d)"])
      show "runs (careful ok Ts) (holding ok T n (\<lambda>x. qnData x = content)) (sysSync n)
         (\<lambda>r d. sealedDisk ok d \<and> (\<forall>k. r = Inr k \<longrightarrow> holding ok T n (filled content) d))"
        unfolding sysSync_def by (rule runs_setNode [OF assms]) (auto simp: filled_def)
      show "runs (careful ok Ts) (\<lambda>d. sealedDisk ok d \<and> (\<forall>k. Inr x = Inr k \<longrightarrow> holding ok T n (filled content) d)) sysClose ?Q" for x
        unfolding sysClose_def
        by (rule runs_pre [OF runs_weaken [OF runs_readHolding [OF assms(2), where X = "filled content" and n = n]]]) auto
    qed auto
    then show "runs (careful ok Ts) (\<lambda>d. sealedDisk ok d \<and> (\<forall>k'. Inr k = Inr k' \<longrightarrow> holding ok T n (\<lambda>x. k' = length content \<longrightarrow> qnData x = content) d))
       (if k \<noteq> length content then hfail errShortWrite else hbind (sysSync n) (\<lambda>_. sysClose)) ?Q"
      by (intro runs_if runs_hfail) (auto elim: runs_pre)
  qed auto
  note inner = runsD [OF this]
  show ?thesis
    unfolding runs_def
  proof (intro allI impI)
    fix d steps d' steps' r
    assume P: "holding ok T n (\<lambda>x. qnData x = []) d" and R: "list_all (careful ok Ts) steps" and x: "fillFile n content (d, steps) = ((d', steps'), r)"
    obtain d1 s1 r1 where m: "?m (d, steps) = ((d1, s1), r1)" by (metis prod.collapse)
    obtain d2 s2 r2 where c: "sysClose (d1, s1) = ((d2, s2), r2)" by (metis prod.collapse)
    note i = inner [OF P R m]
    show "(sealedDisk ok d' \<and> (r = Inr () \<longrightarrow> holding ok T n (filled content) d')) \<and> list_all (careful ok Ts) steps'"
    proof (cases r1)
      case (Inl e)
      then show ?thesis using x m c i runsD [OF keeps_simple(2) [OF assms(1)] _ _ c] by (auto simp: fillFile_def)
    next
      case (Inr u)
      then show ?thesis using x m i by (simp add: fillFile_def)
    qed
  qed
qed

lemma runs_link:
  assumes "tempSet Ts" "T \<in> Ts" "validID i" "ok i content"
  shows "runs (careful ok Ts) (holding ok T n (filled content)) (sysLink T (candidateName i)) (\<lambda>_. sealedDisk ok)"
  unfolding sysLink_def
proof (rule runs_sysCall)
  show "harmless (holding ok T n (filled content)) s" if "careful ok Ts s" for s by (rule careful_private [OF assms(2) that])
  fix s d d' r
  assume d: "holding ok T n (filled content) d" and x: "(case mget (qdNames d) T of
       None \<Rightarrow> (d, Inl errNotExist)
     | Some n \<Rightarrow> if mhas (qdNames d) (candidateName i) then (d, Inl errExist)
         else (d\<lparr>qdNames := mput (candidateName i) n (qdNames d)\<rparr>, Inr ())) = (d', r)"
  then have n: "mget (qdNames d) T = Some n" "n < length (qdNodes d)" by (auto simp: privateFile_def)
  have "sealedNode (ok i) (qdNodes d ! n)" using d assms(4) by (simp add: filled_def sealedNode_def)
  then show "sealedDisk ok d'" using d x n sealed_link [of ok d i n] assms(3) by (auto split: if_split_asm)
qed auto

lemma runs_newTemp:
  assumes "tempSet Ts"
  shows "runs (careful ok Ts) (sealedDisk ok) newPublicationTempName (\<lambda>r d. sealedDisk ok d \<and> (\<forall>T. r = Inr T \<longrightarrow> T \<in> Ts))"
  unfolding newPublicationTempName_def
proof (rule runs_hbind)
  show "runs (careful ok Ts) (sealedDisk ok) (hwrap ''QUARANTINE_INVALID: generate publication temp name'' sysRandom)
     (\<lambda>r d. sealedDisk ok d \<and> (\<forall>nonce. r = Inr nonce \<longrightarrow> tempNameOf nonce \<in> Ts))"
    unfolding sysRandom_def
  proof (rule runs_hwrap [OF runs_sysCall])
    show "sealedDisk ok d' \<and> (\<forall>nonce. r = Inr nonce \<longrightarrow> tempNameOf nonce \<in> Ts)"
      if "careful ok Ts s \<or> s = quietStep" "sealedDisk ok d" "(d, Inr (qsNonce s)) = (d', r)" for s d d' r
      using that assms by (auto simp: careful_def tempSet_def)
  qed (use tempSet_careful [OF assms] in auto)
qed (auto intro: runs_hreturn)

lemma keeps_put:
  assumes "tempSet Ts" "validID i \<Longrightarrow> ok i content"
  shows "keepsSealed ok Ts (quarantinePut i content)"
proof (cases "validID i")
  case True
  have pub: "runs (careful ok Ts) (holding ok T n (\<lambda>x. qnData x = [])) (publish T i content n) (\<lambda>_. sealedDisk ok)"
    if "T \<in> Ts" for T n
    unfolding publish_def
  proof (rule runs_hbind [OF runs_fillFile [OF assms(1) that]])
    let ?link = "sysLink T (candidateName i)"
    have l: "runs (careful ok Ts) (holding ok T n (filled content)) ?link (\<lambda>_. sealedDisk ok)"
      by (rule runs_link) (use assms that True in auto)
    show "runs (careful ok Ts) (\<lambda>d. sealedDisk ok d \<and> (Inr x = Inr () \<longrightarrow> holding ok T n (filled content) d))
       (hbind ?link (\<lambda>_. hbind (hwrap ''QUARANTINE_DURABILITY_FAILURE: sync published candidate directory entry'' syncRootDirectory) (\<lambda>_.
        hbind (hwrap ''QUARANTINE_INTEGRITY_FAILURE: verify published candidate'' (readID i)) (\<lambda>(published, got).
        if got \<noteq> content then hfail (qintegrity ''published candidate bytes changed'') else hreturn published)))) (\<lambda>_. sealedDisk ok)" for x
      by (rule runs_hbind [OF runs_pre [OF l]])
        (auto intro!: keeps_intros keeps_syncRoot keeps_readID assms(1) split: prod.splits)
  qed simp
  have create: "runs (careful ok Ts) (sealedDisk ok) (hbind (sysCreate T) (\<lambda>n. thenRemove T (publish T i content n))) (\<lambda>_. sealedDisk ok)"
    if "T \<in> Ts" for T
    by (rule runs_hbind [OF runs_create [OF assms(1) that]], simp,
        rule keeps_thenRemove [OF runs_pre [OF pub [OF that]] keeps_simple(8) [OF assms(1)]]) auto
  show ?thesis
  proof -
    let ?f = "\<lambda>T. hbind (sysCreate T) (\<lambda>n. thenRemove T (publish T i content n))"
    have "runs (careful ok Ts) (\<lambda>d. sealedDisk ok d \<and> (\<forall>T'. Inr T = Inr T' \<longrightarrow> T' \<in> Ts)) (?f T) (\<lambda>_. sealedDisk ok)" for T
    proof (cases "T \<in> Ts")
      case True
      show ?thesis by (rule runs_pre [OF create [OF True]]) simp
    next
      case False
      then show ?thesis by (simp add: runs_def)
    qed
    then have "keepsSealed ok Ts (hbind newPublicationTempName ?f)" by (intro runs_hbind [OF runs_newTemp [OF assms(1)]]) auto
    then show ?thesis using True by (simp add: quarantinePut_def)
  qed
next
  case False
  then show ?thesis by (simp add: quarantinePut_def runs_hfail)
qed


lemma keeps_converge:
  assumes "tempSet Ts"
  shows "keepsSealed ok Ts (converge i content inTime)"
  unfolding runs_def
proof (intro allI impI)
  fix d steps d' steps' r
  assume P: "sealedDisk ok d" and R: "list_all (careful ok Ts) steps" and x: "converge i content inTime (d, steps) = ((d', steps'), r)"
  let ?sync = "hwrap ''QUARANTINE_DURABILITY_FAILURE: sync existing candidate directory entry'' syncRootDirectory"
  obtain d1 s1 r1 where 1: "readID i (d, steps) = ((d1, s1), r1)" by (metis prod.collapse)
  obtain d2 s2 r2 where 2: "?sync (d1, s1) = ((d2, s2), r2)" by (metis prod.collapse)
  obtain d3 s3 r3 where 3: "readID i (d2, s2) = ((d3, s3), r3)" by (metis prod.collapse)
  have k1: "sealedDisk ok d1 \<and> list_all (careful ok Ts) s1" by (rule runsD [OF keeps_readID [OF assms] P R 1])
  then have k2: "sealedDisk ok d2 \<and> list_all (careful ok Ts) s2"
    by (intro runsD [OF runs_hwrap [OF keeps_syncRoot [OF assms]] _ _ 2]) auto
  then have k3: "sealedDisk ok d3 \<and> list_all (careful ok Ts) s3" by (intro runsD [OF keeps_readID [OF assms] _ _ 3]) auto
  have "d' = d1 \<and> steps' = s1 \<or> d' = d2 \<and> steps' = s2 \<or> d' = d3 \<and> steps' = s3"
    using x 1 2 3 by (auto simp: converge_def split: sum.splits if_split_asm)
  then show "sealedDisk ok d' \<and> list_all (careful ok Ts) steps'" using k1 k2 k3 by blast
qed

declare quarantineEnsure.simps [simp del]

lemma keeps_ensure:
  assumes "tempSet Ts" "validID i \<Longrightarrow> ok i content"
  shows "keepsSealed ok Ts (quarantineEnsure clock i content)"
proof (induction clock)
  let ?K = "\<lambda>d steps. sealedDisk ok d \<and> list_all (careful ok Ts) steps"
  have step: "?K d' steps'" if "?K d steps" "quarantineEnsure clock i content (d, steps) = ((d', steps'), r)"
    and rest: "\<And>c cs d1 s1 r1. clock = c # cs \<Longrightarrow> ?K d1 s1 \<Longrightarrow> quarantineEnsure cs i content (d1, s1) = ((d', steps'), r1) \<Longrightarrow> ?K d' steps'"
    for clock d steps d' steps' r
  proof -
    let ?t = "case clock of [] \<Rightarrow> False | c # _ \<Rightarrow> c"
    obtain d1 s1 r1 where 1: "quarantinePut i content (d, steps) = ((d1, s1), r1)" by (metis prod.collapse)
    obtain d2 s2 r2 where 2: "converge i content ?t (d1, s1) = ((d2, s2), r2)" by (metis prod.collapse)
    have k1: "?K d1 s1" using that(1) runsD [OF keeps_put [of Ts i ok content] _ _ 1] assms by blast
    have k2: "?K d2 s2" using k1 runsD [OF keeps_converge [OF assms(1)] _ _ 2] by blast
    have "d' = d1 \<and> steps' = s1 \<or> d' = d2 \<and> steps' = s2 \<or>
       (\<exists>c cs. clock = c # cs \<and> quarantineEnsure cs i content (d2, s2) = ((d', steps'), r))"
      using that(2) 1 2 unfolding quarantineEnsure.simps [of clock]
      by (cases clock; cases r1; cases r2) (auto split: if_split_asm)
    then show ?thesis using k1 k2 rest by blast
  qed
  {
    case Nil
    show ?case unfolding runs_def using step [of _ _ "[]"] by blast
  next
    case (Cons c cs)
    show ?case
      unfolding runs_def
    proof (intro allI impI)
      fix d steps d' steps' r
      assume a: "sealedDisk ok d" "list_all (careful ok Ts) steps" "quarantineEnsure (c # cs) i content (d, steps) = ((d', steps'), r)"
      show "?K d' steps'" by (rule step [OF _ a(3)]) (use a(1,2) runsD [OF Cons.IH] in \<open>blast\<close>)+
    qed
  }
qed

lemma keeps_remove: "tempSet Ts \<Longrightarrow> keepsSealed ok Ts (quarantineRemove i)"
  unfolding quarantineRemove_def by (intro keeps_intros) auto

lemma keeps_pruneFile: "tempSet Ts \<Longrightarrow> keepsSealed ok Ts (pruneFile cutoff name k)"
  unfolding pruneFile_def by (intro keeps_intros) auto

lemma keeps_pruneLoop: "tempSet Ts \<Longrightarrow> keepsSealed ok Ts (pruneLoop cutoff names k)"
proof (induction names arbitrary: k)
  case (Cons n names)
  have "keepsSealed ok Ts (pruneName cutoff n k)"
    unfolding pruneName_def by (intro keeps_intros keeps_pruneFile Cons.prems) auto
  then show ?case using Cons by (auto intro: keeps_hbind)
qed (auto intro: runs_hreturn)

lemma keeps_prune: "tempSet Ts \<Longrightarrow> keepsSealed ok Ts (pruneBefore cutoff)"
  unfolding pruneBefore_def by (intro keeps_intros keeps_pruneLoop) auto

section \<open>Runs without interference or faults\<close>

definition calm :: "qstep \<Rightarrow> bool" where
  "calm s \<longleftrightarrow> qsOther s = (\<lambda>d. d) \<and> qsFault s = None \<and> qsShort s = None"

definition stepOf :: "qstep list \<Rightarrow> qstep" where
  "stepOf steps = (case steps of [] \<Rightarrow> quietStep | s # _ \<Rightarrow> s)"

lemma calm_stepOf: "list_all calm steps \<Longrightarrow> calm (stepOf steps)"
  by (cases steps) (simp_all add: stepOf_def calm_def quietStep_def)

lemma sysCall_calm:
  "list_all calm steps \<Longrightarrow> sysCall f (d, steps) = (case f (stepOf steps) d of (d', r) \<Rightarrow> ((d', drop 1 steps), r))"
  using calm_stepOf [of steps] by (simp add: sysCall_def stepOf_def calm_def Let_def split: list.splits prod.splits)

lemma calm_drop: "list_all calm steps \<Longrightarrow> list_all calm (drop n steps)"
  by (rule list_all_drop)

lemmas syscall_defs = sysRandom_def sysCreate_def sysWrite_def sysSync_def sysClose_def sysLink_def sysOpenDir_def
  sysSyncDir_def sysReadDir_def sysLstat_def sysReadFile_def sysRemove_def

definition freshTemp :: "qdisk \<Rightarrow> qstep list \<Rightarrow> bool" where
  "freshTemp d steps \<longleftrightarrow> \<not> mhas (qdNames d) (tempNameOf (qsNonce (stepOf steps)))"

definition putNode :: "string \<Rightarrow> qstep list \<Rightarrow> qnode" where
  "putNode content steps = \<lparr>qnKind = RegularFile, qnData = content, qnSynced = content, qnModTime = qsTime (stepOf (drop 2 steps))\<rparr>"

lemma temp_candidate: "validID i \<Longrightarrow> tempNameOf nonce \<noteq> candidateName i" "validID i \<Longrightarrow> candidateName i \<noteq> tempNameOf nonce"
  using temp_not_candidate by metis+

lemma put_fresh:
  assumes calm: "list_all calm steps" and i: "validID i" and T: "T = tempNameOf (qsNonce (stepOf steps))"
    and free: "freshTemp d steps" "mget (qdNames d) (candidateName i) = None"
  shows "quarantinePut i content (d, steps) =
    ((d\<lparr>qdNodes := qdNodes d @ [putNode content steps],
        qdNames := mdel T (mput (candidateName i) (length (qdNodes d)) (mput T (length (qdNodes d)) (qdNames d))),
        qdStable := mput (candidateName i) (length (qdNodes d)) (mput T (length (qdNodes d)) (qdNames d))\<rparr>, drop 12 steps),
     Inr (entryFor i content))"
proof -
  have TC: "T \<noteq> candidateName i" "candidateName i \<noteq> T" using temp_candidate [OF i] T by auto
  have n: "mget (qdNames d) T = None" using free(1) T by (simp add: freshTemp_def)
  have short: "qsShort (stepOf (drop n steps)) = None" for n using calm_stepOf [OF calm_drop [OF calm]] by (simp add: calm_def)
  show ?thesis
    using i TC n free(2)
    by (cases d) (simp add: quarantinePut_def newPublicationTempName_def hbind_def hwrap_def hreturn_def hfail_def syscall_defs
        sysCall_calm calm calm_drop T [symmetric] thenRemove_def publish_def fillFile_def setNode_def short mget_mput
        syncRootDirectory_def finallyClose_def readID_def nodeAt_def putNode_def eval_nat_numeral)
qed


lemma put_present:
  assumes calm: "list_all calm steps" and i: "validID i" and T: "T = tempNameOf (qsNonce (stepOf steps))"
    and present: "freshTemp d steps" "mget (qdNames d) (candidateName i) = Some n"
  shows "quarantinePut i content (d, steps) =
    ((d\<lparr>qdNodes := qdNodes d @ [putNode content steps], qdNames := mdel T (mput T (length (qdNodes d)) (qdNames d))\<rparr>, drop 7 steps),
     Inl errExist)"
proof -
  have TC: "T \<noteq> candidateName i" "candidateName i \<noteq> T" using temp_candidate [OF i] T by auto
  have t: "mget (qdNames d) T = None" using present(1) T by (simp add: freshTemp_def)
  have short: "qsShort (stepOf (drop n steps)) = None" for n using calm_stepOf [OF calm_drop [OF calm]] by (simp add: calm_def)
  show ?thesis
    using i TC t present(2)
    by (cases d) (simp add: quarantinePut_def newPublicationTempName_def hbind_def hwrap_def hreturn_def hfail_def syscall_defs
        sysCall_calm calm calm_drop T [symmetric] thenRemove_def publish_def fillFile_def setNode_def short mget_mput
        putNode_def eval_nat_numeral)
qed

lemma readID_calm:
  assumes "list_all calm steps" "validID i" "nodeAt d (candidateName i) = Some x" "qnKind x = RegularFile"
  shows "readID i (d, steps) = ((d, drop 2 steps), Inr (entryFor i (qnData x), qnData x))"
  using assms by (simp add: readID_def hbind_def hfail_def hreturn_def sysLstat_def sysReadFile_def sysCall_calm calm_drop numeral_2_eq_2)

lemma syncRoot_calm:
  "list_all calm steps \<Longrightarrow> syncRootDirectory (d, steps) = ((d\<lparr>qdStable := qdNames d\<rparr>, drop 3 steps), Inr ())"
  by (simp add: syncRootDirectory_def hbind_def finallyClose_def syscall_defs sysCall_calm calm_drop numeral_3_eq_3)

lemma nodeAt_stable: "nodeAt (d\<lparr>qdStable := m\<rparr>) name = nodeAt d name"
  by (simp add: nodeAt_def split: option.split)

lemma converge_calm:
  assumes "list_all calm steps" "validID i" "nodeAt d (candidateName i) = Some x" "qnKind x = RegularFile"
  shows "converge i content inTime (d, steps) =
    (if qnData x = content then ((d\<lparr>qdStable := qdNames d\<rparr>, drop 7 steps), Some (Inr (entryFor i content)))
     else ((d, drop 2 steps), Some (Inl qconflict)))"
proof -
  have "nodeAt (d\<lparr>qdStable := qdNames d\<rparr>) (candidateName i) = Some x" using assms(3) by (simp add: nodeAt_stable)
  then show ?thesis
    using assms readID_calm [OF assms] readID_calm [OF calm_drop assms(2) _ assms(4)] syncRoot_calm [OF calm_drop]
    by (simp add: converge_def hwrap_def)
qed

text \<open>Which bytes a name shows, and which it would show after a crash.\<close>

definition visible :: "qdisk \<Rightarrow> string \<Rightarrow> (fileKind \<times> string) option" where
  "visible d name = map_option (\<lambda>x. (qnKind x, qnData x)) (nodeAt d name)"

definition crash :: "qdisk \<Rightarrow> qdisk" where
  "crash d = d\<lparr>qdNames := qdStable d, qdNodes := map (\<lambda>x. x\<lparr>qnData := qnSynced x\<rparr>) (qdNodes d)\<rparr>"


lemma sealed_lookup: "sealedDisk ok d \<Longrightarrow> mget (qdNames d) name = Some n \<Longrightarrow> n < length (qdNodes d)"
  using sealedD(1) [of ok d name n] by (simp add: named_def)

lemma nodeAt_added:
  assumes "sealedDisk ok d" "mget (qdNames d') name = mget (qdNames d) name" "qdNodes d' = qdNodes d @ xs"
  shows "nodeAt d' name = nodeAt d name"
  using assms(2,3) sealed_lookup [OF assms(1), of name] by (auto simp: nodeAt_def nth_append split: option.splits)

lemma ensure_calm:
  assumes calm: "list_all calm steps" and i: "validID i" and fresh: "freshTemp d steps" and s: "sealedDisk ok d"
    and regular: "\<And>x. nodeAt d (candidateName i) = Some x \<Longrightarrow> qnKind x = RegularFile"
  shows "\<exists>d' steps'. quarantineEnsure clock i content (d, steps) =
      ((d', steps'), if visible d (candidateName i) \<in> {None, Some (RegularFile, content)} then Inr (entryFor i content) else Inl qconflict) \<and>
    (\<forall>name. name \<noteq> candidateName i \<longrightarrow> visible d' name = visible d name) \<and>
    (if visible d (candidateName i) \<in> {None, Some (RegularFile, content)}
     then visible d' (candidateName i) = Some (RegularFile, content) \<and> visible (crash d') (candidateName i) = Some (RegularFile, content)
     else visible d' (candidateName i) = visible d (candidateName i))"
proof -
  define T where T: "T = tempNameOf (qsNonce (stepOf steps))"
  have TC: "T \<noteq> candidateName i" using temp_candidate [OF i] T by simp
  have t: "mget (qdNames d) T = None" using fresh T by (simp add: freshTemp_def)
  show ?thesis
  proof (cases "mget (qdNames d) (candidateName i)")
    case None
    let ?m = "mput (candidateName i) (length (qdNodes d)) (mput T (length (qdNodes d)) (qdNames d))"
    let ?d = "d\<lparr>qdNodes := qdNodes d @ [putNode content steps], qdNames := mdel T ?m, qdStable := ?m\<rparr>"
    have e: "quarantineEnsure clock i content (d, steps) = ((?d, drop 12 steps), Inr (entryFor i content))"
      unfolding quarantineEnsure.simps [of clock] using put_fresh [OF calm i T fresh None] by simp
    have "nodeAt ?d name = nodeAt d name" if "name \<noteq> candidateName i" for name
      by (rule nodeAt_added [OF s]) (use that t in \<open>auto simp: mget_mdel mget_mput\<close>)
    moreover have "nodeAt ?d (candidateName i) = Some (putNode content steps)" using TC by (simp add: nodeAt_def mget_mdel mget_mput)
    moreover have "nodeAt (crash ?d) (candidateName i) = Some (putNode content steps)"
      by (simp add: nodeAt_def crash_def mget_mput putNode_def nth_append)
    moreover have "visible d (candidateName i) = None" using None by (simp add: visible_def nodeAt_def)
    ultimately show ?thesis using e by (auto simp: visible_def putNode_def)
  next
    case (Some n)
    have n: "n < length (qdNodes d)" using sealedD(1) [OF s, of "candidateName i" n] Some by (simp add: named_def)
    define x where "x = qdNodes d ! n"
    have x: "nodeAt d (candidateName i) = Some x" using Some n by (simp add: nodeAt_def x_def)
    have sx: "qnSynced x = qnData x" using sealedD(2) [OF s i, of n] Some by (simp add: named_def sealedNode_def x_def)
    let ?d = "d\<lparr>qdNodes := qdNodes d @ [putNode content steps], qdNames := mdel T (mput T (length (qdNodes d)) (qdNames d))\<rparr>"
    have same: "mget (qdNames ?d) name = mget (qdNames d) name" for name using t by (auto simp: mget_mdel mget_mput)
    have nodes: "nodeAt ?d name = nodeAt d name" for name
      by (rule nodeAt_added [OF s same]) simp
    have c: "converge i content inTime (?d, drop 7 steps) =
      (if qnData x = content then ((?d\<lparr>qdStable := qdNames ?d\<rparr>, drop 14 steps), Some (Inr (entryFor i content)))
       else ((?d, drop 9 steps), Some (Inl qconflict)))" for inTime
      using converge_calm [OF calm_drop [OF calm, of 7] i, of ?d x content inTime] nodes x regular [OF x] by simp
    have e: "quarantineEnsure clock i content (d, steps) =
      (if qnData x = content then ((?d\<lparr>qdStable := qdNames ?d\<rparr>, drop 14 steps), Inr (entryFor i content))
       else ((?d, drop 9 steps), Inl qconflict))"
      unfolding quarantineEnsure.simps [of clock] using put_present [OF calm i T fresh Some] c by (cases clock) simp_all
    have v: "visible d (candidateName i) = Some (RegularFile, qnData x)" using x regular [OF x] by (simp add: visible_def)
    have d1: "visible ?d name = visible d name" "visible (?d\<lparr>qdStable := qdNames ?d\<rparr>) name = visible d name" for name
      using nodes nodeAt_stable [where d = ?d and m = "qdNames ?d"] by (simp_all add: visible_def)
    have cr: "visible (crash (?d\<lparr>qdStable := qdNames ?d\<rparr>)) (candidateName i) = Some (RegularFile, qnData x)"
    proof -
      have "nodeAt (crash (?d\<lparr>qdStable := qdNames ?d\<rparr>)) (candidateName i) = Some (x\<lparr>qnData := qnSynced x\<rparr>)"
        using Some n TC t by (auto simp: nodeAt_def crash_def mget_mdel mget_mput nth_append x_def)
      then show ?thesis using sx regular [OF x] by (simp add: visible_def)
    qed
    show ?thesis
    proof (cases "qnData x = content")
      case True
      then show ?thesis using e v d1 cr by simp
    next
      case False
      then show ?thesis using e v d1 by simp
    qed
  qed
qed


section \<open>Pruning\<close>

definition storeShaped :: "string \<Rightarrow> bool" where
  "storeShaped name \<longleftrightarrow> hasPrefix name publicationTempPrefix \<or> hasSuffix name candidateSuffix"

definition wellNamed :: "string \<Rightarrow> bool" where
  "wellNamed name \<longleftrightarrow> (if hasPrefix name publicationTempPrefix then validPublicationTempName name
     else validID (trimSuffix name candidateSuffix))"

definition prunable :: "int \<Rightarrow> qdisk \<Rightarrow> string \<Rightarrow> bool" where
  "prunable cutoff d name \<longleftrightarrow> storeShaped name \<and> (case nodeAt d name of None \<Rightarrow> False | Some x \<Rightarrow> qnModTime x \<le> cutoff)"

definition honest :: "qdisk \<Rightarrow> string \<Rightarrow> bool" where
  "honest d name \<longleftrightarrow> storeShaped name \<longrightarrow> wellNamed name \<and> (case nodeAt d name of None \<Rightarrow> False | Some x \<Rightarrow> qnKind x = RegularFile)"

lemma pruneFile_calm:
  assumes "list_all calm steps" "nodeAt d name = Some x"
  shows "pruneFile cutoff name k (d, steps) =
    (if qnKind x \<noteq> RegularFile then ((d, drop 1 steps), Inl (qintegrity ''not a regular file''))
     else if qnModTime x > cutoff then ((d, drop 1 steps), Inr k)
     else ((d\<lparr>qdNames := mdel name (qdNames d)\<rparr>, drop 2 steps), Inr (Suc k)))"
  using assms by (auto simp: pruneFile_def hbind_def hfail_def hreturn_def sysLstat_def sysRemove_def sysCall_calm calm_drop nodeAt_def
      numeral_2_eq_2 split: option.splits)

lemma pruneName_calm:
  assumes "list_all calm steps" "nodeAt d name = Some x"
  shows "\<exists>d' steps' r. pruneName cutoff name k (d, steps) = ((d', steps'), r) \<and> list_all calm steps' \<and>
    (honest d name \<longleftrightarrow> is_ok r) \<and>
    (honest d name \<longrightarrow> d' = (if prunable cutoff d name then d\<lparr>qdNames := mdel name (qdNames d)\<rparr> else d) \<and>
       r = Inr (if prunable cutoff d name then Suc k else k)) \<and> (\<not> honest d name \<longrightarrow> d' = d)"
  unfolding pruneName_def
  using assms pruneFile_calm [OF assms] calm_drop
  by (auto simp: hfail_def hreturn_def honest_def prunable_def storeShaped_def wellNamed_def not_less)

text \<open>The names a pruning pass removes: those it reaches before the first suspicious one and that are old.\<close>

definition pruned :: "int \<Rightarrow> string list \<Rightarrow> qdisk \<Rightarrow> qdisk" where
  "pruned cutoff names d = d\<lparr>qdNames :=
     filter (\<lambda>e. \<not> (fst e \<in> set (takeWhile (honest d) names) \<and> prunable cutoff d (fst e))) (qdNames d)\<rparr>"

lemma mdel_filter: "mdel k m = filter (\<lambda>e. fst e \<noteq> k) m"
  by (induction m) auto

lemma nodeAt_mdel: "nodeAt (d\<lparr>qdNames := mdel k (qdNames d)\<rparr>) n = (if n = k then None else nodeAt d n)"
  by (simp add: nodeAt_def mget_mdel split: option.split)

lemma honest_mdel: "n \<noteq> k \<Longrightarrow> honest (d\<lparr>qdNames := mdel k (qdNames d)\<rparr>) n = honest d n"
  by (simp add: honest_def nodeAt_mdel)

lemma prunable_mdel: "n \<noteq> k \<Longrightarrow> prunable c (d\<lparr>qdNames := mdel k (qdNames d)\<rparr>) n = prunable c d n"
  by (simp add: prunable_def nodeAt_mdel)

lemma takeWhile_honest_mdel:
  "k \<notin> set names \<Longrightarrow> takeWhile (honest (d\<lparr>qdNames := mdel k (qdNames d)\<rparr>)) names = takeWhile (honest d) names"
  by (induction names) (auto simp: honest_mdel)

lemma pruned_Cons:
  assumes "honest d n" "n \<notin> set names"
  shows "pruned cutoff (n # names) d =
    pruned cutoff names (if prunable cutoff d n then d\<lparr>qdNames := mdel n (qdNames d)\<rparr> else d)"
proof (cases "prunable cutoff d n")
  case True
  have "filter (\<lambda>e. \<not> (fst e \<in> set (takeWhile (honest d) (n # names)) \<and> prunable cutoff d (fst e))) m =
     filter (\<lambda>e. \<not> (fst e \<in> set (takeWhile (honest d) names) \<and> prunable cutoff (d\<lparr>qdNames := mdel n (qdNames d)\<rparr>) (fst e)))
       (mdel n m)" for m :: "(string \<times> nat) list"
    unfolding filter_filter mdel_filter [of n m]
  proof (rule filter_cong [OF refl])
    fix e assume "e \<in> set m"
    show "(\<not> (fst e \<in> set (takeWhile (honest d) (n # names)) \<and> prunable cutoff d (fst e))) =
       (fst e \<noteq> n \<and> \<not> (fst e \<in> set (takeWhile (honest d) names) \<and> prunable cutoff (d\<lparr>qdNames := mdel n (qdNames d)\<rparr>) (fst e)))"
      using assms True prunable_mdel [of "fst e" n cutoff d] by (cases "fst e = n") auto
  qed
  then show ?thesis using True assms by (simp add: pruned_def takeWhile_honest_mdel)
next
  case False
  then show ?thesis using assms by (auto simp: pruned_def intro!: arg_cong [where f = "\<lambda>m. d\<lparr>qdNames := m\<rparr>"] filter_cong)
qed

lemma pruneLoop_calm:
  assumes "list_all calm steps" "distinct names" "\<forall>n\<in>set names. nodeAt d n \<noteq> None"
  shows "\<exists>steps' r. pruneLoop cutoff names k (d, steps) = ((pruned cutoff names d, steps'), r) \<and>
    (if list_all (honest d) names then r = Inr (k + length (filter (prunable cutoff d) names)) else \<not> is_ok r)"
  using assms
proof (induction names arbitrary: d steps k)
  case Nil
  show ?case by (simp add: hreturn_def pruned_def)
next
  case (Cons n names)
  then obtain x where x: "nodeAt d n = Some x" by auto
  obtain d1 steps1 r1 where p: "pruneName cutoff n k (d, steps) = ((d1, steps1), r1)" "list_all calm steps1"
      "honest d n \<longleftrightarrow> is_ok r1"
      "honest d n \<Longrightarrow> d1 = (if prunable cutoff d n then d\<lparr>qdNames := mdel n (qdNames d)\<rparr> else d) \<and>
         r1 = Inr (if prunable cutoff d n then Suc k else k)" "\<not> honest d n \<Longrightarrow> d1 = d"
    using pruneName_calm [OF Cons.prems(1) x, of cutoff k] by metis
  show ?case
  proof (cases "honest d n")
    case False
    then obtain e where "r1 = Inl e" using p(3) by (cases r1) auto
    then show ?thesis using False p(1) p(5) by (simp add: hbind_def pruned_def)
  next
    case True
    define k1 where "k1 = (if prunable cutoff d n then Suc k else k)"
    have h: "honest d1 m = honest d m" "prunable cutoff d1 m = prunable cutoff d m" "nodeAt d1 m = nodeAt d m" if "m \<in> set names" for m
    proof -
      have "m \<noteq> n" using that Cons.prems(2) by auto
      with p(4) [OF True] honest_mdel [of m n d] prunable_mdel [of m n cutoff d] nodeAt_mdel [of n d m]
      show "honest d1 m = honest d m" "prunable cutoff d1 m = prunable cutoff d m" "nodeAt d1 m = nodeAt d m" by simp_all
    qed
    obtain steps' r where ih: "pruneLoop cutoff names k1 (d1, steps1) = ((pruned cutoff names d1, steps'), r)"
        "if list_all (honest d1) names then r = Inr (k1 + length (filter (prunable cutoff d1) names)) else \<not> is_ok r"
      using Cons.IH [OF p(2), of d1 k1] Cons.prems(2,3) h(3) by auto
    have "pruned cutoff (n # names) d = pruned cutoff names d1" using pruned_Cons [OF True] Cons.prems(2) p(4) [OF True] by simp
    moreover have "list_all (honest d1) names = list_all (honest d) names" using h(1) by (simp add: list_all_iff)
    moreover have "filter (prunable cutoff d1) names = filter (prunable cutoff d) names" using h(2) by (simp cong: filter_cong)
    ultimately show ?thesis using ih p(1) p(4) [OF True] True k1_def by (auto simp: hbind_def)
  qed
qed

lemma prune_calm:
  assumes calm: "list_all calm steps" and m: "mwf (qdNames d)" "sealedDisk ok d"
  shows "\<exists>steps' r. pruneBefore cutoff (d, steps) = ((pruned cutoff (map fst (qdNames d)) d, steps'), r) \<and>
    (if list_all (honest d) (map fst (qdNames d)) then r = Inr (length (filter (prunable cutoff d) (map fst (qdNames d)))) else \<not> is_ok r)"
proof -
  have "\<forall>n\<in>set (map fst (qdNames d)). nodeAt d n \<noteq> None"
  proof
    fix n
    assume "n \<in> set (map fst (qdNames d))"
    then obtain i where "mget (qdNames d) n = Some i" by (metis map_of_eq_None_iff not_None_eq set_map)
    then show "nodeAt d n \<noteq> None" using sealed_lookup [OF m(2)] by (simp add: nodeAt_def)
  qed
  from pruneLoop_calm [OF calm_drop [OF calm, of 3] m(1) this, of cutoff 0]
  obtain steps' r where "pruneLoop cutoff (map fst (qdNames d)) 0 (d, drop 3 steps) = ((pruned cutoff (map fst (qdNames d)) d, steps'), r)"
      "if list_all (honest d) (map fst (qdNames d)) then r = Inr (length (filter (prunable cutoff d) (map fst (qdNames d)))) else \<not> is_ok r"
    by auto
  moreover have "hbind sysOpenDir (\<lambda>_. finallyClose sysReadDir) (d, steps) = ((d, drop 3 steps), Inr (map fst (qdNames d)))"
    by (simp add: hbind_def finallyClose_def sysOpenDir_def sysReadDir_def sysClose_def sysCall_calm calm calm_drop numeral_3_eq_3)
  ultimately show ?thesis by (simp add: pruneBefore_def hbind_def)
qed

lemma sealed_crash:
  assumes "sealedDisk ok d"
  shows "sealedDisk ok (crash d)"
proof (rule sealedI)
  have n: "named (crash d) name n \<Longrightarrow> named d name n" for name n by (auto simp: named_def crash_def)
  show "n < length (qdNodes (crash d))" if "named (crash d) name n" for name n
    using sealedD(1) [OF assms n [OF that]] by (simp add: crash_def)
  show "sealedNode (ok i) (qdNodes (crash d) ! n)" if "validID i" "named (crash d) (candidateName i) n" for i n
    using sealedD [OF assms] n [OF that(2)] that(1) by (auto simp: crash_def sealedNode_def)
qed

lemma keepsD: "keeps R P m \<Longrightarrow> P d \<Longrightarrow> list_all R steps \<Longrightarrow> P (fst (fst (m (d, steps))))"
  unfolding runs_def by (metis prod.collapse)

section \<open>A small disk\<close>

definition demoDisk :: qdisk where
  "demoDisk = \<lparr>qdNodes = [\<lparr>qnKind = RegularFile, qnData = ''old'', qnSynced = ''old'', qnModTime = 5\<rparr>,
       \<lparr>qnKind = RegularFile, qnData = ''n'', qnSynced = [], qnModTime = 7\<rparr>],
     qdNames = [(''a.candidate'', 0), (''notes'', 1)], qdStable = [(''a.candidate'', 0)]\<rparr>"

lemma demoDisk_sealed: "sealedDisk (\<lambda>i b. True) demoDisk"
proof (rule sealedI)
  show "n < length (qdNodes demoDisk)" if "named demoDisk name n" for name n
    using that by (auto simp: named_def demoDisk_def split: if_split_asm)
  show "sealedNode (\<lambda>b. True) (qdNodes demoDisk ! n)" if "validID i" "named demoDisk (candidateName i) n" for i n
  proof -
    have "candidateName i \<noteq> ''notes''"
    proof
      assume "candidateName i = ''notes''"
      then have "List.last (candidateName i) = List.last ''notes''" by simp
      then show False by (simp add: candidateName_def candidateSuffix_def)
    qed
    then have "n = 0" using that(2) by (auto simp: named_def demoDisk_def split: if_split_asm)
    then show ?thesis by (simp add: demoDisk_def sealedNode_def)
  qed
qed

text \<open>Another process that removes a candidate is civil.\<close>

lemma civil_removal: "validID i \<Longrightarrow> civil ok (tempNameOf nonce) (\<lambda>d. d\<lparr>qdNames := mdel (candidateName i) (qdNames d)\<rparr>)"
  unfolding civil_def
  using temp_candidate [of i nonce]
  by (auto intro: sealed_fewer [OF _ _ named_delete] simp: privateFile_def mget_mdel dest: named_delete temp_not_candidate)

definition demoSteps :: "qstep list" where
  "demoSteps = [quietStep, quietStep\<lparr>qsOther := (\<lambda>d. d\<lparr>qdNames := mdel (candidateName ''a'') (qdNames d)\<rparr>)\<rparr>,
     quietStep\<lparr>qsFault := Some errNotExist\<rparr>]"

section \<open>Properties\<close>

text \<open>C17: crash safety of the quarantine. Whatever other well-behaved processes do between the system calls, wherever
  a call fails or a write comes up short, and so also when the process dies in the middle, after \<open>Put\<close>, \<open>Ensure\<close>,
  \<open>Remove\<close> and \<open>PruneBefore\<close> every candidate name, as it is seen and as it would be found after a crash, has
  complete, synced bytes that some publisher was allowed to store under that id.\<close>

theorem quarantine_crash_safe:
  assumes "sealedDisk ok d" "tempSet Ts" "list_all (careful ok Ts) steps" "validID i \<Longrightarrow> ok i content"
  shows "sealedDisk ok (crash (fst (fst (quarantinePut i content (d, steps))))) \<and>
    sealedDisk ok (fst (fst (quarantinePut i content (d, steps)))) \<and>
    sealedDisk ok (fst (fst (quarantineEnsure clock i content (d, steps)))) \<and>
    sealedDisk ok (crash (fst (fst (quarantineEnsure clock i content (d, steps))))) \<and>
    sealedDisk ok (fst (fst (quarantineRemove i (d, steps)))) \<and> sealedDisk ok (fst (fst (pruneBefore cutoff (d, steps))))"
proof -
  have put: "keepsSealed ok Ts (quarantinePut i content)" by (rule keeps_put) (use assms in auto)
  have ensure: "keepsSealed ok Ts (quarantineEnsure clock i content)" by (rule keeps_ensure) (use assms in auto)
  show ?thesis
    using keepsD [OF put assms(1,3)] keepsD [OF ensure assms(1,3)] sealed_crash
      keepsD [OF keeps_remove [OF assms(2)] assms(1,3)] keepsD [OF keeps_prune [OF assms(2)] assms(1,3)] by blast
qed

theorem quarantine_crash_safe_witness:
  "sealedDisk (\<lambda>i b. True) (crash (fst (fst (quarantinePut ''b'' ''new'' (demoDisk, demoSteps)))))"
proof -
  let ?T = "tempNameOf (qsNonce quietStep)"
  have T: "tempSet {?T}" by (simp add: tempSet_def)
  have "validID ''a''" by code_simp
  then have "list_all (careful (\<lambda>i b. True) {?T}) demoSteps"
    using civil_removal [of "''a''" "\<lambda>i b. True" "qsNonce quietStep"]
    by (simp add: demoSteps_def careful_def) (simp add: quietStep_def civil_def)
  from quarantine_crash_safe [OF demoDisk_sealed T this] show ?thesis by blast
qed

text \<open>C28: \<open>Ensure\<close> is idempotent. Undisturbed, it answers success exactly when no candidate or one with the same bytes
  is stored under the id, and a conflict otherwise; on success the name shows exactly the given bytes and would
  after a crash; no other name changes, and a candidate with different bytes stays what it was.\<close>

theorem ensure_settles:
  assumes "list_all calm steps" "validID i" "freshTemp d steps" "sealedDisk ok d"
    and "\<And>x. nodeAt d (candidateName i) = Some x \<Longrightarrow> qnKind x = RegularFile"
  shows "\<exists>d' steps'. quarantineEnsure clock i content (d, steps) =
      ((d', steps'), if visible d (candidateName i) \<in> {None, Some (RegularFile, content)} then Inr (entryFor i content) else Inl qconflict) \<and>
    (\<forall>name. name \<noteq> candidateName i \<longrightarrow> visible d' name = visible d name) \<and>
    (if visible d (candidateName i) \<in> {None, Some (RegularFile, content)}
     then visible d' (candidateName i) = Some (RegularFile, content) \<and> visible (crash d') (candidateName i) = Some (RegularFile, content)
     else visible d' (candidateName i) = visible d (candidateName i))"
  using assms by (rule ensure_calm)

theorem ensure_settles_witness:
  "snd (quarantineEnsure [] ''a'' ''other'' (demoDisk, [])) = Inl qconflict \<and>
   snd (quarantineEnsure [] ''b'' ''new'' (demoDisk, [])) = Inr (entryFor ''b'' ''new'')"
proof -
  have i: "validID ''a''" "validID ''b''" by code_simp+
  have f: "freshTemp demoDisk []" by (simp add: freshTemp_def demoDisk_def tempNameOf_def publicationTempPrefix_def)
  have v: "visible demoDisk (candidateName ''a'') = Some (RegularFile, ''old'')" "visible demoDisk (candidateName ''b'') = None"
    by (simp_all add: visible_def nodeAt_def demoDisk_def candidateName_def candidateSuffix_def)
  have n: "nodeAt demoDisk (candidateName j) = Some x \<Longrightarrow> qnKind x = RegularFile" for j x
    by (auto simp: nodeAt_def demoDisk_def nth_Cons split: option.splits if_split_asm nat.splits)
  show ?thesis
    using ensure_settles [OF _ i(1) f demoDisk_sealed n [of "''a''"], where clock = "[]" and content = "''other''"] v(1)
      ensure_settles [OF _ i(2) f demoDisk_sealed n [of "''b''"], where clock = "[]" and content = "''new''"] v(2) by auto
qed

text \<open>C29: undisturbed, \<open>PruneBefore\<close> removes exactly the candidate files and abandoned private files that are old
  enough and counts them; nothing else changes, other files are ignored, and at the first name that looks like
  the store's but is malformed or is no regular file it stops with an error.\<close>

theorem prune_removes_exactly_old:
  assumes "list_all calm steps" "mwf (qdNames d)" "sealedDisk ok d"
  shows "\<exists>steps' r. pruneBefore cutoff (d, steps) = ((pruned cutoff (map fst (qdNames d)) d, steps'), r) \<and>
    (if list_all (honest d) (map fst (qdNames d))
     then r = Inr (length (filter (prunable cutoff d) (map fst (qdNames d)))) \<and>
       qdNames (pruned cutoff (map fst (qdNames d)) d) = filter (\<lambda>e. \<not> prunable cutoff d (fst e)) (qdNames d)
     else \<not> is_ok r)"
proof -
  have "qdNames (pruned cutoff (map fst (qdNames d)) d) = filter (\<lambda>e. \<not> prunable cutoff d (fst e)) (qdNames d)"
    if "list_all (honest d) (map fst (qdNames d))"
    using that by (auto simp: pruned_def list_all_iff takeWhile_eq_all_conv [THEN iffD2] intro!: filter_cong)
  then show ?thesis using prune_calm [OF assms, of cutoff] by (auto split: if_split_asm)
qed

theorem prune_removes_exactly_old_witness:
  "map fst (qdNames (fst (fst (pruneBefore 6 (demoDisk, []))))) = [''notes''] \<and> snd (pruneBefore 6 (demoDisk, [])) = Inr 1"
proof -
  have m: "mwf (qdNames demoDisk)" by (simp add: demoDisk_def)
  have h: "list_all (honest demoDisk) (map fst (qdNames demoDisk))"
    "filter (\<lambda>e. \<not> prunable 6 demoDisk (fst e)) (qdNames demoDisk) = [(''notes'', 1)]"
    "filter (prunable 6 demoDisk) (map fst (qdNames demoDisk)) = [''a.candidate'']" by code_simp+
  from prune_removes_exactly_old [OF _ m demoDisk_sealed, of "[]" 6] h show ?thesis by auto
qed

end
