(* ===== verification/Candidate_Write.thy ===== *)
theory Candidate_Write
  imports Replay Quarantine
begin

text \<open>
  internal/ledger/candidate\_write.go, internal/ledger/quarantine\_binding.go and internal/gitledger/quarantine.go:
  preparing an event as a Git candidate together with a quarantine file bound to it, and accepting it by
  compare-and-swap. The state has the repository host and the quarantine disk; every look at the host and
  every write to it is preceded by a change that other processes make. Contexts and time-outs are left to the host.
\<close>

section \<open>State and environment\<close>

record wstate =
  wsHost :: host
  wsMoves :: "(host \<Rightarrow> host) list"
  wsDisk :: qdisk
  wsSteps :: "qstep list"

type_synonym 'a wop = "(wstate, 'a) stateop"

record 'sch wenv =
  weDeps :: "'sch deps"
  weWorld :: world
  weReader :: reader
  wePolls :: "host \<Rightarrow> host \<times> host list"
  weRoot :: rootCalls
  weClock :: "bool list"

definition moved :: "wstate \<Rightarrow> wstate" where
  "moved st = (case wsMoves st of [] \<Rightarrow> st | m # ms \<Rightarrow> st\<lparr>wsHost := m (wsHost st), wsMoves := ms\<rparr>)"

definition look :: "(host \<Rightarrow> 'a res) \<Rightarrow> 'a wop" where
  "look f st = (moved st, f (wsHost (moved st)))"

definition act :: "'a hostop \<Rightarrow> 'a wop" where
  "act m st = (case m (wsHost (moved st)) of (h, r) \<Rightarrow> ((moved st)\<lparr>wsHost := h\<rparr>, r))"

definition onDisk :: "'a qop \<Rightarrow> 'a wop" where
  "onDisk m st = (case m (wsDisk st, wsSteps st) of ((d, steps), r) \<Rightarrow> (st\<lparr>wsDisk := d, wsSteps := steps\<rparr>, r))"

definition attempt :: "'a wop \<Rightarrow> (goerr \<Rightarrow> wstate \<Rightarrow> wstate \<times> 'r) \<Rightarrow> ('a \<Rightarrow> wstate \<Rightarrow> wstate \<times> 'r) \<Rightarrow> wstate \<Rightarrow> wstate \<times> 'r" where
  "attempt m bad good st = (case m st of (st', Inl e) \<Rightarrow> bad e st' | (st', Inr x) \<Rightarrow> good x st')"

definition chain :: "(wstate \<Rightarrow> wstate \<times> 'a) \<Rightarrow> ('a \<Rightarrow> wstate \<Rightarrow> wstate \<times> 'r) \<Rightarrow> wstate \<Rightarrow> wstate \<times> 'r" where
  "chain m k st = (case m st of (st', x) \<Rightarrow> k x st')"

section \<open>The candidate quarantine of a ledger\<close>

definition candidateQuarantineRetention :: int where "candidateQuarantineRetention = 24 * 3600 * 1000000000"

definition candidateQuarantineDir :: "reader \<Rightarrow> string" where
  "candidateQuarantineDir r = rdGitDir r @ ''.candidate-quarantine''"

definition pruneOld :: "int \<Rightarrow> nat qop" where
  "pruneOld now = pruneBefore (now - candidateQuarantineRetention)"

definition pruneNow :: "nat qop" where
  "pruneNow st = pruneOld (qsTime (stepOf (snd st))) st"

definition openCandidateQuarantine :: "'sch wenv \<Rightarrow> unit wop" where
  "openCandidateQuarantine e =
    hbind (act (quarantineOpen (weRoot e) (candidateQuarantineDir (weReader e)))) (\<lambda>_.
    hbind (onDisk pruneNow) (\<lambda>_. hreturn ()))"

definition openExistingCandidateQuarantine :: "'sch wenv \<Rightarrow> unit wop" where
  "openExistingCandidateQuarantine e =
    hbind (look (quarantineOpenExisting (weRoot e) (candidateQuarantineDir (weReader e)))) (\<lambda>_.
    hbind (onDisk pruneNow) (\<lambda>_. hreturn ()))"

definition pruneCandidateQuarantine :: "'sch wenv \<Rightarrow> int \<Rightarrow> nat wop" where
  "pruneCandidateQuarantine e now =
    attempt (look (quarantineOpenExisting (weRoot e) (candidateQuarantineDir (weReader e))))
      (\<lambda>err st. (st, if errors_is err errNotExist then Inr 0 else Inl err))
      (\<lambda>_. onDisk (pruneOld now))"

section \<open>Requests, candidates, responses\<close>

definition errIdempotencyConflict :: goerr where "errIdempotencyConflict = ErrNew ''IDEMPOTENCY_CONFLICT''"
definition errCandidateInvalid :: goerr where "errCandidateInvalid = ErrNew ''CANDIDATE_INVALID''"
definition errEventIDConflict :: goerr where "errEventIDConflict = ErrNew ''EVENT_ID_CONFLICT''"

definition writeStatusAccepted :: string where "writeStatusAccepted = ''accepted''"
definition writeStatusAlreadyAccepted :: string where "writeStatusAlreadyAccepted = ''already_accepted''"
definition writeStatusAcceptedVerificationFailed :: string where
  "writeStatusAcceptedVerificationFailed = ''accepted_verification_failed''"
definition writeStatusAcceptanceUnknown :: string where "writeStatusAcceptanceUnknown = ''acceptance_unknown''"

record candidateRequest =
  crExpectedHead :: string
  crEventPath :: string
  crEvent :: string

record writeCandidate =
  wcExpectedHead :: string
  wcCandidateCommit :: string
  wcEventPath :: string
  wcEventID :: string
  wcIdempotencyKey :: string
  wcContentSHA256 :: string
  wcQuarantine :: qentry

record writeResponse =
  wrStatus :: string
  wrEventID :: string
  wrIdempotencyKey :: string
  wrContentSHA256 :: string
  wrEventPath :: string
  wrAcceptedCommit :: string
  wrLedgerCommit :: string

record candidateDocument =
  cdEventID :: string
  cdIdempotencyKey :: string
  cdContentSHA256 :: string
  cdDocument :: eventDocument

type_synonym outcome = "writeResponse option \<times> goerr option"

definition candErr :: "string \<Rightarrow> goerr" where
  "candErr msg = Errorf msg [errCandidateInvalid]"

definition responseFromAccepted :: "string \<Rightarrow> string \<Rightarrow> validatedEvent \<Rightarrow> writeResponse" where
  "responseFromAccepted status ledgerCommit accepted =
    \<lparr>wrStatus = status, wrEventID = edEventID (veDocument accepted), wrIdempotencyKey = edIdempotencyKey (veDocument accepted),
     wrContentSHA256 = reContentSHA256 (veEntry accepted), wrEventPath = rePath (veEntry accepted),
     wrAcceptedCommit = reAcceptedCommit (veEntry accepted), wrLedgerCommit = ledgerCommit\<rparr>"

definition responseFromCandidate :: "string \<Rightarrow> writeCandidate \<Rightarrow> bool \<Rightarrow> string \<Rightarrow> writeResponse" where
  "responseFromCandidate status c acceptedKnown ledgerCommit =
    \<lparr>wrStatus = status, wrEventID = wcEventID c, wrIdempotencyKey = wcIdempotencyKey c, wrContentSHA256 = wcContentSHA256 c,
     wrEventPath = wcEventPath c, wrAcceptedCommit = (if acceptedKnown then wcCandidateCommit c else []),
     wrLedgerCommit = ledgerCommit\<rparr>"

definition parseCandidateDocument :: "(string \<Rightarrow> string res) \<Rightarrow> string \<Rightarrow> candidateDocument res" where
  "parseCandidateDocument jcs raw =
    (case strictValidate raw of Inl _ \<Rightarrow> Inl (candErr ''strict'') | Inr _ \<Rightarrow>
    (case canonicalize jcs raw of Inl _ \<Rightarrow> Inl (candErr ''canonicalization'') | Inr canonical \<Rightarrow>
    if raw \<noteq> canonical then Inl (candErr ''durable event must already be stored as RFC 8785 canonical JSON'') else
    (case digestVerify jcs raw of Inl _ \<Rightarrow> Inl (candErr ''digest'') | Inr _ \<Rightarrow>
    (case decEvent raw of Inl _ \<Rightarrow> Inl (candErr ''decode event'') | Inr doc \<Rightarrow>
    andThen (strictDecode raw) (\<lambda>v.
    case v of
      JObj obj \<Rightarrow>
        let contentSHA = memberString obj digestField in
        if edEventID doc = [] \<or> edEventType doc = [] \<or> edSchemaVersion doc = [] \<or> contentSHA = []
        then Inl (candErr ''event lacks identity fields'')
        else Inr \<lparr>cdEventID = edEventID doc, cdIdempotencyKey = edIdempotencyKey doc, cdContentSHA256 = contentSHA,
                  cdDocument = doc\<rparr>
    | _ \<Rightarrow> Inl (candErr ''event root must be object''))))))"


section \<open>Quarantine identities\<close>

definition quarantineBindingPrefix :: string where "quarantineBindingPrefix = ''bound-''"
definition quarantineStagePrefix :: string where "quarantineStagePrefix = ''stage-''"

definition rawQuarantineIdentity :: "string \<Rightarrow> string \<times> nat" where
  "rawQuarantineIdentity raw = (sha256Hex raw, length raw)"

definition quarantineStageID :: "string qop" where
  "quarantineStageID st =
    (case sysRandom st of
       (st', Inl _) \<Rightarrow> (st', Inr [])
     | (st', Inr nonce) \<Rightarrow> (st', Inr (quarantineStagePrefix @ hexEncode nonce)))"

definition bindingField :: "string \<Rightarrow> string" where
  "bindingField f = bigEndian 8 (int (length f)) @ f"

definition bindingPreimage :: "string list \<Rightarrow> nat \<Rightarrow> string" where
  "bindingPreimage parts rawSize = concat (map bindingField parts) @ bindingField (bigEndian 8 (int rawSize))"

definition candidateQuarantineBindingIDFields :: "string list \<Rightarrow> nat \<Rightarrow> string res" where
  "candidateQuarantineBindingIDFields parts rawSize =
    (if list_ex (\<lambda>f. f = []) parts \<or> rawSize = 0
     then Inl (Errorf ''CANDIDATE_INVALID: incomplete quarantine binding identity'' [])
     else Inr (quarantineBindingPrefix @ sha256Hex (bindingPreimage parts rawSize)))"

definition candidateFields :: "writeCandidate \<Rightarrow> string list" where
  "candidateFields c = [wcExpectedHead c, wcCandidateCommit c, wcEventPath c, wcEventID c, wcIdempotencyKey c,
     wcContentSHA256 c, qeContentSHA256 (wcQuarantine c)]"

definition candidateQuarantineBindingID :: "writeCandidate \<Rightarrow> string res" where
  "candidateQuarantineBindingID c = candidateQuarantineBindingIDFields (candidateFields c) (qeSize (wcQuarantine c))"

definition expectedBoundQuarantineEntry :: "writeCandidate \<Rightarrow> qentry res" where
  "expectedBoundQuarantineEntry c =
    andThen (candidateQuarantineBindingID c) (\<lambda>i.
    Inr \<lparr>qeID = i, qeContentSHA256 = qeContentSHA256 (wcQuarantine c), qeSize = qeSize (wcQuarantine c)\<rparr>)"

definition validateQuarantineHandle :: "writeCandidate \<Rightarrow> unit res" where
  "validateQuarantineHandle c =
    (case expectedBoundQuarantineEntry c of
       Inl _ \<Rightarrow> Inl (candErr ''quarantine handle'')
     | Inr expected \<Rightarrow> if wcQuarantine c \<noteq> expected
         then Inl (candErr ''quarantine is not bound to exact prepared candidate identity'') else Inr ())"

section \<open>Looking up accepted events\<close>

fun findAcceptedKey ::
  "'sch deps \<Rightarrow> host \<Rightarrow> reader \<Rightarrow> 'sch schemaRegistry \<Rightarrow> string \<Rightarrow> eventAddition list \<Rightarrow> validatedEvent option res" where
  "findAcceptedKey d h r reg key [] = Inr None"
| "findAcceptedKey d h r reg key (a # as) =
    andThen (validateEvent d h r reg a) (\<lambda>(reg', v).
    if edIdempotencyKey (veDocument v) = key then Inr (Some v) else findAcceptedKey d h r reg' key as)"

fun findAcceptedKeyCommits :: "'sch deps \<Rightarrow> host \<Rightarrow> reader \<Rightarrow> string \<Rightarrow> commit list \<Rightarrow> validatedEvent option res" where
  "findAcceptedKeyCommits d h r key [] = Inr None"
| "findAcceptedKeyCommits d h r key (c # cs) =
    andThen (eventAdditions h r (cmID c)) (\<lambda>additions.
    if additions = [] then findAcceptedKeyCommits d h r key cs else
    andThen (loadSchemasAt h r (cmID c)) (\<lambda>registry.
    andThen (findAcceptedKey d h r registry key additions) (\<lambda>found.
    case found of Some v \<Rightarrow> Inr (Some v) | None \<Rightarrow> findAcceptedKeyCommits d h r key cs)))"

definition findAcceptedIdempotencyAt :: "'sch deps \<Rightarrow> host \<Rightarrow> reader \<Rightarrow> string \<Rightarrow> string \<Rightarrow> validatedEvent option res" where
  "findAcceptedIdempotencyAt d h r head key =
    (if key = [] then Inr None else
     andThen (readHistory h r head) (\<lambda>history. findAcceptedKeyCommits d h r key history))"

definition requireEventIDAvailable :: "manifest \<Rightarrow> string \<Rightarrow> unit res" where
  "requireEventIDAvailable m i =
    (if list_ex (\<lambda>e. reEventID e = i) (mfEvents m)
     then Inl (Errorf ''event_id is already accepted'' [errEventIDConflict]) else Inr ())"

text \<open>The test of a found event against the identity of a request.\<close>

definition sameIdentity :: "validatedEvent \<Rightarrow> string \<Rightarrow> string \<Rightarrow> bool" where
  "sameIdentity v contentSHA eventID \<longleftrightarrow> reContentSHA256 (veEntry v) = contentSHA \<and> edEventID (veDocument v) = eventID"

section \<open>Checks of a candidate\<close>

definition preflightCandidateForAcceptance :: "host \<Rightarrow> reader \<Rightarrow> manifest \<Rightarrow> writeCandidate \<Rightarrow> unit res" where
  "preflightCandidateForAcceptance h r m c =
    (if wcIdempotencyKey c = [] \<or> wcEventID c = [] \<or> wcContentSHA256 c = []
     then Inl (candErr ''candidate handle lacks durable identity'') else
     andThen (requireEventIDAvailable m (wcEventID c)) (\<lambda>_.
     case verifyEventCandidate h r (mfLedgerCommit m) (wcCandidateCommit c) (wcEventPath c) of
       Inl _ \<Rightarrow> Inl (candErr ''Git candidate verification'')
     | Inr _ \<Rightarrow> andThen (eventAdditions h r (wcCandidateCommit c)) (\<lambda>additions.
         if map eaPath additions \<noteq> [wcEventPath c] then Inl (candErr ''candidate event path mismatch'') else Inr ())))"

definition validateCandidateForAcceptance ::
  "'sch deps \<Rightarrow> host \<Rightarrow> reader \<Rightarrow> manifest \<Rightarrow> writeCandidate \<Rightarrow> string \<Rightarrow> unit res" where
  "validateCandidateForAcceptance d h r m c quarantined =
    andThen (preflightCandidateForAcceptance h r m c) (\<lambda>_.
    andThen (validateQuarantineHandle c) (\<lambda>_.
    andThen (loadSchemasAt h r (mfLedgerCommit m)) (\<lambda>registry.
    andThen (readFileAt h r (wcCandidateCommit c) (wcEventPath c)) (\<lambda>stored.
    if stored \<noteq> quarantined then Inl (candErr ''Git candidate bytes differ from quarantined bytes'') else
    andThen (eventAdditions h r (wcCandidateCommit c)) (\<lambda>additions.
    case additions of
      [] \<Rightarrow> Inl (ErrNew ''index out of range'')
    | addition # _ \<Rightarrow>
      (case validateEvent d h r registry addition of
         Inl _ \<Rightarrow> Inl (candErr ''candidate event validation'')
       | Inr (reg', v) \<Rightarrow>
         if edEventID (veDocument v) \<noteq> wcEventID c \<or> edIdempotencyKey (veDocument v) \<noteq> wcIdempotencyKey c \<or>
            reContentSHA256 (veEntry v) \<noteq> wcContentSHA256 c
         then Inl (candErr ''candidate handle does not match candidate commit event identity'') else
         andThen (loadReducerBindingsAt (dpJcs d) (dpSchema d) h r reg' (mfLedgerCommit m)) (\<lambda>(_, bindings).
         case applyGovernedRecordEvent (dpJcs d) (mfGovernedRecords m) bindings (mfGenesisRoot m)
             \<lparr>cmID = wcCandidateCommit c, cmParent = mfLedgerCommit m\<rparr> v of
           Inl _ \<Rightarrow> Inl (candErr ''candidate reducer validation'')
         | Inr _ \<Rightarrow> Inr ())))))))"

definition validatePreparedCandidate ::
  "'sch deps \<Rightarrow> host \<Rightarrow> reader \<Rightarrow> 'sch schemaRegistry \<Rightarrow> candidateCommit \<Rightarrow> string \<Rightarrow> validatedEvent res" where
  "validatePreparedCandidate d h r registry c expected =
    andThen (eventAdditions h r (ccCommit c)) (\<lambda>additions.
    case additions of
      [addition] \<Rightarrow>
        if eaPath addition \<noteq> ccEventPath c then Inl (candErr ''candidate must add exactly event path'') else
        andThen (readFileAt h r (ccCommit c) (ccEventPath c)) (\<lambda>stored.
        if stored \<noteq> expected then Inl (candErr ''candidate event bytes differ from validated request'') else
        andThen (validateEvent d h r registry addition) (\<lambda>(_, v). Inr v))
    | _ \<Rightarrow> Inl (candErr ''candidate must add exactly event path''))"


section \<open>Recovery\<close>

definition recoverCandidateAfterStaleCAS :: "'sch wenv \<Rightarrow> writeCandidate \<Rightarrow> writeResponse option wop" where
  "recoverCandidateAfterStaleCAS e c =
    hbind (hwrap ''STALE_STATE_RECOVERY_FAILED: replay current ledger'' (look (\<lambda>h. replay (weDeps e) h (weReader e)))) (\<lambda>m.
    hbind (hwrap ''STALE_STATE_RECOVERY_FAILED: idempotency lookup''
       (look (\<lambda>h. findAcceptedIdempotencyAt (weDeps e) h (weReader e) (mfLedgerCommit m) (wcIdempotencyKey c)))) (\<lambda>traced.
    case traced of
      None \<Rightarrow> hreturn None
    | Some v \<Rightarrow> if \<not> sameIdentity v (wcContentSHA256 c) (wcEventID c)
        then hfail (Errorf ''key is already bound to another event'' [errIdempotencyConflict])
        else hreturn (Some (responseFromAccepted writeStatusAlreadyAccepted (mfLedgerCommit m) v))))"

definition answer :: "writeResponse option \<Rightarrow> goerr option \<Rightarrow> wstate \<Rightarrow> wstate \<times> outcome" where
  "answer resp err st = (st, resp, err)"

definition recoverAfterSnapshotFailure :: "'sch wenv \<Rightarrow> writeCandidate \<Rightarrow> goerr \<Rightarrow> wstate \<Rightarrow> wstate \<times> outcome" where
  "recoverAfterSnapshotFailure e c originalErr =
    (if wcIdempotencyKey c = [] then answer None (Some originalErr) else
     attempt (recoverCandidateAfterStaleCAS e c)
       (\<lambda>err. if errors_is err errIdempotencyConflict then answer None (Some err)
         else answer (Some (responseFromCandidate writeStatusAcceptanceUnknown c False []))
           (Some (Errorf ''CONCURRENT_ACCEPTANCE_RECOVERY_REQUIRED'' [err])))
       (\<lambda>response. case response of Some resp \<Rightarrow> answer (Some resp) None | None \<Rightarrow> answer None (Some originalErr)))"

text \<open>The second component says whether the snapshot question is settled.\<close>

definition reconcilePreparedCandidate :: "'sch wenv \<Rightarrow> writeCandidate \<Rightarrow> wstate \<Rightarrow> wstate \<times> outcome option" where
  "reconcilePreparedCandidate e c =
    (let settle = (\<lambda>resp err st. (st, Some (resp, err)));
         unknown = (\<lambda>ledgerCommit err. settle (Some (responseFromCandidate writeStatusAcceptanceUnknown c False ledgerCommit))
           (Some (Errorf ''PREPARE_SNAPSHOT_RECOVERY_REQUIRED'' [err]))) in
     attempt (look (\<lambda>h. readHead h (weReader e))) (unknown [])
       (\<lambda>current. if current = toLower (wcExpectedHead c) then (\<lambda>st. (st, None)) else
         attempt (recoverCandidateAfterStaleCAS e c)
           (\<lambda>err. if errors_is err errIdempotencyConflict then settle None (Some err) else unknown current err)
           (\<lambda>response. case response of
               Some resp \<Rightarrow> settle (Some resp) None
             | None \<Rightarrow> settle None (Some (Errorf ''expected current'' [errStaleState])))))"

section \<open>Cleaning up\<close>

definition removeQuarantineID :: "string \<Rightarrow> unit wop" where
  "removeQuarantineID i =
    (if i = [] then hreturn () else
     attempt (onDisk (quarantineRemove i))
       (\<lambda>err. if errors_is err errNotExist then hreturn ()
         else hfail (Errorf ''POST_ACCEPTANCE_QUARANTINE_CLEANUP_FAILED'' [err]))
       hreturn)"

definition removeQuarantineEntry :: "qentry \<Rightarrow> unit wop" where
  "removeQuarantineEntry entry = removeQuarantineID (qeID entry)"

definition cleanupAcceptedQuarantineID :: "'sch wenv \<Rightarrow> string \<Rightarrow> unit wop" where
  "cleanupAcceptedQuarantineID e i =
    (if i = [] then hreturn () else
     attempt (openExistingCandidateQuarantine e)
       (\<lambda>err. if errors_is err errNotExist then hreturn ()
         else hfail (Errorf ''POST_ACCEPTANCE_QUARANTINE_CLEANUP_FAILED'' [err]))
       (\<lambda>_. removeQuarantineID i))"

definition acceptedFields :: "validatedEvent \<Rightarrow> string \<Rightarrow> string list" where
  "acceptedFields v raw = [edExpectedLedgerCommit (veDocument v), reAcceptedCommit (veEntry v), rePath (veEntry v),
     edEventID (veDocument v), edIdempotencyKey (veDocument v), reContentSHA256 (veEntry v), fst (rawQuarantineIdentity raw)]"

definition cleanupAcceptedQuarantine :: "'sch wenv \<Rightarrow> validatedEvent \<Rightarrow> string \<Rightarrow> unit wop" where
  "cleanupAcceptedQuarantine e v raw =
    (case candidateQuarantineBindingIDFields (acceptedFields v raw) (snd (rawQuarantineIdentity raw)) of
       Inl err \<Rightarrow> hfail (Errorf ''POST_ACCEPTANCE_QUARANTINE_CLEANUP_FAILED: derive accepted binding'' [err])
     | Inr i \<Rightarrow> cleanupAcceptedQuarantineID e i)"

text \<open>\<open>q.Remove\<close> where a missing file is no failure.\<close>

definition removePresent :: "string \<Rightarrow> unit wop" where
  "removePresent i =
    attempt (onDisk (quarantineRemove i)) (\<lambda>err. if errors_is err errNotExist then hreturn () else hfail err) hreturn"

definition withErr :: "string \<Rightarrow> goerr option \<Rightarrow> goerr option" where
  "withErr msg err = Some (Errorf msg (case err of None \<Rightarrow> [] | Some e \<Rightarrow> [e]))"

definition recoverPrepareAfterBoundFailure ::
  "'sch wenv \<Rightarrow> string \<Rightarrow> writeCandidate \<Rightarrow> goerr \<Rightarrow> wstate \<Rightarrow> wstate \<times> outcome" where
  "recoverPrepareAfterBoundFailure e stageID c originalErr =
    chain (recoverAfterSnapshotFailure e c originalErr) (\<lambda>(response, recoveryErr).
    attempt (removePresent stageID)
      (\<lambda>_. answer response (withErr ''CANDIDATE_QUARANTINE_CLEANUP_FAILED: bound-materialisation staging cleanup failed'' recoveryErr))
      (\<lambda>_. answer response recoveryErr))"

section \<open>Accepting\<close>

text \<open>An identical request that the ledger already has is answered, not repeated.\<close>

definition answerAccepted :: "'sch wenv \<Rightarrow> manifest \<Rightarrow> validatedEvent \<Rightarrow> wstate \<Rightarrow> wstate \<times> outcome" where
  "answerAccepted e m v =
    (let response = responseFromAccepted writeStatusAlreadyAccepted (mfLedgerCommit m) v in
     attempt (look (\<lambda>h. readFileAt h (weReader e) (reAcceptedCommit (veEntry v)) (rePath (veEntry v))))
       (\<lambda>err. answer (Some response) (Some (Errorf ''POST_ACCEPTANCE_QUARANTINE_CLEANUP_FAILED: read accepted event'' [err])))
       (\<lambda>raw. attempt (cleanupAcceptedQuarantine e v raw)
          (\<lambda>err. answer (Some response) (Some err)) (\<lambda>_. answer (Some response) None)))"

text \<open>Everything between the replay of the expected head and the compare-and-swap: the result is the bytes read
  from the quarantine.\<close>

definition acceptChecks :: "'sch wenv \<Rightarrow> manifest \<Rightarrow> writeCandidate \<Rightarrow> string wop" where
  "acceptChecks e m c =
    hbind (look (\<lambda>h. preflightCandidateForAcceptance h (weReader e) m c)) (\<lambda>_.
    hbind (\<lambda>st. (st, validateQuarantineHandle c)) (\<lambda>_.
    attempt (openExistingCandidateQuarantine e) (\<lambda>_. hfail (candErr ''open existing quarantine'')) (\<lambda>_.
    attempt (onDisk (readEntry (wcQuarantine c))) (\<lambda>_. hfail (candErr ''read quarantined candidate'')) (\<lambda>quarantined.
    case parseCandidateDocument (dpJcs (weDeps e)) quarantined of
      Inl _ \<Rightarrow> hfail (candErr ''quarantined candidate document'')
    | Inr doc \<Rightarrow>
      if cdEventID doc \<noteq> wcEventID c \<or> cdIdempotencyKey doc \<noteq> wcIdempotencyKey c \<or> cdContentSHA256 doc \<noteq> wcContentSHA256 c
      then hfail (candErr ''quarantine identity does not match candidate handle'') else
      hbind (look (\<lambda>h. validateCandidateForAcceptance (weDeps e) h (weReader e) m c quarantined)) (\<lambda>_.
      hreturn quarantined)))))"

definition verificationFailed :: "writeCandidate \<Rightarrow> string \<Rightarrow> goerr list \<Rightarrow> wstate \<Rightarrow> wstate \<times> outcome" where
  "verificationFailed c ledgerCommit errs =
    answer (Some (responseFromCandidate writeStatusAcceptedVerificationFailed c True ledgerCommit))
      (Some (Errorf ''POST_ACCEPTANCE_VERIFICATION_FAILED'' errs))"

text \<open>A response whose quarantine file is still to be removed.\<close>

definition answerClean :: "writeCandidate \<Rightarrow> writeResponse \<Rightarrow> wstate \<Rightarrow> wstate \<times> outcome" where
  "answerClean c resp =
    attempt (removeQuarantineEntry (wcQuarantine c)) (\<lambda>err. answer (Some resp) (Some err)) (\<lambda>_. answer (Some resp) None)"

definition afterFailedCAS :: "'sch wenv \<Rightarrow> writeCandidate \<Rightarrow> goerr \<Rightarrow> wstate \<Rightarrow> wstate \<times> outcome" where
  "afterFailedCAS e c casErr =
    (if errors_is casErr errCASAcceptanceRecovered then
       attempt (recoverCandidateAfterStaleCAS e c) (\<lambda>err. verificationFailed c [] [err])
         (\<lambda>response. case response of None \<Rightarrow> verificationFailed c [] [] | Some resp \<Rightarrow> answerClean c resp)
     else if errors_is casErr errStaleState then
       attempt (recoverCandidateAfterStaleCAS e c) (\<lambda>err. answer None (Some err))
         (\<lambda>response. case response of Some resp \<Rightarrow> answerClean c resp | None \<Rightarrow> answer None (Some casErr))
     else if errors_is casErr errPostCASVerification then verificationFailed c [] [casErr]
     else if errors_is casErr errCASOutcomeUnknown then
       answer (Some (responseFromCandidate writeStatusAcceptanceUnknown c False []))
         (Some (Errorf ''POST_ACCEPTANCE_RECOVERY_REQUIRED'' [casErr]))
     else answer None (Some casErr))"

definition afterCAS :: "'sch wenv \<Rightarrow> writeCandidate \<Rightarrow> wstate \<Rightarrow> wstate \<times> outcome" where
  "afterCAS e c =
    attempt (look (\<lambda>h. replay (weDeps e) h (weReader e)))
      (\<lambda>err. verificationFailed c (wcCandidateCommit c) [err])
      (\<lambda>post. attempt (look (\<lambda>h. findAcceptedIdempotencyAt (weDeps e) h (weReader e) (mfLedgerCommit post) (wcIdempotencyKey c)))
        (\<lambda>err. verificationFailed c (mfLedgerCommit post) [err])
        (\<lambda>accepted. case accepted of
            None \<Rightarrow> verificationFailed c (mfLedgerCommit post) []
          | Some v \<Rightarrow>
            if reAcceptedCommit (veEntry v) \<noteq> wcCandidateCommit c \<or> \<not> sameIdentity v (wcContentSHA256 c) (wcEventID c)
            then verificationFailed c (mfLedgerCommit post) []
            else answerClean c (responseFromAccepted writeStatusAccepted (mfLedgerCommit post) v)))"

definition swap :: "'sch wenv \<Rightarrow> writeCandidate \<Rightarrow> unit wop" where
  "swap e c = act (compareAndSwap (weWorld e) (weReader e) (wePolls e) (wcExpectedHead c) (wcCandidateCommit c))"

definition acceptWriteCandidate :: "'sch wenv \<Rightarrow> writeCandidate \<Rightarrow> wstate \<Rightarrow> wstate \<times> outcome" where
  "acceptWriteCandidate e c =
    attempt (look (\<lambda>h. replay (weDeps e) h (weReader e))) (\<lambda>err. answer None (Some err)) (\<lambda>m.
    attempt (look (\<lambda>h. findAcceptedIdempotencyAt (weDeps e) h (weReader e) (mfLedgerCommit m) (wcIdempotencyKey c)))
      (\<lambda>err. answer None (Some err)) (\<lambda>accepted.
    case accepted of
      Some v \<Rightarrow> if \<not> sameIdentity v (wcContentSHA256 c) (wcEventID c)
        then answer None (Some (Errorf ''key is already bound to another accepted request'' [errIdempotencyConflict]))
        else answerAccepted e m v
    | None \<Rightarrow>
      if mfLedgerCommit m \<noteq> toLower (wcExpectedHead c) then answer None (Some (Errorf ''expected current'' [errStaleState])) else
      attempt (acceptChecks e m c) (recoverAfterSnapshotFailure e c) (\<lambda>_.
      attempt (swap e c) (afterFailedCAS e c) (\<lambda>_. afterCAS e c))))"


section \<open>Preparing\<close>

type_synonym prepared = "writeCandidate option \<times> outcome"

definition refuse :: "goerr \<Rightarrow> wstate \<Rightarrow> wstate \<times> prepared" where
  "refuse err st = (st, None, None, Some err)"

text \<open>The event of a request, validated against the head as if it were committed on top of it.\<close>

definition validateRequest ::
  "'sch deps \<Rightarrow> host \<Rightarrow> reader \<Rightarrow> manifest \<Rightarrow> candidateRequest \<Rightarrow> candidateDocument \<Rightarrow> 'sch schemaRegistry res" where
  "validateRequest d h r m req doc =
    andThen (requireEventIDAvailable m (cdEventID doc)) (\<lambda>_.
    if toLower (crExpectedHead req) \<noteq> mfLedgerCommit m then Inl (Errorf ''expected current'' [errStaleState])
    else if edExpectedLedgerCommit (cdDocument doc) \<noteq> mfLedgerCommit m
    then Inl (Errorf ''EXPECTED_LEDGER_COMMIT_MISMATCH: event and request/current head'' [])
    else if \<not> hasPrefix (edEventType (cdDocument doc)) ''core.record.''
    then Inl (candErr ''event type has no accepted write semantics'')
    else andThen (loadSchemasAt h r (mfLedgerCommit m)) (\<lambda>registry.
    case registryValidate (dpSchema d) registry (edSchemaVersion (cdDocument doc)) (crEvent req) of
      Inl _ \<Rightarrow> Inl (candErr ''schema validation'')
    | Inr reg1 \<Rightarrow>
      andThen (loadReducerBindingsAt (dpJcs d) (dpSchema d) h r reg1 (mfLedgerCommit m)) (\<lambda>(reg2, bindings).
      case applyGovernedRecordEvent (dpJcs d) (mfGovernedRecords m) bindings (mfGenesisRoot m)
          \<lparr>cmID = ''candidate'', cmParent = mfLedgerCommit m\<rparr>
          \<lparr>veEntry = \<lparr>reSequence = 0, reAcceptedCommit = [], rePath = [], reEventID = cdEventID doc,
             reEventType = edEventType (cdDocument doc), reSchemaVersion = edSchemaVersion (cdDocument doc),
             reContentSHA256 = cdContentSHA256 doc, reTargetCount = length (edTargets (cdDocument doc))\<rparr>,
           veDocument = cdDocument doc\<rparr> of
        Inl _ \<Rightarrow> Inl (candErr ''reducer validation'')
      | Inr _ \<Rightarrow> Inr reg2)))"

text \<open>Staging: the exact bytes go into a file of this invocation, and are read back.\<close>

definition stageCandidate :: "'sch wenv \<Rightarrow> string \<Rightarrow> qentry wop" where
  "stageCandidate e event =
    attempt (openCandidateQuarantine e) (\<lambda>_. hfail (candErr ''open quarantine'')) (\<lambda>_.
    hbind (onDisk quarantineStageID) (\<lambda>stageID.
    attempt (onDisk (quarantineEnsure (weClock e) stageID event)) (\<lambda>_. hfail (candErr ''stage candidate in quarantine'')) (\<lambda>entry.
    attempt (onDisk (readEntry entry)) (\<lambda>_. hfail (candErr ''verify staged candidate'')) (\<lambda>quarantined.
    if quarantined \<noteq> event then hfail (candErr ''quarantined bytes differ from validated request'') else hreturn entry))))"

text \<open>The Git candidate, made from the staged bytes.\<close>

definition commitCandidate ::
  "'sch wenv \<Rightarrow> manifest \<Rightarrow> 'sch schemaRegistry \<Rightarrow> candidateRequest \<Rightarrow> candidateDocument \<Rightarrow> candidateCommit \<Rightarrow> unit wop" where
  "commitCandidate e m registry req doc gc =
    hbind (look (\<lambda>h. validatePreparedCandidate (weDeps e) h (weReader e) registry gc (crEvent req))) (\<lambda>v.
    if edIdempotencyKey (veDocument v) \<noteq> cdIdempotencyKey doc \<or> \<not> sameIdentity v (cdContentSHA256 doc) (cdEventID doc)
    then hfail (candErr ''prepared candidate identity changed'') else hreturn ())"

definition candidateOf :: "manifest \<Rightarrow> candidateRequest \<Rightarrow> candidateDocument \<Rightarrow> string \<Rightarrow> qentry \<Rightarrow> writeCandidate" where
  "candidateOf m req doc commit entry =
    \<lparr>wcExpectedHead = mfLedgerCommit m, wcCandidateCommit = commit, wcEventPath = crEventPath req, wcEventID = cdEventID doc,
     wcIdempotencyKey = cdIdempotencyKey doc, wcContentSHA256 = cdContentSHA256 doc, wcQuarantine = entry\<rparr>"

text \<open>The last part: the stage file goes, and the head is looked at once more.\<close>

definition settlePrepared :: "writeCandidate \<Rightarrow> outcome option \<Rightarrow> wstate \<Rightarrow> wstate \<times> prepared" where
  "settlePrepared c settled =
    (case settled of
       None \<Rightarrow> (\<lambda>st. (st, Some c, None, None))
     | Some (response, settleErr) \<Rightarrow>
       attempt (removePresent (qeID (wcQuarantine c)))
         (\<lambda>err st. (st, None, response, Some (Errorf (case response of
             Some _ \<Rightarrow> ''POST_ACCEPTANCE_QUARANTINE_CLEANUP_FAILED: remove reconciled prepared candidate''
           | None \<Rightarrow> ''CANDIDATE_QUARANTINE_CLEANUP_FAILED'') [err])))
         (\<lambda>_ st. (st, None, response, settleErr)))"

definition finishPrepare :: "'sch wenv \<Rightarrow> string \<Rightarrow> writeCandidate \<Rightarrow> wstate \<Rightarrow> wstate \<times> prepared" where
  "finishPrepare e stageID c =
    attempt (removePresent stageID) (\<lambda>_. refuse (candErr ''remove staging quarantine after binding'')) (\<lambda>_.
    chain (reconcilePreparedCandidate e c) (settlePrepared c))"

text \<open>The bound file: its name is the digest of the whole identity.\<close>

definition bindCandidate ::
  "'sch wenv \<Rightarrow> manifest \<Rightarrow> candidateRequest \<Rightarrow> candidateDocument \<Rightarrow> qentry \<Rightarrow> string \<Rightarrow> wstate \<Rightarrow> wstate \<times> prepared" where
  "bindCandidate e m req doc stage commit =
    (let fields = [mfLedgerCommit m, commit, crEventPath req, cdEventID doc, cdIdempotencyKey doc, cdContentSHA256 doc,
           qeContentSHA256 stage] in
     case candidateQuarantineBindingIDFields fields (qeSize stage) of
       Inl _ \<Rightarrow> refuse (candErr ''bind quarantine identity'')
     | Inr boundID \<Rightarrow>
       let failed = (\<lambda>c msg. chain (recoverPrepareAfterBoundFailure e (qeID stage) c (candErr msg)) (\<lambda>out st. (st, None, out))) in
       attempt (onDisk (quarantineEnsure (weClock e) boundID (crEvent req)))
         (\<lambda>_. failed (candidateOf m req doc commit (stage\<lparr>qeID := boundID\<rparr>)) ''finalise bound quarantine'') (\<lambda>entry.
       let c = candidateOf m req doc commit entry in
       attempt (onDisk (readEntry entry)) (\<lambda>_. failed c ''verify bound quarantine'') (\<lambda>boundBytes.
       if boundBytes \<noteq> crEvent req then failed c ''bound quarantine bytes changed''
       else finishPrepare e (qeID stage) c)))"

text \<open>When the head moved before the commit: the ledger is asked whether the same request won.\<close>

definition preparedTooLate :: "'sch wenv \<Rightarrow> string \<Rightarrow> writeCandidate \<Rightarrow> goerr \<Rightarrow> wstate \<Rightarrow> wstate \<times> prepared" where
  "preparedTooLate e stageID ident err =
    chain (recoverAfterSnapshotFailure e ident err) (\<lambda>(response, recoveryErr).
    attempt (removePresent stageID)
      (\<lambda>_ st. (st, None, response, withErr ''CANDIDATE_QUARANTINE_CLEANUP_FAILED: concurrent-acceptance staging cleanup failed'' recoveryErr))
      (\<lambda>_ st. (st, None, response, recoveryErr)))"

definition prepareAccepted :: "'sch wenv \<Rightarrow> manifest \<Rightarrow> candidateRequest \<Rightarrow> candidateDocument \<Rightarrow> validatedEvent \<Rightarrow> wstate \<Rightarrow> wstate \<times> prepared" where
  "prepareAccepted e m req doc v =
    (if \<not> sameIdentity v (cdContentSHA256 doc) (cdEventID doc)
     then refuse (Errorf ''key is already bound to event'' [errIdempotencyConflict]) else
     let response = responseFromAccepted writeStatusAlreadyAccepted (mfLedgerCommit m) v in
     attempt (cleanupAcceptedQuarantine e v (crEvent req))
       (\<lambda>err st. (st, None, Some response, Some err)) (\<lambda>_ st. (st, None, Some response, None)))"

definition prepareWriteCandidate :: "'sch wenv \<Rightarrow> candidateRequest \<Rightarrow> wstate \<Rightarrow> wstate \<times> prepared" where
  "prepareWriteCandidate e req =
    attempt (look (\<lambda>h. replay (weDeps e) h (weReader e))) refuse (\<lambda>m.
    case parseCandidateDocument (dpJcs (weDeps e)) (crEvent req) of Inl err \<Rightarrow> refuse err | Inr doc \<Rightarrow>
    if cdIdempotencyKey doc = [] then refuse (candErr ''idempotency_key is required'') else
    attempt (look (\<lambda>h. findAcceptedIdempotencyAt (weDeps e) h (weReader e) (mfLedgerCommit m) (cdIdempotencyKey doc))) refuse
      (\<lambda>accepted. case accepted of Some v \<Rightarrow> prepareAccepted e m req doc v | None \<Rightarrow>
    attempt (look (\<lambda>h. validateRequest (weDeps e) h (weReader e) m req doc)) refuse (\<lambda>registry.
    attempt (stageCandidate e (crEvent req)) refuse (\<lambda>stage.
    attempt (act (prepareEventCommit (weWorld e) (weReader e) (mfLedgerCommit m) (crEventPath req) (crEvent req) (cdEventID doc)))
      (\<lambda>err. if errors_is err errStaleState
         then preparedTooLate e (qeID stage) (candidateOf m req doc [] \<lparr>qeID = [], qeContentSHA256 = [], qeSize = 0\<rparr>) err
         else refuse err) (\<lambda>gc.
    attempt (commitCandidate e m registry req doc gc) refuse (\<lambda>_.
    bindCandidate e m req doc stage (ccCommit gc)))))))"

end
