(* ===== verification/Candidate_Runs.thy ===== *)
theory Candidate_Runs
  imports Candidate_Write Replay_Log
begin

text \<open>
  The runs of preparing and accepting a candidate (Candidate\_Write) as the sequences of states they pass: what only
  looks, what a lookup finds in the ledger, the course of an acceptance up to and after its compare-and-swap, the
  names of quarantine files, the course of a preparation, and the head during it.
\<close>

section \<open>What only looks\<close>

text \<open>Between two states only other processes changed the host.\<close>

definition drift :: "wstate \<Rightarrow> wstate \<Rightarrow> bool" where
  "drift st st' \<longleftrightarrow> (\<exists>ms. wsMoves st = ms @ wsMoves st' \<and> wsHost st' = foldl (\<lambda>h m. m h) (wsHost st) ms)"

named_theorems look_intros

lemma drift_refl [simp]: "drift st st"
  unfolding drift_def by (rule exI [of _ "[]"]) simp

lemma drift_trans: "drift a b \<Longrightarrow> drift b c \<Longrightarrow> drift a c"
  unfolding drift_def by (metis append.assoc foldl_append)

lemma drift_moved [simp]: "drift st (moved st)"
proof (cases "wsMoves st")
  case (Cons m ms)
  then show ?thesis unfolding drift_def moved_def by (intro exI [of _ "[m]"]) simp
qed (simp add: moved_def)

lemma drift_disk [simp]: "drift st (st\<lparr>wsDisk := d, wsSteps := s\<rparr>)"
  unfolding drift_def by (rule exI [of _ "[]"]) simp

text \<open>A relation between states that allows for the changes of others is kept by everything that only looks; one that
  a write keeps too can be carried through whole operations.\<close>

locale courses =
  fixes R :: "wstate \<Rightarrow> wstate \<Rightarrow> bool"
  assumes drift_R: "drift a b \<Longrightarrow> R a b"
    and R_trans: "R a b \<Longrightarrow> R b c \<Longrightarrow> R a c"
begin

definition within :: "(wstate \<Rightarrow> wstate \<times> 'r) \<Rightarrow> bool" where
  "within m \<longleftrightarrow> (\<forall>st. R st (fst (m st)))"

lemma R_refl: "R a a"
  by (rule drift_R) simp

lemma withinD: "within m \<Longrightarrow> m st = (st', r) \<Longrightarrow> R st st'"
  unfolding within_def by (metis fst_conv)

lemma withinI: "(\<And>st st' r. m st = (st', r) \<Longrightarrow> R st st') \<Longrightarrow> within m"
  unfolding within_def by (metis prod.collapse)

lemma look_look [look_intros]: "within (look f)"
  by (simp add: within_def look_def drift_R)

lemma look_onDisk [look_intros]: "within (onDisk m)"
  by (simp add: within_def onDisk_def drift_R split: prod.splits)

lemma look_leaf [look_intros]: "within (hfail err)" "within (hreturn x)" "within (answer resp e)" "within (\<lambda>st. (st, r))"
  by (simp_all add: within_def hfail_def hreturn_def answer_def drift_R)

lemma look_attempt [look_intros]:
  "within m \<Longrightarrow> (\<And>err. within (bad err)) \<Longrightarrow> (\<And>x. within (good x)) \<Longrightarrow> within (attempt m bad good)"
proof (rule withinI)
  fix st st' r
  assume m: "within m" and bad: "\<And>err. within (bad err)" and good: "\<And>x. within (good x)"
    and x: "attempt m bad good st = (st', r)"
  obtain st1 y where y: "m st = (st1, y)" by (metis prod.collapse)
  have "R st1 st'" using x y bad good by (cases y) (auto simp: attempt_def dest: withinD)
  then show "R st st'" using withinD [OF m y] R_trans by blast
qed

lemma look_hbind [look_intros]: "within m \<Longrightarrow> (\<And>x. within (f x)) \<Longrightarrow> within (hbind m f)"
proof (rule withinI)
  fix st st' r
  assume m: "within m" and f: "\<And>x. within (f x)" and x: "hbind m f st = (st', r)"
  obtain st1 y where y: "m st = (st1, y)" by (metis prod.collapse)
  have "R st1 st'" using x y f by (cases y) (auto simp: hbind_def R_refl dest: withinD)
  then show "R st st'" using withinD [OF m y] R_trans by blast
qed

lemma look_chain [look_intros]:
  assumes "within m" "\<And>x. within (k x)"
  shows "within (chain m k)"
proof (rule withinI)
  fix st st' out
  assume x: "chain m k st = (st', out)"
  obtain st1 y where y: "m st = (st1, y)" by (metis prod.collapse)
  have "R st1 st'" using x y withinD [OF assms(2)] by (simp add: chain_def)
  then show "R st st'" using withinD [OF assms(1) y] R_trans by blast
qed

lemma look_pair [look_intros]: "(\<And>x y. within (f x y)) \<Longrightarrow> within (case p of (x, y) \<Rightarrow> f x y)"
  by (cases p) simp

lemma look_hwrap [look_intros]: "within m \<Longrightarrow> within (hwrap msg m)"
  by (rule withinI) (auto simp: hwrap_def split: prod.splits dest: withinD)

lemma look_if [look_intros]: "within m \<Longrightarrow> within m' \<Longrightarrow> within (if b then m else m')"
  by simp

lemma look_option [look_intros]: "within m \<Longrightarrow> (\<And>x. within (f x)) \<Longrightarrow> within (case opt of None \<Rightarrow> m | Some x \<Rightarrow> f x)"
  by (cases opt) simp_all

lemma look_sum [look_intros]: "(\<And>x. within (f x)) \<Longrightarrow> (\<And>x. within (g x)) \<Longrightarrow> within (case s of Inl x \<Rightarrow> f x | Inr x \<Rightarrow> g x)"
  by (cases s) simp_all

lemma look_openExisting [look_intros]: "within (openExistingCandidateQuarantine e)"
  unfolding openExistingCandidateQuarantine_def by (intro look_intros)

lemma look_recover [look_intros]: "within (recoverCandidateAfterStaleCAS e c)"
  unfolding recoverCandidateAfterStaleCAS_def by (intro look_intros)

lemma look_recoverAfter [look_intros]: "within (recoverAfterSnapshotFailure e c err)"
  unfolding recoverAfterSnapshotFailure_def by (intro look_intros)

lemma look_cleanup [look_intros]: "within (removeQuarantineID i)" "within (removeQuarantineEntry q)" "within (removePresent i)"
    "within (cleanupAcceptedQuarantineID e i)" "within (cleanupAcceptedQuarantine e v raw)"
  unfolding removeQuarantineID_def removeQuarantineEntry_def removePresent_def cleanupAcceptedQuarantineID_def cleanupAcceptedQuarantine_def
  by (intro look_intros)+

lemma look_answers [look_intros]: "within (answerAccepted e m v)" "within (verificationFailed c l errs)" "within (answerClean c resp)"
  unfolding answerAccepted_def verificationFailed_def answerClean_def Let_def
  by (intro look_intros)+

lemma look_acceptChecks [look_intros]: "within (acceptChecks e m c)"
  unfolding acceptChecks_def by (intro look_intros)

lemma look_afterCAS [look_intros]: "within (afterFailedCAS e c err)" "within (afterCAS e c)"
  unfolding afterFailedCAS_def afterCAS_def by (intro look_intros)+

end

interpretation looks: courses drift
  by unfold_locales (auto intro: drift_trans)

section \<open>What a run finds in the ledger\<close>

text \<open>The ledger at \<open>head\<close>, as the host shows it, has the event: a commit of its history added it. And no event of
  that ledger has the key: every addition of every commit is an event with another key.\<close>

definition inLedger :: "'sch deps \<Rightarrow> host \<Rightarrow> reader \<Rightarrow> string \<Rightarrow> validatedEvent \<Rightarrow> bool" where
  "inLedger d h r head v \<longleftrightarrow>
    (\<exists>cs cm as a reg reg'. readHistory h r head = Inr cs \<and> cm \<in> set cs \<and> eventAdditions h r (cmID cm) = Inr as \<and> a \<in> set as \<and>
       validateEvent d h r reg a = Inr (reg', v))"

definition keyFree :: "'sch deps \<Rightarrow> host \<Rightarrow> reader \<Rightarrow> string \<Rightarrow> string \<Rightarrow> bool" where
  "keyFree d h r head key \<longleftrightarrow>
    (\<exists>cs. readHistory h r head = Inr cs \<and> (\<forall>cm\<in>set cs. \<exists>as. eventAdditions h r (cmID cm) = Inr as \<and>
       (\<forall>a\<in>set as. \<exists>reg reg' v. validateEvent d h r reg a = Inr (reg', v) \<and> edIdempotencyKey (veDocument v) \<noteq> key)))"

lemma findKey_found:
  "findAcceptedKey d h r reg key as = Inr (Some v) \<Longrightarrow>
   edIdempotencyKey (veDocument v) = key \<and> (\<exists>a\<in>set as. \<exists>reg reg'. validateEvent d h r reg a = Inr (reg', v))"
  by (induction as arbitrary: reg) (auto simp: res_simps split: if_split_asm)

lemma findKey_none:
  "findAcceptedKey d h r reg key as = Inr None \<Longrightarrow>
   \<forall>a\<in>set as. \<exists>reg reg' v. validateEvent d h r reg a = Inr (reg', v) \<and> edIdempotencyKey (veDocument v) \<noteq> key"
proof (induction as arbitrary: reg)
  case (Cons a as)
  then obtain reg' v where v: "validateEvent d h r reg a = Inr (reg', v)" "edIdempotencyKey (veDocument v) \<noteq> key"
      "findAcceptedKey d h r reg' key as = Inr None"
    by (auto simp: res_simps split: if_split_asm)
  from Cons.IH [OF v(3)] v(1,2) show ?case by auto
qed simp

lemma findCommits_found:
  "findAcceptedKeyCommits d h r key cs = Inr (Some v) \<Longrightarrow>
   edIdempotencyKey (veDocument v) = key \<and> (\<exists>cm\<in>set cs. \<exists>as. eventAdditions h r (cmID cm) = Inr as \<and>
     (\<exists>a\<in>set as. \<exists>reg reg'. validateEvent d h r reg a = Inr (reg', v)))"
  by (induction cs) (auto simp: res_simps split: if_split_asm option.splits dest!: findKey_found)

lemma findCommits_none:
  "findAcceptedKeyCommits d h r key cs = Inr None \<Longrightarrow>
   \<forall>cm\<in>set cs. \<exists>as. eventAdditions h r (cmID cm) = Inr as \<and>
     (\<forall>a\<in>set as. \<exists>reg reg' v. validateEvent d h r reg a = Inr (reg', v) \<and> edIdempotencyKey (veDocument v) \<noteq> key)"
  by (induction cs) (auto simp: res_simps split: if_split_asm option.splits dest: findKey_none)

text \<open>The two looks that every lookup of the run is made of, from the state \<open>st\<close>: the replay of the ledger on the host of
  the first, and the search for the key, at the head of that replay, on the host of the second.\<close>

definition lookedUp :: "'sch wenv \<Rightarrow> wstate \<Rightarrow> manifest \<Rightarrow> string \<Rightarrow> validatedEvent option \<Rightarrow> bool" where
  "lookedUp e st m key found \<longleftrightarrow>
    replay (weDeps e) (wsHost (moved st)) (weReader e) = Inr m \<and>
    readHead (wsHost (moved st)) (weReader e) = Inr (mfLedgerCommit m) \<and>
    findAcceptedIdempotencyAt (weDeps e) (wsHost (moved (moved st))) (weReader e) (mfLedgerCommit m) key = Inr found \<and>
    (case found of
       None \<Rightarrow> key = [] \<or> keyFree (weDeps e) (wsHost (moved (moved st))) (weReader e) (mfLedgerCommit m) key
     | Some v \<Rightarrow> edIdempotencyKey (veDocument v) = key \<and>
         inLedger (weDeps e) (wsHost (moved (moved st))) (weReader e) (mfLedgerCommit m) v)"

lemma find_meaning:
  assumes "findAcceptedIdempotencyAt d h r head key = Inr found"
  shows "case found of None \<Rightarrow> key = [] \<or> keyFree d h r head key
     | Some v \<Rightarrow> edIdempotencyKey (veDocument v) = key \<and> inLedger d h r head v"
proof (cases "key = []")
  case True
  then show ?thesis using assms by (auto simp: findAcceptedIdempotencyAt_def)
next
  case False
  then obtain cs where cs: "readHistory h r head = Inr cs" "findAcceptedKeyCommits d h r key cs = Inr found"
    using assms by (auto simp: findAcceptedIdempotencyAt_def res_simps)
  show ?thesis
  proof (cases found)
    case None
    then show ?thesis using cs findCommits_none unfolding keyFree_def by fastforce
  next
    case (Some v)
    with findCommits_found cs(2) have v: "edIdempotencyKey (veDocument v) = key"
      "\<exists>cm\<in>set cs. \<exists>as. eventAdditions h r (cmID cm) = Inr as \<and> (\<exists>a\<in>set as. \<exists>reg reg'. validateEvent d h r reg a = Inr (reg', v))"
      by blast+
    then have "inLedger d h r head v" using cs(1) unfolding inLedger_def by blast
    then show ?thesis using Some v(1) by simp
  qed
qed

lemma look_iff: "look f st = (st', x) \<longleftrightarrow> st' = moved st \<and> x = f (wsHost (moved st))"
  by (auto simp: look_def)

lemma lookedUpI:
  assumes "look (\<lambda>h. replay (weDeps e) h (weReader e)) st = (st1, Inr m)"
    "look (\<lambda>h. findAcceptedIdempotencyAt (weDeps e) h (weReader e) (mfLedgerCommit m) key) st1 = (st2, Inr found)"
  shows "lookedUp e st m key found \<and> st1 = moved st \<and> st2 = moved (moved st)"
proof -
  have r: "replay (weDeps e) (wsHost (moved st)) (weReader e) = Inr m" and s: "st1 = moved st" "st2 = moved (moved st)"
    and f: "findAcceptedIdempotencyAt (weDeps e) (wsHost (moved (moved st))) (weReader e) (mfLedgerCommit m) key = Inr found"
    using assms by (simp_all add: look_iff)
  show ?thesis unfolding lookedUp_def using r s f replay_Inr [OF r] find_meaning [OF f] by blast
qed

section \<open>The course of an acceptance\<close>

lemma attempt_cases:
  assumes "attempt m bad good st = (st', out)"
  obtains (bad) err st1 where "m st = (st1, Inl err)" "bad err st1 = (st', out)"
    | (good) x st1 where "m st = (st1, Inr x)" "good x st1 = (st', out)"
  using assms by (auto simp: attempt_def split: prod.splits sum.splits)

text \<open>What the run from \<open>st\<close> has established of the candidate when it comes to the compare-and-swap in \<open>st1\<close>, each fact on
  the host and the disk of the state in which it was looked at: the ledger \<open>m\<close> at the expected head has no event with
  its key or its id; its handle is the one bound to its identity; the bytes \<open>q\<close> read from the quarantine are those the
  handle names and an event with its identity; and the Git candidate, whose file has the same bytes, passed every
  check against them.\<close>

definition vetted :: "'sch wenv \<Rightarrow> writeCandidate \<Rightarrow> wstate \<Rightarrow> manifest \<Rightarrow> string \<Rightarrow> wstate \<Rightarrow> bool" where
  "vetted e c st m q st1 \<longleftrightarrow>
    lookedUp e st m (wcIdempotencyKey c) None \<and> wcIdempotencyKey c \<noteq> [] \<and> mfLedgerCommit m = toLower (wcExpectedHead c) \<and>
    wcEventID c \<notin> reEventID ` set (mfEvents m) \<and>
    preflightCandidateForAcceptance (wsHost (moved (moved (moved st)))) (weReader e) m c = Inr () \<and>
    expectedBoundQuarantineEntry c = Inr (wcQuarantine c) \<and>
    (\<exists>opened read doc. openExistingCandidateQuarantine e (moved (moved (moved st))) = (opened, Inr ()) \<and>
       onDisk (readEntry (wcQuarantine c)) opened = (read, Inr q) \<and> st1 = moved read \<and>
       parseCandidateDocument (dpJcs (weDeps e)) q = Inr doc \<and> cdEventID doc = wcEventID c \<and>
       cdIdempotencyKey doc = wcIdempotencyKey c \<and> cdContentSHA256 doc = wcContentSHA256 c) \<and>
    qeContentSHA256 (wcQuarantine c) = sha256Hex q \<and> qeSize (wcQuarantine c) = length q \<and>
    readFileAt (wsHost st1) (weReader e) (wcCandidateCommit c) (wcEventPath c) = Inr q \<and>
    validateCandidateForAcceptance (weDeps e) (wsHost st1) (weReader e) m c q = Inr ()"

lemma readEntry_Inr:
  assumes "readEntry entry st = (st', Inr q)"
  shows "qeContentSHA256 entry = sha256Hex q \<and> qeSize entry = length q"
proof -
  obtain st1 actual q' where r: "readID (qeID entry) st = (st1, Inr (actual, q'))"
      "(if qeSize actual \<noteq> qeSize entry \<or> qeContentSHA256 actual \<noteq> qeContentSHA256 entry
        then hfail (qintegrity ''candidate bytes changed'') else hreturn q') st1 = (st', Inr q)"
    using assms by (auto simp: readEntry_def hbind_Inr)
  then have "actual = entryFor (qeID entry) q'"
    by (auto simp: readID_def hbind_Inr split: if_split_asm)
  with r(2) show ?thesis by (auto simp: entryFor_def split: if_split_asm)
qed

lemma onDisk_Inr: "onDisk m st = (st', Inr x) \<Longrightarrow> \<exists>q q'. m q = (q', Inr x)"
  by (auto simp: onDisk_def split: prod.splits)

lemma onDisk_readEntry: "onDisk (readEntry entry) st = (st', Inr q) \<Longrightarrow> qeContentSHA256 entry = sha256Hex q \<and> qeSize entry = length q"
  using readEntry_Inr onDisk_Inr [of "readEntry entry" st st' q] by auto

lemma handle_valid: "validateQuarantineHandle c = Inr () \<longleftrightarrow> expectedBoundQuarantineEntry c = Inr (wcQuarantine c)"
  by (auto simp: validateQuarantineHandle_def split: sum.splits if_split_asm)

lemma preflight_identity:
  "preflightCandidateForAcceptance h r m c = Inr () \<Longrightarrow> wcIdempotencyKey c \<noteq> [] \<and> wcEventID c \<notin> reEventID ` set (mfEvents m)"
  by (auto simp: preflightCandidateForAcceptance_def requireEventIDAvailable_def list_ex_iff res_simps split: if_split_asm)

lemma validate_stored:
  "validateCandidateForAcceptance d h r m c q = Inr () \<Longrightarrow> readFileAt h r (wcCandidateCommit c) (wcEventPath c) = Inr q"
  by (auto simp: validateCandidateForAcceptance_def res_simps split: if_split_asm)

lemma acceptChecks_vetted:
  assumes "acceptChecks e m c (moved (moved st)) = (st1, Inr q)" "lookedUp e st m (wcIdempotencyKey c) None"
    "mfLedgerCommit m = toLower (wcExpectedHead c)"
  shows "vetted e c st m q st1"
proof -
  let ?s = "moved (moved (moved st))"
  from assms(1) obtain opened read doc where
    p: "preflightCandidateForAcceptance (wsHost ?s) (weReader e) m c = Inr ()" and v: "validateQuarantineHandle c = Inr ()"
    and o: "openExistingCandidateQuarantine e ?s = (opened, Inr ())" and r: "onDisk (readEntry (wcQuarantine c)) opened = (read, Inr q)"
    and d: "parseCandidateDocument (dpJcs (weDeps e)) q = Inr doc"
      "cdEventID doc = wcEventID c \<and> cdIdempotencyKey doc = wcIdempotencyKey c \<and> cdContentSHA256 doc = wcContentSHA256 c"
    and c: "st1 = moved read" "validateCandidateForAcceptance (weDeps e) (wsHost (moved read)) (weReader e) m c q = Inr ()"
    by (auto simp: acceptChecks_def hbind_Inr look_iff split: if_split_asm sum.splits elim!: attempt_cases)
  show ?thesis
    unfolding vetted_def using assms(2,3) p v o r d c onDisk_readEntry [OF r] preflight_identity [OF p] validate_stored [OF c(2)]
    unfolding handle_valid by blast
qed

text \<open>Conversely a run that has established all this goes on with the compare-and-swap, in this state.\<close>

lemma attempt_look:
  "attempt (look f) bad good st = (case f (wsHost (moved st)) of Inl err \<Rightarrow> bad err (moved st) | Inr x \<Rightarrow> good x (moved st))"
  by (simp add: attempt_def look_def)

lemma attempt_good: "m st = (st1, Inr x) \<Longrightarrow> attempt m bad good st = good x st1"
  by (simp add: attempt_def)

lemma vetted_run:
  assumes "vetted e c st m q st1"
  shows "acceptWriteCandidate e c st = attempt (swap e c) (afterFailedCAS e c) (\<lambda>_. afterCAS e c) st1"
proof -
  let ?s = "moved (moved (moved st))"
  obtain opened read doc where
    p: "preflightCandidateForAcceptance (wsHost ?s) (weReader e) m c = Inr ()"
    and o: "openExistingCandidateQuarantine e ?s = (opened, Inr ())" and r: "onDisk (readEntry (wcQuarantine c)) opened = (read, Inr q)"
    and d: "parseCandidateDocument (dpJcs (weDeps e)) q = Inr doc"
      "cdEventID doc = wcEventID c" "cdIdempotencyKey doc = wcIdempotencyKey c" "cdContentSHA256 doc = wcContentSHA256 c"
    and c: "st1 = moved read" "validateCandidateForAcceptance (weDeps e) (wsHost (moved read)) (weReader e) m c q = Inr ()"
    and h: "validateQuarantineHandle c = Inr ()" and l: "lookedUp e st m (wcIdempotencyKey c) None" "mfLedgerCommit m = toLower (wcExpectedHead c)"
    using assms unfolding vetted_def handle_valid by blast
  have checks: "acceptChecks e m c (moved (moved st)) = (st1, Inr q)"
    unfolding acceptChecks_def hbind_Inr
    by (rule exI [of _ ?s], rule exI [of _ "()"])
      (simp add: look_iff p h hbind_def attempt_good [of "openExistingCandidateQuarantine e", OF o]
        attempt_good [of "onDisk (readEntry (wcQuarantine c))", OF r] d look_def c hreturn_def)
  have "replay (weDeps e) (wsHost (moved st)) (weReader e) = Inr m"
    "findAcceptedIdempotencyAt (weDeps e) (wsHost (moved (moved st))) (weReader e) (mfLedgerCommit m) (wcIdempotencyKey c) = Inr None"
    using l(1) by (simp_all add: lookedUp_def)
  then show ?thesis
    using l(2) by (simp add: acceptWriteCandidate_def attempt_look attempt_good [of "acceptChecks e m c", OF checks])
qed

lemma vetted_drift:
  assumes "vetted e c st m q st1"
  shows "drift st st1"
proof -
  obtain opened read where o: "openExistingCandidateQuarantine e (moved (moved (moved st))) = (opened, Inr ())"
      "onDisk (readEntry (wcQuarantine c)) opened = (read, Inr q)" "st1 = moved read"
    using assms by (auto simp: vetted_def)
  have "drift st (moved (moved (moved st)))" using drift_trans [OF drift_trans] drift_moved by metis
  moreover have "drift (moved (moved (moved st))) opened" by (rule looks.withinD [OF looks.look_openExisting o(1)])
  moreover have "drift opened read" by (rule looks.withinD [OF looks.look_onDisk o(2)])
  ultimately have "drift st read" using drift_trans by metis
  then show ?thesis unfolding o(3) using drift_trans [OF _ drift_moved] by metis
qed

lemma accept_cases:
  assumes "acceptWriteCandidate e c st = (st', out)"
  obtains (failed) err where "out = (None, Some err)" "drift st st'"
    | (retry) m v where "lookedUp e st m (wcIdempotencyKey c) (Some v)" "sameIdentity v (wcContentSHA256 c) (wcEventID c)"
        "answerAccepted e m v (moved (moved st)) = (st', out)"
    | (refused) err st1 where "drift st st1" "recoverAfterSnapshotFailure e c err st1 = (st', out)"
    | (swapFailed) m q st1 st2 err where "vetted e c st m q st1" "swap e c st1 = (st2, Inl err)"
        "afterFailedCAS e c err st2 = (st', out)"
    | (swapped) m q st1 st2 where "vetted e c st m q st1" "swap e c st1 = (st2, Inr ())" "afterCAS e c st2 = (st', out)"
proof -
  have two: "drift st (moved (moved st))" using drift_trans drift_moved by metis
  note acc = assms [unfolded acceptWriteCandidate_def]
  from acc show thesis
  proof (cases rule: attempt_cases)
    case (bad err st1)
    then show thesis by (intro failed) (auto simp: answer_def look_def)
  next
    case (good m st1)
    note replayed = good(1)
    from good(2) show thesis
    proof (cases rule: attempt_cases)
      case (bad err st2)
      then have "out = (None, Some err)" "st' = moved (moved st)" using replayed by (simp_all add: answer_def look_iff)
      then show thesis using failed two by simp
    next
      case (good found st2)
      have found: "lookedUp e st m (wcIdempotencyKey c) found" and st2: "st2 = moved (moved st)"
        using lookedUpI [OF replayed good(1)] by blast+
      show thesis
      proof (cases found)
        case (Some v)
        then show thesis
          using good(2) two found failed retry unfolding st2
          by (cases "sameIdentity v (wcContentSHA256 c) (wcEventID c)") (auto simp: answer_def)
      next
        case None
        show thesis
        proof (cases "mfLedgerCommit m = toLower (wcExpectedHead c)")
          case False
          then show thesis using good(2) None two failed unfolding st2 by (auto simp: answer_def)
        next
          case True
          then have "attempt (acceptChecks e m c) (recoverAfterSnapshotFailure e c) (\<lambda>_.
              attempt (swap e c) (afterFailedCAS e c) (\<lambda>_. afterCAS e c)) (moved (moved st)) = (st', out)"
            using good(2) None st2 by simp
          then show thesis
          proof (cases rule: attempt_cases)
            case (bad err st3)
            show thesis using refused [OF drift_trans [OF two looks.withinD [OF looks.look_acceptChecks bad(1)]] bad(2)] .
          next
            case (good q st3)
            have v: "vetted e c st m q st3" using acceptChecks_vetted [OF good(1)] found None True by simp
            from good(2) show thesis
            proof (cases rule: attempt_cases)
              case (bad err st4)
              then show thesis using swapFailed v by blast
            next
              case (good x st4)
              then show thesis using swapped v by (cases x) auto
            qed
          qed
        qed
      qed
    qed
  qed
qed

lemma recover_Inr:
  assumes "recoverCandidateAfterStaleCAS e c st = (st', Inr resp)"
  shows "\<exists>m found. lookedUp e st m (wcIdempotencyKey c) found \<and> st' = moved (moved st) \<and>
    (case found of None \<Rightarrow> resp = None
     | Some v \<Rightarrow> sameIdentity v (wcContentSHA256 c) (wcEventID c) \<and> resp = Some (responseFromAccepted writeStatusAlreadyAccepted (mfLedgerCommit m) v))"
proof -
  obtain m st1 found st2 where h: "hwrap ''STALE_STATE_RECOVERY_FAILED: replay current ledger'' (look (\<lambda>h. replay (weDeps e) h (weReader e))) st = (st1, Inr m)"
     "hwrap ''STALE_STATE_RECOVERY_FAILED: idempotency lookup''
       (look (\<lambda>h. findAcceptedIdempotencyAt (weDeps e) h (weReader e) (mfLedgerCommit m) (wcIdempotencyKey c))) st1 = (st2, Inr found)"
     "(case found of
      None \<Rightarrow> hreturn None
    | Some v \<Rightarrow> if \<not> sameIdentity v (wcContentSHA256 c) (wcEventID c)
        then hfail (Errorf ''key is already bound to another event'' [errIdempotencyConflict])
        else hreturn (Some (responseFromAccepted writeStatusAlreadyAccepted (mfLedgerCommit m) v))) st2 = (st', Inr resp)"
    using assms unfolding recoverCandidateAfterStaleCAS_def hbind_Inr by blast
  have "look (\<lambda>h. replay (weDeps e) h (weReader e)) st = (st1, Inr m)"
    "look (\<lambda>h. findAcceptedIdempotencyAt (weDeps e) h (weReader e) (mfLedgerCommit m) (wcIdempotencyKey c)) st1 = (st2, Inr found)"
    using h(1,2) by (auto simp: hwrap_def look_def res_simps)
  from lookedUpI [OF this] have l: "lookedUp e st m (wcIdempotencyKey c) found" "st2 = moved (moved st)" by blast+
  have "st' = st2 \<and> (case found of None \<Rightarrow> resp = None
     | Some v \<Rightarrow> sameIdentity v (wcContentSHA256 c) (wcEventID c) \<and> resp = Some (responseFromAccepted writeStatusAlreadyAccepted (mfLedgerCommit m) v))"
    using h(3) by (cases found) (auto simp: hreturn_def hfail_def split: if_split_asm)
  with l show ?thesis by blast
qed

text \<open>The run from \<open>st\<close> came to its compare-and-swap, which returned \<open>r\<close> in the state \<open>st2\<close>.\<close>

definition swappedTo :: "'sch wenv \<Rightarrow> writeCandidate \<Rightarrow> wstate \<Rightarrow> unit res \<Rightarrow> wstate \<Rightarrow> bool" where
  "swappedTo e c st r st2 \<longleftrightarrow> (\<exists>m q st1. vetted e c st m q st1 \<and> swap e c st1 = (st2, r))"

text \<open>What the answer of a run from \<open>st\<close> to \<open>st'\<close> says. Without an error there is a response, which repeats an event that a
  lookup of this run, from a state \<open>s\<close> on its way, found in the ledger under the key of the candidate and with its
  identity. The status \<open>accepted\<close> is for a lookup after a compare-and-swap of this run that succeeded.\<close>

definition answered :: "'sch wenv \<Rightarrow> writeCandidate \<Rightarrow> wstate \<Rightarrow> wstate \<Rightarrow> outcome \<Rightarrow> bool" where
  "answered e c st st' out =
    (case out of
       (_, Some err) \<Rightarrow> True
     | (None, None) \<Rightarrow> False
     | (Some resp, None) \<Rightarrow> (\<exists>s m v. lookedUp e s m (wcIdempotencyKey c) (Some v) \<and> drift (moved (moved s)) st' \<and>
         sameIdentity v (wcContentSHA256 c) (wcEventID c) \<and>
         (resp = responseFromAccepted writeStatusAlreadyAccepted (mfLedgerCommit m) v \<and>
            (drift st s \<or> (\<exists>err st2. swappedTo e c st (Inl err) st2 \<and> drift st2 s)) \<or>
          resp = responseFromAccepted writeStatusAccepted (mfLedgerCommit m) v \<and> reAcceptedCommit (veEntry v) = wcCandidateCommit c \<and>
            (\<exists>st2. swappedTo e c st (Inr ()) st2 \<and> drift st2 s))))"

lemma answered_error [simp]: "answered e c st st' (resp, Some err)"
  by (simp add: answered_def split: option.split)

lemma answered_recovered:
  assumes "lookedUp e s m (wcIdempotencyKey c) (Some v)" "sameIdentity v (wcContentSHA256 c) (wcEventID c)"
    "drift st s \<or> (\<exists>err st2. swappedTo e c st (Inl err) st2 \<and> drift st2 s)" "drift (moved (moved s)) st'"
  shows "answered e c st st' (Some (responseFromAccepted writeStatusAlreadyAccepted (mfLedgerCommit m) v), err)"
proof (cases err)
  case None
  show ?thesis unfolding None answered_def prod.case option.case using assms by blast
qed simp

lemma answerClean_cases:
  assumes "answerClean c resp st = (st', out)"
  shows "fst out = Some resp \<and> drift st st'"
  using assms looks.withinD [OF looks.look_answers(3) assms] unfolding answerClean_def by (auto simp: answer_def elim!: attempt_cases)

lemma recovered_answered:
  assumes "recoverCandidateAfterStaleCAS e c s = (s1, Inr (Some resp))" "drift s1 st'" "fst out = Some resp"
    "drift st s \<or> (\<exists>err st2. swappedTo e c st (Inl err) st2 \<and> drift st2 s)"
  shows "answered e c st st' out \<and> wrStatus resp = writeStatusAlreadyAccepted"
proof -
  obtain m v where "lookedUp e s m (wcIdempotencyKey c) (Some v)" "s1 = moved (moved s)" "sameIdentity v (wcContentSHA256 c) (wcEventID c)"
      "resp = responseFromAccepted writeStatusAlreadyAccepted (mfLedgerCommit m) v"
    using recover_Inr [OF assms(1)] by (auto split: option.splits)
  then show ?thesis
    using answered_recovered [of e s m c v st st' "snd out"] assms(2-4) by (cases out) (simp add: responseFromAccepted_def)
qed

lemma recoverAfter_answered:
  assumes "recoverAfterSnapshotFailure e c err s = (st', out)" "drift st s"
  shows "answered e c st st' out"
proof (cases "wcIdempotencyKey c = []")
  case True
  then show ?thesis using assms by (auto simp: recoverAfterSnapshotFailure_def answer_def)
next
  case False
  then have "attempt (recoverCandidateAfterStaleCAS e c)
       (\<lambda>err. if errors_is err errIdempotencyConflict then answer None (Some err)
         else answer (Some (responseFromCandidate writeStatusAcceptanceUnknown c False []))
           (Some (Errorf ''CONCURRENT_ACCEPTANCE_RECOVERY_REQUIRED'' [err])))
       (\<lambda>response. case response of Some resp \<Rightarrow> answer (Some resp) None | None \<Rightarrow> answer None (Some err)) s = (st', out)"
    using assms by (simp add: recoverAfterSnapshotFailure_def)
  then show ?thesis
  proof (cases rule: attempt_cases)
    case (bad err st1)
    then show ?thesis by (auto simp: answer_def split: if_split_asm)
  next
    case (good resp st1)
    show ?thesis
    proof (cases resp)
      case (Some r)
      then show ?thesis using good recovered_answered [OF good(1) [unfolded Some], of st' out st] assms(2) by (auto simp: answer_def)
    qed (use good in \<open>auto simp: answer_def\<close>)
  qed
qed

text \<open>What the caller must be told of a compare-and-swap that returned \<open>r\<close>.\<close>

definition reported :: "writeCandidate \<Rightarrow> unit res \<Rightarrow> outcome \<Rightarrow> bool" where
  "reported c r out =
    (case r of
       Inr _ \<Rightarrow> (\<exists>resp. fst out = Some resp \<and> wrAcceptedCommit resp = wcCandidateCommit c \<and>
         (wrStatus resp = writeStatusAccepted \<or> wrStatus resp = writeStatusAcceptedVerificationFailed \<and> snd out \<noteq> None))
     | Inl err \<Rightarrow>
         let verificationFailed = (\<exists>resp. fst out = Some resp \<and> wrStatus resp = writeStatusAcceptedVerificationFailed \<and>
               wrAcceptedCommit resp = wcCandidateCommit c \<and> snd out \<noteq> None);
             alreadyAccepted = (\<exists>resp. fst out = Some resp \<and> wrStatus resp = writeStatusAlreadyAccepted) in
         if errors_is err errCASAcceptanceRecovered then verificationFailed \<or> alreadyAccepted
         else if errors_is err errStaleState then alreadyAccepted \<or> fst out = None \<and> snd out \<noteq> None
         else if errors_is err errPostCASVerification then verificationFailed
         else if errors_is err errCASOutcomeUnknown
         then (\<exists>resp. fst out = Some resp \<and> wrStatus resp = writeStatusAcceptanceUnknown \<and> snd out \<noteq> None)
         else out = (None, Some err))"

lemma afterFailedCAS_answered:
  assumes "afterFailedCAS e c err s = (st', out)" "swappedTo e c st (Inl err) s"
  shows "answered e c st st' out \<and> reported c (Inl err) out"
proof -
  have clean: "answered e c st st' out \<and> (\<exists>resp. fst out = Some resp \<and> wrStatus resp = writeStatusAlreadyAccepted)"
    if "recoverCandidateAfterStaleCAS e c s = (s1, Inr (Some resp))" "answerClean c resp s1 = (st', out)" for s1 resp
  proof -
    have way: "drift st s \<or> (\<exists>err st2. swappedTo e c st (Inl err) st2 \<and> drift st2 s)" using assms(2) drift_refl by blast
    show ?thesis using recovered_answered [OF that(1) _ _ way] answerClean_cases [OF that(2)] by blast
  qed
  show ?thesis
    using assms(1) clean unfolding afterFailedCAS_def verificationFailed_def reported_def
    by (auto simp: answer_def responseFromCandidate_def split: if_split_asm option.splits elim!: attempt_cases)
qed

lemma afterCAS_answered:
  assumes "afterCAS e c s = (st', out)" "swappedTo e c st (Inr ()) s"
  shows "answered e c st st' out \<and> reported c (Inr ()) out"
proof -
  have failed: "answered e c st st' out \<and> reported c (Inr ()) out"
    if "verificationFailed c l errs s1 = (st', out)" for l errs s1
    using that by (auto simp: verificationFailed_def answer_def reported_def responseFromCandidate_def)
  from assms(1) [unfolded afterCAS_def] show ?thesis
  proof (cases rule: attempt_cases)
    case (good post st1)
    note replayed = good(1)
    from good(2) show ?thesis
    proof (cases rule: attempt_cases)
      case (good found st2)
      have l: "lookedUp e s post (wcIdempotencyKey c) found" "st2 = moved (moved s)" using lookedUpI [OF replayed good(1)] by blast+
      show ?thesis
      proof (cases "\<exists>v. found = Some v \<and> reAcceptedCommit (veEntry v) = wcCandidateCommit c \<and> sameIdentity v (wcContentSHA256 c) (wcEventID c)")
        case True
        then obtain v where v: "found = Some v" "reAcceptedCommit (veEntry v) = wcCandidateCommit c" "sameIdentity v (wcContentSHA256 c) (wcEventID c)"
          by blast
        have "answerClean c (responseFromAccepted writeStatusAccepted (mfLedgerCommit post) v) st2 = (st', out)" using good(2) v by simp
        from answerClean_cases [OF this] obtain err where
          o: "out = (Some (responseFromAccepted writeStatusAccepted (mfLedgerCommit post) v), err)" "drift (moved (moved s)) st'"
          using l(2) by (cases out) auto
        have "answered e c st st' out"
        proof (cases err)
          case None
          have "drift s s" by simp
          then show ?thesis unfolding o(1) None answered_def prod.case option.case using l(1) v assms(2) o(2) by blast
        qed (simp add: o(1))
        moreover have "reported c (Inr ()) out" using o(1) v(2) by (simp add: reported_def responseFromAccepted_def)
        ultimately show ?thesis by simp
      next
        case False
        then have "verificationFailed c (mfLedgerCommit post) [] st2 = (st', out)"
          using good(2) by (auto split: option.splits if_split_asm)
        then show ?thesis by (rule failed)
      qed
    qed (rule failed)
  qed (rule failed)
qed

lemma answerAccepted_cases:
  assumes "answerAccepted e m v st = (st', out)"
  shows "fst out = Some (responseFromAccepted writeStatusAlreadyAccepted (mfLedgerCommit m) v)"
  using assms unfolding answerAccepted_def Let_def by (auto simp: answer_def elim!: attempt_cases)

lemma accept_answered:
  assumes "acceptWriteCandidate e c st = (st', out)"
  shows "answered e c st st' out"
  using assms
proof (cases rule: accept_cases)
  case (retry m v)
  have "drift (moved (moved st)) st'" by (rule looks.withinD [OF looks.look_answers(1) retry(3)])
  then show ?thesis
    using answered_recovered [OF retry(1,2), of st st' "snd out"] answerAccepted_cases [OF retry(3)] by (cases out) simp
next
  case (refused err st1)
  then show ?thesis using recoverAfter_answered by blast
next
  case (swapFailed m q st1 st2 err)
  then show ?thesis using afterFailedCAS_answered unfolding swappedTo_def by blast
next
  case (swapped m q st1 st2)
  then show ?thesis using afterCAS_answered unfolding swappedTo_def by blast
qed simp

text \<open>The two ways a run can take.\<close>

lemma accept_moves:
  assumes "acceptWriteCandidate e c st = (st', out)"
  shows "drift st st' \<or> (\<exists>m q st1 st2 r. vetted e c st m q st1 \<and> drift st st1 \<and> swap e c st1 = (st2, r) \<and> drift st2 st')"
  using assms
proof (cases rule: accept_cases)
  case (retry m v)
  have "drift st (moved st)" "drift (moved st) (moved (moved st))" by simp_all
  then show ?thesis using looks.withinD [OF looks.look_answers(1) retry(3)] drift_trans by metis
next
  case (refused err st1)
  then show ?thesis using looks.withinD [OF looks.look_recoverAfter refused(2)] drift_trans by metis
next
  case (swapFailed m q st1 st2 err)
  then show ?thesis using vetted_drift looks.withinD [OF looks.look_afterCAS(1) swapFailed(3)] by blast
next
  case (swapped m q st1 st2)
  then show ?thesis using vetted_drift looks.withinD [OF looks.look_afterCAS(2) swapped(3)] by blast
qed simp

lemma accept_reports:
  assumes "acceptWriteCandidate e c st = (st', out)" "vetted e c st m q st1" "swap e c st1 = (st2, r)"
  shows "drift st2 st' \<and> reported c r out"
proof -
  have run: "attempt (swap e c) (afterFailedCAS e c) (\<lambda>_. afterCAS e c) st1 = (st', out)"
    using assms(1) vetted_run [OF assms(2)] by simp
  have to: "swappedTo e c st r st2" unfolding swappedTo_def using assms(2,3) by blast
  show ?thesis
  proof (cases r)
    case (Inl err)
    then have a: "afterFailedCAS e c err st2 = (st', out)" using run assms(3) by (simp add: attempt_def)
    show ?thesis using afterFailedCAS_answered [OF a to [unfolded Inl]] looks.withinD [OF looks.look_afterCAS(1) a] Inl by simp
  next
    case (Inr x)
    then have a: "afterCAS e c st2 = (st', out)" using run assms(3) by (simp add: attempt_def)
    show ?thesis using afterCAS_answered [OF a] looks.withinD [OF looks.look_afterCAS(2) a] to Inr by simp
  qed
qed

section \<open>Binding identities\<close>

lemma digits_unique:
  fixes a b :: nat
  assumes "\<forall>j<k. (a div 256 ^ j) mod 256 = (b div 256 ^ j) mod 256"
  shows "a mod 256 ^ k = b mod 256 ^ k"
  using assms
proof (induction k)
  case (Suc k)
  have "x mod 256 ^ Suc k = 256 ^ k * (x div 256 ^ k mod 256) + x mod 256 ^ k" for x :: nat
    using mod_mult2_eq [of x "256 ^ k" 256] by (simp add: mult.commute)
  then show ?case using Suc by simp
qed simp

lemma bigEndian_inj:
  assumes "bigEndian k (int a) = bigEndian k (int b)" "a < 256 ^ k" "b < 256 ^ k"
  shows "a = b"
proof -
  have "\<forall>j<k. (a div 256 ^ j) mod 256 = (b div 256 ^ j) mod 256"
  proof (intro allI impI)
    fix j assume j: "j < k"
    then have "char_of (int a div 256 ^ j) = (char_of (int b div 256 ^ j) :: char)"
      using arg_cong [OF assms(1), of "\<lambda>xs. xs ! (k - 1 - j)"] by (simp add: bigEndian_def)
    then have "int a div 256 ^ j mod 256 = int b div 256 ^ j mod 256" by (metis of_char_of)
    then have "int (a div 256 ^ j mod 256) = int (b div 256 ^ j mod 256)" by (simp add: zdiv_int zmod_int)
    then show "(a div 256 ^ j) mod 256 = (b div 256 ^ j) mod 256" by simp
  qed
  from digits_unique [OF this] assms(2,3) show ?thesis by simp
qed

lemma length_bigEndian [simp]: "length (bigEndian k n) = k"
  by (simp add: bigEndian_def)

lemma bindingField_inj:
  assumes "bindingField f @ s = bindingField g @ t" "length f < 256 ^ 8" "length g < 256 ^ 8"
  shows "f = g \<and> s = t"
proof -
  have e: "bigEndian 8 (int (length f)) @ (f @ s) = bigEndian 8 (int (length g)) @ (g @ t)"
    using assms(1) by (simp add: bindingField_def)
  then have "bigEndian 8 (int (length f)) = bigEndian 8 (int (length g)) \<and> f @ s = g @ t"
    by (subst (asm) append_eq_append_conv) auto
  with bigEndian_inj [of 8 "length f" "length g"] assms(2,3) show ?thesis by auto
qed

lemma bindingPreimage_inj:
  assumes "bindingPreimage fs n = bindingPreimage gs k" "length fs = length gs"
    "list_all (\<lambda>f. length f < 256 ^ 8) fs" "list_all (\<lambda>f. length f < 256 ^ 8) gs" "n < 256 ^ 8" "k < 256 ^ 8"
  shows "fs = gs \<and> n = k"
  using assms(2,1,3,4)
proof (induction fs gs rule: list_induct2)
  case Nil
  then have "bindingField (bigEndian 8 (int n)) @ [] = bindingField (bigEndian 8 (int k)) @ []" by (simp add: bindingPreimage_def)
  then have "bigEndian 8 (int n) = bigEndian 8 (int k)" by (rule bindingField_inj [THEN conjunct1]) simp_all
  then show ?case using bigEndian_inj assms(5,6) by blast
next
  case (Cons f fs g gs)
  have "bindingField f @ bindingPreimage fs n = bindingField g @ bindingPreimage gs k"
    using Cons.prems(1) by (simp add: bindingPreimage_def)
  from bindingField_inj [OF this] Cons show ?case by simp
qed

lemma binding_separates:
  assumes "candidateQuarantineBindingIDFields fs n = Inr i" "candidateQuarantineBindingIDFields gs k = Inr i"
    "length fs = length gs" "list_all (\<lambda>f. length f < 256 ^ 8) fs" "list_all (\<lambda>f. length f < 256 ^ 8) gs" "n < 256 ^ 8" "k < 256 ^ 8"
  shows "fs = gs \<and> n = k \<or> (bindingPreimage fs n \<noteq> bindingPreimage gs k \<and> sha256Hex (bindingPreimage fs n) = sha256Hex (bindingPreimage gs k))"
  using assms bindingPreimage_inj [OF _ assms(3-7)]
  by (auto simp: candidateQuarantineBindingIDFields_def split: if_split_asm)

section \<open>Retries\<close>

lemma still [simp]: "wsMoves st = [] \<Longrightarrow> moved st = st"
  by (simp add: moved_def)

lemma drift_still: "drift st st' \<Longrightarrow> wsMoves st = [] \<Longrightarrow> wsHost st' = wsHost st"
  by (auto simp: drift_def)

lemma accept_retry:
  assumes "wsMoves st = []" "replay (weDeps e) (wsHost st) (weReader e) = Inr m"
    "findAcceptedIdempotencyAt (weDeps e) (wsHost st) (weReader e) (mfLedgerCommit m) (wcIdempotencyKey c) = Inr (Some v)"
  shows "\<exists>st' err. acceptWriteCandidate e c st =
      (st', if sameIdentity v (wcContentSHA256 c) (wcEventID c)
        then (Some (responseFromAccepted writeStatusAlreadyAccepted (mfLedgerCommit m) v), err)
        else (None, Some (Errorf ''key is already bound to another accepted request'' [errIdempotencyConflict]))) \<and>
    wsHost st' = wsHost st"
proof -
  have a: "acceptWriteCandidate e c st = (if \<not> sameIdentity v (wcContentSHA256 c) (wcEventID c)
        then answer None (Some (Errorf ''key is already bound to another accepted request'' [errIdempotencyConflict]))
        else answerAccepted e m v) st"
    using assms by (simp add: acceptWriteCandidate_def attempt_def look_def)
  obtain st' out where o: "answerAccepted e m v st = (st', out)" by (metis prod.collapse)
  have "wsHost st' = wsHost st" using drift_still [OF looks.withinD [OF looks.look_answers(1) o] assms(1)] .
  moreover have "out = (Some (responseFromAccepted writeStatusAlreadyAccepted (mfLedgerCommit m) v), snd out)"
    using answerAccepted_cases [OF o] by (metis prod.collapse)
  ultimately show ?thesis
    using a o by (cases "sameIdentity v (wcContentSHA256 c) (wcEventID c)") (auto simp: answer_def)
qed

section \<open>Preparation\<close>

text \<open>The disk has the candidate file. And a step in which no other process touches the quarantine.\<close>

definition holdsFile :: "qdisk \<Rightarrow> string \<Rightarrow> string \<Rightarrow> bool" where
  "holdsFile d i bytes \<longleftrightarrow> (\<exists>x. nodeAt d (candidateName i) = Some x \<and> qnKind x = RegularFile \<and> qnData x = bytes)"

definition alone :: "qstep \<Rightarrow> bool" where
  "alone s \<longleftrightarrow> qsOther s = (\<lambda>d. d)"

lemma sysCall_alone:
  "list_all alone steps \<Longrightarrow> sysCall f (d, steps) = (case qsFault (stepOf steps) of Some err \<Rightarrow> ((d, drop 1 steps), Inl err)
     | None \<Rightarrow> (case f (stepOf steps) d of (d', r) \<Rightarrow> ((d', drop 1 steps), r)))"
  by (cases steps) (simp_all add: sysCall_def stepOf_def alone_def Let_def quietStep_def split: option.splits prod.splits)

lemma readEntry_alone:
  assumes "readEntry entry (d, steps) = ((d', steps'), Inr q)" "list_all alone steps"
  shows "d' = d \<and> list_all alone steps' \<and> holdsFile d (qeID entry) q"
  using assms list_all_drop [OF assms(2)]
  by (auto simp: readEntry_def readID_def hbind_Inr sysLstat_def sysReadFile_def sysCall_alone holdsFile_def
      split: if_split_asm option.splits)

lemma remove_alone:
  assumes "quarantineRemove j (d, steps) = ((d', steps'), r)" "list_all alone steps" "holdsFile d i q" "candidateName j \<noteq> candidateName i"
  shows "holdsFile d' i q"
  using assms list_all_drop [OF assms(2)]
  by (auto simp: quarantineRemove_def hbind_def hfail_def sysLstat_def sysRemove_def sysCall_alone holdsFile_def nodeAt_mdel
      split: if_split_asm option.splits prod.splits sum.splits)

lemma onDisk_readEntry_alone:
  assumes "onDisk (readEntry entry) st = (st', Inr q)" "list_all alone (wsSteps st)"
  shows "list_all alone (wsSteps st') \<and> holdsFile (wsDisk st') (qeID entry) q"
proof -
  obtain d' steps' where r: "readEntry entry (wsDisk st, wsSteps st) = ((d', steps'), Inr q)" "st' = st\<lparr>wsDisk := d', wsSteps := steps'\<rparr>"
    using assms(1) by (auto simp: onDisk_def split: prod.splits)
  from readEntry_alone [OF r(1) assms(2)] show ?thesis by (simp add: r(2))
qed

lemma removePresent_alone:
  assumes "removePresent j st = (st', r)" "list_all alone (wsSteps st)" "holdsFile (wsDisk st) i q" "candidateName j \<noteq> candidateName i"
  shows "holdsFile (wsDisk st') i q"
proof -
  obtain d' steps' r' where q: "quarantineRemove j (wsDisk st, wsSteps st) = ((d', steps'), r')" by (metis prod.collapse)
  then have "wsDisk st' = d'"
    using assms(1) by (cases r') (auto simp: removePresent_def attempt_def onDisk_def hreturn_def hfail_def split: if_split_asm)
  with remove_alone [OF q assms(2,3,4)] show ?thesis by simp
qed

lemma readID_Inr: "readID i st = (st', Inr (entry, q)) \<Longrightarrow> entry = entryFor i q"
  by (auto simp: readID_def hbind_Inr split: if_split_asm)

lemma publish_Inr:
  assumes "publish T i content n st = (st', Inr entry)"
  shows "qeID entry = i"
proof -
  obtain st1 where "hwrap ''QUARANTINE_INTEGRITY_FAILURE: verify published candidate'' (readID i) st1 = (st', Inr (entry, content))"
    using assms unfolding publish_def by (auto simp: hbind_Inr split: if_split_asm)
  then have "readID i st1 = (st', Inr (entry, content))" by (auto simp: hwrap_def res_simps split: prod.splits)
  from readID_Inr [OF this] show ?thesis by (simp add: entryFor_def)
qed

lemma thenRemove_Inr: "thenRemove T m st = (st', Inr x) \<Longrightarrow> \<exists>st1. m st = (st1, Inr x)"
  by (auto simp: thenRemove_def split: prod.splits)

lemma put_Inr:
  assumes "quarantinePut i content st = (st', Inr entry)"
  shows "qeID entry = i"
proof -
  obtain T n st1 where t: "thenRemove T (publish T i content n) st1 = (st', Inr entry)"
    using assms unfolding quarantinePut_def by (cases "validID i") (auto simp: hbind_Inr)
  show ?thesis using thenRemove_Inr [OF t] publish_Inr by blast
qed

lemma converge_Inr: "converge i content b st = (st', Some (Inr entry)) \<Longrightarrow> qeID entry = i"
  by (auto simp: converge_def readID_def hbind_Inr hbind_def hfail_def hreturn_def entryFor_def
      split: if_split_asm prod.splits sum.splits)

lemma ensure_Inr: "quarantineEnsure clock i content st = (st', Inr entry) \<Longrightarrow> qeID entry = i"
proof (induction clock arbitrary: st)
  case Nil
  then show ?case unfolding quarantineEnsure.simps [of "[]"]
    by (auto split: prod.splits sum.splits if_split_asm option.splits dest: put_Inr converge_Inr)
next
  case (Cons c cs)
  then show ?case unfolding quarantineEnsure.simps [of "c # cs"]
    by (auto split: prod.splits sum.splits if_split_asm option.splits dest: put_Inr converge_Inr)
qed

text \<open>The stage file and the bound file have different names.\<close>

lemma stage_Inr:
  assumes "stageCandidate e event st = (st', Inr entry)"
  shows "qeContentSHA256 entry = sha256Hex event \<and> qeSize entry = length event \<and>
    candidateName (qeID entry) \<noteq> candidateName (quarantineBindingPrefix @ x)"
proof -
  obtain i st0 st1 st2 st3 st4 where i: "onDisk quarantineStageID st0 = (st1, Inr i)"
    and en: "onDisk (quarantineEnsure (weClock e) i event) st2 = (st3, Inr entry)"
    and r: "onDisk (readEntry entry) st3 = (st4, Inr event)"
    using assms unfolding stageCandidate_def
    by (auto simp: hbind_Inr split: if_split_asm elim!: attempt_cases)
  have "i = [] \<or> (\<exists>n. i = quarantineStagePrefix @ n)"
    using i by (auto simp: onDisk_def quarantineStageID_def split: prod.splits sum.splits)
  moreover have "qeID entry = i" using onDisk_Inr [OF en] ensure_Inr by blast
  ultimately have "candidateName (qeID entry) \<noteq> candidateName (quarantineBindingPrefix @ x)"
    by (auto simp: candidateName_def candidateSuffix_def quarantineStagePrefix_def quarantineBindingPrefix_def)
  then show ?thesis using onDisk_readEntry [OF r] by blast
qed

text \<open>The last part of a preparation that gives a candidate: the stage file was removed, and the head is still the
  expected one.\<close>

lemma finishPrepare_Inr:
  assumes "finishPrepare e i c st = (st', Some c', resp, err)"
  shows "c' = c \<and> resp = None \<and> err = None \<and> readHead (wsHost st') (weReader e) = Inr (toLower (wcExpectedHead c)) \<and>
    (\<exists>s1. removePresent i st = (s1, Inr ()) \<and> st' = moved s1)"
proof -
  obtain s1 where r: "removePresent i st = (s1, Inr ())"
    and f: "chain (reconcilePreparedCandidate e c) (settlePrepared c) s1 = (st', Some c', resp, err)"
    using assms unfolding finishPrepare_def by (auto simp: refuse_def elim!: attempt_cases)
  obtain s2 o' where s2: "reconcilePreparedCandidate e c s1 = (s2, o')" "settlePrepared c o' s2 = (st', Some c', resp, err)"
    using f by (auto simp: chain_def split: prod.splits)
  have o': "o' = None" "c' = c" "resp = None" "err = None" "st' = s2"
    using s2(2) by (auto simp: settlePrepared_def split: option.splits prod.splits elim!: attempt_cases)
  have "readHead (wsHost s2) (weReader e) = Inr (toLower (wcExpectedHead c)) \<and> s2 = moved s1"
    using s2(1) unfolding o'(1) reconcilePreparedCandidate_def Let_def
    by (auto simp: look_iff split: if_split_asm option.splits elim!: attempt_cases)
  with r o' show ?thesis by blast
qed

text \<open>What a preparation that gives the candidate \<open>c\<close> has done on its way from \<open>st\<close> to \<open>st'\<close>, each step on the state that the
  one before left: the ledger \<open>m\<close> at the expected head has no event with the key and takes the event on top of it; its
  bytes were staged; the repository made the commit, whose file has these bytes; \<open>Ensure\<close> put them under the name that
  is the digest of the whole identity, and reading that file gave them back. If from then on no other process touched
  the quarantine, the file is there at the end; and the head is then still the expected one.\<close>

definition preparedFor :: "'sch wenv \<Rightarrow> candidateRequest \<Rightarrow> wstate \<Rightarrow> writeCandidate \<Rightarrow> wstate \<Rightarrow> bool" where
  "preparedFor e req st c st' \<longleftrightarrow>
    (\<exists>m doc registry stage gc staged made checked put read.
       lookedUp e st m (cdIdempotencyKey doc) None \<and> parseCandidateDocument (dpJcs (weDeps e)) (crEvent req) = Inr doc \<and>
       cdIdempotencyKey doc \<noteq> [] \<and> mfLedgerCommit m = toLower (crExpectedHead req) \<and>
       validateRequest (weDeps e) (wsHost (moved (moved (moved st)))) (weReader e) m req doc = Inr registry \<and>
       stageCandidate e (crEvent req) (moved (moved (moved st))) = (staged, Inr stage) \<and>
       act (prepareEventCommit (weWorld e) (weReader e) (mfLedgerCommit m) (crEventPath req) (crEvent req) (cdEventID doc)) staged =
         (made, Inr gc) \<and>
       commitCandidate e m registry req doc gc made = (checked, Inr ()) \<and>
       readFileAt (wsHost checked) (weReader e) (ccCommit gc) (ccEventPath gc) = Inr (crEvent req) \<and>
       c = candidateOf m req doc (ccCommit gc) (wcQuarantine c) \<and>
       onDisk (quarantineEnsure (weClock e) (qeID (wcQuarantine c)) (crEvent req)) checked = (put, Inr (wcQuarantine c)) \<and>
       onDisk (readEntry (wcQuarantine c)) put = (read, Inr (crEvent req)) \<and>
       (list_all alone (wsSteps put) \<longrightarrow> holdsFile (wsDisk st') (qeID (wcQuarantine c)) (crEvent req))) \<and>
    expectedBoundQuarantineEntry c = Inr (wcQuarantine c) \<and>
    qeContentSHA256 (wcQuarantine c) = sha256Hex (crEvent req) \<and> qeSize (wcQuarantine c) = length (crEvent req) \<and>
    readHead (wsHost st') (weReader e) = Inr (toLower (wcExpectedHead c))"

lemma bindCandidate_Inr:
  assumes b: "bindCandidate e m req doc stage commit st = (st', Some c, resp, err)"
    and stage: "\<And>x. qeContentSHA256 stage = sha256Hex (crEvent req) \<and> qeSize stage = length (crEvent req) \<and>
       candidateName (qeID stage) \<noteq> candidateName (quarantineBindingPrefix @ x)"
  shows "c = candidateOf m req doc commit (wcQuarantine c) \<and> resp = None \<and> err = None \<and>
    expectedBoundQuarantineEntry c = Inr (wcQuarantine c) \<and>
    qeContentSHA256 (wcQuarantine c) = sha256Hex (crEvent req) \<and> qeSize (wcQuarantine c) = length (crEvent req) \<and>
    readHead (wsHost st') (weReader e) = Inr (toLower (wcExpectedHead c)) \<and>
    (\<exists>put read. onDisk (quarantineEnsure (weClock e) (qeID (wcQuarantine c)) (crEvent req)) st = (put, Inr (wcQuarantine c)) \<and>
       onDisk (readEntry (wcQuarantine c)) put = (read, Inr (crEvent req)) \<and>
       (list_all alone (wsSteps put) \<longrightarrow> holdsFile (wsDisk st') (qeID (wcQuarantine c)) (crEvent req)))"
proof -
  let ?fields = "[mfLedgerCommit m, commit, crEventPath req, cdEventID doc, cdIdempotencyKey doc, cdContentSHA256 doc, qeContentSHA256 stage]"
  obtain i where i: "candidateQuarantineBindingIDFields ?fields (qeSize stage) = Inr i"
    using b by (cases "candidateQuarantineBindingIDFields ?fields (qeSize stage)") (auto simp: bindCandidate_def Let_def refuse_def)
  obtain entry put read where en: "onDisk (quarantineEnsure (weClock e) i (crEvent req)) st = (put, Inr entry)"
      "onDisk (readEntry entry) put = (read, Inr (crEvent req))"
      "finishPrepare e (qeID stage) (candidateOf m req doc commit entry) read = (st', Some c, resp, err)"
    using b i unfolding bindCandidate_def Let_def chain_def
    by (auto split: prod.splits if_split_asm elim!: attempt_cases)
  from finishPrepare_Inr [OF en(3)] obtain s1 where c: "c = candidateOf m req doc commit entry" "resp = None" "err = None"
      "readHead (wsHost st') (weReader e) = Inr (toLower (wcExpectedHead c))" and s1: "removePresent (qeID stage) read = (s1, Inr ())" "st' = moved s1"
    by blast
  have q: "qeContentSHA256 entry = sha256Hex (crEvent req)" "qeSize entry = length (crEvent req)" "qeID entry = i"
    using onDisk_readEntry [OF en(2)] onDisk_Inr [OF en(1)] ensure_Inr by blast+
  then have "expectedBoundQuarantineEntry c = Inr entry"
    using i stage by (simp add: c(1) candidateOf_def expectedBoundQuarantineEntry_def candidateQuarantineBindingID_def candidateFields_def)
  moreover have "holdsFile (wsDisk st') (qeID entry) (crEvent req)" if "list_all alone (wsSteps put)"
  proof -
    have "qeID entry = quarantineBindingPrefix @ sha256Hex (bindingPreimage ?fields (qeSize stage))"
      using i q(3) by (simp add: candidateQuarantineBindingIDFields_def split: if_split_asm)
    then obtain x where "qeID entry = quarantineBindingPrefix @ x" by blast
    then have "candidateName (qeID stage) \<noteq> candidateName (qeID entry)" using stage [of x] by simp
    moreover have "wsDisk st' = wsDisk s1" by (simp add: s1(2) moved_def split: list.split)
    ultimately show ?thesis using removePresent_alone [OF s1(1)] onDisk_readEntry_alone [OF en(2) that] by simp
  qed
  moreover have "wcQuarantine c = entry" by (simp add: c(1) candidateOf_def)
  ultimately show ?thesis using c q en(1,2) by auto
qed

lemma refuse_not: "refuse err st \<noteq> (st', Some c, resp, er)"
  by (simp add: refuse_def)

lemma prepared_stored:
  assumes "validatePreparedCandidate d h r registry gc event = Inr v"
  shows "readFileAt h r (ccCommit gc) (ccEventPath gc) = Inr event"
proof -
  obtain additions where "eventAdditions h r (ccCommit gc) = Inr additions" using assms by (auto simp: validatePreparedCandidate_def res_simps)
  then show ?thesis
    using assms by (cases additions rule: list.exhaust [case_product list.exhaust [of "tl additions"]])
      (auto simp: validatePreparedCandidate_def res_simps split: if_split_asm)
qed

lemma commitCandidate_stored:
  assumes "commitCandidate e m registry req doc gc st = (st', Inr ())"
  shows "readFileAt (wsHost st') (weReader e) (ccCommit gc) (ccEventPath gc) = Inr (crEvent req)"
proof -
  obtain st1 v where v: "look (\<lambda>h. validatePreparedCandidate (weDeps e) h (weReader e) registry gc (crEvent req)) st = (st1, Inr v)"
    and k: "(if edIdempotencyKey (veDocument v) \<noteq> cdIdempotencyKey doc \<or> \<not> sameIdentity v (cdContentSHA256 doc) (cdEventID doc)
      then hfail (candErr ''prepared candidate identity changed'') else hreturn ()) st1 = (st', Inr ())"
    using assms unfolding commitCandidate_def hbind_Inr by blast
  have "st' = st1" using k by (simp add: hreturn_def hfail_def split: if_split_asm)
  then show ?thesis using v prepared_stored unfolding look_iff by metis
qed

lemma prepare_Inr:
  assumes "prepareWriteCandidate e req st = (st', Some c, resp, err)"
  shows "resp = None \<and> err = None \<and> preparedFor e req st c st'"
proof -
  note p = assms [unfolded prepareWriteCandidate_def]
  from p obtain m st1 where m: "look (\<lambda>h. replay (weDeps e) h (weReader e)) st = (st1, Inr m)" and p1:
      "(case parseCandidateDocument (dpJcs (weDeps e)) (crEvent req) of Inl err \<Rightarrow> refuse err | Inr doc \<Rightarrow>
       if cdIdempotencyKey doc = [] then refuse (candErr ''idempotency_key is required'') else
       attempt (look (\<lambda>h. findAcceptedIdempotencyAt (weDeps e) h (weReader e) (mfLedgerCommit m) (cdIdempotencyKey doc))) refuse
      (\<lambda>accepted. case accepted of Some v \<Rightarrow> prepareAccepted e m req doc v | None \<Rightarrow>
    attempt (look (\<lambda>h. validateRequest (weDeps e) h (weReader e) m req doc)) refuse (\<lambda>registry.
    attempt (stageCandidate e (crEvent req)) refuse (\<lambda>stage.
    attempt (act (prepareEventCommit (weWorld e) (weReader e) (mfLedgerCommit m) (crEventPath req) (crEvent req) (cdEventID doc)))
      (\<lambda>err. if errors_is err errStaleState
         then preparedTooLate e (qeID stage) (candidateOf m req doc [] \<lparr>qeID = [], qeContentSHA256 = [], qeSize = 0\<rparr>) err
         else refuse err) (\<lambda>gc.
    attempt (commitCandidate e m registry req doc gc) refuse (\<lambda>_.
    bindCandidate e m req doc stage (ccCommit gc))))))) st1 = (st', Some c, resp, err)"
    by (cases rule: attempt_cases) (auto simp: refuse_not)
  obtain doc where doc: "parseCandidateDocument (dpJcs (weDeps e)) (crEvent req) = Inr doc" "cdIdempotencyKey doc \<noteq> []"
    using p1 by (auto simp: refuse_not split: sum.splits if_split_asm)
  note p2 = p1 [unfolded doc(1) sum.case if_not_P [OF doc(2)]]
  from p2 obtain found st2 where f: "look (\<lambda>h. findAcceptedIdempotencyAt (weDeps e) h (weReader e) (mfLedgerCommit m) (cdIdempotencyKey doc)) st1 = (st2, Inr found)"
    and p3: "(case found of Some v \<Rightarrow> prepareAccepted e m req doc v | None \<Rightarrow>
    attempt (look (\<lambda>h. validateRequest (weDeps e) h (weReader e) m req doc)) refuse (\<lambda>registry.
    attempt (stageCandidate e (crEvent req)) refuse (\<lambda>stage.
    attempt (act (prepareEventCommit (weWorld e) (weReader e) (mfLedgerCommit m) (crEventPath req) (crEvent req) (cdEventID doc)))
      (\<lambda>err. if errors_is err errStaleState
         then preparedTooLate e (qeID stage) (candidateOf m req doc [] \<lparr>qeID = [], qeContentSHA256 = [], qeSize = 0\<rparr>) err
         else refuse err) (\<lambda>gc.
    attempt (commitCandidate e m registry req doc gc) refuse (\<lambda>_.
    bindCandidate e m req doc stage (ccCommit gc)))))) st2 = (st', Some c, resp, err)"
    by (cases rule: attempt_cases) (auto simp: refuse_not)
  have found: "found = None"
    using p3 by (cases found) (auto simp: prepareAccepted_def refuse_def Let_def split: if_split_asm elim!: attempt_cases)
  from p3 obtain registry st3 stage st4 gc st5 st6 where
    v: "look (\<lambda>h. validateRequest (weDeps e) h (weReader e) m req doc) st2 = (st3, Inr registry)"
    and s: "stageCandidate e (crEvent req) st3 = (st4, Inr stage)"
    and g: "act (prepareEventCommit (weWorld e) (weReader e) (mfLedgerCommit m) (crEventPath req) (crEvent req) (cdEventID doc)) st4 = (st5, Inr gc)"
    and k: "commitCandidate e m registry req doc gc st5 = (st6, Inr ())"
    and b: "bindCandidate e m req doc stage (ccCommit gc) st6 = (st', Some c, resp, err)"
    unfolding found option.case
    by (auto simp: refuse_not preparedTooLate_def chain_def split: if_split_asm prod.splits elim!: attempt_cases)
  have l: "lookedUp e st m (cdIdempotencyKey doc) None" and st2: "st2 = moved (moved st)"
    using lookedUpI [OF m f] found by simp_all
  have v': "validateRequest (weDeps e) (wsHost (moved (moved (moved st)))) (weReader e) m req doc = Inr registry"
    and st3: "st3 = moved (moved (moved st))" using v st2 by (simp_all add: look_iff)
  have h: "mfLedgerCommit m = toLower (crExpectedHead req)"
    using v' by (auto simp: validateRequest_def res_simps split: if_split_asm)
  note bind = bindCandidate_Inr [OF b stage_Inr [OF s]]
  show ?thesis
    unfolding preparedFor_def using bind l doc h v' s [unfolded st3] g k commitCandidate_stored [OF k] by blast
qed

section \<open>The authoritative head during a preparation\<close>

definition headSafe :: "reader \<Rightarrow> wstate \<Rightarrow> wstate \<Rightarrow> bool" where
  "headSafe r st st' \<longleftrightarrow> (wsMoves st = [] \<longrightarrow> wsMoves st' = [] \<and> readHead (wsHost st') r = readHead (wsHost st) r)"

interpretation steady: courses "headSafe r" for r
  by unfold_locales (auto simp: headSafe_def drift_def)

text \<open>A documented behaviour of git and of the file system: of the commands the writer runs only \<open>update-ref\<close> moves
  the head, and making the quarantine directory does not.\<close>

definition headLaw :: "'sch wenv \<Rightarrow> bool" where
  "headLaw e \<longleftrightarrow>
    (\<forall>h gp env stdin args h' p. wdExec (weWorld e) h gp env stdin args = (h', p) \<longrightarrow> take 1 (drop 6 args) \<noteq> [''update-ref''] \<longrightarrow>
       readHead h' (weReader e) = readHead h (weReader e)) \<and>
    (\<forall>h dir. readHead (fst (rcMkdirAll (weRoot e) h dir)) (weReader e) = readHead h (weReader e)) \<and>
    (\<forall>h. readHead (fst (rcChmod (weRoot e) h)) (weReader e) = readHead h (weReader e))"

definition hostKeeps :: "reader \<Rightarrow> 'a hostop \<Rightarrow> bool" where
  "hostKeeps r m \<longleftrightarrow> (\<forall>h. readHead (fst (m h)) r = readHead h r)"

lemma keeps_leaf [look_intros]: "hostKeeps r (hread f)" "hostKeeps r (hfail err)" "hostKeeps r (hreturn x)"
  by (simp_all add: hostKeeps_def hread_def hfail_def hreturn_def)

lemma keeps_bind [look_intros]: "hostKeeps r m \<Longrightarrow> (\<And>x. hostKeeps r (f x)) \<Longrightarrow> hostKeeps r (hbind m f)"
  unfolding hostKeeps_def hbind_def by (auto split: prod.split sum.split) (metis fst_conv)+

lemma keeps_cond [look_intros]: "hostKeeps r m \<Longrightarrow> hostKeeps r m' \<Longrightarrow> hostKeeps r (if b then m else m')"
  by simp

lemma keeps_runWrite:
  "headLaw e \<Longrightarrow> take 1 args \<noteq> [''update-ref''] \<Longrightarrow> hostKeeps (weReader e) (runWrite (weWorld e) (weReader e) stdin extra hooks args)"
  unfolding hostKeeps_def runWrite_def headLaw_def by (auto split: sum.split prod.split)

lemma keeps_runObject [look_intros]: "hostKeeps r m \<Longrightarrow> hostKeeps r (runObject msg m)"
  unfolding runObject_def Let_def by (intro look_intros)

lemma keeps_prepareEventCommit:
  "headLaw e \<Longrightarrow> hostKeeps (weReader e) (prepareEventCommit (weWorld e) (weReader e) head path event i)"
  unfolding prepareEventCommit_def Let_def
  by (intro look_intros keeps_runWrite) simp_all

lemma keeps_quarantineOpen: "headLaw e \<Longrightarrow> hostKeeps (weReader e) (quarantineOpen (weRoot e) dir)"
  unfolding quarantineOpen_def by (intro look_intros) (auto simp: headLaw_def hostKeeps_def)

lemma steady_act: "hostKeeps r m \<Longrightarrow> courses.within (headSafe r) (act m)"
  unfolding steady.within_def headSafe_def act_def hostKeeps_def by (auto split: prod.split) (metis fst_conv still)

lemma steady_open [look_intros]: "headLaw e \<Longrightarrow> courses.within (headSafe (weReader e)) (openCandidateQuarantine e)"
  unfolding openCandidateQuarantine_def by (intro look_intros steady_act keeps_quarantineOpen)

lemma steady_stage: "headLaw e \<Longrightarrow> courses.within (headSafe (weReader e)) (stageCandidate e event)"
  unfolding stageCandidate_def by (intro look_intros)

lemma steady_refuse [look_intros]: "courses.within (headSafe r) (refuse err)"
  unfolding refuse_def by (intro look_intros)

lemma steady_reconcile: "courses.within (headSafe r) (reconcilePreparedCandidate e c)"
  unfolding reconcilePreparedCandidate_def Let_def by (intro look_intros)

lemma steady_finish: "courses.within (headSafe r) (finishPrepare e i c)"
  unfolding finishPrepare_def settlePrepared_def by (intro look_intros steady_reconcile)

lemma steady_bind: "courses.within (headSafe r) (bindCandidate e m req doc stage commit)"
  unfolding bindCandidate_def recoverPrepareAfterBoundFailure_def Let_def by (intro look_intros steady_finish)

lemma steady_prepare:
  assumes "headLaw e"
  shows "courses.within (headSafe (weReader e)) (prepareWriteCandidate e req)"
  unfolding prepareWriteCandidate_def prepareAccepted_def preparedTooLate_def commitCandidate_def Let_def
  by (intro look_intros steady_bind steady_stage steady_act keeps_prepareEventCommit assms)

end
