(* ===== verification/Candidate_Properties.thy ===== *)
theory Candidate_Properties
  imports Candidate_Runs Sample_Ledger
begin

text \<open>
  What preparing and accepting a candidate guarantee (Candidate\_Write), from the lemmas on their runs (Candidate\_Runs):
  which steps can change the repository and what has been checked before, what an answer means, retries, and what
  binds a quarantine file to a candidate.
\<close>

section \<open>A small environment\<close>

definition demoRootCalls :: rootCalls where
  "demoRootCalls = \<lparr>rcMkdirAll = (\<lambda>h d. (h, Inr ())), rcOpenRoot = (\<lambda>h d. Inr (Inr \<lparr>fiKind = Directory, fiIdent = 1\<rparr>)),
     rcChmod = (\<lambda>h. (h, Inr ()))\<rparr>"

definition demoEnv :: "unit wenv" where
  "demoEnv = \<lparr>weDeps = sampleDeps, weWorld = demoWorld, weReader = demoReader, wePolls = demoPolls, weRoot = demoRootCalls, weClock = []\<rparr>"

definition demoStart :: wstate where
  "demoStart = \<lparr>wsHost = sampleLedger, wsMoves = [], wsDisk = demoDisk, wsSteps = []\<rparr>"

definition demoCandidate :: "string \<Rightarrow> writeCandidate" where
  "demoCandidate i = \<lparr>wcExpectedHead = demoRoot, wcCandidateCommit = demoNext, wcEventPath = notePath, wcEventID = i,
     wcIdempotencyKey = ''i1'', wcContentSHA256 = recordDigest sampleNote, wcQuarantine = \<lparr>qeID = [], qeContentSHA256 = [], qeSize = 0\<rparr>\<rparr>"

definition sampleEvent :: validatedEvent where
  "sampleEvent = \<lparr>veEntry = sampleEntry (recordDigest sampleNote), veDocument = sampleDoc\<rparr>"

definition eventCompiled :: "unit schemaRegistry" where
  "eventCompiled = sampleRegistry\<lparr>srCompiled := [(exclusiveRecordEventSchemaV1, ())]\<rparr>"

lemma sample_validateFresh:
  "validateEventBytes sampleDeps sampleRegistry \<lparr>eaCommit = demoNext, eaPath = notePath\<rparr> (storedRecord sampleNote) =
     Inr (eventCompiled, sampleEvent)"
proof -
  note r = storedRecord_reads [OF samples_printable(4)]
  have c: "registryCompile sampleLib sampleRegistry exclusiveRecordEventSchemaV1 = Inr (eventCompiled, ())"
    by (simp add: registryCompile_def sampleRegistry_def eventCompiled_def cloneResources_def sampleLib_def sample_ids Let_def)
  have v: "registryValidate sampleLib sampleRegistry exclusiveRecordEventSchemaV1 (storedRecord sampleNote) = Inr eventCompiled"
    by (simp add: registryValidate_def r c) (simp add: sampleLib_def)
  have m: "memberString (withDigest sampleNote d) digestField = d" for d by code_simp
  have n: "recordDigest sampleNote \<noteq> []" by (simp add: recordDigest_def)
  have e: "eventCreated \<noteq> []" by code_simp
  show ?thesis
    using r sample_decEvent [OF r(4) r(7)] v m n e
    by (simp add: validateEventBytes_def sampleDeps_def sampleDoc_def sampleEntry_def sampleEvent_def sample_ids)
qed

lemma sample_find: "findAcceptedIdempotencyAt sampleDeps sampleLedger demoReader demoNext ''i1'' = Inr (Some sampleEvent)"
proof -
  note l = sampleLedger_def
  have h: "readHistory sampleLedger demoReader demoNext = Inr sampleCommits"
    by (simp only: l sample_facts sampleCommits_def)
  have v: "validateEvent sampleDeps sampleLedger demoReader sampleRegistry \<lparr>eaCommit = demoNext, eaPath = notePath\<rparr> = Inr (eventCompiled, sampleEvent)"
    by (simp add: validateEvent_def l sample_files sample_validateFresh)
  have s: "loadSchemasAt sampleLedger demoReader demoNext = Inr sampleRegistry"
    "eventAdditions sampleLedger demoReader demoRoot = Inr []"
    "eventAdditions sampleLedger demoReader demoNext = Inr [\<lparr>eaCommit = demoNext, eaPath = notePath\<rparr>]"
    by (simp_all only: l sample_schemas sample_changes)
  have k: "edIdempotencyKey (veDocument sampleEvent) = ''i1''" by (simp add: sampleEvent_def sampleDoc_def)
  show ?thesis by (simp add: findAcceptedIdempotencyAt_def h sampleCommits_def s v k)
qed

section \<open>Properties\<close>

text \<open>C5: an acceptance changes the repository only after everything was checked. Either the host changes only by
  what other processes do, or the one write is the compare-and-swap of exactly this candidate, and before it
  this run had vetted the candidate, on the hosts and the disk it came by: the ledger that it replayed was at the
  expected head; none of that ledger's events, each read at its commit, has the candidate's key or id; its quarantine
  handle is the one bound to its whole identity; the bytes read from the quarantine file have the digest and length
  the handle names and parse as an event with its identity; and on the host of the last look before the swap
  the candidate commit has the same bytes and passed every check against that ledger.\<close>

theorem accept_swaps_only_vetted:
  "drift st (fst (acceptWriteCandidate e c st)) \<or>
   (\<exists>m q st1 st2 r. vetted e c st m q st1 \<and> drift st st1 \<and> swap e c st1 = (st2, r) \<and> drift st2 (fst (acceptWriteCandidate e c st)))"
proof -
  obtain st' out where a: "acceptWriteCandidate e c st = (st', out)" by (metis prod.collapse)
  from accept_moves [OF a] show ?thesis unfolding a fst_conv .
qed

text \<open>C6: an acceptance without an error is backed by the ledger. There is always a response or an error. A response
  without an error repeats an event that this run found, under the key of the candidate and with its content digest
  and event id, in the history of the authoritative head: the run replayed the ledger, read its head, and the search
  of that head's history gave the event, which one of its commits added. Status \<open>already_accepted\<close> comes from a
  lookup in a run without a swap of its own or after a swap that failed; \<open>accepted\<close> comes from a lookup after this
  run's compare-and-swap succeeded, and only for an event that the candidate's own commit added.\<close>

theorem accept_answers_from_ledger:
  "answered e c st (fst (acceptWriteCandidate e c st)) (snd (acceptWriteCandidate e c st))"
  by (rule accept_answered) simp

text \<open>C7: a compare-and-swap is never lost. A run comes to it exactly when it has vetted the candidate, and what the swap
  returned in the state the run had reached decides what the caller is told. After a success there is always a
  response that names the candidate's commit as accepted, or as accepted with a verification that failed, with an
  error; after a swap whose acceptance was recovered there is one of these or \<open>already_accepted\<close>; after a stale head
  \<open>already_accepted\<close> or an error alone; an unverified swap is reported as accepted with failed verification and an
  unknown outcome as unknown, both with an error; and any other failure is returned as it is, with no response.\<close>

theorem own_swap_is_reported:
  "if \<exists>m q st1. vetted e c st m q st1
   then \<exists>m q st1 st2 r. vetted e c st m q st1 \<and> swap e c st1 = (st2, r) \<and> drift st2 (fst (acceptWriteCandidate e c st)) \<and>
     reported c r (snd (acceptWriteCandidate e c st))
   else drift st (fst (acceptWriteCandidate e c st))"
proof -
  obtain st' out where a: "acceptWriteCandidate e c st = (st', out)" by (metis prod.collapse)
  show ?thesis
  proof (cases "\<exists>m q st1. vetted e c st m q st1")
    case True
    then obtain m q st1 where v: "vetted e c st m q st1" by blast
    obtain st2 r where "swap e c st1 = (st2, r)" by (metis prod.collapse)
    with accept_reports [OF a v this] v show ?thesis unfolding a fst_conv snd_conv if_P [OF True] by blast
  next
    case False
    then show ?thesis using accept_moves [OF a] by (auto simp: a)
  qed
qed

text \<open>C8: retries are idempotent. When the ledger already has an event with the key of the candidate, accepting it
  again changes nothing in the repository: the same identity is answered \<open>already_accepted\<close> with the event that
  the ledger has, another identity is an idempotency conflict.\<close>

theorem accept_is_idempotent:
  assumes "wsMoves st = []" "replay (weDeps e) (wsHost st) (weReader e) = Inr m"
    "findAcceptedIdempotencyAt (weDeps e) (wsHost st) (weReader e) (mfLedgerCommit m) (wcIdempotencyKey c) = Inr (Some v)"
  shows "\<exists>st' err. acceptWriteCandidate e c st =
      (st', if sameIdentity v (wcContentSHA256 c) (wcEventID c)
        then (Some (responseFromAccepted writeStatusAlreadyAccepted (mfLedgerCommit m) v), err)
        else (None, Some (Errorf ''key is already bound to another accepted request'' [errIdempotencyConflict]))) \<and>
    wsHost st' = wsHost st"
  using assms by (rule accept_retry)

theorem accept_is_idempotent_witness:
  "(\<exists>st' err. acceptWriteCandidate demoEnv (demoCandidate ''e1'') demoStart =
     (st', Some (responseFromAccepted writeStatusAlreadyAccepted demoNext sampleEvent), err)) \<and>
   (\<exists>st' err. acceptWriteCandidate demoEnv (demoCandidate ''e2'') demoStart = (st', None, Some err) \<and>
     errors_is err errIdempotencyConflict)"
proof -
  obtain records dg where r: "replay sampleDeps sampleLedger demoReader =
     Inr (sampleManifest (recordDigest sampleGenesis) (recordDigest samplePolicy) (recordDigest sampleNote) records dg)"
    using sample_replay_ok by blast
  let ?m = "sampleManifest (recordDigest sampleGenesis) (recordDigest samplePolicy) (recordDigest sampleNote) records dg"
  have m: "mfLedgerCommit ?m = demoNext" by (simp add: sampleManifest_def)
  have i: "sameIdentity sampleEvent (recordDigest sampleNote) ''e1''" "\<not> sameIdentity sampleEvent (recordDigest sampleNote) ''e2''"
    by (simp_all add: sameIdentity_def sampleEvent_def sampleEntry_def sampleDoc_def)
  have s: "wsMoves demoStart = []" "replay (weDeps demoEnv) (wsHost demoStart) (weReader demoEnv) = Inr ?m"
    by (simp_all add: demoStart_def demoEnv_def r)
  have f: "findAcceptedIdempotencyAt (weDeps demoEnv) (wsHost demoStart) (weReader demoEnv) (mfLedgerCommit ?m)
      (wcIdempotencyKey (demoCandidate x)) = Inr (Some sampleEvent)" for x
    using sample_find by (simp add: demoStart_def demoEnv_def m demoCandidate_def)
  have c: "wcContentSHA256 (demoCandidate x) = recordDigest sampleNote" "wcEventID (demoCandidate x) = x" for x
    by (simp_all add: demoCandidate_def)
  show ?thesis
    using accept_is_idempotent [OF s f, of "''e1''"] accept_is_idempotent [OF s f, of "''e2''"] i m
    by (auto simp: c errIdempotencyConflict_def)
qed

text \<open>C9: what \<open>PrepareWriteCandidate\<close> returns. A candidate comes without a response or an error; it carries the identity
  of the request; on the hosts and the disk of this run the ledger was at the expected head, had no event with its key
  and took the event on top of it, its commit is the one that \<open>PrepareEventCommit\<close> made from exactly these bytes and its
  file has them; and \<open>Ensure\<close> put these bytes into the quarantine file that is named by the digest of the whole identity,
  from where they were read back. Unless another process touches the quarantine after that, the file is there, with
  exactly these bytes, when the candidate is returned; and the head was then looked at again and is the expected one.\<close>

theorem prepared_is_bound:
  "case prepareWriteCandidate e req st of (st', Some c, resp, err) \<Rightarrow> resp = None \<and> err = None \<and> preparedFor e req st c st' | _ \<Rightarrow> True"
proof -
  obtain st' cand resp err where p: "prepareWriteCandidate e req st = (st', cand, resp, err)" by (metis prod.collapse)
  show ?thesis
  proof (cases cand)
    case (Some c)
    show ?thesis using prepare_Inr [OF p [unfolded Some]] p Some by simp
  qed (simp add: p)
qed

text \<open>Preparing never moves the authoritative head. With a git whose only command that moves the head is
  \<open>update-ref\<close>, and no other process at work, the head after a preparation is the head before it, whatever the
  outcome.\<close>

lemma prepare_keeps_head:
  assumes "headLaw e" "wsMoves st = []"
  shows "readHead (wsHost (fst (prepareWriteCandidate e req st))) (weReader e) = readHead (wsHost st) (weReader e)"
  using steady_prepare [OF assms(1), of req] assms(2) unfolding steady.within_def headSafe_def by blast

lemma demo_headLaw: "headLaw demoEnv"
proof -
  have "readHead h' demoReader = readHead h demoReader"
    if "wdExec demoWorld h gp env stdin args = (h', p)" "take 1 (drop 6 args) \<noteq> [''update-ref'']" for h gp env stdin args h' p
    using that by (auto simp: demoWorld_def split: if_split_asm)
  then show ?thesis unfolding headLaw_def by (simp add: demoEnv_def demoRootCalls_def)
qed

lemma prepare_keeps_head_witness:
  "readHead (wsHost (fst (prepareWriteCandidate demoEnv \<lparr>crExpectedHead = demoNext, crEventPath = ''events/e2.json'', crEvent = ''{}''\<rparr> demoStart)))
     demoReader = Inr demoNext"
proof -
  have "readHead sampleLedger demoReader = Inr demoNext" by (simp only: sampleLedger_def sample_host)
  then show ?thesis
    using prepare_keeps_head [OF demo_headLaw, of demoStart "\<lparr>crExpectedHead = demoNext, crEventPath = ''events/e2.json'', crEvent = ''{}''\<rparr>"]
    by (simp add: demoStart_def demoEnv_def)
qed

text \<open>The name of a bound quarantine file identifies the candidate. The length-prefixed preimage is injective, so
  two different identities that get the same name are a collision of SHA-256.\<close>

lemma binding_identifies:
  assumes "length fs = length gs" "list_all (\<lambda>f. length f < 256 ^ 8) fs" "list_all (\<lambda>f. length f < 256 ^ 8) gs"
    "n < 256 ^ 8" "k < 256 ^ 8"
  shows "(bindingPreimage fs n = bindingPreimage gs k) = (fs = gs \<and> n = k) \<and>
    (candidateQuarantineBindingIDFields fs n = candidateQuarantineBindingIDFields gs k \<and> is_ok (candidateQuarantineBindingIDFields fs n) \<and>
       (fs, n) \<noteq> (gs, k) \<longrightarrow>
     bindingPreimage fs n \<noteq> bindingPreimage gs k \<and> sha256Hex (bindingPreimage fs n) = sha256Hex (bindingPreimage gs k))"
proof -
  have "(bindingPreimage fs n = bindingPreimage gs k) = (fs = gs \<and> n = k)" using bindingPreimage_inj [OF _ assms] by auto
  moreover have "bindingPreimage fs n \<noteq> bindingPreimage gs k \<and> sha256Hex (bindingPreimage fs n) = sha256Hex (bindingPreimage gs k)"
    if i: "candidateQuarantineBindingIDFields fs n = candidateQuarantineBindingIDFields gs k" "is_ok (candidateQuarantineBindingIDFields fs n)"
      and d: "(fs, n) \<noteq> (gs, k)"
  proof -
    obtain x where "candidateQuarantineBindingIDFields fs n = Inr x" using i(2) by (auto simp: is_ok_iff)
    with binding_separates [OF this _ assms] i(1) d show ?thesis by auto
  qed
  ultimately show ?thesis by blast
qed

lemma binding_identifies_witness:
  "bindingPreimage [''head'', ''a'', ''bc''] 4 \<noteq> bindingPreimage [''head'', ''ab'', ''c''] 4"
  using binding_identifies [of "[''head'', ''a'', ''bc'']" "[''head'', ''ab'', ''c'']" 4 4] by simp

end
