(* ===== verification/Governance.thy ===== *)
theory Governance
  imports Knowledge Ledger_Config Interfaces
begin

text \<open>
  The packages around a governed decision: internal/keylifecycle, internal/incident, internal/recovery (forks
  and their resolution), internal/decision, internal/proposal, internal/simulation, internal/authorityeffect,
  internal/federation, internal/health, internal/buildprovenance and internal/reviewbundle. They check values
  and keep no state; string types with declared constants stay strings, as in the code.
\<close>

section \<open>Life cycles of keys and incidents\<close>

definition keyGenerated :: string where "keyGenerated = ''generated''"
definition keyActive :: string where "keyActive = ''active''"
definition keyRotating :: string where "keyRotating = ''rotating''"
definition keyCompromised :: string where "keyCompromised = ''compromised''"
definition keyRevoked :: string where "keyRevoked = ''revoked''"
definition keyRetired :: string where "keyRetired = ''retired''"

definition keyCanTransition :: "string \<Rightarrow> string \<Rightarrow> bool" where
  "keyCanTransition a b =
    (if a = keyGenerated then b = keyActive \<or> b = keyRevoked
     else if a = keyActive then b = keyRotating \<or> b = keyCompromised \<or> b = keyRevoked \<or> b = keyRetired
     else if a = keyRotating then b = keyActive \<or> b = keyCompromised \<or> b = keyRevoked \<or> b = keyRetired
     else if a = keyCompromised then b = keyRevoked
     else False)"

definition keyRequireTransition :: "string \<Rightarrow> string \<Rightarrow> unit res" where
  "keyRequireTransition a b = (if \<not> keyCanTransition a b then Inl (Errorf ''KEY_LIFECYCLE_INVALID'' []) else Inr ())"

definition incidentDetected :: string where "incidentDetected = ''detected''"
definition incidentContained :: string where "incidentContained = ''contained''"
definition incidentRecovering :: string where "incidentRecovering = ''recovering''"
definition incidentResolved :: string where "incidentResolved = ''resolved''"

definition incidentCanTransition :: "string \<Rightarrow> string \<Rightarrow> bool" where
  "incidentCanTransition a b =
    (if a = incidentDetected then b = incidentContained
     else if a = incidentContained then b = incidentRecovering \<or> b = incidentResolved
     else if a = incidentRecovering then b = incidentContained \<or> b = incidentResolved
     else False)"

definition incidentRequireTransition :: "string \<Rightarrow> string \<Rightarrow> unit res" where
  "incidentRequireTransition a b =
    (if \<not> incidentCanTransition a b then Inl (Errorf ''INCIDENT_TRANSITION_INVALID'' []) else Inr ())"

lemmas state_names = keyGenerated_def keyActive_def keyRotating_def keyCompromised_def keyRevoked_def keyRetired_def
  incidentDetected_def incidentContained_def incidentRecovering_def incidentResolved_def

interpretation keyLife: lifecycle_table keyCanTransition keyRequireTransition keyGenerated "{keyRevoked, keyRetired}"
  by unfold_locales (auto simp: keyRequireTransition_def keyCanTransition_def state_names)

interpretation incidentLife: lifecycle_table incidentCanTransition incidentRequireTransition incidentDetected "{incidentResolved}"
  by unfold_locales (auto simp: incidentRequireTransition_def incidentCanTransition_def state_names)

section \<open>Recovery forks\<close>

definition forkIdentical :: string where "forkIdentical = ''identical''"
definition forkADescendsB :: string where "forkADescendsB = ''a_descends_b''"
definition forkBDescendsA :: string where "forkBDescendsA = ''b_descends_a''"
definition forkDivergent :: string where "forkDivergent = ''divergent''"
definition forkUnrelated :: string where "forkUnrelated = ''unrelated''"

record forkResult =
  frKind :: string
  frCommonAncestor :: string
  frHeadA :: string
  frHeadB :: string

fun validateHistoryFrom :: "string list \<Rightarrow> string list \<Rightarrow> unit res" where
  "validateHistoryFrom seen [] = Inr ()"
| "validateHistoryFrom seen (i # is) =
    (if i = [] then Inl (Errorf ''RECOVERY_HISTORY_INVALID: empty commit identity'' [])
     else if i \<in> set seen then Inl (Errorf ''RECOVERY_HISTORY_INVALID: duplicate commit'' [])
     else validateHistoryFrom (i # seen) is)"

definition validateForkHistory :: "string list \<Rightarrow> unit res" where
  "validateForkHistory history =
    (if history = [] then Inl (Errorf ''RECOVERY_HISTORY_INVALID: empty history'' []) else validateHistoryFrom [] history)"

fun commonLength :: "'a list \<Rightarrow> 'a list \<Rightarrow> nat" where
  "commonLength (a # as) (b # bs) = (if a = b then Suc (commonLength as bs) else 0)"
| "commonLength _ _ = 0"

definition forkClassify :: "string list \<Rightarrow> string list \<Rightarrow> forkResult res" where
  "forkClassify historyA historyB =
    andThen (wrapw ''history A'' (validateForkHistory historyA)) (\<lambda>_.
    andThen (wrapw ''history B'' (validateForkHistory historyB)) (\<lambda>_.
    let common = commonLength historyA historyB;
        result = \<lparr>frKind = forkUnrelated, frCommonAncestor = [], frHeadA = List.last historyA, frHeadB = List.last historyB\<rparr> in
    if common = 0 then Inr result else
    Inr (result\<lparr>frCommonAncestor := historyA ! (common - 1),
      frKind := (if common = length historyA \<and> common = length historyB then forkIdentical
        else if common = length historyB then forkADescendsB
        else if common = length historyA then forkBDescendsA
        else forkDivergent)\<rparr>)))"

definition caseOpen :: string where "caseOpen = ''recovery_fork''"
definition caseResolved :: string where "caseResolved = ''resolved''"

record forkCase =
  fcCaseID :: string
  fcStatus :: string
  fcKind :: string
  fcCommonAncestor :: string
  fcHeadA :: string
  fcHeadB :: string

record resolutionCandidate =
  rcCaseID :: string
  rcSelectedHead :: string
  rcRejectedHead :: string
  rcActorID :: string
  rcDecisionRef :: string
  rcReason :: string
  rcResolvedAt :: string
  rcRejectedPreserved :: bool

definition forkErr :: "string \<Rightarrow> goerr" where
  "forkErr msg = Errorf (''RECOVERY_FORK_INVALID: '' @ msg) []"

definition openForkCase :: "string \<Rightarrow> string list \<Rightarrow> string list \<Rightarrow> forkCase res" where
  "openForkCase caseID historyA historyB =
    (if caseID = [] then Inl (forkErr ''case_id is required'') else
     andThen (wrapw ''RECOVERY_FORK_INVALID: classify histories'' (forkClassify historyA historyB)) (\<lambda>fork.
     if frKind fork \<noteq> forkDivergent \<and> frKind fork \<noteq> forkUnrelated
     then Inl (Errorf ''RECOVERY_FORK_NOT_REQUIRED: kind does not require operator selection'' [])
     else Inr \<lparr>fcCaseID = caseID, fcStatus = caseOpen, fcKind = frKind fork, fcCommonAncestor = frCommonAncestor fork,
               fcHeadA = frHeadA fork, fcHeadB = frHeadB fork\<rparr>))"

definition validateResolution :: "forkCase \<Rightarrow> resolutionCandidate \<Rightarrow> (forkCase \<times> resolutionCandidate) res" where
  "validateResolution c r =
    (if fcStatus c \<noteq> caseOpen then Inl (forkErr ''case is not open'')
     else if rcCaseID r \<noteq> fcCaseID c then Inl (forkErr ''case identity mismatch'')
     else if rcSelectedHead r \<noteq> fcHeadA c \<and> rcSelectedHead r \<noteq> fcHeadB c then Inl (forkErr ''selected head is not a preserved fork head'')
     else let expectedRejected = (if rcSelectedHead r = fcHeadA c then fcHeadB c else fcHeadA c) in
     if rcRejectedHead r \<noteq> expectedRejected then Inl (forkErr ''rejected head must be the unselected preserved head'')
     else if rcActorID r = [] \<or> rcDecisionRef r = [] \<or> rcReason r = []
     then Inl (forkErr ''actor_id, decision reference and reason are required'')
     else if \<not> rcRejectedPreserved r then Inl (forkErr ''rejected history must remain preserved evidence'')
     else andThen (wrapw ''RECOVERY_FORK_INVALID: resolved_at'' (parseTime (rcResolvedAt r))) (\<lambda>_.
       Inr (c\<lparr>fcStatus := caseResolved\<rparr>, r)))"

section \<open>Decisions and proposals\<close>

record alternative =
  alID :: string
  alSummary :: string
  alReasonRejected :: string

record dissent =
  dsActor :: string
  dsPosition :: string

record decisionContext =
  dcAlternatives :: "alternative list"
  dcDissent :: "dissent list"
  dcUncertainties :: "string list"
  dcReopeningConditions :: "string list"

definition decisionErr :: "string \<Rightarrow> goerr" where
  "decisionErr msg = Errorf (''DECISION_CONTEXT_INVALID: '' @ msg) []"

fun validateAlternatives :: "string list \<Rightarrow> alternative list \<Rightarrow> unit res" where
  "validateAlternatives seen [] = Inr ()"
| "validateAlternatives seen (a # as) =
    (if alID a = [] \<or> alSummary a = [] \<or> alReasonRejected a = []
     then Inl (decisionErr ''alternatives require id, summary and rejection reason'')
     else if alID a \<in> set seen then Inl (decisionErr ''duplicate alternative'')
     else validateAlternatives (alID a # seen) as)"

definition decisionContextValidate :: "decisionContext \<Rightarrow> unit res" where
  "decisionContextValidate c =
    andThen (validateAlternatives [] (dcAlternatives c)) (\<lambda>_.
    andThen (checkAll (\<lambda>d. if dsActor d = [] \<or> dsPosition d = [] then Inl (decisionErr ''dissent requires actor and position'') else Inr ())
      (dcDissent c)) (\<lambda>_.
    checkAll (\<lambda>r. if r = [] then Inl (decisionErr ''reopening conditions must not be empty'') else Inr ()) (dcReopeningConditions c)))"

record proposal =
  ppID :: string
  ppProposedBy :: string
  ppGenerated :: bool
  ppTargetID :: string
  ppExpectedStateVersion :: string
  ppEvidenceIDs :: "string list"
  ppRationale :: string
  ppCreatedAt :: string
  ppIdempotencyKey :: string
  ppContent :: string

definition proposalErr :: "string \<Rightarrow> goerr" where
  "proposalErr msg = Errorf (''PROPOSAL_INVALID: '' @ msg) []"

definition proposalValidate :: "proposal \<Rightarrow> unit res" where
  "proposalValidate p =
    (if ppID p = [] \<or> ppProposedBy p = [] \<or> ppTargetID p = [] \<or> ppExpectedStateVersion p = [] \<or> ppRationale p = [] \<or> ppIdempotencyKey p = []
     then Inl (proposalErr ''identity, actor, target, expected state, rationale and idempotency key are required'') else
     andThen (wrapw ''PROPOSAL_INVALID: created_at'' (parseTime (ppCreatedAt p))) (\<lambda>_.
     if ppContent p = [] then Inl (proposalErr ''content is required'') else
     andThen (wrapw ''PROPOSAL_INVALID: content'' (strictValidate (ppContent p))) (\<lambda>_.
     if \<not> sorted (ppEvidenceIDs p) then Inl (proposalErr ''evidence_ids must be sorted'')
     else mapErr (\<lambda>_. proposalErr ''evidence_ids must be distinct and non-empty'') (noEmptyOrRepeated None (ppEvidenceIDs p)))))"

section \<open>Simulation of a decision\<close>

record simSnapshot =
  ssProjectionDigests :: "(string, string) gomap"
  ssAuthorityClasses :: "(string, string) gomap"
  ssConflicts :: "(string, bool) gomap"
  ssAccessible :: "(string, bool) gomap"

record simReport =
  srProjectionChanged :: "string list"
  srAuthorityChanged :: "string list"
  srNewConflicts :: "string list"
  srAccessChanged :: "string list"

definition unionKeys :: "(string, 'v) gomap \<Rightarrow> (string, 'v) gomap \<Rightarrow> string list" where
  "unionKeys a b = sort (remdups (map fst a @ map fst b))"

text \<open>A read of an absent key gives the zero value.\<close>

definition mgetOr :: "'v \<Rightarrow> ('k, 'v) gomap \<Rightarrow> 'k \<Rightarrow> 'v" where
  "mgetOr z m k = (case mget m k of None \<Rightarrow> z | Some v \<Rightarrow> v)"

definition simChanged :: "(string, string) gomap \<Rightarrow> (string, string) gomap \<Rightarrow> string list" where
  "simChanged a b = filter (\<lambda>k. mgetOr [] a k \<noteq> mgetOr [] b k) (unionKeys a b)"

definition simChangedBool :: "(string, bool) gomap \<Rightarrow> (string, bool) gomap \<Rightarrow> string list" where
  "simChangedBool a b = filter (\<lambda>k. mhas a k \<noteq> mhas b k \<or> mgetOr False a k \<noteq> mgetOr False b k) (unionKeys a b)"

definition simNewTrue :: "(string, bool) gomap \<Rightarrow> (string, bool) gomap \<Rightarrow> string list" where
  "simNewTrue a b = filter (\<lambda>k. \<not> mgetOr False a k \<and> mgetOr False b k) (unionKeys a b)"

definition simCompare :: "simSnapshot \<Rightarrow> simSnapshot \<Rightarrow> simReport" where
  "simCompare before after =
    \<lparr>srProjectionChanged = simChanged (ssProjectionDigests before) (ssProjectionDigests after),
     srAuthorityChanged = simChanged (ssAuthorityClasses before) (ssAuthorityClasses after),
     srNewConflicts = simNewTrue (ssConflicts before) (ssConflicts after),
     srAccessChanged = simChangedBool (ssAccessible before) (ssAccessible after)\<rparr>"

section \<open>Declared effects, references, health, build records\<close>

definition effectNone :: string where "effectNone = ''none''"

definition effectNames :: "string list" where
  "effectNames = [effectNone, ''evidence_preservation'', ''integrity_attestation'', ''derived_projection'',
     ''authority_transition'', ''access_control'']"

record effectDeclaration =
  edComponent :: string
  edEffect :: string

definition effectValidate :: "effectDeclaration \<Rightarrow> unit res" where
  "effectValidate d =
    (if edComponent d = [] then Inl (Errorf ''AUTHORITY_EFFECT_INVALID: component required'' [])
     else if edEffect d \<in> set effectNames then Inr () else Inl (Errorf ''AUTHORITY_EFFECT_INVALID: unknown effect'' []))"

record federationReference =
  fdProjectID :: string
  fdLedgerID :: string
  fdRecordID :: string
  fdVersionID :: string
  fdSourceAuthorityClass :: string
  fdLocalAuthorityClass :: string

definition federationValidate :: "federationReference \<Rightarrow> unit res" where
  "federationValidate r =
    (if fdProjectID r = [] \<or> fdLedgerID r = [] \<or> fdRecordID r = [] \<or> fdVersionID r = []
     then Inl (Errorf ''FEDERATION_INVALID: exact source identity is required'' [])
     else if fdLocalAuthorityClass r = []
     then Inl (Errorf ''FEDERATION_INVALID: local_authority_class is required; source authority is never imported implicitly'' [])
     else Inr ())"

definition healthHealthy :: string where "healthHealthy = ''healthy''"
definition healthUnknown :: string where "healthUnknown = ''unknown''"
definition healthDegraded :: string where "healthDegraded = ''degraded''"
definition healthBlocked :: string where "healthBlocked = ''blocked''"

definition requiredDomains :: "string list" where
  "requiredDomains = [''system'', ''knowledge'', ''authority'', ''source'', ''recovery'']"

definition healthRank :: "(string, nat) gomap" where
  "healthRank = [(healthHealthy, 0), (healthUnknown, 1), (healthDegraded, 2), (healthBlocked, 3)]"

record healthCheck =
  hcDomain :: string
  hcStatus :: string
  hcReason :: string

definition healthErr :: "string \<Rightarrow> goerr" where
  "healthErr msg = Errorf (''HEALTH_INVALID: '' @ msg) []"

definition healthCheckValidate :: "healthCheck \<Rightarrow> unit res" where
  "healthCheckValidate c =
    (if hcDomain c \<notin> set requiredDomains then Inl (healthErr ''unknown domain'')
     else if hcStatus c \<notin> set [healthHealthy, healthUnknown, healthDegraded, healthBlocked] then Inl (healthErr ''unknown status'')
     else if hcStatus c \<noteq> healthHealthy \<and> hcReason c = [] then Inl (healthErr ''non-healthy status requires reason'')
     else Inr ())"

definition healthStep :: "string list \<times> string \<Rightarrow> healthCheck \<Rightarrow> (string list \<times> string) res" where
  "healthStep st c =
    (case st of (seen, worst) \<Rightarrow>
     andThen (healthCheckValidate c) (\<lambda>_.
     if hcDomain c \<in> set seen then Inl (healthErr ''duplicate domain'')
     else Inr (hcDomain c # seen,
       if mgetOr 0 healthRank worst < mgetOr 0 healthRank (hcStatus c) then hcStatus c else worst)))"

definition healthAggregate :: "healthCheck list \<Rightarrow> string res" where
  "healthAggregate checks =
    andThen (foldM healthStep ([], healthHealthy) checks) (\<lambda>(seen, worst).
    andThen (checkAll (\<lambda>d. if d \<notin> set seen then Inl (Errorf ''HEALTH_INCOMPLETE: missing domain'' []) else Inr ()) requiredDomains) (\<lambda>_.
    Inr worst))"

record buildRecord =
  brVersion :: string
  brSourceCommit :: string
  brGoVersion :: string
  brPlatform :: string
  brBinarySHA256 :: string
  brSBOMSHA256 :: string
  brDependencies :: "(string, string) gomap"

definition buildIsHexID :: "string \<Rightarrow> nat list \<Rightarrow> bool" where
  "buildIsHexID s lengths = (length s \<in> set lengths \<and> list_all (\<lambda>c. isDecDigit c \<or> isLowerHexLetter c) (toLower s))"

definition buildErr :: "string \<Rightarrow> goerr" where
  "buildErr msg = Errorf (''BUILD_PROVENANCE_INVALID: '' @ msg) []"

definition buildRecordValidate :: "buildRecord \<Rightarrow> unit res" where
  "buildRecordValidate r =
    (if brVersion r = [] \<or> brGoVersion r = [] \<or> brPlatform r = [] then Inl (buildErr ''version, go_version and platform required'')
     else if \<not> buildIsHexID (brSourceCommit r) [40, 64] then Inl (buildErr ''source_commit'')
     else if \<not> buildIsHexID (brBinarySHA256 r) [64] then Inl (buildErr ''binary_sha256'')
     else if brSBOMSHA256 r \<noteq> [] \<and> \<not> buildIsHexID (brSBOMSHA256 r) [64] then Inl (buildErr ''sbom_sha256'')
     else Inr ())"

section \<open>Review bundles\<close>

record reviewBundle =
  rbProposal :: proposal
  rbEvidence :: "evidenceEnvelope list"
  rbDecisionContext :: decisionContext
  rbSimulation :: simReport
  rbAuthorityEffect :: string

record reviewSummary =
  rwProposalID :: string
  rwTargetID :: string
  rwExpectedStateVersion :: string
  rwGenerated :: bool
  rwEvidenceCount :: nat
  rwConflictCount :: nat
  rwAlternativesCount :: nat
  rwDissentCount :: nat
  rwReopeningCount :: nat
  rwProjectionChanges :: nat
  rwAuthorityChanges :: nat
  rwNewConflicts :: nat
  rwAccessChanges :: nat
  rwAuthorityEffect :: string

fun validateReviewEvidence :: "string list \<Rightarrow> evidenceEnvelope list \<Rightarrow> unit res" where
  "validateReviewEvidence seen [] = Inr ()"
| "validateReviewEvidence seen (e # es) =
    andThen (envelopeValidate e) (\<lambda>_.
    if eeRecordID e \<in> set seen then Inl (Errorf ''REVIEW_BUNDLE_INVALID: duplicate evidence'' [])
    else validateReviewEvidence (eeRecordID e # seen) es)"

definition reviewBundleValidate :: "reviewBundle \<Rightarrow> unit res" where
  "reviewBundleValidate b =
    andThen (proposalValidate (rbProposal b)) (\<lambda>_.
    if rbAuthorityEffect b \<noteq> effectNone then Inl (Errorf ''REVIEW_BUNDLE_INVALID: review bundle must have authority effect none'' []) else
    andThen (decisionContextValidate (rbDecisionContext b)) (\<lambda>_.
    andThen (validateReviewEvidence [] (rbEvidence b)) (\<lambda>_.
    let ids = sort (map eeRecordID (rbEvidence b)) in
    if length ids \<noteq> length (ppEvidenceIDs (rbProposal b)) then Inl (Errorf ''REVIEW_BUNDLE_INVALID: proposal/evidence set size mismatch'' [])
    else if ids \<noteq> ppEvidenceIDs (rbProposal b)
    then Inl (Errorf ''REVIEW_BUNDLE_INVALID: proposal evidence set does not match included evidence'' []) else Inr ())))"

definition reviewBundleSummary :: "reviewBundle \<Rightarrow> reviewSummary res" where
  "reviewBundleSummary b =
    andThen (reviewBundleValidate b) (\<lambda>_.
    Inr \<lparr>rwProposalID = ppID (rbProposal b), rwTargetID = ppTargetID (rbProposal b),
      rwExpectedStateVersion = ppExpectedStateVersion (rbProposal b), rwGenerated = ppGenerated (rbProposal b),
      rwEvidenceCount = length (rbEvidence b), rwConflictCount = sum_list (map (\<lambda>e. length (eeConflicts e)) (rbEvidence b)),
      rwAlternativesCount = length (dcAlternatives (rbDecisionContext b)), rwDissentCount = length (dcDissent (rbDecisionContext b)),
      rwReopeningCount = length (dcReopeningConditions (rbDecisionContext b)),
      rwProjectionChanges = length (srProjectionChanged (rbSimulation b)), rwAuthorityChanges = length (srAuthorityChanged (rbSimulation b)),
      rwNewConflicts = length (srNewConflicts (rbSimulation b)), rwAccessChanges = length (srAccessChanged (rbSimulation b)),
      rwAuthorityEffect = rbAuthorityEffect b\<rparr>)"

end
