(* ===== verification/Governance_Properties.thy ===== *)
theory Governance_Properties
  imports Governance "HOL-Library.Sublist"
begin

text \<open>
  What the packages of theory Governance promise: the relation of two histories as prefixes of each other, the
  resolution of a fork, the life cycle of a key, the reduction of health checks to the worst one and the
  evidence a review bundle must carry.
\<close>

section \<open>Forks\<close>

definition goodHistory :: "string list \<Rightarrow> bool" where
  "goodHistory h \<longleftrightarrow> h \<noteq> [] \<and> distinct h \<and> [] \<notin> set h"

lemma validateHistoryFrom_iff:
  "validateHistoryFrom seen h = Inr () \<longleftrightarrow> distinct h \<and> [] \<notin> set h \<and> set h \<inter> set seen = {}"
  by (induction h arbitrary: seen) auto

lemma validateForkHistory_iff: "validateForkHistory h = Inr () \<longleftrightarrow> goodHistory h"
  by (auto simp: validateForkHistory_def goodHistory_def validateHistoryFrom_iff)

lemma commonLength_prefix: "commonLength a b = length (longest_common_prefix a b)"
  by (induction a b rule: commonLength.induct) auto

lemma longest_common_all: "length (longest_common_prefix a b) = length b \<longleftrightarrow> prefix b a"
  by (induction a b rule: longest_common_prefix.induct) auto

lemma longest_common_all': "length (longest_common_prefix a b) = length a \<longleftrightarrow> prefix a b"
  by (induction a b rule: longest_common_prefix.induct) auto

lemma longest_common_none: "a \<noteq> [] \<Longrightarrow> b \<noteq> [] \<Longrightarrow> longest_common_prefix a b = [] \<longleftrightarrow> hd a \<noteq> hd b"
  by (cases a; cases b) auto

text \<open>How two histories are related: by which is a prefix of which.\<close>

definition relation :: "string list \<Rightarrow> string list \<Rightarrow> string" where
  "relation a b =
    (if a = b then forkIdentical else if strict_prefix b a then forkADescendsB else if strict_prefix a b then forkBDescendsA
     else if hd a = hd b then forkDivergent else forkUnrelated)"

lemma relation_common:
  assumes "a \<noteq> []" "b \<noteq> []" "hd a = hd b"
  shows "relation a b = (if commonLength a b = length a \<and> commonLength a b = length b then forkIdentical
        else if commonLength a b = length b then forkADescendsB
        else if commonLength a b = length a then forkBDescendsA else forkDivergent)"
  unfolding relation_def commonLength_prefix longest_common_all longest_common_all' strict_prefix_def
  using assms by (auto dest: prefix_order.antisym)

lemma relation_unrelated:
  assumes "a \<noteq> []" "b \<noteq> []" "hd a \<noteq> hd b"
  shows "relation a b = forkUnrelated"
  using assms by (cases a; cases b) (auto simp: relation_def strict_prefix_def)

lemma forkClassify_exact:
  assumes "goodHistory a" "goodHistory b"
  shows "forkClassify a b = Inr \<lparr>frKind = relation a b,
     frCommonAncestor = (if longest_common_prefix a b = [] then [] else List.last (longest_common_prefix a b)), frHeadA = List.last a, frHeadB = List.last b\<rparr>"
proof -
  have ne: "a \<noteq> []" "b \<noteq> []" using assms by (auto simp: goodHistory_def)
  have v: "validateForkHistory a = Inr ()" "validateForkHistory b = Inr ()" using assms by (simp_all add: validateForkHistory_iff)
  show ?thesis
  proof (cases "hd a = hd b")
    case False
    then have "longest_common_prefix a b = []" using longest_common_none [OF ne] by simp
    then show ?thesis using v relation_unrelated [OF ne False] by (simp add: forkClassify_def commonLength_prefix Let_def)
  next
    case True
    then have l: "longest_common_prefix a b \<noteq> []" using longest_common_none [OF ne] by simp
    obtain t where t: "a = longest_common_prefix a b @ t" using longest_common_prefix_prefix1 unfolding prefix_def by blast
    have "a ! (length (longest_common_prefix a b) - 1) = List.last (longest_common_prefix a b)"
      by (subst t) (use l in \<open>simp add: nth_append last_conv_nth\<close>)
    then show ?thesis
      using v l relation_common [OF ne True] by (auto simp: forkClassify_def commonLength_prefix Let_def)
  qed
qed


section \<open>Health and simulation\<close>

lemma healthCheckValidate_iff:
  "healthCheckValidate c = Inr () \<longleftrightarrow> hcDomain c \<in> set requiredDomains \<and>
     hcStatus c \<in> set [healthHealthy, healthUnknown, healthDegraded, healthBlocked] \<and> (hcStatus c \<noteq> healthHealthy \<longrightarrow> hcReason c \<noteq> [])"
  by (auto simp: healthCheckValidate_def simp del: list.set)

definition statusRank :: "string \<Rightarrow> nat" where "statusRank s = mgetOr 0 healthRank s"

lemma healthStep_Inr: "healthStep (seen, worst) c = Inr st \<longleftrightarrow> healthCheckValidate c = Inr () \<and> hcDomain c \<notin> set seen \<and>
    st = (hcDomain c # seen, if statusRank worst < statusRank (hcStatus c) then hcStatus c else worst)"
  by (auto simp: healthStep_def statusRank_def res_simps)

lemma health_fold:
  assumes "foldM healthStep (seen, worst) checks = Inr (seen', worst')"
  shows "set seen' = set seen \<union> hcDomain ` set checks \<and> distinct (map hcDomain checks) \<and> set seen \<inter> hcDomain ` set checks = {} \<and>
    (\<forall>c\<in>set checks. healthCheckValidate c = Inr ()) \<and> statusRank worst' = Max (insert (statusRank worst) (statusRank ` hcStatus ` set checks)) \<and>
    worst' \<in> insert worst (hcStatus ` set checks)"
  using assms
proof (induction checks arbitrary: seen worst)
  case (Cons c cs)
  let ?w = "if statusRank worst < statusRank (hcStatus c) then hcStatus c else worst"
  from Cons.prems have v: "healthCheckValidate c = Inr ()" "hcDomain c \<notin> set seen"
      and f: "foldM healthStep (hcDomain c # seen, ?w) cs = Inr (seen', worst')"
    by (auto simp: andThen_Inr_iff healthStep_Inr simp del: set_simps)
  note ih = Cons.IH [OF f]
  have w: "statusRank ?w = max (statusRank worst) (statusRank (hcStatus c))" by auto
  have "statusRank worst' = Max (insert (statusRank ?w) (statusRank ` hcStatus ` set cs))" using ih by blast
  also have "\<dots> = Max (insert (statusRank worst) (statusRank ` hcStatus ` set (c # cs)))"
    unfolding w by (cases "cs = []") (simp_all add: Max_insert max.assoc max.left_commute)
  finally have r: "statusRank worst' = Max (insert (statusRank worst) (statusRank ` hcStatus ` set (c # cs)))" .
  show ?case
  proof (intro conjI)
    show "worst' \<in> insert worst (hcStatus ` set (c # cs))" using ih by (auto split: if_split_asm)
  qed (use ih v r in auto)
qed simp

lemma checkAll_guard: "checkAll (\<lambda>d. if P d then Inl (e d) else Inr ()) xs = Inr u \<longleftrightarrow> (\<forall>x\<in>set xs. \<not> P x)"
  by (induction xs) simp_all

lemma health_parts:
  "healthAggregate checks = Inr s \<longleftrightarrow> (\<exists>seen. foldM healthStep ([], healthHealthy) checks = Inr (seen, s) \<and> (\<forall>d\<in>set requiredDomains. d \<in> set seen))"
proof (cases "foldM healthStep ([], healthHealthy) checks")
  case (Inr st)
  obtain seen w where st: "st = (seen, w)" by (cases st)
  have "healthAggregate checks = Inr s \<longleftrightarrow> (\<forall>d\<in>set requiredDomains. d \<in> set seen) \<and> w = s"
    unfolding healthAggregate_def Inr st andThen_simps(2) prod.case andThen_Inr_iff checkAll_guard sum.inject not_not by blast
  then show ?thesis unfolding Inr st sum.inject prod.inject by metis
next
  case (Inl e)
  then show ?thesis unfolding healthAggregate_def Inl andThen_simps(1) by simp
qed

lemma healthAggregate_Inr:
  assumes "healthAggregate checks = Inr s"
  shows "distinct (map hcDomain checks) \<and> set (map hcDomain checks) = set requiredDomains \<and>
    s \<in> hcStatus ` set checks \<and> (\<forall>c\<in>set checks. statusRank (hcStatus c) \<le> statusRank s)"
proof -
  obtain seen where f: "foldM healthStep ([], healthHealthy) checks = Inr (seen, s)" and d: "\<forall>d\<in>set requiredDomains. d \<in> set seen"
    using assms unfolding health_parts by blast
  note h = health_fold [OF f]
  have v: "\<forall>c\<in>set checks. hcDomain c \<in> set requiredDomains" using h unfolding healthCheckValidate_iff by simp
  have "set seen = hcDomain ` set checks" using h by simp
  then have dom: "set (map hcDomain checks) = set requiredDomains" using d v by fastforce
  have ne: "checks \<noteq> []" using dom by (cases checks) (simp_all add: requiredDomains_def)
  have z: "statusRank healthHealthy = 0" by code_simp
  have "\<exists>c\<in>set checks. s = hcStatus c"
  proof (rule ccontr)
    assume n: "\<not> ?thesis"
    then have s: "s = healthHealthy" using h by auto
    obtain c where c: "c \<in> set checks" using ne by (cases checks) auto
    have "statusRank (hcStatus c) \<le> statusRank s" using h c by simp
    then have "statusRank (hcStatus c) = 0" using s z by simp
    moreover have "hcStatus c \<in> set [healthHealthy, healthUnknown, healthDegraded, healthBlocked]"
      using h c unfolding healthCheckValidate_iff by simp
    moreover have "statusRank healthUnknown = 1" "statusRank healthDegraded = 2" "statusRank healthBlocked = 3" by code_simp+
    ultimately have "hcStatus c = healthHealthy" by auto
    then show False using n s c by auto
  qed
  moreover have "\<forall>c\<in>set checks. statusRank (hcStatus c) \<le> statusRank s" using h by simp
  ultimately show ?thesis using h dom by auto
qed

text \<open>Two histories are classified exactly when neither is empty, repeats a commit or has an empty
  identity, and the answer is their relation as prefixes of each other: equal, one extending the other,
  sharing only a beginning, or with different roots. The common ancestor is the last commit of the longest
  common prefix.\<close>

lemma fork_classified:
  "forkClassify a b = Inr f \<longleftrightarrow> goodHistory a \<and> goodHistory b \<and>
     f = \<lparr>frKind = relation a b,
          frCommonAncestor = (if longest_common_prefix a b = [] then [] else List.last (longest_common_prefix a b)),
          frHeadA = List.last a, frHeadB = List.last b\<rparr>"
proof (cases "goodHistory a \<and> goodHistory b")
  case True
  then show ?thesis using forkClassify_exact by auto
next
  case False
  then have "validateForkHistory a \<noteq> Inr () \<or> validateForkHistory b \<noteq> Inr ()" by (simp add: validateForkHistory_iff)
  then have "forkClassify a b \<noteq> Inr f" by (auto simp: forkClassify_def andThen_Inr_iff wrap_Inr_iff)
  with False show ?thesis by blast
qed

lemma fork_kind_names [simp]: "relation a b = forkDivergent \<or> relation a b = forkUnrelated \<longleftrightarrow> \<not> prefix a b \<and> \<not> prefix b a"
  by (auto simp: relation_def strict_prefix_def forkDivergent_def forkUnrelated_def forkIdentical_def forkADescendsB_def forkBDescendsA_def)

lemma forkClassify_good:
  assumes "forkClassify a b = Inr f"
  shows "goodHistory a \<and> goodHistory b"
  using assms by (auto simp: forkClassify_def andThen_Inr_iff wrap_Inr_iff validateForkHistory_iff)

lemma openForkCase_Inr:
  assumes "openForkCase i a b = Inr c"
  shows "i \<noteq> [] \<and> goodHistory a \<and> goodHistory b \<and> \<not> prefix a b \<and> \<not> prefix b a \<and>
    fcCaseID c = i \<and> fcStatus c = caseOpen \<and> fcKind c = relation a b \<and> fcHeadA c = List.last a \<and> fcHeadB c = List.last b"
proof -
  obtain f where f: "forkClassify a b = Inr f" and i: "i \<noteq> []" and k: "frKind f = forkDivergent \<or> frKind f = forkUnrelated"
    and c: "c = \<lparr>fcCaseID = i, fcStatus = caseOpen, fcKind = frKind f, fcCommonAncestor = frCommonAncestor f,
               fcHeadA = frHeadA f, fcHeadB = frHeadB f\<rparr>"
    using assms by (auto simp: openForkCase_def andThen_Inr_iff wrap_Inr_iff split: if_split_asm)
  note g = forkClassify_good [OF f]
  then have "f = \<lparr>frKind = relation a b,
     frCommonAncestor = (if longest_common_prefix a b = [] then [] else List.last (longest_common_prefix a b)), frHeadA = List.last a, frHeadB = List.last b\<rparr>"
    using forkClassify_exact f by simp
  with g i k c show ?thesis by simp
qed

text \<open>C34: A recovery case is only opened for two histories of which neither extends the other, and it is only
  resolved by choosing the head of one of them and naming the head of the other as rejected and preserved
  evidence, with an actor, a decision and a reason; the case of the answer differs only by its status, which
  cannot be resolved a second time.\<close>

theorem fork_resolution_preserves_both_heads:
  assumes "openForkCase i a b = Inr c" "validateResolution c r = Inr (c', r')"
  shows "\<not> prefix a b \<and> \<not> prefix b a \<and> rcCaseID r = i \<and> r' = r \<and> rcRejectedPreserved r \<and>
    (rcSelectedHead r = List.last a \<and> rcRejectedHead r = List.last b \<or> rcSelectedHead r = List.last b \<and> rcRejectedHead r = List.last a) \<and>
    rcActorID r \<noteq> [] \<and> rcDecisionRef r \<noteq> [] \<and> rcReason r \<noteq> [] \<and>
    c' = c\<lparr>fcStatus := caseResolved\<rparr> \<and> validateResolution c' q = Inl (forkErr ''case is not open'')"
proof -
  note o = openForkCase_Inr [OF assms(1)]
  have v: "fcStatus c = caseOpen \<and> rcCaseID r = fcCaseID c \<and> rcRejectedPreserved r \<and>
      (rcSelectedHead r = fcHeadA c \<and> rcRejectedHead r = fcHeadB c \<or> rcSelectedHead r = fcHeadB c \<and> rcRejectedHead r = fcHeadA c) \<and>
      rcActorID r \<noteq> [] \<and> rcDecisionRef r \<noteq> [] \<and> rcReason r \<noteq> [] \<and> r' = r \<and> c' = c\<lparr>fcStatus := caseResolved\<rparr>"
    using assms(2) by (auto simp: validateResolution_def Let_def andThen_Inr_iff wrap_Inr_iff split: if_split_asm)
  then have "validateResolution c' q = Inl (forkErr ''case is not open'')"
    by (simp add: validateResolution_def caseResolved_def caseOpen_def)
  with o v show ?thesis by auto
qed

definition demoCase :: forkCase where
  "demoCase = \<lparr>fcCaseID = ''case-1'', fcStatus = caseOpen, fcKind = forkDivergent, fcCommonAncestor = ''root'', fcHeadA = ''left'', fcHeadB = ''right''\<rparr>"

definition demoChoice :: resolutionCandidate where
  "demoChoice = \<lparr>rcCaseID = ''case-1'', rcSelectedHead = ''right'', rcRejectedHead = ''left'', rcActorID = ''operator'',
     rcDecisionRef = ''decision-7'', rcReason = ''left was written by a compromised key'', rcResolvedAt = ''2024-05-01T10:00:00Z'', rcRejectedPreserved = True\<rparr>"

theorem fork_resolution_preserves_both_heads_witness:
  "validateResolution (demoCase\<lparr>fcStatus := caseResolved\<rparr>) demoChoice = Inl (forkErr ''case is not open'')"
proof -
  have "openForkCase ''case-1'' [''root'', ''left''] [''root'', ''right''] = Inr demoCase" by code_simp
  moreover have "validateResolution demoCase demoChoice = Inr (demoCase\<lparr>fcStatus := caseResolved\<rparr>, demoChoice)" by code_simp
  ultimately show ?thesis by (rule fork_resolution_preserves_both_heads [THEN conjunct2, THEN conjunct2, THEN conjunct2, THEN conjunct2, THEN conjunct2, THEN conjunct2, THEN conjunct2, THEN conjunct2, THEN conjunct2, THEN conjunct2])
qed

section \<open>The life cycle of a key\<close>

lemma key_states:
  assumes "keyLife.run s path = Inr u" "s \<in> {keyGenerated, keyActive, keyRotating, keyCompromised, keyRevoked, keyRetired}"
  shows "u \<in> {keyGenerated, keyActive, keyRotating, keyCompromised, keyRevoked, keyRetired}"
  using assms
proof (induction path arbitrary: s)
  case Nil
  then show ?case by (simp add: keyLife.run_def)
next
  case (Cons t path)
  have "keyCanTransition s t" "keyLife.run t path = Inr u" using Cons.prems(1) by (simp_all add: keyLife.run_Cons)
  moreover from this(1) have "t \<in> {keyGenerated, keyActive, keyRotating, keyCompromised, keyRevoked, keyRetired}"
    by (auto simp: keyCanTransition_def split: if_split_asm)
  ultimately show ?case using Cons.IH by blast
qed

lemma key_live:
  assumes "u \<in> {keyGenerated, keyActive, keyRotating, keyCompromised, keyRevoked, keyRetired}" "u \<notin> {keyRevoked, keyRetired}"
  shows "keyRequireTransition u keyRevoked = Inr ()"
  using assms by (auto simp: keyRequireTransition_def keyCanTransition_def state_names)

text \<open>However a key got where it is, it can be revoked in one step as long as it is neither revoked nor
  retired; those two are left by no transition, so they can only stand at the end of its life, and it never is
  generated again.\<close>

lemma key_always_revocable:
  assumes "lifecycle_table.run keyRequireTransition keyGenerated path = Inr u"
  shows "(u \<in> {keyRevoked, keyRetired} \<or> keyRequireTransition u keyRevoked = Inr ()) \<and>
    keyGenerated \<notin> set path \<and> set (butlast path) \<inter> {keyRevoked, keyRetired} = {}"
  using key_states [OF assms] key_live keyLife.run_first [OF assms] keyLife.run_final_last [OF assms] by auto

lemma key_always_revocable_witness:
  "keyRequireTransition keyRotating keyRevoked = Inr ()"
proof -
  have "lifecycle_table.run keyRequireTransition keyGenerated [keyActive, keyRotating] = Inr keyRotating"
    unfolding keyLife.run_def by code_simp
  from key_always_revocable [OF this] show ?thesis by (auto simp: state_names)
qed

section \<open>Health\<close>

text \<open>An aggregate of health checks exists only for exactly one valid check of each of the five domains,
  in any order, and it is the status of one of the checks such that none has a worse one; so it is healthy
  only if all five are.\<close>

lemma health_is_worst_of_all_domains:
  assumes "healthAggregate checks = Inr s"
  shows "distinct (map hcDomain checks) \<and> set (map hcDomain checks) = set requiredDomains \<and>
    s \<in> hcStatus ` set checks \<and> (\<forall>c\<in>set checks. statusRank (hcStatus c) \<le> statusRank s)"
  by (rule healthAggregate_Inr [OF assms])

definition demoChecks :: "healthCheck list" where
  "demoChecks = [\<lparr>hcDomain = ''recovery'', hcStatus = healthHealthy, hcReason = []\<rparr>,
     \<lparr>hcDomain = ''system'', hcStatus = healthHealthy, hcReason = []\<rparr>,
     \<lparr>hcDomain = ''authority'', hcStatus = healthDegraded, hcReason = ''one key is rotating''\<rparr>,
     \<lparr>hcDomain = ''source'', hcStatus = healthUnknown, hcReason = ''not polled''\<rparr>,
     \<lparr>hcDomain = ''knowledge'', hcStatus = healthHealthy, hcReason = []\<rparr>]"

lemma health_is_worst_of_all_domains_witness:
  "statusRank healthUnknown \<le> statusRank healthDegraded \<and> healthAggregate demoChecks = Inr healthDegraded"
proof -
  have a: "healthAggregate demoChecks = Inr healthDegraded" by code_simp
  have "\<lparr>hcDomain = ''source'', hcStatus = healthUnknown, hcReason = ''not polled''\<rparr> \<in> set demoChecks" by (simp add: demoChecks_def)
  with health_is_worst_of_all_domains [OF a] have "statusRank healthUnknown \<le> statusRank healthDegraded"
    by (metis healthCheck.select_convs(2))
  with a show ?thesis by simp
qed

section \<open>Review bundles\<close>

lemma validateReviewEvidence_iff:
  "validateReviewEvidence seen es = Inr u \<longleftrightarrow> list_all (\<lambda>e. envelopeValidate e = Inr ()) es \<and>
    distinct (map eeRecordID es) \<and> set (map eeRecordID es) \<inter> set seen = {}"
  by (induction es arbitrary: seen) (auto simp: res_simps)

text \<open>A review bundle is accepted exactly when its proposal, its decision context and every evidence
  envelope are valid, it declares no effect on authority, and the identifiers of its evidence, which are
  pairwise different, are the evidence identifiers the proposal lists: nothing is missing and nothing is
  added.\<close>

lemma review_bundle_carries_its_evidence:
  "reviewBundleValidate b = Inr () \<longleftrightarrow> proposalValidate (rbProposal b) = Inr () \<and> rbAuthorityEffect b = effectNone \<and>
     decisionContextValidate (rbDecisionContext b) = Inr () \<and> list_all (\<lambda>e. envelopeValidate e = Inr ()) (rbEvidence b) \<and>
     distinct (map eeRecordID (rbEvidence b)) \<and> sort (map eeRecordID (rbEvidence b)) = ppEvidenceIDs (rbProposal b)"
  unfolding reviewBundleValidate_def Let_def andThen_Inr_iff if_Inl_Inr_iff not_not validateReviewEvidence_iff
  by (auto, metis length_map length_sort)

end
