(* ===== verification/Restore_Proof.thy ===== *)
theory Restore_Proof
  imports Replay_Properties
begin

text \<open>
  internal/recoveryproof (the strict reading of a recovery proof document) and internal/restoreproof (the
  provenance of a restored ledger and its verification against the proof taken before the restore). The
  verdict compares authority states only; it never declares operational independence.
\<close>

section \<open>Reading complete documents\<close>

text \<open>
  The code reads a document into \<open>map[string]json.RawMessage\<close> first to see which members are present and not
  null, then into the struct with a decoder that rejects unknown members, and then asks the decoder for a
  second value, which must be the end of the input.
\<close>

definition rawFieldMap :: "string \<Rightarrow> (string, string) gomap res" where
  "rawFieldMap raw =
    andThen (topMembers raw) (\<lambda>_.
    Inr (fold (\<lambda>(k, v) m. mput k v m) (case rawMembers raw of None \<Rightarrow> [] | Some kvs \<Rightarrow> kvs) []))"

definition requireMember :: "string \<Rightarrow> (string, string) gomap \<Rightarrow> string \<Rightarrow> unit res" where
  "requireMember pre present name =
    (case mget present name of
       None \<Rightarrow> Inl (Errorf (pre @ '': required field is missing'') [])
     | Some value \<Rightarrow> if trimSpace value = ''null'' then Inl (Errorf (pre @ '': required field must not be null'') []) else Inr ())"

definition endOfInput :: "string \<Rightarrow> string \<Rightarrow> unit res" where
  "endOfInput pre raw =
    (case parseAny (jsonFuel raw) raw of
       None \<Rightarrow> Inr ()
     | Some (_, rest) \<Rightarrow>
       if skipWs rest = [] then Inr ()
       else case parseAny (jsonFuel rest) rest of
           Some _ \<Rightarrow> Inl (Errorf (pre @ '': trailing JSON value'') [])
         | None \<Rightarrow> Inl (Errorf (pre @ '': trailing data'') [errUnmarshal]))"

section \<open>Recovery proof documents\<close>

definition recoveryFields :: "string list" where
  "recoveryFields = [''ledger_commit'', ''authoritative_ref'', ''git_object_format'', ''genesis_commit'', ''project_id'',
     ''ledger_id'', ''genesis_content_sha256'', ''actor_policy_version'', ''actor_policy_root_content_sha256'',
     ''history_commit_count'', ''event_count'', ''reducer_binding_count'', ''governed_record_count'',
     ''governed_records_sha256'', ''replay_sha256'']"

text \<open>The fields of a recovery proof, decoded from the values given for each.\<close>

definition recoveryBody :: "(string \<Rightarrow> json list) \<Rightarrow> recoveryProof res" where
  "recoveryBody f =
    andThen (decString (f ''ledger_commit'')) (\<lambda>a.
    andThen (decString (f ''authoritative_ref'')) (\<lambda>b.
    andThen (decString (f ''git_object_format'')) (\<lambda>c.
    andThen (decString (f ''genesis_commit'')) (\<lambda>d.
    andThen (decString (f ''project_id'')) (\<lambda>e.
    andThen (decString (f ''ledger_id'')) (\<lambda>g.
    andThen (decString (f ''genesis_content_sha256'')) (\<lambda>h.
    andThen (decString (f ''actor_policy_version'')) (\<lambda>i.
    andThen (decString (f ''actor_policy_root_content_sha256'')) (\<lambda>j.
    andThen (decInt64 (f ''history_commit_count'')) (\<lambda>k.
    andThen (decInt64 (f ''event_count'')) (\<lambda>l.
    andThen (decInt64 (f ''reducer_binding_count'')) (\<lambda>m.
    andThen (decInt64 (f ''governed_record_count'')) (\<lambda>n.
    andThen (decString (f ''governed_records_sha256'')) (\<lambda>p.
    andThen (decString (f ''replay_sha256'')) (\<lambda>q.
      Inr \<lparr>rvLedgerCommit = a, rvAuthoritativeRef = b, rvGitObjectFormat = c, rvGenesisCommit = d, rvProjectID = e,
           rvLedgerID = g, rvGenesisSHA256 = h, rvActorPolicyVersion = i, rvActorPolicyRootSHA256 = j,
           rvHistoryCommitCount = k, rvEventCount = l, rvReducerBindingCount = m, rvGovernedRecordCount = n,
           rvGovernedRecordsSHA256 = p, rvReplaySHA256 = q\<rparr>)))))))))))))))"

definition decRecoveryProof :: "string \<Rightarrow> recoveryProof res" where
  "decRecoveryProof raw =
    andThen (topMembersDec raw) (\<lambda>ms.
    andThen (require (knownFields recoveryFields ms) errUnmarshal) (\<lambda>_.
    recoveryBody (fieldValues recoveryFields ms)))"

definition recoveryCode :: string where "recoveryCode = ''RECOVERY_PROOF_INVALID''"

definition recoveryProofValidate :: "recoveryProof \<Rightarrow> unit res" where
  "recoveryProofValidate p =
    (if rvLedgerCommit p = [] \<or> rvAuthoritativeRef p = [] \<or> rvGitObjectFormat p = [] \<or> rvGenesisCommit p = [] \<or>
        rvProjectID p = [] \<or> rvLedgerID p = [] \<or> rvGenesisSHA256 p = [] \<or> rvActorPolicyVersion p = [] \<or>
        rvActorPolicyRootSHA256 p = [] \<or> rvGovernedRecordsSHA256 p = [] \<or> rvReplaySHA256 p = []
     then Inl (Errorf (recoveryCode @ '': proof lacks required authority identity'') [])
     else if rvHistoryCommitCount p \<le> 0 \<or> rvEventCount p < 0 \<or> rvReducerBindingCount p < 0 \<or> rvGovernedRecordCount p < 0
     then Inl (Errorf (recoveryCode @ '': proof contains invalid negative/zero counts'') []) else Inr ())"

definition recoveryProofDecode :: "string \<Rightarrow> recoveryProof res" where
  "recoveryProofDecode raw =
    andThen (wrapw recoveryCode (strictValidate raw)) (\<lambda>_.
    andThen (wrapw (recoveryCode @ '': decode fields'') (rawFieldMap raw)) (\<lambda>present.
    andThen (checkAll (requireMember recoveryCode present) recoveryFields) (\<lambda>_.
    andThen (wrapw (recoveryCode @ '': decode'') (decRecoveryProof raw)) (\<lambda>proof.
    andThen (endOfInput recoveryCode raw) (\<lambda>_.
    andThen (recoveryProofValidate proof) (\<lambda>_. Inr proof))))))"

text \<open>\<open>json.Marshal\<close> of a proof: the members in the order of the struct.\<close>

definition recoveryJson :: "recoveryProof \<Rightarrow> json" where
  "recoveryJson p = JObj
    [(''ledger_commit'', JStr (rvLedgerCommit p)), (''authoritative_ref'', JStr (rvAuthoritativeRef p)),
     (''git_object_format'', JStr (rvGitObjectFormat p)), (''genesis_commit'', JStr (rvGenesisCommit p)),
     (''project_id'', JStr (rvProjectID p)), (''ledger_id'', JStr (rvLedgerID p)),
     (''genesis_content_sha256'', JStr (rvGenesisSHA256 p)), (''actor_policy_version'', JStr (rvActorPolicyVersion p)),
     (''actor_policy_root_content_sha256'', JStr (rvActorPolicyRootSHA256 p)),
     (''history_commit_count'', JNum (intDec (rvHistoryCommitCount p))), (''event_count'', JNum (intDec (rvEventCount p))),
     (''reducer_binding_count'', JNum (intDec (rvReducerBindingCount p))),
     (''governed_record_count'', JNum (intDec (rvGovernedRecordCount p))),
     (''governed_records_sha256'', JStr (rvGovernedRecordsSHA256 p)), (''replay_sha256'', JStr (rvReplaySHA256 p))]"

definition recoveryProofSHA256 :: "(string \<Rightarrow> string res) \<Rightarrow> recoveryProof \<Rightarrow> string res" where
  "recoveryProofSHA256 jcs p =
    andThen (wrapw ''canonicalize recovery proof'' (canonicalize jcs (render (recoveryJson p)))) (\<lambda>c. Inr (sha256Hex c))"

section \<open>Provenance of a restore\<close>

definition provenanceSchemaV1 :: string where "provenanceSchemaV1 = ''threadkeeper.secondary-restore-provenance.v1''"

record provenance =
  pvSchemaVersion :: string
  pvPrimaryDomainID :: string
  pvSecondaryDomainID :: string
  pvSecondaryLocationID :: string
  pvSecondaryOperatorID :: string
  pvBackupSetID :: string
  pvBackupArtifactID :: string
  pvBackupArtifactSHA256 :: string
  pvOriginalProofSHA256 :: string
  pvCapturedAt :: string
  pvRestoredAt :: string
  pvEvidenceRefs :: "string list option"
  pvContentSHA256 :: string

definition provenanceFields :: "string list" where
  "provenanceFields = [''schema_version'', ''primary_authority_domain_id'', ''secondary_authority_domain_id'',
     ''secondary_location_id'', ''secondary_operator_id'', ''backup_set_id'', ''backup_artifact_id'',
     ''backup_artifact_sha256'', ''original_recovery_proof_sha256'', ''captured_at'', ''restored_at'',
     ''external_evidence_refs'', ''content_sha256'']"

definition decProvenance :: "string \<Rightarrow> provenance res" where
  "decProvenance raw =
    andThen (topMembersDec raw) (\<lambda>ms.
    andThen (require (knownFields provenanceFields ms) errUnmarshal) (\<lambda>_.
    let f = fieldValues provenanceFields ms in
    andThen (decString (f ''schema_version'')) (\<lambda>a.
    andThen (decString (f ''primary_authority_domain_id'')) (\<lambda>b.
    andThen (decString (f ''secondary_authority_domain_id'')) (\<lambda>c.
    andThen (decString (f ''secondary_location_id'')) (\<lambda>d.
    andThen (decString (f ''secondary_operator_id'')) (\<lambda>e.
    andThen (decString (f ''backup_set_id'')) (\<lambda>g.
    andThen (decString (f ''backup_artifact_id'')) (\<lambda>h.
    andThen (decString (f ''backup_artifact_sha256'')) (\<lambda>i.
    andThen (decString (f ''original_recovery_proof_sha256'')) (\<lambda>j.
    andThen (decString (f ''captured_at'')) (\<lambda>k.
    andThen (decString (f ''restored_at'')) (\<lambda>l.
    andThen (decSlice (f ''external_evidence_refs'')) (\<lambda>m.
    andThen (decString (f ''content_sha256'')) (\<lambda>n.
      Inr \<lparr>pvSchemaVersion = a, pvPrimaryDomainID = b, pvSecondaryDomainID = c, pvSecondaryLocationID = d,
           pvSecondaryOperatorID = e, pvBackupSetID = g, pvBackupArtifactID = h, pvBackupArtifactSHA256 = i,
           pvOriginalProofSHA256 = j, pvCapturedAt = k, pvRestoredAt = l, pvEvidenceRefs = m, pvContentSHA256 = n\<rparr>)))))))))))))))"

definition provenanceJson :: "provenance \<Rightarrow> json" where
  "provenanceJson p = JObj
    [(''schema_version'', JStr (pvSchemaVersion p)), (''primary_authority_domain_id'', JStr (pvPrimaryDomainID p)),
     (''secondary_authority_domain_id'', JStr (pvSecondaryDomainID p)), (''secondary_location_id'', JStr (pvSecondaryLocationID p)),
     (''secondary_operator_id'', JStr (pvSecondaryOperatorID p)), (''backup_set_id'', JStr (pvBackupSetID p)),
     (''backup_artifact_id'', JStr (pvBackupArtifactID p)), (''backup_artifact_sha256'', JStr (pvBackupArtifactSHA256 p)),
     (''original_recovery_proof_sha256'', JStr (pvOriginalProofSHA256 p)), (''captured_at'', JStr (pvCapturedAt p)),
     (''restored_at'', JStr (pvRestoredAt p)), (''external_evidence_refs'', jslice (pvEvidenceRefs p)),
     (''content_sha256'', JStr (pvContentSHA256 p))]"

definition restoreErr :: "string \<Rightarrow> goerr" where
  "restoreErr msg = Errorf (''RESTORE_PROVENANCE_INVALID: '' @ msg) []"

text \<open>\<open>^[A-Za-z0-9][A-Za-z0-9._:/@+\-]{0,255}$\<close>\<close>

definition isAlnum :: "char \<Rightarrow> bool" where
  "isAlnum c = (isDecDigit c \<or> 97 \<le> cval c \<and> cval c \<le> 122 \<or> 65 \<le> cval c \<and> cval c \<le> 90)"

definition safeIdentifier :: "string \<Rightarrow> bool" where
  "safeIdentifier s =
    (case s of [] \<Rightarrow> False
     | c # cs \<Rightarrow> isAlnum c \<and> length cs \<le> 255 \<and> list_all (\<lambda>x. isAlnum x \<or> x \<in> set ''._:/@+-'') cs)"

definition requireSHA256 :: "string \<Rightarrow> unit res" where
  "requireSHA256 value =
    (if length value \<noteq> 64 \<or> \<not> list_all isHexChar value \<or> toLower value \<noteq> value
     then Inl (restoreErr ''must be 64 lowercase hex characters'') else Inr ())"

fun checkRefs :: "string list \<Rightarrow> string list \<Rightarrow> unit res" where
  "checkRefs seen [] = Inr ()"
| "checkRefs seen (ref # refs) =
    (if ref = [] \<or> length ref > 2048 \<or> containsAny ref lineBreaks
     then Inl (restoreErr ''external evidence reference is unsafe or empty'')
     else if ref \<in> set seen then Inl (restoreErr ''duplicate external evidence reference'')
     else checkRefs (ref # seen) refs)"

text \<open>The code ranges over a Go map of the six identifiers; the order only selects the message.\<close>

definition provenanceValidate :: "(string \<Rightarrow> string res) \<Rightarrow> provenance \<Rightarrow> unit res" where
  "provenanceValidate jcs p =
    andThen (wrapw ''RESTORE_PROVENANCE_INVALID'' (digestVerify jcs (render (provenanceJson p)))) (\<lambda>_.
    if pvSchemaVersion p \<noteq> provenanceSchemaV1 then Inl (restoreErr ''schema_version is unsupported'') else
    andThen (checkAll (\<lambda>value. if safeIdentifier value then Inr () else Inl (restoreErr ''identifier is unsafe or empty''))
      [pvPrimaryDomainID p, pvSecondaryDomainID p, pvSecondaryLocationID p, pvSecondaryOperatorID p, pvBackupSetID p,
       pvBackupArtifactID p]) (\<lambda>_.
    if pvPrimaryDomainID p = pvSecondaryDomainID p
    then Inl (restoreErr ''primary and secondary authority-domain IDs must differ'') else
    andThen (requireSHA256 (pvBackupArtifactSHA256 p)) (\<lambda>_.
    andThen (requireSHA256 (pvOriginalProofSHA256 p)) (\<lambda>_.
    andThen (wrapw ''RESTORE_PROVENANCE_INVALID: captured_at must be RFC3339'' (parseTime (pvCapturedAt p))) (\<lambda>captured.
    andThen (wrapw ''RESTORE_PROVENANCE_INVALID: restored_at must be RFC3339'' (parseTime (pvRestoredAt p))) (\<lambda>restored.
    if restored < captured then Inl (restoreErr ''restored_at precedes captured_at'')
    else if sliceOf (pvEvidenceRefs p) = [] then Inl (restoreErr ''at least one external_evidence_ref is required'')
    else if \<not> sorted (sliceOf (pvEvidenceRefs p)) then Inl (restoreErr ''external_evidence_refs must be sorted'')
    else checkRefs [] (sliceOf (pvEvidenceRefs p))))))))"

definition decodeProvenance :: "(string \<Rightarrow> string res) \<Rightarrow> string \<Rightarrow> provenance res" where
  "decodeProvenance jcs raw =
    andThen (wrapw ''RESTORE_PROVENANCE_INVALID'' (strictValidate raw)) (\<lambda>_.
    andThen (wrapw ''RESTORE_PROVENANCE_INVALID: canonicalize'' (canonicalize jcs raw)) (\<lambda>canonical.
    if raw \<noteq> canonical then Inl (restoreErr ''document must be RFC 8785 canonical JSON'') else
    andThen (wrapw ''RESTORE_PROVENANCE_INVALID'' (digestVerify jcs raw)) (\<lambda>_.
    andThen (wrapw ''RESTORE_PROVENANCE_INVALID: decode fields'' (rawFieldMap raw)) (\<lambda>present.
    andThen (checkAll (requireMember ''RESTORE_PROVENANCE_INVALID'' present) provenanceFields) (\<lambda>_.
    andThen (wrapw ''RESTORE_PROVENANCE_INVALID: decode'' (decProvenance raw)) (\<lambda>p.
    andThen (provenanceValidate jcs p) (\<lambda>_. Inr p)))))))"

section \<open>Verification of a restored ledger\<close>

definition requiresExternalReview :: string where "requiresExternalReview = ''requires_external_review''"

record restoreReport =
  rpCoreEquivalencePassed :: bool
  rpOperationalIndependence :: string
  rpStoragePath :: string
  rpAuthoritativeRef :: string
  rpProvenanceSHA256 :: string
  rpPrimaryDomainID :: string
  rpSecondaryDomainID :: string
  rpSecondaryLocationID :: string
  rpSecondaryOperatorID :: string
  rpBackupSetID :: string
  rpBackupArtifactID :: string
  rpBackupArtifactSHA256 :: string
  rpEvidenceRefs :: "string list"
  rpOriginalProofSHA256 :: string
  rpRestoredProofSHA256 :: string
  rpOriginalProof :: recoveryProof
  rpRestoredProof :: recoveryProof

text \<open>
  The reader may be nil. A report is returned with the error when the proofs differ.
\<close>

definition restoreVerify ::
  "'sch deps \<Rightarrow> host \<Rightarrow> reader option \<Rightarrow> recoveryProof \<Rightarrow> provenance \<Rightarrow> restoreReport option \<times> goerr option" where
  "restoreVerify d h ro original p =
    (case ro of None \<Rightarrow> (None, Some (Errorf ''RESTORE_VERIFY_INVALID: restored ledger Reader is required'' []))
     | Some r \<Rightarrow>
       case andThen (recoveryProofValidate original) (\<lambda>_.
            andThen (provenanceValidate (dpJcs d) p) (\<lambda>_.
            andThen (recoveryProofSHA256 (dpJcs d) original) (\<lambda>originalSHA.
            if pvOriginalProofSHA256 p \<noteq> originalSHA then Inl (Errorf ''RESTORE_PROVENANCE_MISMATCH'' []) else
            andThen (wrapw ''RESTORE_RECOVERY_PROOF_FAILED'' (proveRecovery d h r)) (\<lambda>restored.
            andThen (recoveryProofSHA256 (dpJcs d) restored) (\<lambda>restoredSHA.
            Inr \<lparr>rpCoreEquivalencePassed = False, rpOperationalIndependence = requiresExternalReview,
              rpStoragePath = rdGitDir r, rpAuthoritativeRef = rdRef r, rpProvenanceSHA256 = pvContentSHA256 p,
              rpPrimaryDomainID = pvPrimaryDomainID p, rpSecondaryDomainID = pvSecondaryDomainID p,
              rpSecondaryLocationID = pvSecondaryLocationID p, rpSecondaryOperatorID = pvSecondaryOperatorID p,
              rpBackupSetID = pvBackupSetID p, rpBackupArtifactID = pvBackupArtifactID p,
              rpBackupArtifactSHA256 = pvBackupArtifactSHA256 p, rpEvidenceRefs = sliceOf (pvEvidenceRefs p),
              rpOriginalProofSHA256 = originalSHA,
              rpRestoredProofSHA256 = restoredSHA, rpOriginalProof = original, rpRestoredProof = restored\<rparr>))))) of
         Inl e \<Rightarrow> (None, Some e)
       | Inr report \<Rightarrow>
         (case wrapw ''RESTORE_AUTHORITY_MISMATCH'' (compareRecoveryProofs original (rpRestoredProof report)) of
            Inl e \<Rightarrow> (Some report, Some e)
          | Inr _ \<Rightarrow> (Some (report\<lparr>rpCoreEquivalencePassed := True\<rparr>), None)))"

section \<open>Decimal numbers\<close>

lemma count_json:
  assumes "0 \<le> i"
  shows "lexNumber (intDec i) = Some (intDec i, [])" "\<not> isNegativeZero (intDec i)"
  using natDec_unsigned [of "nat i"] assms by (simp_all add: intDec_nonneg natDec_lex isNegativeZero_def)

section \<open>Documents that are marshalled structs\<close>

text \<open>What reading back a rendered object gives, member by member.\<close>

definition plainObject :: "(string \<times> json) list \<Rightarrow> bool" where
  "plainObject ms \<longleftrightarrow> wfJson (JObj ms) \<and> textJson (JObj ms) \<and> strictTree 0 (JObj ms)"

lemma plainObject_validate: "plainObject ms \<Longrightarrow> strictValidate (render (JObj ms)) = Inr ()"
  unfolding strictValidate_iff plainObject_def using strictText_render by blast

lemma plainObject_members:
  assumes "plainObject ms"
  shows "topMembers (render (JObj ms)) = Inr ms" "topMembersDec (render (JObj ms)) = Inr ms"
    "endOfInput pre (render (JObj ms)) = Inr ()"
proof -
  have j: "jsonUnmarshal (render (JObj ms)) = Some (JObj ms)"
    using assms jsonUnmarshal_render unfolding plainObject_def by blast
  then show "topMembers (render (JObj ms)) = Inr ms" by (simp add: topMembers_def structMembers_def)
  from j obtain r where p: "parseAny (jsonFuel (render (JObj ms))) (render (JObj ms)) = Some (JObj ms, r)" "skipWs r = []"
    unfolding jsonUnmarshal_def by (auto split: option.split_asm if_split_asm)
  then show "topMembersDec (render (JObj ms)) = Inr ms" by (simp add: topMembersDec_def jsonDecode_def structMembers_def del: render.simps)
  show "endOfInput pre (render (JObj ms)) = Inr ()" using p by (simp add: endOfInput_def del: render.simps)
qed

lemma fold_mput_distinct:
  "distinct (map fst ms) \<Longrightarrow> (k, v) \<in> set ms \<Longrightarrow> mget (fold (\<lambda>(k, v) m. mput k v m) ms acc) k = Some v"
proof (induction ms arbitrary: acc)
  case (Cons m ms)
  have keep: "k \<notin> fst ` set ms' \<Longrightarrow> mget (fold (\<lambda>(k, v) m. mput k v m) ms' acc) k = mget acc k" for ms' acc
    by (induction ms' arbitrary: acc) (auto simp: mget_mput)
  show ?case
  proof (cases "m = (k, v)")
    case True
    then show ?thesis using Cons.prems keep [of ms "mput k v acc"] by (simp add: mget_mput)
  next
    case False
    then show ?thesis using Cons by (cases m) auto
  qed
qed simp

lemma plainObject_fields:
  assumes "plainObject ms"
  obtains m where "rawFieldMap (render (JObj ms)) = Inr m" "\<And>k v. (k, v) \<in> set ms \<Longrightarrow> mget m k = Some (render v)"
proof
  have d: "distinct (map fst (map (\<lambda>(k, v). (k, render v)) ms))"
    using assms unfolding plainObject_def by (simp add: case_prod_beta comp_def)
  have r: "rawMembers (render (JObj ms)) = Some (map (\<lambda>(k, v). (k, render v)) ms)"
    using assms rawMembers_render unfolding plainObject_def by blast
  show "rawFieldMap (render (JObj ms)) = Inr (fold (\<lambda>(k, v) m. mput k v m) (map (\<lambda>(k, v). (k, render v)) ms) [])"
    unfolding rawFieldMap_def plainObject_members(1) [OF assms] r by simp
  show "mget (fold (\<lambda>(k, v) m. mput k v m) (map (\<lambda>(k, v). (k, render v)) ms) []) k = Some (render v)" if "(k, v) \<in> set ms" for k v
    using that by (intro fold_mput_distinct [OF d]) force
qed

lemma plainObject_required:
  assumes "plainObject ms" "\<forall>n\<in>set names. \<exists>v. (n, v) \<in> set ms \<and> trimSpace (render v) \<noteq> ''null''"
  shows "andThen (wrapw w (rawFieldMap (render (JObj ms)))) (\<lambda>m. andThen (checkAll (requireMember pre m) names) f) = f ()"
proof -
  obtain m where m: "rawFieldMap (render (JObj ms)) = Inr m" "\<And>k v. (k, v) \<in> set ms \<Longrightarrow> mget m k = Some (render v)"
    by (rule plainObject_fields [OF assms(1)]) blast
  have "requireMember pre m n = Inr ()" if "n \<in> set names" for n
    using assms(2) m(2) that by (force simp: requireMember_def)
  then have "checkAll (requireMember pre m) names = Inr ()" by (simp add: checkAll_ok_iff)
  then show ?thesis using m(1) by simp
qed

lemma fieldValues_distinct:
  assumes "\<forall>m\<in>set ms. fst m \<in> set names" "distinct (map fst ms)" "(k, v) \<in> set ms"
  shows "fieldValues names ms k = [v]"
  using assms
proof (induction ms)
  case (Cons m ms)
  have keep: "k \<notin> fst ` set ms' \<Longrightarrow> \<forall>m\<in>set ms'. fst m \<in> set names \<Longrightarrow> fieldValues names ms' k = []" for ms'
    by (induction ms') (auto simp: fieldValues_def)
  show ?case
  proof (cases "m = (k, v)")
    case True
    then show ?thesis using Cons.prems keep [of ms] by (simp add: fieldValues_def)
  next
    case False
    then have "fst m \<noteq> k" using Cons.prems by (auto simp: image_iff)
    then show ?thesis using False Cons by (cases m) (auto simp: fieldValues_def)
  qed
qed simp

lemma trim_quote: "trimSpace (quote s) \<noteq> ''null''"
proof -
  have e: "quote s \<noteq> []" "hd (quote s) = CHR 0x22" "List.last (quote s) = CHR 0x22" by (simp_all add: quote_def)
  have "spaceFree [CHR 0x22]" by code_simp
  then have "trimSpace (quote s) = quote s" using trimSpace_ends(1) [of "quote s"] e by simp
  then show ?thesis by (simp add: quote_def)
qed

lemma trim_count: "0 \<le> i \<Longrightarrow> trimSpace (render (JNum (intDec i))) \<noteq> ''null''"
proof -
  assume "0 \<le> i"
  then have i: "render (JNum (intDec i)) = natDec (nat i)" by (simp add: intDec_nonneg)
  have d: "\<forall>c\<in>set (natDec (nat i)). isDecDigit c" "natDec (nat i) \<noteq> []" using natDec_digits by (auto simp: list_all_iff)
  then have "spaceFree (natDec (nat i))" by (auto simp: spaceFree_def list_all_iff charclass_defs less_char_def)
  then have "trimSpace (natDec (nat i)) = natDec (nat i)" using trimSpace_ends(1) spaceFree_ends d(2) by blast
  moreover have "\<not> isDecDigit CHR ''n''" by code_simp
  then have "natDec (nat i) \<noteq> ''null''" using d(1) by (metis list.set_intros(1))
  ultimately show ?thesis unfolding i by simp
qed

section \<open>Recovery proofs are read back\<close>

lemma knownFields_names: "set (map fst ms) \<subseteq> set names \<Longrightarrow> knownFields names ms"
  by (induction ms) (auto simp: knownFields_def)

text \<open>The strings are valid UTF-8 and the counts fit Go's int.\<close>

definition marshallable :: "recoveryProof \<Rightarrow> bool" where
  "marshallable p \<longleftrightarrow> list_all utf8Valid [rvLedgerCommit p, rvAuthoritativeRef p, rvGitObjectFormat p, rvGenesisCommit p, rvProjectID p, rvLedgerID p,
     rvGenesisSHA256 p, rvActorPolicyVersion p, rvActorPolicyRootSHA256 p, rvGovernedRecordsSHA256 p, rvReplaySHA256 p] \<and>
     list_all (\<lambda>i. i < 2 ^ 63) [rvHistoryCommitCount p, rvEventCount p, rvReducerBindingCount p, rvGovernedRecordCount p]"

lemma recoveryValid_counts:
  "recoveryProofValidate p = Inr () \<Longrightarrow> 0 < rvHistoryCommitCount p \<and> 0 \<le> rvEventCount p \<and> 0 \<le> rvReducerBindingCount p \<and> 0 \<le> rvGovernedRecordCount p"
  by (auto simp: recoveryProofValidate_def split: if_split_asm)

definition recoveryMembers :: "recoveryProof \<Rightarrow> (string \<times> json) list" where
  "recoveryMembers p = (case recoveryJson p of JObj ms \<Rightarrow> ms | _ \<Rightarrow> [])"

lemma recoveryMembers_json: "recoveryJson p = JObj (recoveryMembers p)"
  by (simp add: recoveryMembers_def recoveryJson_def)

lemma recoveryMembers_names: "map fst (recoveryMembers p) = recoveryFields"
  by (simp add: recoveryMembers_def recoveryJson_def recoveryFields_def)

lemma recoveryFields_text: "distinct recoveryFields \<and> list_all utf8Valid recoveryFields" by code_simp

lemma recoveryMembers_plain:
  assumes "recoveryProofValidate p = Inr ()" "marshallable p"
  shows "plainObject (recoveryMembers p)"
proof -
  note c = recoveryValid_counts [OF assms(1)]
  have v: "wfJson (snd m) \<and> textJson (snd m) \<and> strictTree 1 (snd m)" if "m \<in> set (recoveryMembers p)" for m
    using that assms(2) c by (auto simp: recoveryMembers_def recoveryJson_def marshallable_def count_json)
  have "utf8Valid (fst m)" if "m \<in> set (recoveryMembers p)" for m
    using that recoveryFields_text recoveryMembers_names [of p] by (metis image_eqI image_set list_all_iff)
  with v show ?thesis using recoveryFields_text recoveryMembers_names [of p] by (simp add: plainObject_def)
qed

lemma recoveryMembers_value: "(n, v) \<in> set (recoveryMembers p) \<Longrightarrow> fieldValues recoveryFields (recoveryMembers p) n = [v]"
  using fieldValues_distinct [of "recoveryMembers p" recoveryFields n v] recoveryFields_text recoveryMembers_names [of p]
  by (metis image_eqI image_set)

lemma recoveryMembers_values:
  "fieldValues recoveryFields (recoveryMembers p) ''ledger_commit'' = [JStr (rvLedgerCommit p)]"
  "fieldValues recoveryFields (recoveryMembers p) ''authoritative_ref'' = [JStr (rvAuthoritativeRef p)]"
  "fieldValues recoveryFields (recoveryMembers p) ''git_object_format'' = [JStr (rvGitObjectFormat p)]"
  "fieldValues recoveryFields (recoveryMembers p) ''genesis_commit'' = [JStr (rvGenesisCommit p)]"
  "fieldValues recoveryFields (recoveryMembers p) ''project_id'' = [JStr (rvProjectID p)]"
  "fieldValues recoveryFields (recoveryMembers p) ''ledger_id'' = [JStr (rvLedgerID p)]"
  "fieldValues recoveryFields (recoveryMembers p) ''genesis_content_sha256'' = [JStr (rvGenesisSHA256 p)]"
  "fieldValues recoveryFields (recoveryMembers p) ''actor_policy_version'' = [JStr (rvActorPolicyVersion p)]"
  "fieldValues recoveryFields (recoveryMembers p) ''actor_policy_root_content_sha256'' = [JStr (rvActorPolicyRootSHA256 p)]"
  "fieldValues recoveryFields (recoveryMembers p) ''history_commit_count'' = [JNum (intDec (rvHistoryCommitCount p))]"
  "fieldValues recoveryFields (recoveryMembers p) ''event_count'' = [JNum (intDec (rvEventCount p))]"
  "fieldValues recoveryFields (recoveryMembers p) ''reducer_binding_count'' = [JNum (intDec (rvReducerBindingCount p))]"
  "fieldValues recoveryFields (recoveryMembers p) ''governed_record_count'' = [JNum (intDec (rvGovernedRecordCount p))]"
  "fieldValues recoveryFields (recoveryMembers p) ''governed_records_sha256'' = [JStr (rvGovernedRecordsSHA256 p)]"
  "fieldValues recoveryFields (recoveryMembers p) ''replay_sha256'' = [JStr (rvReplaySHA256 p)]"
  by (rule recoveryMembers_value, simp add: recoveryMembers_def recoveryJson_def)+

lemma recovery_dec:
  assumes "recoveryProofValidate p = Inr ()" "marshallable p"
  shows "decRecoveryProof (render (recoveryJson p)) = Inr p"
proof -
  note plain = recoveryMembers_plain [OF assms] and c = recoveryValid_counts [OF assms(1)]
  have k: "knownFields recoveryFields (recoveryMembers p)"
    by (rule knownFields_names) (simp add: recoveryMembers_names)
  have s: "decString [JStr x] = Inr x" for x by (simp add: decString_def)
  have n: "decInt64 [JNum (intDec (rvHistoryCommitCount p))] = Inr (rvHistoryCommitCount p)"
    "decInt64 [JNum (intDec (rvEventCount p))] = Inr (rvEventCount p)"
    "decInt64 [JNum (intDec (rvReducerBindingCount p))] = Inr (rvReducerBindingCount p)"
    "decInt64 [JNum (intDec (rvGovernedRecordCount p))] = Inr (rvGovernedRecordCount p)"
    using c assms(2) by (simp_all add: decInt64_natDec marshallable_def)
  show ?thesis
    unfolding decRecoveryProof_def recoveryBody_def recoveryMembers_json plainObject_members(2) [OF plain] andThen_simps(2) Let_def
      recoveryMembers_values s n using k by simp
qed

lemma recovery_roundtrip:
  assumes "recoveryProofValidate p = Inr ()" "marshallable p"
  shows "recoveryProofDecode (render (recoveryJson p)) = Inr p"
proof -
  note plain = recoveryMembers_plain [OF assms] and c = recoveryValid_counts [OF assms(1)]
  have m: "trimSpace (render v) \<noteq> ''null''" if "(n, v) \<in> set (recoveryMembers p)" for n v
    using that trim_quote trim_count c by (auto simp: recoveryMembers_def recoveryJson_def)
  have r: "\<forall>n\<in>set recoveryFields. \<exists>v. (n, v) \<in> set (recoveryMembers p) \<and> trimSpace (render v) \<noteq> ''null''"
    using m recoveryMembers_names [of p] by (metis (no_types, lifting) image_iff image_set prod.collapse)
  show ?thesis
    unfolding recoveryProofDecode_def recoveryMembers_json plainObject_validate [OF plain] wrap_simps andThen_simps(2)
      plainObject_required [OF plain r] plainObject_members(3) [OF plain]
      recovery_dec [OF assms, unfolded recoveryMembers_json] assms(1) ..
qed

text \<open>C33: A recovery proof written with \<open>json.Marshal\<close> is read back unchanged: a proof that \<open>Validate\<close>
  accepts, with valid UTF-8 strings and counts that fit an int, decodes from its own document to itself, so
  two different proofs never have the same document.\<close>

theorem recovery_proof_roundtrip:
  assumes "recoveryProofValidate p = Inr ()" "marshallable p"
  shows "recoveryProofDecode (render (recoveryJson p)) = Inr p"
  by (rule recovery_roundtrip [OF assms])

definition demoProof :: recoveryProof where
  "demoProof = \<lparr>rvLedgerCommit = ''c2'', rvAuthoritativeRef = ''refs/heads/main'', rvGitObjectFormat = ''sha1'',
     rvGenesisCommit = ''c1'', rvProjectID = ''a \"quoted\" project'', rvLedgerID = ''<ledger>'', rvGenesisSHA256 = ''d1'',
     rvActorPolicyVersion = ''v1'', rvActorPolicyRootSHA256 = ''d2'', rvHistoryCommitCount = 120, rvEventCount = 0,
     rvReducerBindingCount = 1, rvGovernedRecordCount = 7, rvGovernedRecordsSHA256 = ''d3'', rvReplaySHA256 = ''d4''\<rparr>"

theorem recovery_proof_roundtrip_witness:
  "recoveryProofDecode (render (recoveryJson demoProof)) = Inr demoProof"
proof (rule recovery_proof_roundtrip)
  show "recoveryProofValidate demoProof = Inr ()" by code_simp
  show "marshallable demoProof" by code_simp
qed

section \<open>The verdict on a restore\<close>

lemma restoreVerify_parts:
  assumes "restoreVerify d h ro original p = (Some report, err)"
  obtains r restored where "ro = Some r" "recoveryProofValidate original = Inr ()" "provenanceValidate (dpJcs d) p = Inr ()"
    "recoveryProofSHA256 (dpJcs d) original = Inr (pvOriginalProofSHA256 p)" "proveRecovery d h r = Inr restored"
    "rpOriginalProof report = original" "rpRestoredProof report = restored"
    "rpOperationalIndependence report = requiresExternalReview"
    "rpPrimaryDomainID report = pvPrimaryDomainID p" "rpSecondaryDomainID report = pvSecondaryDomainID p"
    "rpStoragePath report = rdGitDir r"
    "rpCoreEquivalencePassed report \<longleftrightarrow> original = restored" "err = None \<longleftrightarrow> original = restored"
proof (cases ro)
  case None
  then show ?thesis using assms by (simp add: restoreVerify_def)
next
  case (Some r)
  define made where "made restored restoredSHA = \<lparr>rpCoreEquivalencePassed = False, rpOperationalIndependence = requiresExternalReview,
              rpStoragePath = rdGitDir r, rpAuthoritativeRef = rdRef r, rpProvenanceSHA256 = pvContentSHA256 p,
              rpPrimaryDomainID = pvPrimaryDomainID p, rpSecondaryDomainID = pvSecondaryDomainID p,
              rpSecondaryLocationID = pvSecondaryLocationID p, rpSecondaryOperatorID = pvSecondaryOperatorID p,
              rpBackupSetID = pvBackupSetID p, rpBackupArtifactID = pvBackupArtifactID p,
              rpBackupArtifactSHA256 = pvBackupArtifactSHA256 p, rpEvidenceRefs = sliceOf (pvEvidenceRefs p),
              rpOriginalProofSHA256 = pvOriginalProofSHA256 p, rpRestoredProofSHA256 = restoredSHA, rpOriginalProof = original,
              rpRestoredProof = restored\<rparr>" for restored restoredSHA
  let ?all = "andThen (recoveryProofValidate original) (\<lambda>_.
            andThen (provenanceValidate (dpJcs d) p) (\<lambda>_.
            andThen (recoveryProofSHA256 (dpJcs d) original) (\<lambda>originalSHA.
            if pvOriginalProofSHA256 p \<noteq> originalSHA then Inl (Errorf ''RESTORE_PROVENANCE_MISMATCH'' []) else
            andThen (wrapw ''RESTORE_RECOVERY_PROOF_FAILED'' (proveRecovery d h r)) (\<lambda>restored.
            andThen (recoveryProofSHA256 (dpJcs d) restored) (\<lambda>restoredSHA. Inr (made restored restoredSHA))))))"
  have def: "restoreVerify d h ro original p = (case ?all of Inl e \<Rightarrow> (None, Some e)
       | Inr report \<Rightarrow>
         (case wrapw ''RESTORE_AUTHORITY_MISMATCH'' (compareRecoveryProofs original (rpRestoredProof report)) of
            Inl e \<Rightarrow> (Some report, Some e)
          | Inr _ \<Rightarrow> (Some (report\<lparr>rpCoreEquivalencePassed := True\<rparr>), None)))"
    unfolding restoreVerify_def Some option.case made_def
    by (rule arg_cong [where f = "case_sum _ _"]) (auto intro!: andThen_cong)
  show ?thesis
  proof (cases ?all)
    case (Inl e)
    then show ?thesis using assms unfolding def by simp
  next
    case (Inr base)
    then obtain restored sha where b: "base = made restored sha" and ok: "recoveryProofValidate original = Inr ()"
        "provenanceValidate (dpJcs d) p = Inr ()" "recoveryProofSHA256 (dpJcs d) original = Inr (pvOriginalProofSHA256 p)"
        "proveRecovery d h r = Inr restored"
      by (auto simp: andThen_Inr_iff wrap_Inr_iff if_Inl_Inr_iff)
    show ?thesis
      using assms that [OF Some ok] unfolding def Inr b by (auto simp: compareRecoveryProofs_def made_def split: if_split_asm)
  qed
qed

lemma provenanceValidate_domains: "provenanceValidate jcs p = Inr () \<Longrightarrow> pvPrimaryDomainID p \<noteq> pvSecondaryDomainID p"
  unfolding provenanceValidate_def andThen_Inr_iff if_Inl_Inr_iff by blast

lemma restoreVerify_error: "restoreVerify d h ro original p = (None, err) \<Longrightarrow> err \<noteq> None"
  unfolding restoreVerify_def by (auto split: option.split_asm sum.split_asm)

text \<open>C18: A restore is never judged without evidence, and never judged independent. Without a report there
  is an error. A report always holds the proof of a full replay of the restored ledger, is made only for the
  original proof whose digest the provenance names and for two different authority domains, and leaves
  operational independence to external review; it passes exactly when there is no error, which is exactly
  when the replayed proof equals the original one in every field.\<close>

theorem restore_verdict:
  "case restoreVerify d h ro original p of
     (None, err) \<Rightarrow> err \<noteq> None
   | (Some report, err) \<Rightarrow>
       (\<exists>r m. ro = Some r \<and> replay d h r = Inr m \<and> rpRestoredProof report = proofOf m \<and> rpStoragePath report = rdGitDir r) \<and>
       rpOriginalProof report = original \<and> recoveryProofSHA256 (dpJcs d) original = Inr (pvOriginalProofSHA256 p) \<and>
       rpPrimaryDomainID report \<noteq> rpSecondaryDomainID report \<and>
       rpOperationalIndependence report = requiresExternalReview \<and>
       (rpCoreEquivalencePassed report \<longleftrightarrow> err = None) \<and> (err = None \<longleftrightarrow> original = rpRestoredProof report)"
proof -
  obtain rep err where v: "restoreVerify d h ro original p = (rep, err)" by fastforce
  show ?thesis
  proof (cases rep)
    case None
    then show ?thesis using v restoreVerify_error by fastforce
  next
    case (Some report)
    obtain r restored where o: "ro = Some r" "provenanceValidate (dpJcs d) p = Inr ()"
      "recoveryProofSHA256 (dpJcs d) original = Inr (pvOriginalProofSHA256 p)" "proveRecovery d h r = Inr restored"
      "rpOriginalProof report = original" "rpRestoredProof report = restored"
      "rpOperationalIndependence report = requiresExternalReview"
      "rpPrimaryDomainID report = pvPrimaryDomainID p" "rpSecondaryDomainID report = pvSecondaryDomainID p"
      "rpStoragePath report = rdGitDir r"
      "rpCoreEquivalencePassed report \<longleftrightarrow> original = restored" "err = None \<longleftrightarrow> original = restored"
      by (rule restoreVerify_parts [OF v [unfolded Some]]) blast
    from o(4) obtain m where "replay d h r = Inr m" "restored = proofOf m" by (auto simp: proveRecovery_def andThen_Inr_iff)
    with o provenanceValidate_domains [OF o(2)] show ?thesis unfolding v Some by simp
  qed
qed

section \<open>Members that differ by case only\<close>

lemma fieldValues_append: "fieldValues names (a @ b) f = fieldValues names a f @ fieldValues names b f"
  by (simp add: fieldValues_def)

lemma variant_value: "fieldValues recoveryFields [(''LEDGER_COMMIT'', v)] f = (if f = ''ledger_commit'' then [v] else [])"
proof -
  have "fieldMatch recoveryFields ''LEDGER_COMMIT'' = Some ''ledger_commit''" by code_simp
  then show ?thesis by (simp add: fieldValues_def)
qed

lemma variant_dec:
  assumes "recoveryProofValidate p = Inr ()" "marshallable p" "plainObject (recoveryMembers p @ [(''LEDGER_COMMIT'', JStr x)])"
  shows "decRecoveryProof (render (JObj (recoveryMembers p @ [(''LEDGER_COMMIT'', JStr x)]))) = Inr (p\<lparr>rvLedgerCommit := x\<rparr>)"
proof -
  note c = recoveryValid_counts [OF assms(1)]
  have f: "fieldMatch recoveryFields ''LEDGER_COMMIT'' \<noteq> None" by code_simp
  have k: "knownFields recoveryFields (recoveryMembers p)"
    by (rule knownFields_names) (simp add: recoveryMembers_names)
  then have k: "knownFields recoveryFields (recoveryMembers p @ [(''LEDGER_COMMIT'', JStr x)])"
    using f by (simp add: knownFields_def)
  have s: "decString [JStr y] = Inr y" "decString [JStr y, JStr x] = Inr x" for y by (simp_all add: decString_def)
  have n: "decInt64 [JNum (intDec (rvHistoryCommitCount p))] = Inr (rvHistoryCommitCount p)"
    "decInt64 [JNum (intDec (rvEventCount p))] = Inr (rvEventCount p)"
    "decInt64 [JNum (intDec (rvReducerBindingCount p))] = Inr (rvReducerBindingCount p)"
    "decInt64 [JNum (intDec (rvGovernedRecordCount p))] = Inr (rvGovernedRecordCount p)"
    using c assms(2) by (simp_all add: decInt64_natDec marshallable_def)
  show ?thesis
    unfolding decRecoveryProof_def recoveryBody_def plainObject_members(2) [OF assms(3)] andThen_simps(2) Let_def
      fieldValues_append recoveryMembers_values variant_value
    using k by (simp add: s n)
qed

text \<open>C40: The decoder looks field names up without regard to case: a document with every required member may
  have a further one, \<open>LEDGER_COMMIT\<close>, which counts neither as a duplicate nor as unknown, and whose value
  replaces the required one in the proof that is returned.\<close>

theorem case_variant_overrides:
  assumes "recoveryProofValidate p = Inr ()" "marshallable p" "utf8Valid x" "x \<noteq> []"
  shows "recoveryProofDecode (render (JObj (recoveryMembers p @ [(''LEDGER_COMMIT'', JStr x)]))) = Inr (p\<lparr>rvLedgerCommit := x\<rparr>)"
proof -
  let ?ms = "recoveryMembers p @ [(''LEDGER_COMMIT'', JStr x)]"
  note c = recoveryValid_counts [OF assms(1)]
  have new: "''LEDGER_COMMIT'' \<notin> set recoveryFields" "utf8Valid ''LEDGER_COMMIT''" by code_simp+
  then have "distinct (map fst ?ms)" using recoveryFields_text by (simp add: recoveryMembers_names)
  then have plain: "plainObject ?ms"
    using recoveryMembers_plain [OF assms(1,2)] assms(3) new(2) unfolding plainObject_def by simp
  have m: "trimSpace (render v) \<noteq> ''null''" if "(n, v) \<in> set (recoveryMembers p)" for n v
    using that trim_quote trim_count c by (auto simp: recoveryMembers_def recoveryJson_def)
  have r: "\<forall>n\<in>set recoveryFields. \<exists>v. (n, v) \<in> set ?ms \<and> trimSpace (render v) \<noteq> ''null''"
  proof
    fix n assume "n \<in> set recoveryFields"
    then have "n \<in> fst ` set (recoveryMembers p)" using recoveryMembers_names [of p] by (metis image_set)
    then obtain v where "(n, v) \<in> set (recoveryMembers p)" by auto
    with m show "\<exists>v. (n, v) \<in> set ?ms \<and> trimSpace (render v) \<noteq> ''null''" by auto
  qed
  have v: "recoveryProofValidate (p\<lparr>rvLedgerCommit := x\<rparr>) = Inr ()"
    using assms(1,4) by (simp add: recoveryProofValidate_def split: if_split_asm)
  show ?thesis
    unfolding recoveryProofDecode_def plainObject_validate [OF plain] wrap_simps andThen_simps(2)
      plainObject_required [OF plain r] plainObject_members(3) [OF plain] variant_dec [OF assms(1,2) plain] v ..
qed

theorem case_variant_overrides_witness:
  "recoveryProofDecode (render (JObj (recoveryMembers demoProof @ [(''LEDGER_COMMIT'', JStr ''other'')]))) =
     Inr (demoProof\<lparr>rvLedgerCommit := ''other''\<rparr>)"
proof (rule case_variant_overrides)
  show "recoveryProofValidate demoProof = Inr ()" by code_simp
  show "marshallable demoProof" by code_simp
  show "utf8Valid ''other''" by code_simp
qed simp

end
