(* ===== verification/Load_Proof.thy ===== *)
theory Load_Proof
  imports Restore_Proof
begin

unbundle bit_operations_syntax

text \<open>
  internal/loadproof (a run of concurrent workers under a declared resource envelope) and
  internal/ledger/load_resource.go (the run whose every operation replays the ledger). Numbers have the
  width of the code: \<open>uint64\<close> and \<open>int64\<close> are 64-bit words, read with \<open>uint\<close> and \<open>sint\<close>. What the
  goroutines do is a sequence of events: a sample of the monitor, a worker that sees its context cancelled, or
  an iteration of a worker together with the world its workload sees. One iteration is one event, since the
  counters it changes under the lock are only read after every worker returned.
\<close>

section \<open>Envelopes\<close>

record loadEnvelope =
  leName :: string
  leWorkers :: "64 word"
  leIterations :: "64 word"
  lePeakHeap :: "64 word"
  leSettledHeap :: "64 word"
  lePeakGoroutines :: "64 word"
  leSettledGoroutines :: "64 word"
  lePeakHandles :: "64 word"
  leSettledHandles :: "64 word"
  leRequireHandles :: bool

definition envelopeCode :: string where "envelopeCode = ''LOAD_RESOURCE_ENVELOPE_INVALID''"

definition envelopeErr :: "string \<Rightarrow> goerr" where
  "envelopeErr msg = Errorf (envelopeCode @ '': '' @ msg) []"

definition loadEnvelopeValidate :: "loadEnvelope \<Rightarrow> unit res" where
  "loadEnvelopeValidate e =
    (if leName e = [] then Inl (envelopeErr ''name is required'')
     else if sint (leWorkers e) \<le> 0 \<or> sint (leWorkers e) > 1024 then Inl (envelopeErr ''concurrent_workers must be 1..1024'')
     else if sint (leIterations e) \<le> 0 \<or> sint (leIterations e) > 1000000
     then Inl (envelopeErr ''iterations_per_worker must be 1..1000000'')
     else andThen (checkAll (\<lambda>v. if sint v < 0 then Inl (envelopeErr ''must be non-negative'') else Inr ())
       [lePeakHeap e, leSettledHeap e, lePeakGoroutines e, leSettledGoroutines e, lePeakHandles e, leSettledHandles e]) (\<lambda>_.
     if sint (leSettledHeap e) > sint (lePeakHeap e) then Inl (envelopeErr ''settled heap ceiling exceeds peak ceiling'')
     else if sint (leSettledGoroutines e) > sint (lePeakGoroutines e)
     then Inl (envelopeErr ''settled goroutine ceiling exceeds peak ceiling'')
     else if sint (leSettledHandles e) > sint (lePeakHandles e)
     then Inl (envelopeErr ''settled open-handle ceiling exceeds peak ceiling'')
     else Inr ()))"

definition envelopeFields :: "string list" where
  "envelopeFields = [''name'', ''concurrent_workers'', ''iterations_per_worker'', ''max_peak_heap_growth_bytes'',
     ''max_settled_heap_growth_bytes'', ''max_peak_goroutine_growth'', ''max_settled_goroutine_growth'',
     ''max_peak_open_handle_growth'', ''max_settled_open_handle_growth'', ''require_open_handle_metric'']"

definition decWord :: "json list \<Rightarrow> 64 word res" where
  "decWord vs = andThen (decInt64 vs) (\<lambda>i. Inr (word_of_int i))"

definition decEnvelope :: "string \<Rightarrow> loadEnvelope res" where
  "decEnvelope raw =
    andThen (topMembersDec raw) (\<lambda>ms.
    andThen (require (knownFields envelopeFields ms) errUnmarshal) (\<lambda>_.
    let f = fieldValues envelopeFields ms in
    andThen (decString (f ''name'')) (\<lambda>a.
    andThen (decWord (f ''concurrent_workers'')) (\<lambda>b.
    andThen (decWord (f ''iterations_per_worker'')) (\<lambda>c.
    andThen (decWord (f ''max_peak_heap_growth_bytes'')) (\<lambda>d.
    andThen (decWord (f ''max_settled_heap_growth_bytes'')) (\<lambda>e.
    andThen (decWord (f ''max_peak_goroutine_growth'')) (\<lambda>g.
    andThen (decWord (f ''max_settled_goroutine_growth'')) (\<lambda>h.
    andThen (decWord (f ''max_peak_open_handle_growth'')) (\<lambda>i.
    andThen (decWord (f ''max_settled_open_handle_growth'')) (\<lambda>j.
    andThen (decBool (f ''require_open_handle_metric'')) (\<lambda>k.
      Inr \<lparr>leName = a, leWorkers = b, leIterations = c, lePeakHeap = d, leSettledHeap = e, lePeakGoroutines = g,
           leSettledGoroutines = h, lePeakHandles = i, leSettledHandles = j, leRequireHandles = k\<rparr>))))))))))))"

definition decodeEnvelope :: "string \<Rightarrow> loadEnvelope res" where
  "decodeEnvelope raw =
    andThen (wrapw envelopeCode (strictValidate raw)) (\<lambda>_.
    andThen (wrapw (envelopeCode @ '': decode fields'') (rawFieldMap raw)) (\<lambda>present.
    andThen (checkAll (requireMember envelopeCode present) envelopeFields) (\<lambda>_.
    andThen (wrapw (envelopeCode @ '': decode'') (decEnvelope raw)) (\<lambda>env.
    andThen (endOfInput envelopeCode raw) (\<lambda>_.
    andThen (loadEnvelopeValidate env) (\<lambda>_. Inr env))))))"

definition referenceEnvelope :: loadEnvelope where
  "referenceEnvelope = \<lparr>leName = ''threadkeeper-core-ci-reference-v1'', leWorkers = 8, leIterations = 4,
     lePeakHeap = push_bit 20 128, leSettledHeap = push_bit 20 64, lePeakGoroutines = 64, leSettledGoroutines = 8,
     lePeakHandles = 128, leSettledHandles = 16, leRequireHandles = True\<rparr>"

section \<open>Samples and growth\<close>

record usage =
  usHeap :: "64 word"
  usGoroutines :: "64 word"
  usHandles :: "64 word"
  usHandlesKnown :: bool

text \<open>The handle counters of the platforms: the length of a directory listing, nothing, or the count that the
  system call stored when it did not return 0. \<open>snapshot\<close> reads the other counters of the process.\<close>

definition openHandlesLinux :: "string list res \<Rightarrow> 64 word \<times> bool" where
  "openHandlesLinux entries = (case entries of Inl _ \<Rightarrow> (0, False) | Inr es \<Rightarrow> (word_of_nat (length es), True))"

definition openHandlesOther :: "64 word \<times> bool" where
  "openHandlesOther = (0, False)"

definition openHandlesWindows :: "32 word \<Rightarrow> 32 word \<Rightarrow> 64 word \<times> bool" where
  "openHandlesWindows ok count = (if ok = 0 then (0, False) else (ucast count, True))"

definition takeSnapshot :: "64 word \<Rightarrow> 64 word \<Rightarrow> 64 word \<times> bool \<Rightarrow> usage" where
  "takeSnapshot heapAlloc goroutines counter =
    \<lparr>usHeap = heapAlloc, usGoroutines = goroutines, usHandles = fst counter, usHandlesKnown = snd counter\<rparr>"

record growth =
  gwHeap :: "64 word"
  gwGoroutines :: "64 word"
  gwHandles :: "64 word"

definition maxInt64 :: "64 word" where "maxInt64 = 0x7FFFFFFFFFFFFFFF"
definition minInt64 :: "64 word" where "minInt64 = 0x8000000000000000"

definition signedDelta :: "64 word \<Rightarrow> 64 word \<Rightarrow> 64 word" where
  "signedDelta before after =
    (if after \<ge> before then let delta = after - before in if delta > maxInt64 then maxInt64 else delta
     else let delta = before - after in if delta > maxInt64 then minInt64 else - delta)"

definition growthOf :: "usage \<Rightarrow> usage \<Rightarrow> growth" where
  "growthOf before after = \<lparr>gwHeap = signedDelta (usHeap before) (usHeap after),
     gwGoroutines = usGoroutines after - usGoroutines before, gwHandles = signedDelta (usHandles before) (usHandles after)\<rparr>"

definition positive :: "64 word \<Rightarrow> 64 word" where
  "positive v = (if sint v < 0 then 0 else v)"

record loadEvidence =
  lvEnvelope :: loadEnvelope
  lvSampleIntervalMillis :: int
  lvSamples :: nat
  lvUnavailable :: nat
  lvBefore :: usage
  lvPeak :: usage
  lvAfter :: usage
  lvPeakGrowth :: growth
  lvSettledGrowth :: growth
  lvCompleted :: nat
  lvPassed :: bool

definition errEnvelopeExceeded :: goerr where "errEnvelopeExceeded = ErrNew ''LOAD_RESOURCE_ENVELOPE_EXCEEDED''"

definition evaluateLoad :: "loadEvidence \<Rightarrow> unit res" where
  "evaluateLoad e =
    (let env = lvEnvelope e in
     if leRequireHandles env \<and> lvUnavailable e \<noteq> 0
     then Inl (Errorf ''LOAD_RESOURCE_METRIC_UNAVAILABLE: required open-handle metric unavailable'' [])
     else if leRequireHandles env \<and> (\<not> usHandlesKnown (lvBefore e) \<or> \<not> usHandlesKnown (lvPeak e) \<or> \<not> usHandlesKnown (lvAfter e))
     then Inl (Errorf ''LOAD_RESOURCE_METRIC_UNAVAILABLE: open handle metric is incomplete'' [])
     else checkAll (\<lambda>(got, limit). if sint got > sint limit then Inl (Errorf ''growth exceeds limit'' [errEnvelopeExceeded]) else Inr ())
       ([(positive (gwHeap (lvPeakGrowth e)), lePeakHeap env), (positive (gwHeap (lvSettledGrowth e)), leSettledHeap env),
         (positive (gwGoroutines (lvPeakGrowth e)), lePeakGoroutines env),
         (positive (gwGoroutines (lvSettledGrowth e)), leSettledGoroutines env)] @
        (if usHandlesKnown (lvBefore e) \<and> usHandlesKnown (lvPeak e) \<and> usHandlesKnown (lvAfter e)
         then [(positive (gwHandles (lvPeakGrowth e)), lePeakHandles env),
               (positive (gwHandles (lvSettledGrowth e)), leSettledHandles env)] else [])))"

section \<open>A run\<close>

text \<open>
  \<open>lsLeft\<close> has the iterations each worker still has to do, 0 when its goroutine returned; \<open>firstErr\<close> and
  \<open>completed\<close> are guarded by one lock, \<open>peak\<close> and the sample counters by another.
\<close>

record loadState =
  lsPeak :: usage
  lsSamples :: nat
  lsUnavailable :: nat
  lsCompleted :: nat
  lsFirstErr :: "goerr option"
  lsLeft :: "nat list"

datatype 'x loadEvent = Tick usage | Cancelled nat goerr | Iterate nat 'x

definition loadStart :: "loadEnvelope \<Rightarrow> usage \<Rightarrow> loadState" where
  "loadStart env before =
    \<lparr>lsPeak = before, lsSamples = 1, lsUnavailable = (if usHandlesKnown before then 0 else 1), lsCompleted = 0,
     lsFirstErr = None, lsLeft = replicate (nat (sint (leWorkers env))) (nat (sint (leIterations env)))\<rparr>"

definition peakOf :: "usage \<Rightarrow> usage \<Rightarrow> usage" where
  "peakOf peak s =
    (let p1 = (if usHeap s > usHeap peak then peak\<lparr>usHeap := usHeap s\<rparr> else peak);
         p2 = (if sint (usGoroutines s) > sint (usGoroutines p1) then p1\<lparr>usGoroutines := usGoroutines s\<rparr> else p1)
     in if usHandlesKnown s
        then (if \<not> usHandlesKnown p2 \<or> usHandles s > usHandles p2 then p2\<lparr>usHandles := usHandles s\<rparr> else p2)\<lparr>usHandlesKnown := True\<rparr>
        else p2)"

definition updatePeak :: "loadState \<Rightarrow> usage \<Rightarrow> loadState" where
  "updatePeak st s = st\<lparr>lsSamples := Suc (lsSamples st),
     lsUnavailable := (if usHandlesKnown s then lsUnavailable st else Suc (lsUnavailable st)), lsPeak := peakOf (lsPeak st) s\<rparr>"

definition workerFails :: "loadState \<Rightarrow> nat \<Rightarrow> goerr \<Rightarrow> loadState" where
  "workerFails st w e = st\<lparr>lsFirstErr := (case lsFirstErr st of None \<Rightarrow> Some e | Some e0 \<Rightarrow> Some e0), lsLeft := (lsLeft st)[w := 0]\<rparr>"

text \<open>An event that cannot happen, as of a worker that already returned, gives \<open>None\<close>.\<close>

definition loadStep ::
  "loadEnvelope \<Rightarrow> ('x \<Rightarrow> nat \<Rightarrow> nat \<Rightarrow> unit res) \<Rightarrow> loadState \<Rightarrow> 'x loadEvent \<Rightarrow> loadState option" where
  "loadStep env workload st ev =
    (case ev of
       Tick s \<Rightarrow> Some (updatePeak st s)
     | Cancelled w e \<Rightarrow> if w < length (lsLeft st) \<and> lsLeft st ! w \<noteq> 0 then Some (workerFails st w e) else None
     | Iterate w x \<Rightarrow>
         if w < length (lsLeft st) \<and> lsLeft st ! w \<noteq> 0
         then (case workload x w (nat (sint (leIterations env)) - lsLeft st ! w) of
                 Inl e \<Rightarrow> Some (workerFails st w e)
               | Inr _ \<Rightarrow> Some (st\<lparr>lsCompleted := Suc (lsCompleted st), lsLeft := (lsLeft st)[w := lsLeft st ! w - 1]\<rparr>))
         else None)"

fun loadSteps ::
  "loadEnvelope \<Rightarrow> ('x \<Rightarrow> nat \<Rightarrow> nat \<Rightarrow> unit res) \<Rightarrow> loadState \<Rightarrow> 'x loadEvent list \<Rightarrow> loadState option" where
  "loadSteps env workload st [] = Some st"
| "loadSteps env workload st (ev # evs) = bindO (loadStep env workload st ev) (\<lambda>st'. loadSteps env workload st' evs)"

definition noUsage :: usage where "noUsage = \<lparr>usHeap = 0, usGoroutines = 0, usHandles = 0, usHandlesKnown = False\<rparr>"
definition noGrowth :: growth where "noGrowth = \<lparr>gwHeap = 0, gwGoroutines = 0, gwHandles = 0\<rparr>"

definition noEnvelope :: loadEnvelope where
  "noEnvelope = \<lparr>leName = [], leWorkers = 0, leIterations = 0, lePeakHeap = 0, leSettledHeap = 0, lePeakGoroutines = 0,
     leSettledGoroutines = 0, lePeakHandles = 0, leSettledHandles = 0, leRequireHandles = False\<rparr>"

definition noEvidence :: loadEvidence where
  "noEvidence = \<lparr>lvEnvelope = noEnvelope, lvSampleIntervalMillis = 0, lvSamples = 0, lvUnavailable = 0, lvBefore = noUsage,
     lvPeak = noUsage, lvAfter = noUsage, lvPeakGrowth = noGrowth, lvSettledGrowth = noGrowth, lvCompleted = 0, lvPassed = False\<rparr>"

definition evidenceOf :: "loadEnvelope \<Rightarrow> usage \<Rightarrow> usage \<Rightarrow> loadState \<Rightarrow> loadEvidence" where
  "evidenceOf env before after st =
    \<lparr>lvEnvelope = env, lvSampleIntervalMillis = 5, lvSamples = lsSamples st, lvUnavailable = lsUnavailable st,
     lvBefore = before, lvPeak = lsPeak st, lvAfter = after, lvPeakGrowth = growthOf before (lsPeak st),
     lvSettledGrowth = growthOf before after, lvCompleted = lsCompleted st, lvPassed = False\<rparr>"

text \<open>After the workers returned the monitor takes its last sample, and the settled one counts as a sample
  too. A sequence of events after which a worker is still running is no run.\<close>

definition loadFinish :: "loadEnvelope \<Rightarrow> usage \<Rightarrow> usage \<Rightarrow> loadState \<Rightarrow> loadEvidence \<times> goerr option" where
  "loadFinish env before after st =
    (let evidence = evidenceOf env before after st in
     case lsFirstErr st of
       Some e \<Rightarrow> (evidence, Some (Errorf ''LOAD_RESOURCE_WORKLOAD_FAILED'' [e]))
     | None \<Rightarrow>
       if int (lsCompleted st) \<noteq> sint (leWorkers env * leIterations env)
       then (evidence, Some (Errorf ''LOAD_RESOURCE_WORKLOAD_FAILED: completed operations'' []))
       else case evaluateLoad evidence of
           Inl e \<Rightarrow> (evidence, Some e)
         | Inr _ \<Rightarrow> (evidence\<lparr>lvPassed := True\<rparr>, None))"

definition loadRun ::
  "loadEnvelope \<Rightarrow> ('x \<Rightarrow> nat \<Rightarrow> nat \<Rightarrow> unit res) option \<Rightarrow> usage \<Rightarrow> 'x loadEvent list \<Rightarrow> usage \<Rightarrow> usage
     \<Rightarrow> (loadEvidence \<times> goerr option) option" where
  "loadRun env workload before events lastSample after =
    (case loadEnvelopeValidate env of Inl e \<Rightarrow> Some (noEvidence, Some e) | Inr _ \<Rightarrow>
     case workload of None \<Rightarrow> Some (noEvidence, Some (envelopeErr ''workload is required'')) | Some work \<Rightarrow>
     if leRequireHandles env \<and> \<not> usHandlesKnown before
     then Some (noEvidence\<lparr>lvEnvelope := env, lvSampleIntervalMillis := 5, lvSamples := 1, lvUnavailable := 1,
         lvBefore := before, lvPeak := before, lvAfter := before\<rparr>,
         Some (Errorf ''LOAD_RESOURCE_METRIC_UNAVAILABLE: open handle metric is required'' []))
     else case loadSteps env work (loadStart env before) events of
         None \<Rightarrow> None
       | Some st \<Rightarrow> if list_all (\<lambda>n. n = 0) (lsLeft st)
           then Some (loadFinish env before after (updatePeak (updatePeak st lastSample) after)) else None)"

section \<open>Replay under load\<close>

text \<open>An operation sees the repository as it is at its time, \<open>host\<close>.\<close>

definition replayWorkload :: "'sch deps \<Rightarrow> reader \<Rightarrow> recoveryProof \<Rightarrow> host \<Rightarrow> nat \<Rightarrow> nat \<Rightarrow> unit res" where
  "replayWorkload d r baseline h w i =
    andThen (proveRecovery d h r) (\<lambda>proof. wrapw ''LOAD_REPLAY_DIVERGED'' (compareRecoveryProofs baseline proof))"

record readLoadEvidence =
  rlRecovery :: recoveryProof
  rlResources :: loadEvidence

definition proveReadLoad ::
  "'sch deps \<Rightarrow> host \<Rightarrow> reader \<Rightarrow> loadEnvelope \<Rightarrow> usage \<Rightarrow> host loadEvent list \<Rightarrow> usage \<Rightarrow> usage
     \<Rightarrow> (readLoadEvidence option \<times> goerr option) option" where
  "proveReadLoad d h r env before events lastSample after =
    (case wrapw ''LOAD_REPLAY_BASELINE_FAILED'' (proveRecovery d h r) of
       Inl e \<Rightarrow> Some (None, Some e)
     | Inr baseline \<Rightarrow>
       map_option (\<lambda>(resources, err). (Some \<lparr>rlRecovery = baseline, rlResources = resources\<rparr>, err))
         (loadRun env (Some (replayWorkload d r baseline)) before events lastSample after))"

section \<open>Saturating differences\<close>

lemma uint_less: "uint (x :: 64 word) < 2 ^ 64" using uint_lt2p [of x] by simp

lemma sint_below: "uint (x :: 64 word) < 2 ^ 63 \<Longrightarrow> sint x = uint x"
  by (simp add: sint_uint signed_take_bit_eq_take_bit_minus take_bit_eq_mod bit_iff_odd)

lemma maxInt64_values: "uint maxInt64 = 2 ^ 63 - 1" "sint maxInt64 = 2 ^ 63 - 1" "sint minInt64 = - (2 ^ 63)"
  by (simp_all add: maxInt64_def minInt64_def sint_uint signed_take_bit_eq_take_bit_minus)

lemma uint_diff: "(a :: 64 word) \<le> b \<Longrightarrow> uint (b - a) = uint b - uint a"
  by (simp add: uint_minus_simple_alt word_le_def uint_sub_lem)

lemma sint_of_small: "- (2 ^ 63) \<le> k \<Longrightarrow> k < 2 ^ 63 \<Longrightarrow> sint (word_of_int k :: 64 word) = k"
  by (simp add: sint_sbintrunc' signed_take_bit_int_eq_self)

lemma signedDelta_exact: "sint (signedDelta b a) = max (- (2 ^ 63)) (min (2 ^ 63 - 1) (uint a - uint b))"
proof (cases "b \<le> a")
  case True
  note d = uint_diff [OF True]
  have n: "0 \<le> uint a - uint b" using True by (simp add: word_le_def)
  show ?thesis
  proof (cases "a - b > maxInt64")
    case False
    then have "uint (a - b) < 2 ^ 63" using maxInt64_values(1) by (simp add: word_less_def)
    then show ?thesis using True False sint_below [of "a - b"] d n by (simp add: signedDelta_def)
  next
    case big: True
    then have "2 ^ 63 \<le> uint (a - b)" using maxInt64_values(1) by (simp add: word_less_def)
    then show ?thesis using True big d maxInt64_values(2) by (simp add: signedDelta_def)
  qed
next
  case False
  then have le: "a \<le> b" and lt: "uint a < uint b" by (simp_all add: word_le_def)
  note d = uint_diff [OF le]
  show ?thesis
  proof (cases "b - a > maxInt64")
    case big: True
    then have "2 ^ 63 \<le> uint (b - a)" using maxInt64_values(1) by (simp add: word_less_def)
    then show ?thesis using False big d maxInt64_values(3) by (simp add: signedDelta_def)
  next
    case small: False
    then have u: "uint (b - a) < 2 ^ 63" using maxInt64_values(1) by (simp add: word_less_def)
    have "- (b - a) = word_of_int (- uint (b - a))" by (simp only: wi_hom_neg [symmetric] word_of_int_uint)
    then have "sint (- (b - a)) = - uint (b - a)" using sint_of_small [of "- uint (b - a)"] u uint_ge_0 [of "b - a"] by simp
    then show ?thesis using False small d u lt by (simp add: signedDelta_def Let_def)
  qed
qed

lemma positive_le: "sint (positive v) \<le> sint (l :: 64 word) \<longleftrightarrow> sint v \<le> sint l \<and> 0 \<le> sint l \<or> sint v < 0 \<and> 0 \<le> sint l"
  by (auto simp: positive_def)

text \<open>A growth within a ceiling: the true difference is within it, unless the ceiling is the largest number.\<close>

lemma delta_within:
  assumes "sint (positive (signedDelta b a)) \<le> sint (limit :: 64 word)"
  shows "uint a - uint b \<le> sint limit \<or> sint limit = 2 ^ 63 - 1"
proof -
  have l: "sint limit < 2 ^ 63" using sint_lt [of limit] by simp
  have "max (- (2 ^ 63)) (min (2 ^ 63 - 1) (uint a - uint b)) \<le> sint limit"
    using assms unfolding positive_le signedDelta_exact [symmetric] by auto
  with l show ?thesis by linarith
qed

section \<open>The peak\<close>

definition above :: "usage \<Rightarrow> usage \<Rightarrow> bool" where
  "above p s \<longleftrightarrow> usHeap s \<le> usHeap p \<and> sint (usGoroutines s) \<le> sint (usGoroutines p) \<and>
     (usHandlesKnown s \<longrightarrow> usHandlesKnown p \<and> usHandles s \<le> usHandles p)"

lemma above_refl [simp]: "above s s" by (simp add: above_def)

lemma above_trans: "above p s \<Longrightarrow> above s q \<Longrightarrow> above p q" by (auto simp: above_def)

lemma peakOf_above: "above (peakOf p s) p \<and> above (peakOf p s) s"
  by (auto simp: peakOf_def above_def Let_def)

section \<open>What a run leaves\<close>

definition workersOf :: "loadEnvelope \<Rightarrow> nat" where "workersOf env = nat (sint (leWorkers env))"
definition iterationsOf :: "loadEnvelope \<Rightarrow> nat" where "iterationsOf env = nat (sint (leIterations env))"

definition iterationsBy :: "nat \<Rightarrow> 'x loadEvent list \<Rightarrow> nat" where
  "iterationsBy w evs = length (filter (\<lambda>ev. case ev of Iterate v _ \<Rightarrow> v = w | _ \<Rightarrow> False) evs)"

lemma iterationsBy_snoc [simp]:
  "iterationsBy w [] = 0"
  "iterationsBy w (evs @ [Tick s]) = iterationsBy w evs"
  "iterationsBy w (evs @ [Cancelled v e]) = iterationsBy w evs"
  "iterationsBy w (evs @ [Iterate v x]) = (if v = w then Suc (iterationsBy w evs) else iterationsBy w evs)"
  by (simp_all add: iterationsBy_def)

text \<open>What the samples so far say of the state, and what the workers did as long as none of them failed.\<close>

definition sampled :: "usage \<Rightarrow> 'x loadEvent list \<Rightarrow> loadState \<Rightarrow> bool" where
  "sampled before evs st \<longleftrightarrow> above (lsPeak st) before \<and> (\<forall>s. Tick s \<in> set evs \<longrightarrow> above (lsPeak st) s) \<and>
     (lsUnavailable st = 0 \<longrightarrow> usHandlesKnown before \<and> (\<forall>s. Tick s \<in> set evs \<longrightarrow> usHandlesKnown s))"

definition worked :: "loadEnvelope \<Rightarrow> ('x \<Rightarrow> nat \<Rightarrow> nat \<Rightarrow> unit res) \<Rightarrow> 'x loadEvent list \<Rightarrow> loadState \<Rightarrow> bool" where
  "worked env work evs st \<longleftrightarrow> length (lsLeft st) = workersOf env \<and>
     (lsFirstErr st = None \<longrightarrow>
        (\<forall>w < workersOf env. lsLeft st ! w + iterationsBy w evs = iterationsOf env) \<and>
        lsCompleted st = (\<Sum>w < workersOf env. iterationsBy w evs) \<and>
        (\<forall>w x. Iterate w x \<in> set evs \<longrightarrow> (\<exists>i < iterationsOf env. work x w i = Inr ())))"

lemma sampled_start: "sampled before [] (loadStart env before)"
  by (simp add: sampled_def loadStart_def)

lemma worked_start: "worked env work [] (loadStart env before)"
  by (simp add: worked_def loadStart_def workersOf_def iterationsOf_def)

lemma sampled_update: "sampled before evs st \<Longrightarrow> sampled before (evs @ [Tick s]) (updatePeak st s)"
  using peakOf_above [of "lsPeak st" s] above_trans by (fastforce simp: sampled_def updatePeak_def split: if_split_asm)

lemma worked_update: "worked env work evs st \<Longrightarrow> worked env work (evs @ [Tick s]) (updatePeak st s)"
  by (simp add: worked_def updatePeak_def)

lemma workerFails_fields [simp]:
  "lsPeak (workerFails st w e) = lsPeak st" "lsUnavailable (workerFails st w e) = lsUnavailable st"
  "lsFirstErr (workerFails st w e) \<noteq> None" "length (lsLeft (workerFails st w e)) = length (lsLeft st)"
  by (simp_all add: workerFails_def split: option.split)

lemma sampled_other: "sampled before evs st \<Longrightarrow> \<forall>s. ev \<noteq> Tick s \<Longrightarrow> lsPeak st' = lsPeak st \<Longrightarrow> lsUnavailable st' = lsUnavailable st \<Longrightarrow>
    sampled before (evs @ [ev]) st'"
  by (auto simp: sampled_def)

lemma sum_bump:
  assumes "w < (n :: nat)"
  shows "(\<Sum>v < n. if w = v then Suc (f v) else f v) = Suc (\<Sum>v < n. f v)"
  using assms sum.remove [of "{..<n}" w f] sum.remove [of "{..<n}" w "\<lambda>v. if w = v then Suc (f v) else f v"] by simp

lemma worked_iterate:
  assumes "worked env work evs st" "w < length (lsLeft st)" "lsLeft st ! w \<noteq> 0"
    and "work x w (iterationsOf env - lsLeft st ! w) = Inr ()"
  shows "worked env work (evs @ [Iterate w x]) (st\<lparr>lsCompleted := Suc (lsCompleted st), lsLeft := (lsLeft st)[w := lsLeft st ! w - 1]\<rparr>)"
proof (cases "lsFirstErr st")
  case None
  have w: "w < workersOf env" using assms(1,2) by (simp add: worked_def)
  have l: "lsLeft st ! v + iterationsBy v evs = iterationsOf env" if "v < workersOf env" for v
    using assms(1) None that by (simp add: worked_def)
  have i: "iterationsOf env - lsLeft st ! w < iterationsOf env" using l [OF w] assms(3) by simp
  have "(lsLeft st)[w := lsLeft st ! w - 1] ! v + iterationsBy v (evs @ [Iterate w x]) = iterationsOf env" if "v < workersOf env" for v
    using l [OF that] assms(2,3) by (cases "v = w") simp_all
  moreover have "Suc (lsCompleted st) = (\<Sum>v < workersOf env. iterationsBy v (evs @ [Iterate w x]))"
    using assms(1) None sum_bump [OF w] by (simp add: worked_def)
  ultimately show ?thesis using assms(1,4) None i by (auto simp: worked_def)
qed (use assms(1) in \<open>simp add: worked_def\<close>)

lemma loadStep_inv:
  assumes "loadStep env work st ev = Some st'" "sampled before evs st" "worked env work evs st"
  shows "sampled before (evs @ [ev]) st' \<and> worked env work (evs @ [ev]) st'"
proof (cases ev)
  case (Tick s)
  then show ?thesis using assms sampled_update worked_update by (auto simp: loadStep_def)
next
  case (Cancelled w e)
  then have "st' = workerFails st w e" using assms(1) by (simp add: loadStep_def split: if_split_asm)
  then show ?thesis using assms(2,3) Cancelled by (auto intro!: sampled_other simp: worked_def)
next
  case (Iterate w x)
  then have en: "w < length (lsLeft st)" "lsLeft st ! w \<noteq> 0" using assms(1) by (simp_all add: loadStep_def split: if_split_asm)
  show ?thesis
  proof (cases "work x w (iterationsOf env - lsLeft st ! w)")
    case (Inl e)
    then have "st' = workerFails st w e" using assms(1) en Iterate by (simp add: loadStep_def iterationsOf_def)
    then show ?thesis using assms(2,3) Iterate by (auto intro!: sampled_other simp: worked_def)
  next
    case (Inr u)
    then have "st' = st\<lparr>lsCompleted := Suc (lsCompleted st), lsLeft := (lsLeft st)[w := lsLeft st ! w - 1]\<rparr>"
      using assms(1) en Iterate by (simp add: loadStep_def iterationsOf_def)
    then show ?thesis using worked_iterate [of env work evs st w x] assms(2,3) en Inr Iterate by (auto intro!: sampled_other)
  qed
qed

lemma loadSteps_inv:
  assumes "loadSteps env work st evs = Some st'" "sampled before past st" "worked env work past st"
  shows "sampled before (past @ evs) st' \<and> worked env work (past @ evs) st'"
  using assms
proof (induction evs arbitrary: st past)
  case (Cons ev evs)
  then obtain st1 where s: "loadStep env work st ev = Some st1" "loadSteps env work st1 evs = Some st'"
    by (auto simp: bindO_def split: option.split_asm)
  note i = loadStep_inv [OF s(1) Cons.prems(2,3)]
  show ?case using Cons.IH [OF s(2), of "past @ [ev]"] i by simp
qed simp

text \<open>A number that grew by at most a ceiling; the largest ceiling is none.\<close>

definition grewWithin :: "64 word \<Rightarrow> 64 word \<Rightarrow> 64 word \<Rightarrow> bool" where
  "grewWithin before now limit \<longleftrightarrow> uint now - uint before \<le> sint limit \<or> sint limit = 2 ^ 63 - 1"

lemma grewWithin_below: "grewWithin b p limit \<Longrightarrow> s \<le> p \<Longrightarrow> grewWithin b s limit"
  by (auto simp: grewWithin_def word_le_def)

lemma evaluateLoad_parts:
  assumes "evaluateLoad e = Inr u" "lvPeakGrowth e = growthOf (lvBefore e) (lvPeak e)" "lvSettledGrowth e = growthOf (lvBefore e) (lvAfter e)"
  shows "grewWithin (usHeap (lvBefore e)) (usHeap (lvPeak e)) (lePeakHeap (lvEnvelope e))"
    "grewWithin (usHeap (lvBefore e)) (usHeap (lvAfter e)) (leSettledHeap (lvEnvelope e))"
    "sint (usGoroutines (lvPeak e) - usGoroutines (lvBefore e)) \<le> sint (lePeakGoroutines (lvEnvelope e))"
    "sint (positive (usGoroutines (lvAfter e) - usGoroutines (lvBefore e))) \<le> sint (leSettledGoroutines (lvEnvelope e))"
    "usHandlesKnown (lvBefore e) \<and> usHandlesKnown (lvPeak e) \<and> usHandlesKnown (lvAfter e) \<longrightarrow>
       grewWithin (usHandles (lvBefore e)) (usHandles (lvPeak e)) (lePeakHandles (lvEnvelope e)) \<and>
       grewWithin (usHandles (lvBefore e)) (usHandles (lvAfter e)) (leSettledHandles (lvEnvelope e))"
    "leRequireHandles (lvEnvelope e) \<longrightarrow> lvUnavailable e = 0 \<and> usHandlesKnown (lvBefore e) \<and> usHandlesKnown (lvAfter e)"
proof -
  let ?env = "lvEnvelope e"
  have c: "checkAll (\<lambda>(got, limit). if sint got > sint limit then Inl (Errorf ''growth exceeds limit'' [errEnvelopeExceeded]) else Inr ())
       ([(positive (gwHeap (lvPeakGrowth e)), lePeakHeap ?env), (positive (gwHeap (lvSettledGrowth e)), leSettledHeap ?env),
         (positive (gwGoroutines (lvPeakGrowth e)), lePeakGoroutines ?env),
         (positive (gwGoroutines (lvSettledGrowth e)), leSettledGoroutines ?env)] @
        (if usHandlesKnown (lvBefore e) \<and> usHandlesKnown (lvPeak e) \<and> usHandlesKnown (lvAfter e)
         then [(positive (gwHandles (lvPeakGrowth e)), lePeakHandles ?env),
               (positive (gwHandles (lvSettledGrowth e)), leSettledHandles ?env)] else [])) = Inr u"
    and h: "leRequireHandles ?env \<longrightarrow> lvUnavailable e = 0 \<and> usHandlesKnown (lvBefore e) \<and> usHandlesKnown (lvPeak e) \<and> usHandlesKnown (lvAfter e)"
    using assms(1) unfolding evaluateLoad_def Let_def by (simp_all only: if_Inl_Inr_iff) blast
  have le: "sint got \<le> sint limit" if "(got, limit) \<in> set ([(positive (gwHeap (lvPeakGrowth e)), lePeakHeap ?env), (positive (gwHeap (lvSettledGrowth e)), leSettledHeap ?env),
         (positive (gwGoroutines (lvPeakGrowth e)), lePeakGoroutines ?env),
         (positive (gwGoroutines (lvSettledGrowth e)), leSettledGoroutines ?env)] @
        (if usHandlesKnown (lvBefore e) \<and> usHandlesKnown (lvPeak e) \<and> usHandlesKnown (lvAfter e)
         then [(positive (gwHandles (lvPeakGrowth e)), lePeakHandles ?env),
               (positive (gwHandles (lvSettledGrowth e)), leSettledHandles ?env)] else []))" for got limit
    using c that unfolding checkAll_ok_iff by (force split: if_split_asm)
  show "grewWithin (usHeap (lvBefore e)) (usHeap (lvPeak e)) (lePeakHeap ?env)"
    using le [of "positive (gwHeap (lvPeakGrowth e))"] delta_within by (simp add: assms(2) growthOf_def grewWithin_def)
  show "grewWithin (usHeap (lvBefore e)) (usHeap (lvAfter e)) (leSettledHeap ?env)"
    using le [of "positive (gwHeap (lvSettledGrowth e))"] delta_within by (simp add: assms(3) growthOf_def grewWithin_def)
  have "sint (positive (gwGoroutines (lvPeakGrowth e))) \<le> sint (lePeakGoroutines ?env)" by (rule le) simp
  then show "sint (usGoroutines (lvPeak e) - usGoroutines (lvBefore e)) \<le> sint (lePeakGoroutines ?env)"
    unfolding positive_le by (auto simp: assms(2) growthOf_def)
  have "sint (positive (gwGoroutines (lvSettledGrowth e))) \<le> sint (leSettledGoroutines ?env)" by (rule le) simp
  then show "sint (positive (usGoroutines (lvAfter e) - usGoroutines (lvBefore e))) \<le> sint (leSettledGoroutines ?env)"
    by (simp add: assms(3) growthOf_def)
  show "usHandlesKnown (lvBefore e) \<and> usHandlesKnown (lvPeak e) \<and> usHandlesKnown (lvAfter e) \<longrightarrow>
       grewWithin (usHandles (lvBefore e)) (usHandles (lvPeak e)) (lePeakHandles ?env) \<and>
       grewWithin (usHandles (lvBefore e)) (usHandles (lvAfter e)) (leSettledHandles ?env)"
    using le [of "positive (gwHandles (lvPeakGrowth e))"] le [of "positive (gwHandles (lvSettledGrowth e))"] delta_within
    by (auto simp: assms(2,3) growthOf_def grewWithin_def)
  show "leRequireHandles ?env \<longrightarrow> lvUnavailable e = 0 \<and> usHandlesKnown (lvBefore e) \<and> usHandlesKnown (lvAfter e)" using h by blast
qed

lemma loadFinish_passed:
  assumes "loadFinish env before after st = (ev, None)"
  shows "lsFirstErr st = None \<and> evaluateLoad (evidenceOf env before after st) = Inr () \<and> ev = (evidenceOf env before after st)\<lparr>lvPassed := True\<rparr>"
  using assms by (auto simp: loadFinish_def Let_def split: option.split_asm if_split_asm sum.split_asm)

lemma loadRun_passed:
  assumes "loadRun env (Some work) before events lastSample after = Some (ev, None)"
  obtains st where "loadEnvelopeValidate env = Inr ()" "sampled before (events @ [Tick lastSample, Tick after]) st"
    "worked env work (events @ [Tick lastSample, Tick after]) st" "list_all (\<lambda>n. n = 0) (lsLeft st)" "lsFirstErr st = None"
    "evaluateLoad (evidenceOf env before after st) = Inr ()" "ev = (evidenceOf env before after st)\<lparr>lvPassed := True\<rparr>"
proof -
  obtain st where v: "loadEnvelopeValidate env = Inr ()" and s: "loadSteps env work (loadStart env before) events = Some st"
      and z: "list_all (\<lambda>n. n = 0) (lsLeft st)" and f: "loadFinish env before after (updatePeak (updatePeak st lastSample) after) = (ev, None)"
    using assms by (auto simp: loadRun_def split: sum.split_asm if_split_asm option.split_asm)
  let ?st = "updatePeak (updatePeak st lastSample) after"
  have i: "sampled before events st \<and> worked env work events st"
    using loadSteps_inv [OF s sampled_start worked_start] by simp
  have "sampled before ((events @ [Tick lastSample]) @ [Tick after]) ?st" using i by (intro sampled_update) simp
  moreover have "worked env work ((events @ [Tick lastSample]) @ [Tick after]) ?st" using i by (intro worked_update) simp
  moreover have "list_all (\<lambda>n. n = 0) (lsLeft ?st)" using z by (simp add: updatePeak_def)
  ultimately show ?thesis using that [of ?st] v loadFinish_passed [OF f] by simp
qed

lemma sint_diff:
  assumes "0 \<le> sint (a :: 64 word)" "sint a \<le> sint b"
  shows "sint (b - a) = sint b - sint a"
proof -
  have "b - a = word_of_int (sint b - sint a)" by (simp add: wi_hom_sub [symmetric])
  moreover have "sint b < 2 ^ 63" using sint_lt [of b] by simp
  ultimately show ?thesis using sint_of_small [of "sint b - sint a"] assms by simp
qed

text \<open>A sample that stayed under the ceilings on peak growth, and a settled one under those on settled growth; a count of
  goroutines is never negative. The growth of handles is compared when their number is known at the start and at the
  end of the run, as it is when the envelope requires it.\<close>

definition underCeilings :: "loadEnvelope \<Rightarrow> usage \<Rightarrow> usage \<Rightarrow> usage \<Rightarrow> bool" where
  "underCeilings env before after s \<longleftrightarrow> grewWithin (usHeap before) (usHeap s) (lePeakHeap env) \<and>
     (0 \<le> sint (usGoroutines before) \<longrightarrow> sint (usGoroutines s) - sint (usGoroutines before) \<le> sint (lePeakGoroutines env)) \<and>
     (leRequireHandles env \<longrightarrow> usHandlesKnown before \<and> usHandlesKnown after \<and> usHandlesKnown s) \<and>
     (usHandlesKnown before \<and> usHandlesKnown after \<and> usHandlesKnown s \<longrightarrow> grewWithin (usHandles before) (usHandles s) (lePeakHandles env))"

definition settledWithin :: "loadEnvelope \<Rightarrow> usage \<Rightarrow> usage \<Rightarrow> bool" where
  "settledWithin env before after \<longleftrightarrow> grewWithin (usHeap before) (usHeap after) (leSettledHeap env) \<and>
     (0 \<le> sint (usGoroutines before) \<longrightarrow> sint (usGoroutines after) - sint (usGoroutines before) \<le> sint (leSettledGoroutines env)) \<and>
     (usHandlesKnown before \<and> usHandlesKnown after \<longrightarrow> grewWithin (usHandles before) (usHandles after) (leSettledHandles env))"

lemma underCeilings_sample:
  assumes "sampled before evs st" "Tick s \<in> set evs" "evaluateLoad (evidenceOf env before after st) = Inr ()"
  shows "underCeilings env before after s"
proof -
  note e = evaluateLoad_parts [OF assms(3), unfolded evidenceOf_def, simplified]
  have a: "above (lsPeak st) s" "above (lsPeak st) before" using assms(1,2) by (simp_all add: sampled_def)
  have "sint (usGoroutines s) - sint (usGoroutines before) \<le> sint (lePeakGoroutines env)" if p: "0 \<le> sint (usGoroutines before)"
    using e(3) sint_diff [OF p, of "usGoroutines (lsPeak st)"] a by (simp add: above_def)
  moreover have "usHandlesKnown before \<and> usHandlesKnown after \<and> usHandlesKnown s" if "leRequireHandles env"
    using e(6) that assms(1,2) by (simp add: sampled_def)
  ultimately show ?thesis
    using a e(1,5) grewWithin_below by (auto simp: underCeilings_def above_def)
qed

lemma settled_evaluated:
  assumes "sampled before evs st" "Tick after \<in> set evs" "evaluateLoad (evidenceOf env before after st) = Inr ()"
  shows "settledWithin env before after"
proof -
  note e = evaluateLoad_parts [OF assms(3), unfolded evidenceOf_def, simplified]
  have a: "above (lsPeak st) after" using assms(1,2) by (simp add: sampled_def)
  have "sint (usGoroutines after) - sint (usGoroutines before) \<le> sint (leSettledGoroutines env)" if p: "0 \<le> sint (usGoroutines before)"
  proof (cases "sint (usGoroutines before) \<le> sint (usGoroutines after)")
    case True
    then show ?thesis using e(4) sint_diff [OF p True] by (auto simp: positive_le)
  next
    case False
    then show ?thesis using e(4) by (auto simp: positive_le)
  qed
  then show ?thesis using a e(2,5) by (auto simp: settledWithin_def above_def)
qed

lemma load_pass:
  assumes "loadRun env (Some work) before events lastSample after = Some (ev, None)"
  shows "lvPassed ev \<and> lvCompleted ev = workersOf env * iterationsOf env \<and>
    (\<forall>w < workersOf env. iterationsBy w events = iterationsOf env) \<and>
    (\<forall>w x. Iterate w x \<in> set events \<longrightarrow> (\<exists>i < iterationsOf env. work x w i = Inr ())) \<and>
    (\<forall>s. Tick s \<in> set (events @ [Tick lastSample, Tick after]) \<longrightarrow> underCeilings env before after s) \<and>
    settledWithin env before after"
proof -
  obtain st where st: "sampled before (events @ [Tick lastSample, Tick after]) st"
      "worked env work (events @ [Tick lastSample, Tick after]) st" "list_all (\<lambda>n. n = 0) (lsLeft st)" "lsFirstErr st = None"
      "evaluateLoad (evidenceOf env before after st) = Inr ()" "ev = (evidenceOf env before after st)\<lparr>lvPassed := True\<rparr>"
    by (rule loadRun_passed [OF assms]) blast
  have i: "iterationsBy w (events @ [Tick lastSample, Tick after]) = iterationsBy w events" for w
    using iterationsBy_snoc(2) [of w "events @ [Tick lastSample]"] by simp
  have z: "lsLeft st ! w = 0" if "w < workersOf env" for w using that st(2,3) by (simp add: worked_def list_all_length)
  have all: "iterationsBy w events = iterationsOf env" if "w < workersOf env" for w
    using that st(2,4) z i by (simp add: worked_def)
  have "lsCompleted st = (\<Sum>w < workersOf env. iterationsBy w events)" using st(2,4) i by (simp add: worked_def)
  then have "lsCompleted st = workersOf env * iterationsOf env" using all by simp
  moreover have "\<exists>i < iterationsOf env. work x w i = Inr ()" if "Iterate w x \<in> set events" for w x
    using that st(2,4) by (auto simp: worked_def)
  moreover have "underCeilings env before after s" if "Tick s \<in> set (events @ [Tick lastSample, Tick after])" for s
    by (rule underCeilings_sample [OF st(1) that st(5)])
  moreover have "settledWithin env before after" by (rule settled_evaluated [OF st(1) _ st(5)]) simp
  ultimately show ?thesis using all st(6) by (simp add: evidenceOf_def)
qed

text \<open>C22: A load run that ends without an error is a full one inside its envelope: every worker did every
  iteration, none of which failed; every sample of the monitor, the last and the settled one included, stayed
  under the declared ceilings on the peak growth of heap, goroutines and handles, and the settled one under those on
  settled growth as well; the handles count whenever their number is known at both ends of the run, and a required
  handle metric was available in every sample. The order in which the workers and the monitor interleave does not
  matter.\<close>

theorem passed_run_stayed_in_envelope:
  assumes "loadRun env (Some work) before events lastSample after = Some (ev, None)"
  shows "lvPassed ev \<and> lvCompleted ev = workersOf env * iterationsOf env \<and>
    (\<forall>w < workersOf env. iterationsBy w events = iterationsOf env) \<and>
    (\<forall>w x. Iterate w x \<in> set events \<longrightarrow> (\<exists>i < iterationsOf env. work x w i = Inr ())) \<and>
    (\<forall>s. Tick s \<in> set (events @ [Tick lastSample, Tick after]) \<longrightarrow> underCeilings env before after s) \<and>
    settledWithin env before after"
  by (rule load_pass [OF assms])

definition demoEnvelope :: loadEnvelope where
  "demoEnvelope = \<lparr>leName = ''two by two'', leWorkers = 2, leIterations = 2, lePeakHeap = 100, leSettledHeap = 10, lePeakGoroutines = 4,
     leSettledGoroutines = 0, lePeakHandles = 3, leSettledHandles = 0, leRequireHandles = True\<rparr>"

definition demoUsage :: "64 word \<Rightarrow> 64 word \<Rightarrow> 64 word \<Rightarrow> usage" where
  "demoUsage heap goroutines handles = \<lparr>usHeap = heap, usGoroutines = goroutines, usHandles = handles, usHandlesKnown = True\<rparr>"

definition demoEvents :: "unit loadEvent list" where
  "demoEvents = [Iterate 1 (), Tick (demoUsage 1090 6 12), Iterate 0 (), Iterate 0 (), Tick (demoUsage 1050 5 13), Iterate 1 ()]"

theorem passed_run_stayed_in_envelope_witness:
  "underCeilings demoEnvelope (demoUsage 1000 3 10) (demoUsage 1001 3 10) (demoUsage 1090 6 12) \<and>
   settledWithin demoEnvelope (demoUsage 1000 3 10) (demoUsage 1001 3 10)"
proof -
  have "map_option snd (loadRun demoEnvelope (Some (\<lambda>_ _ _. Inr ())) (demoUsage 1000 3 10) demoEvents (demoUsage 1001 3 10) (demoUsage 1001 3 10)) = Some None"
    by code_simp
  then obtain ev where "loadRun demoEnvelope (Some (\<lambda>_ _ _. Inr ())) (demoUsage 1000 3 10) demoEvents (demoUsage 1001 3 10) (demoUsage 1001 3 10) = Some (ev, None)"
    by auto
  from passed_run_stayed_in_envelope [OF this] show ?thesis by (simp add: demoEvents_def)
qed

text \<open>C38: The growth of a 64-bit counter is its true difference, cut to what a signed 64-bit number holds, and
  never wraps around.\<close>

theorem growth_saturates:
  "sint (signedDelta before now) = max (- (2 ^ 63)) (min (2 ^ 63 - 1) (uint now - uint before))"
  by (rule signedDelta_exact)

lemma replayWorkload_Inr: "replayWorkload d r baseline h w i = Inr u \<longleftrightarrow> proveRecovery d h r = Inr baseline"
  by (auto simp: replayWorkload_def compareRecoveryProofs_def andThen_Inr_iff)

text \<open>A read load that passes has replayed the ledger as often as its envelope says, and every one of
  these concurrent replays gave, in every field, the recovery proof of the baseline it reports.\<close>

lemma read_load_reproduces_baseline:
  "case proveReadLoad d h r env before events lastSample after of
     Some (Some evidence, None) \<Rightarrow>
       proveRecovery d h r = Inr (rlRecovery evidence) \<and>
       list_all (\<lambda>ev. case ev of Iterate w h' \<Rightarrow> proveRecovery d h' r = Inr (rlRecovery evidence) | _ \<Rightarrow> True) events \<and>
       list_all (\<lambda>w. iterationsBy w events = iterationsOf env) [0..<workersOf env] \<and>
       lvCompleted (rlResources evidence) = workersOf env * iterationsOf env
   | Some (None, err) \<Rightarrow> \<not> is_ok (proveRecovery d h r) \<and> err \<noteq> None
   | _ \<Rightarrow> True"
proof (cases "proveRecovery d h r")
  case (Inl e)
  then show ?thesis by (simp add: proveReadLoad_def)
next
  case (Inr baseline)
  show ?thesis
  proof (cases "loadRun env (Some (replayWorkload d r baseline)) before events lastSample after")
    case None
    then show ?thesis using Inr by (simp add: proveReadLoad_def)
  next
    case (Some out)
    obtain ev err where out: "out = (ev, err)" by fastforce
    show ?thesis
    proof (cases err)
      case None
      note p = load_pass [OF Some [unfolded out None]]
      have "list_all (\<lambda>ev. case ev of Iterate w h' \<Rightarrow> proveRecovery d h' r = Inr baseline | _ \<Rightarrow> True) events"
        using p unfolding list_all_iff by (auto simp: replayWorkload_Inr split: loadEvent.split)
      then show ?thesis using Inr Some out None p by (simp add: proveReadLoad_def list_all_iff)
    qed (use Inr Some out in \<open>simp add: proveReadLoad_def\<close>)
  qed
qed

end
