(* ===== verification/Service.thy ===== *)
theory Service
  imports Replay_Properties
begin

text \<open>
  internal/service: the limiter of concurrent requests and the gate in front of authoritative writes. The
  limiter is a channel with one slot per request. A request that got a slot holds a release function with a
  flag of its own; the state keeps the number of slots in use and the flags, in the order they were given out.
\<close>

section \<open>The limiter\<close>

definition errOverloaded :: goerr where "errOverloaded = ErrNew ''OVERLOADED''"

record limiter =
  lmCapacity :: nat
  lmInUse :: nat
  lmReleased :: "bool list"

definition newLimiter :: "int \<Rightarrow> limiter res" where
  "newLimiter capacity =
    (if capacity \<le> 0 then Inl (Errorf ''invalid limiter capacity'' [])
     else Inr \<lparr>lmCapacity = nat capacity, lmInUse = 0, lmReleased = []\<rparr>)"

text \<open>The result names the release function by its number.\<close>

definition tryAcquire :: "(limiter, nat) stateop" where
  "tryAcquire l =
    (if lmInUse l < lmCapacity l
     then (l\<lparr>lmInUse := Suc (lmInUse l), lmReleased := lmReleased l @ [False]\<rparr>, Inr (length (lmReleased l)))
     else (l, Inl errOverloaded))"

text \<open>A release function; taking from an empty channel would wait forever, which is \<open>None\<close>.\<close>

definition releaseSlot :: "nat \<Rightarrow> limiter \<Rightarrow> limiter option" where
  "releaseSlot k l =
    (if lmReleased l ! k then Some l
     else if lmInUse l = 0 then None
     else Some (l\<lparr>lmInUse := lmInUse l - 1, lmReleased := (lmReleased l)[k := True]\<rparr>))"

text \<open>What requests do to a limiter, in any order; a release function can only be called once it was returned.\<close>

inductive limiterReach :: "int \<Rightarrow> limiter \<Rightarrow> bool" for capacity where
  Fresh: "newLimiter capacity = Inr l \<Longrightarrow> limiterReach capacity l"
| Acquire: "limiterReach capacity l \<Longrightarrow> tryAcquire l = (l', r) \<Longrightarrow> limiterReach capacity l'"
| Release: "limiterReach capacity l \<Longrightarrow> k < length (lmReleased l) \<Longrightarrow> releaseSlot k l = Some l' \<Longrightarrow> limiterReach capacity l'"

section \<open>The write gate\<close>

definition errAuthorityWritesDisabled :: goerr where
  "errAuthorityWritesDisabled = ErrNew ''AUTHORITY_WRITES_DISABLED''"

definition authorityWritesEnabled :: bool where "authorityWritesEnabled = False"

definition requireAuthorityWritesEnabled :: "unit res" where
  "requireAuthorityWritesEnabled = Inl errAuthorityWritesDisabled"

definition authenticateAuthoritativePolicySnapshot ::
  "(string \<Rightarrow> string res) \<Rightarrow> (string \<Rightarrow> string \<Rightarrow> string \<Rightarrow> bool) \<Rightarrow> policySnapshot option \<Rightarrow> authProof \<Rightarrow> requestContext
     \<Rightarrow> int \<Rightarrow> principal res" where
  "authenticateAuthoritativePolicySnapshot jcs verifySig snapshot proof expected now =
    (case snapshot of None \<Rightarrow> Inl (policyErr ''actor policy snapshot is nil'')
     | Some s \<Rightarrow>
       if rcLedgerID expected \<noteq> psLedgerID s then Inl (Errorf ''AUTH_CONTEXT_INVALID: request ledger_id'' [])
       else if rcExpectedState expected \<noteq> psLedgerCommit s then Inl (Errorf ''AUTH_CONTEXT_INVALID: request expected_state'' [])
       else authenticateAndAuthorize jcs verifySig (psPolicy s) proof expected now)"

definition admitAuthorityWrite ::
  "(string \<Rightarrow> string \<Rightarrow> string \<Rightarrow> bool) \<Rightarrow> 'sch deps \<Rightarrow> host \<Rightarrow> reader \<Rightarrow> authProof \<Rightarrow> requestContext \<Rightarrow> int \<Rightarrow> principal res" where
  "admitAuthorityWrite verifySig d h r proof expected now =
    andThen requireAuthorityWritesEnabled (\<lambda>_.
    andThen (loadCurrentActorPolicy d h r) (\<lambda>snapshot.
    authenticateAuthoritativePolicySnapshot (dpJcs d) verifySig (Some snapshot) proof expected now))"

lemma writes_stay_disabled: "admitAuthorityWrite verifySig d h r proof expected now = Inl errAuthorityWritesDisabled"
  by (simp add: admitAuthorityWrite_def requireAuthorityWritesEnabled_def)

section \<open>Slots\<close>

lemma count_flip: "k < length fs \<Longrightarrow> \<not> fs ! k \<Longrightarrow> count_list (fs[k := True]) False = count_list fs False - 1 \<and> 0 < count_list fs False"
proof (induction fs arbitrary: k)
  case (Cons f fs)
  then show ?case by (cases k) auto
qed simp

lemma limiter_inv:
  assumes "limiterReach capacity l"
  shows "0 < capacity \<and> int (lmCapacity l) = capacity \<and> lmInUse l = count_list (lmReleased l) False \<and> lmInUse l \<le> lmCapacity l"
  using assms
proof (induction rule: limiterReach.induct)
  case (Fresh l)
  then show ?case by (auto simp: newLimiter_def split: if_split_asm)
next
  case (Acquire l l' r)
  then show ?case by (auto simp: tryAcquire_def split: if_split_asm)
next
  case (Release l k l')
  then show ?case using count_flip [of k "lmReleased l"] by (auto simp: releaseSlot_def split: if_split_asm)
qed

text \<open>C35: However requests take and give back slots, there are never more of them than the capacity: the
  slots in use are those whose release function was not called yet. A request is turned away exactly when
  all slots are in use, a release never waits, and calling it a second time changes nothing.\<close>

theorem limiter_bounds_requests:
  assumes "limiterReach capacity l" "k < length (lmReleased l)"
  shows "int (lmInUse l) \<le> capacity \<and> lmInUse l = count_list (lmReleased l) False \<and>
    (snd (tryAcquire l) = Inl errOverloaded \<longleftrightarrow> int (lmInUse l) = capacity) \<and>
    (\<exists>l'. releaseSlot k l = Some l' \<and> releaseSlot k l' = Some l' \<and>
       lmInUse l' = (if lmReleased l ! k then lmInUse l else lmInUse l - 1))"
proof -
  note i = limiter_inv [OF assms(1)]
  have o: "snd (tryAcquire l) = Inl errOverloaded \<longleftrightarrow> int (lmInUse l) = capacity"
    using i by (auto simp: tryAcquire_def)
  show ?thesis
  proof (cases "lmReleased l ! k")
    case True
    then show ?thesis using i o by (simp add: releaseSlot_def)
  next
    case False
    then have "0 < lmInUse l" using i count_flip [OF assms(2)] by simp
    then show ?thesis using i o False assms(2) by (simp add: releaseSlot_def)
  qed
qed

theorem limiter_bounds_requests_witness:
  "snd (tryAcquire \<lparr>lmCapacity = 2, lmInUse = 1, lmReleased = [True, False]\<rparr>) \<noteq> Inl errOverloaded"
proof -
  have n: "newLimiter 2 = Inr \<lparr>lmCapacity = 2, lmInUse = 0, lmReleased = []\<rparr>" by code_simp
  have a: "tryAcquire \<lparr>lmCapacity = 2, lmInUse = 0, lmReleased = []\<rparr> = (\<lparr>lmCapacity = 2, lmInUse = 1, lmReleased = [False]\<rparr>, Inr 0)" by code_simp
  have b: "tryAcquire \<lparr>lmCapacity = 2, lmInUse = 1, lmReleased = [False]\<rparr> = (\<lparr>lmCapacity = 2, lmInUse = 2, lmReleased = [False, False]\<rparr>, Inr 1)" by code_simp
  have c: "releaseSlot 0 \<lparr>lmCapacity = 2, lmInUse = 2, lmReleased = [False, False]\<rparr> = Some \<lparr>lmCapacity = 2, lmInUse = 1, lmReleased = [True, False]\<rparr>" by code_simp
  have "limiterReach 2 \<lparr>lmCapacity = 2, lmInUse = 1, lmReleased = [True, False]\<rparr>"
    by (rule limiterReach.Release [OF limiterReach.Acquire [OF limiterReach.Acquire [OF limiterReach.Fresh [OF n] a] b] _ c]) simp
  from limiter_bounds_requests [OF this, of 0] show ?thesis by simp
qed

section \<open>No slot is lost\<close>

text \<open>Calling release functions one after the other, and asking for slots that have to be given.\<close>

fun releaseAll :: "nat list \<Rightarrow> limiter \<Rightarrow> limiter option" where
  "releaseAll [] l = Some l"
| "releaseAll (k # ks) l = (case releaseSlot k l of None \<Rightarrow> None | Some l' \<Rightarrow> releaseAll ks l')"

fun acquireMany :: "nat \<Rightarrow> limiter \<Rightarrow> limiter option" where
  "acquireMany 0 l = Some l"
| "acquireMany (Suc n) l = (case tryAcquire l of (l', Inr _) \<Rightarrow> acquireMany n l' | (_, Inl _) \<Rightarrow> None)"

lemma releaseAll_run:
  assumes "limiterReach capacity l" "\<forall>k\<in>set ks. k < length (lmReleased l)"
  shows "\<exists>l1. releaseAll ks l = Some l1 \<and> limiterReach capacity l1 \<and> length (lmReleased l1) = length (lmReleased l) \<and>
    (\<forall>i < length (lmReleased l). lmReleased l1 ! i \<longleftrightarrow> lmReleased l ! i \<or> i \<in> set ks)"
  using assms
proof (induction ks arbitrary: l)
  case (Cons k ks)
  have k: "k < length (lmReleased l)" using Cons.prems(2) by simp
  have "\<exists>l'. releaseSlot k l = Some l' \<and> length (lmReleased l') = length (lmReleased l) \<and>
      (\<forall>i < length (lmReleased l). lmReleased l' ! i \<longleftrightarrow> lmReleased l ! i \<or> i = k)"
  proof (cases "lmReleased l ! k")
    case True
    then show ?thesis by (auto simp: releaseSlot_def)
  next
    case False
    then have "0 < lmInUse l" using limiter_inv [OF Cons.prems(1)] count_flip [OF k] by simp
    then show ?thesis using False k by (auto simp: releaseSlot_def nth_list_update)
  qed
  then obtain l' where l': "releaseSlot k l = Some l'" "length (lmReleased l') = length (lmReleased l)"
    "\<forall>i < length (lmReleased l). lmReleased l' ! i \<longleftrightarrow> lmReleased l ! i \<or> i = k" by blast
  have "limiterReach capacity l'" by (rule limiterReach.Release [OF Cons.prems(1) k l'(1)])
  from Cons.IH [OF this] Cons.prems(2) l' show ?case by auto
qed simp

lemma acquireMany_run:
  "lmInUse l + n \<le> lmCapacity l \<Longrightarrow> \<exists>l2. acquireMany n l = Some l2 \<and> lmInUse l2 = lmInUse l + n"
proof (induction n arbitrary: l)
  case (Suc n)
  have "\<exists>l2. acquireMany n (l\<lparr>lmInUse := Suc (lmInUse l), lmReleased := lmReleased l @ [False]\<rparr>) = Some l2 \<and>
      lmInUse l2 = lmInUse (l\<lparr>lmInUse := Suc (lmInUse l), lmReleased := lmReleased l @ [False]\<rparr>) + n"
    by (rule Suc.IH) (use Suc.prems in simp)
  then show ?case using Suc.prems by (simp add: tryAcquire_def)
qed simp

text \<open>C36: No slot is ever lost: from every state that requests can bring the limiter into, once every request that
  holds a slot has called its release function, in any order and however often, none of those calls waits, and
  as many new requests as the capacity allows are admitted one after the other.\<close>

theorem limiter_recovers_full_capacity:
  assumes "limiterReach capacity l" "set ks = {..<length (lmReleased l)}"
  shows "\<exists>l1 l2. releaseAll ks l = Some l1 \<and> lmInUse l1 = 0 \<and> acquireMany (nat capacity) l1 = Some l2 \<and> int (lmInUse l2) = capacity"
proof -
  obtain l1 where l1: "releaseAll ks l = Some l1" "limiterReach capacity l1" "length (lmReleased l1) = length (lmReleased l)"
    "\<forall>i < length (lmReleased l). lmReleased l1 ! i" using releaseAll_run [OF assms(1), of ks] assms(2) by auto
  then have "False \<notin> set (lmReleased l1)" by (auto simp: in_set_conv_nth)
  then have "lmInUse l1 = 0" using limiter_inv [OF l1(2)] by simp
  then show ?thesis using l1(1) acquireMany_run [of l1 "nat capacity"] limiter_inv [OF l1(2)] by auto
qed

theorem limiter_recovers_full_capacity_witness:
  "releaseAll [1, 0, 1] \<lparr>lmCapacity = 2, lmInUse = 2, lmReleased = [False, False]\<rparr> \<noteq> None"
proof -
  have n: "newLimiter 2 = Inr \<lparr>lmCapacity = 2, lmInUse = 0, lmReleased = []\<rparr>" by code_simp
  have a: "tryAcquire \<lparr>lmCapacity = 2, lmInUse = 0, lmReleased = []\<rparr> = (\<lparr>lmCapacity = 2, lmInUse = 1, lmReleased = [False]\<rparr>, Inr 0)" by code_simp
  have b: "tryAcquire \<lparr>lmCapacity = 2, lmInUse = 1, lmReleased = [False]\<rparr> = (\<lparr>lmCapacity = 2, lmInUse = 2, lmReleased = [False, False]\<rparr>, Inr 1)" by code_simp
  have "limiterReach 2 \<lparr>lmCapacity = 2, lmInUse = 2, lmReleased = [False, False]\<rparr>"
    by (rule limiterReach.Acquire [OF limiterReach.Acquire [OF limiterReach.Fresh [OF n] a] b])
  from limiter_recovers_full_capacity [OF this, of "[1, 0, 1]"] show ?thesis by (auto simp: lessThan_Suc numeral_2_eq_2)
qed

end
