(* ===== verification/Fresh_Genesis.thy ===== *)
theory Fresh_Genesis
  imports Replay_Properties Git_Writer
begin

text \<open>
  internal/ledger/fresh_genesis.go: the creation of a ledger whose only commit is a supplied Genesis record
  with initial schemas, reducer bindings and the root actor policy. Every check of the input comes before
  the repository is created, and the result is returned only after the created repository was reopened and
  replayed. The seed files are a Go map; the order in which it is walked only selects the error reported.
\<close>

section \<open>Seed files\<close>

definition validateFreshGenesisSeedPath :: "string \<Rightarrow> unit res" where
  "validateFreshGenesisSeedPath p =
    (if p = [] \<or> containsStr p [backslash] \<or> containsAny p lineBreaks \<or> pathIsAbs p \<or> pathClean p \<noteq> p \<or> \<not> hasSuffix p ''.json''
     then Inl (freshErr ''unsafe seed path'')
     else if \<not> hasPrefix p ''config/schemas/'' \<and> \<not> hasPrefix p (reducerBindingPrefix @ ''/'') \<and> p \<noteq> ledgerPolicyPath
     then Inl (freshErr ''seed path is outside initial schema/reducer-binding/actor-policy namespaces'')
     else Inr ())"

definition freshFiles :: "string \<Rightarrow> (string, string) gomap \<Rightarrow> (string, string) gomap res" where
  "freshFiles rawGenesis seeds =
    foldM (\<lambda>files (p, raw).
      andThen (validateFreshGenesisSeedPath p) (\<lambda>_.
      if p = genesisPath then Inl (freshErr ''seed files must not supply the Genesis record'') else Inr (mput p raw files)))
      [(genesisPath, rawGenesis)] seeds"

definition seedSchema :: "'sch schemaRegistry \<times> string list \<Rightarrow> string \<times> string \<Rightarrow> ('sch schemaRegistry \<times> string list) res" where
  "seedSchema st seed =
    (case (st, seed) of ((registry, schemaIDs), (p, raw)) \<Rightarrow>
     if \<not> hasPrefix p ''config/schemas/'' then Inr (registry, schemaIDs) else
     andThen (wrapw ''FRESH_GENESIS_INVALID: schema'' (strictDecode raw)) (\<lambda>value.
     case value of
       JObj obj \<Rightarrow>
         let i = memberString obj ''$id'' in
         if i = [] then Inl (freshErr ''schema has no $id'')
         else andThen (wrapw ''FRESH_GENESIS_INVALID: schema'' (registryAdd registry i raw)) (\<lambda>registry'. Inr (registry', schemaIDs @ [i]))
     | _ \<Rightarrow> Inl (freshErr ''schema root must be object'')))"

record 'sch seedState =
  sdRegistry :: "'sch schemaRegistry"
  sdSeenIDs :: "string list"
  sdSeenKinds :: "string list"
  sdActorBinding :: bool

definition seedBinding :: "'sch deps \<Rightarrow> genesisRoot \<Rightarrow> 'sch seedState \<Rightarrow> string \<times> string \<Rightarrow> 'sch seedState res" where
  "seedBinding d root st seed =
    (case seed of (p, raw) \<Rightarrow>
     if \<not> hasPrefix p (reducerBindingPrefix @ ''/'') then Inr st else
     andThen (wrapw ''FRESH_GENESIS_INVALID: reducer binding'' (strictValidate raw)) (\<lambda>_.
     andThen (wrapw ''FRESH_GENESIS_INVALID: reducer binding canonicalization'' (canonicalize (dpJcs d) raw)) (\<lambda>canonical.
     if raw \<noteq> canonical then Inl (freshErr ''reducer binding is not RFC 8785 canonical JSON'') else
     andThen (wrapw ''FRESH_GENESIS_INVALID: reducer binding'' (digestVerify (dpJcs d) raw)) (\<lambda>_.
     andThen (wrapw ''FRESH_GENESIS_INVALID: reducer binding decode'' (decBinding raw)) (\<lambda>binding.
     if rbSchemaVersion binding \<noteq> reducerBindingSchemaV1 then Inl (freshErr ''reducer binding uses unknown schema'') else
     andThen (wrapw ''FRESH_GENESIS_INVALID: reducer binding'' (registryValidate (dpSchema d) (sdRegistry st) (rbSchemaVersion binding) raw)) (\<lambda>reg1.
     if rbStateModel binding \<noteq> modelExclusiveV1 then Inl (freshErr ''reducer binding uses model'')
     else if rbEventSchema binding \<noteq> exclusiveRecordEventSchemaV1 then Inl (freshErr ''reducer binding uses event schema'') else
     andThen (wrapw ''FRESH_GENESIS_INVALID: reducer binding event schema'' (registryCompile (dpSchema d) reg1 (rbEventSchema binding))) (\<lambda>(reg2, _).
     if rbAuthorityPolicyVersion binding \<noteq> grInitialAuthorityPolicy root
     then Inl (freshErr ''reducer binding policy does not match Genesis'')
     else if rbBindingID binding \<in> set (sdSeenIDs st) then Inl (freshErr ''duplicate reducer binding_id'')
     else if rbRecordKind binding \<in> set (sdSeenKinds st) then Inl (freshErr ''duplicate reducer record_kind'')
     else Inr \<lparr>sdRegistry = reg2, sdSeenIDs = rbBindingID binding # sdSeenIDs st, sdSeenKinds = rbRecordKind binding # sdSeenKinds st,
       sdActorBinding = (sdActorBinding st \<or> rbRecordKind binding = policyRecordKind)\<rparr>)))))))"

definition validateFreshGenesisSeedContracts :: "'sch deps \<Rightarrow> genesisRoot \<Rightarrow> (string, string) gomap \<Rightarrow> unit res" where
  "validateFreshGenesisSeedContracts d root seeds =
    andThen (foldM seedSchema (newRegistry, []) seeds) (\<lambda>(registry, schemaIDs).
    if sort schemaIDs \<noteq> sliceOf (grInitialSchemas root)
    then Inl (freshErr ''Genesis initial_schemas do not match seed schema IDs'') else
    andThen (foldM (seedBinding d root) \<lparr>sdRegistry = registry, sdSeenIDs = [], sdSeenKinds = [], sdActorBinding = False\<rparr> seeds) (\<lambda>st.
    if \<not> sdActorBinding st then Inl (freshErr ''no reducer binding for actor policy record kind'') else Inr ()))"

section \<open>Creation\<close>

record freshEvidence =
  feStoragePath :: string
  feProjectID :: string
  feLedgerID :: string
  feAuthoritativeRef :: string
  feGenesisSHA256 :: string
  feActorPolicySHA256 :: string
  feGenesisCommit :: string
  feLedgerCommit :: string
  feGitObjectFormat :: string
  feInitialSchemaCount :: nat
  feInitialBindingCount :: nat

text \<open>The part before anything is created.\<close>

definition checkFreshGenesis ::
  "'sch deps \<Rightarrow> string \<Rightarrow> (string, string) gomap \<Rightarrow> (genesisRoot \<times> (string, string) gomap \<times> policyDocument) res" where
  "checkFreshGenesis d rawGenesis seeds =
    andThen (wrapw ''FRESH_GENESIS_INVALID'' (genesisValidate (dpJcs d) rawGenesis)) (\<lambda>root.
    andThen (freshFiles rawGenesis seeds) (\<lambda>files.
    case mget seeds ledgerPolicyPath of
      None \<Rightarrow> Inl (freshErr ''seed root must supply authoritative actor policy'')
    | Some policyRaw \<Rightarrow>
      andThen (wrapw ''FRESH_GENESIS_INVALID'' (parsePolicyDocument (dpJcs d) policyRaw (grLedgerID root) (grInitialAuthorityPolicy root))) (\<lambda>(doc, _).
      andThen (wrapw ''FRESH_GENESIS_INVALID'' (validateInitialAuthorities doc (sliceOf (grInitialAuthorities root)))) (\<lambda>_.
      andThen (validateFreshGenesisSeedContracts d root seeds) (\<lambda>_. Inr (root, files, doc))))))"

definition freshFailed :: "string \<Rightarrow> goerr" where
  "freshFailed msg = Errorf (''FRESH_GENESIS_VERIFICATION_FAILED: '' @ msg) []"

text \<open>The part after the creation: what the reopened repository has to show.\<close>

definition verifyFreshGenesis ::
  "'sch deps \<Rightarrow> string \<Rightarrow> string \<Rightarrow> genesisRoot \<Rightarrow> policyDocument \<Rightarrow> string \<Rightarrow> host \<Rightarrow> freshEvidence res" where
  "verifyFreshGenesis d gitDir ref root doc createdRoot h =
    andThen (wrapw ''FRESH_GENESIS_VERIFICATION_FAILED: reopen created ledger'' (newReader h gitDir ref)) (\<lambda>r.
    andThen (wrapw ''FRESH_GENESIS_VERIFICATION_FAILED'' (replay d h r)) (\<lambda>m.
    if mfGenesisCommit m \<noteq> createdRoot \<or> mfLedgerCommit m \<noteq> createdRoot \<or> mfHistoryCommitCount m \<noteq> 1
    then Inl (freshFailed ''created root'')
    else if grProjectID (mfGenesisRoot m) \<noteq> grProjectID root \<or> grLedgerID (mfGenesisRoot m) \<noteq> grLedgerID root \<or>
      grContentSHA256 (mfGenesisRoot m) \<noteq> grContentSHA256 root
    then Inl (freshFailed ''replayed Genesis identity differs from validated input'') else
    andThen (wrapw ''FRESH_GENESIS_VERIFICATION_FAILED: initial schema registry'' (loadSchemasAt h r createdRoot)) (\<lambda>registry.
    andThen (wrapw ''FRESH_GENESIS_VERIFICATION_FAILED: initial reducer bindings''
       (loadReducerBindingsAt (dpJcs d) (dpSchema d) h r registry createdRoot)) (\<lambda>(_, bindings).
    if \<not> mhas (bsByRecordKind bindings) policyRecordKind then Inl (freshFailed ''no reducer binding for actor policy record kind'') else
    andThen (wrapw ''FRESH_GENESIS_VERIFICATION_FAILED: actor policy'' (loadCurrentActorPolicy d h r)) (\<lambda>snapshot.
    if psLedgerCommit snapshot \<noteq> createdRoot \<or> psSourceEventID snapshot \<noteq> [] \<or> psPolicyContentSHA snapshot \<noteq> pdContentSHA256 doc
    then Inl (freshFailed ''initial actor-policy identity changed during bootstrap'')
    else Inr \<lparr>feStoragePath = rdGitDir r, feProjectID = grProjectID root, feLedgerID = grLedgerID root,
      feAuthoritativeRef = mfAuthoritativeRef m, feGenesisSHA256 = grContentSHA256 root, feActorPolicySHA256 = pdContentSHA256 doc,
      feGenesisCommit = createdRoot, feLedgerCommit = mfLedgerCommit m, feGitObjectFormat = mfGitObjectFormat m,
      feInitialSchemaCount = length (sliceOf (grInitialSchemas root)), feInitialBindingCount = mfReducerBindingCount m\<rparr>)))))"

definition initializeFreshGenesis ::
  "'sch deps \<Rightarrow> world \<Rightarrow> string \<Rightarrow> string \<Rightarrow> string \<Rightarrow> (string, string) gomap \<Rightarrow> freshEvidence hostop" where
  "initializeFreshGenesis d w gitDir ref0 rawGenesis seeds =
    (let ref = (if ref0 = [] then defaultRef else ref0) in
     hbind (hread (\<lambda>_. checkFreshGenesis d rawGenesis seeds)) (\<lambda>(root, files, doc).
     hbind (initializeBareRoot w gitDir ref files) (\<lambda>createdRoot.
     hread (verifyFreshGenesis d gitDir ref root doc createdRoot))))"

section \<open>Clean relative paths\<close>

lemma clean_config_plain:
  assumes "pathClean p = p" "hasPrefix p ''config/''"
  shows "list_all plainPart (splitOn CHR ''/'' p)"
proof -
  obtain t where t: "p = ''config'' @ CHR ''/'' # t" using assms(2) by (auto simp: hasPrefix_iff)
  obtain k ns where q: "cleanParts False [] (splitOn CHR ''/'' p) = replicate k ''..'' @ ns" "list_all plainPart ns"
    using cleanParts_relative [of "[]" "[]" 0 "splitOn CHR ''/'' p"] by auto
  have p: "p = joinWith ''/'' (replicate k ''..'' @ ns)"
    using assms(1) q(1) t by (auto simp: pathClean_def Let_def pathIsAbs_def hasPrefix_def split: if_split_asm)
  have ns: "replicate k ''..'' @ ns \<noteq> []" using p t by auto
  have "CHR ''/'' \<notin> set x" if "x \<in> set (replicate k ''..'' @ ns)" for x
    using that q(1) cleanParts_set [of False "[]" "splitOn CHR ''/'' p"] splitOn_no_sep [of x "CHR ''/''" p] by auto
  then have s: "splitOn CHR ''/'' p = replicate k ''..'' @ ns"
    unfolding p by (intro split_join ns) blast
  have "hd (splitOn CHR ''/'' p) = ''config''" unfolding t by simp
  then have "k = 0" using s by (cases k) auto
  then show ?thesis using s q(2) by simp
qed

lemma seedPath_iff:
  "validateFreshGenesisSeedPath p = Inr () \<longleftrightarrow> p = ledgerPolicyPath \<or>
     hasSuffix p ''.json'' \<and> list_all plainPart (splitOn CHR ''/'' p) \<and> \<not> containsAny p (backslash # lineBreaks) \<and>
     list_ex (\<lambda>prefix. hasPrefix p (prefix @ ''/'')) [schemaPrefix, reducerBindingPrefix]"
proof -
  have pol: "validateFreshGenesisSeedPath ledgerPolicyPath = Inr ()" by code_simp
  have c: "containsAny p (backslash # lineBreaks) \<longleftrightarrow> containsStr p [backslash] \<or> containsAny p lineBreaks"
    unfolding containsStr_single containsAny_iff by auto
  have pre: "hasPrefix p ''config/''" if "list_ex (\<lambda>prefix. hasPrefix p (prefix @ ''/'')) [schemaPrefix, reducerBindingPrefix]"
    using that by (auto simp: hasPrefix_iff schemaPrefix_def reducerBindingPrefix_def)
  show ?thesis
  proof (cases "p = ledgerPolicyPath")
    case True
    then show ?thesis using pol by simp
  next
    case False
    have "validateFreshGenesisSeedPath p = Inr () \<longleftrightarrow> p \<noteq> [] \<and> \<not> containsAny p (backslash # lineBreaks) \<and> \<not> pathIsAbs p \<and>
        pathClean p = p \<and> hasSuffix p ''.json'' \<and> list_ex (\<lambda>prefix. hasPrefix p (prefix @ ''/'')) [schemaPrefix, reducerBindingPrefix]"
      using False by (auto simp: validateFreshGenesisSeedPath_def c schemaPrefix_def)
    then show ?thesis using False pathClean_plain [of p] clean_config_plain [of p] pre unfolding list_all_iff by blast
  qed
qed

text \<open>C30: The seed paths of a fresh ledger are exactly the paths a ledger may contain apart from the Genesis
  record, which the code adds itself, and events: the check before the creation and the check of every replay
  agree, although they are written differently.\<close>

theorem seed_paths_are_ledger_paths:
  "validateFreshGenesisSeedPath p = Inr () \<longleftrightarrow>
     validateAuthoritativeLedgerPath p = Inr () \<and> p \<noteq> genesisPath \<and> \<not> hasPrefix p ''events/''"
proof -
  have d: "\<not> (hasPrefix p (schemaPrefix @ ''/'') \<and> hasPrefix p ''events/'')" "\<not> (hasPrefix p (reducerBindingPrefix @ ''/'') \<and> hasPrefix p ''events/'')"
    by (cases p; simp add: hasPrefix_def schemaPrefix_def reducerBindingPrefix_def)+
  have g: "\<not> hasPrefix genesisPath (schemaPrefix @ ''/'')" "\<not> hasPrefix genesisPath (reducerBindingPrefix @ ''/'')"
    "genesisPath \<noteq> ledgerPolicyPath" "\<not> hasPrefix ledgerPolicyPath ''events/''" by code_simp+
  have v: "validateAuthoritativeLedgerPath p = Inr () \<longleftrightarrow> p = genesisPath \<or> p = ledgerPolicyPath \<or>
      validateVersionedJSONLedgerPath p schemaPrefix = Inr () \<or> validateVersionedJSONLedgerPath p reducerBindingPrefix = Inr ()"
    if "\<not> hasPrefix p ''events/''"
    using that by (auto simp: validateAuthoritativeLedgerPath_def versionedPath_iff)
  show ?thesis
  proof (cases "hasPrefix p ''events/''")
    case True
    then show ?thesis using d g by (auto simp: seedPath_iff)
  next
    case False
    then show ?thesis using g unfolding v [OF False] seedPath_iff versionedPath_iff by auto
  qed
qed

section \<open>A fresh ledger\<close>

text \<open>A ledger that consists of one Genesis commit with the given identity, policy and no event.\<close>

definition freshLedger :: "'sch deps \<Rightarrow> host \<Rightarrow> reader \<Rightarrow> genesisRoot \<Rightarrow> policyDocument \<Rightarrow> string \<Rightarrow> bool" where
  "freshLedger d h r root doc commit \<longleftrightarrow>
     (\<exists>m s c. replay d h r = Inr m \<and> loadCurrentActorPolicy d h r = Inr s \<and>
        readHead h r = Inr commit \<and> readHistory h r commit = Inr [c] \<and> cmID c = commit \<and>
        mfGenesisCommit m = commit \<and> mfLedgerCommit m = commit \<and> mfEvents m = [] \<and>
        grProjectID (mfGenesisRoot m) = grProjectID root \<and> grLedgerID (mfGenesisRoot m) = grLedgerID root \<and>
        grContentSHA256 (mfGenesisRoot m) = grContentSHA256 root \<and>
        psLedgerCommit s = commit \<and> psSourceEventID s = [] \<and> psPolicyContentSHA s = pdContentSHA256 doc)"

lemma replay_single:
  assumes "replay d h r = Inr m" "mfHistoryCommitCount m = 1"
  shows "\<exists>c. readHead h r = Inr (mfLedgerCommit m) \<and> readHistory h r (mfLedgerCommit m) = Inr [c] \<and> cmID c = mfGenesisCommit m \<and> mfEvents m = []"
proof -
  from replay_Inr [OF assms(1)] obtain history doc where
    h: "readHead h r = Inr (mfLedgerCommit m)" "readHistory h r (mfLedgerCommit m) = Inr history" "mfHistoryCommitCount m = length history"
      "validateGenesisHistory (dpJcs d) h r history = Inr (mfGenesisRoot m, mfGenesisCommit m, doc)" by blast
  obtain c where c: "history = [c]" using h(3) assms(2) by (cases history) auto
  from validateGenesisHistory_Inr [OF h(4)] have g: "mfGenesisCommit m = cmID c" "eventAdditions h r (cmID c) = Inr []" by (auto simp: c)
  from replay_listing [OF assms(1)] have "map rePath (mfEvents m) = []"
    using h(2) g(2) by (auto simp: c andThen_Inr_iff)
  then show ?thesis using h g c by simp
qed

lemma verifyFreshGenesis_Inr:
  assumes "verifyFreshGenesis d gitDir ref root doc created h = Inr ev"
  shows "\<exists>r. newReader h gitDir ref = Inr r \<and> freshLedger d h r root doc created \<and> feStoragePath ev = rdGitDir r \<and>
    feGenesisCommit ev = created \<and> feLedgerCommit ev = created \<and> feGenesisSHA256 ev = grContentSHA256 root \<and>
    feActorPolicySHA256 ev = pdContentSHA256 doc"
proof -
  from assms obtain r m s where p: "newReader h gitDir ref = Inr r" "replay d h r = Inr m" "loadCurrentActorPolicy d h r = Inr s"
    "mfGenesisCommit m = created" "mfLedgerCommit m = created" "mfHistoryCommitCount m = 1"
    "grProjectID (mfGenesisRoot m) = grProjectID root" "grLedgerID (mfGenesisRoot m) = grLedgerID root"
    "grContentSHA256 (mfGenesisRoot m) = grContentSHA256 root"
    "psLedgerCommit s = created" "psSourceEventID s = []" "psPolicyContentSHA s = pdContentSHA256 doc"
    "feStoragePath ev = rdGitDir r" "feGenesisCommit ev = created" "feLedgerCommit ev = mfLedgerCommit m"
    "feGenesisSHA256 ev = grContentSHA256 root" "feActorPolicySHA256 ev = pdContentSHA256 doc"
    unfolding verifyFreshGenesis_def prod.case_eq_if andThen_Inr_iff wrap_Inr_iff if_Inl_Inr_iff by auto
  then show ?thesis using replay_single [OF p(2,6)] unfolding freshLedger_def by metis
qed

lemma fresh_genesis_created:
  "case initializeFreshGenesis d w gitDir ref0 rawGenesis seeds h of
     (h', Inl e) \<Rightarrow> is_ok (checkFreshGenesis d rawGenesis seeds) \<or> h' = h
   | (h', Inr ev) \<Rightarrow> \<exists>root files doc r. checkFreshGenesis d rawGenesis seeds = Inr (root, files, doc) \<and>
       newReader h' gitDir (if ref0 = [] then defaultRef else ref0) = Inr r \<and>
       freshLedger d h' r root doc (feGenesisCommit ev) \<and> feLedgerCommit ev = feGenesisCommit ev \<and>
       feStoragePath ev = rdGitDir r \<and> feGenesisSHA256 ev = grContentSHA256 root \<and> feActorPolicySHA256 ev = pdContentSHA256 doc"
proof (cases "checkFreshGenesis d rawGenesis seeds")
  case (Inl e)
  then show ?thesis by (simp add: initializeFreshGenesis_def Let_def hbind_def hread_def)
next
  case (Inr c)
  obtain root files doc where c: "checkFreshGenesis d rawGenesis seeds = Inr (root, files, doc)"
    using Inr by (cases c) auto
  obtain h' res where i: "initializeFreshGenesis d w gitDir ref0 rawGenesis seeds h = (h', res)" by fastforce
  show ?thesis
  proof (cases res)
    case (Inl e)
    then show ?thesis using i c by simp
  next
    case (Inr ev)
    then obtain created where "verifyFreshGenesis d gitDir (if ref0 = [] then defaultRef else ref0) root doc created h' = Inr ev"
      using i c by (auto simp: initializeFreshGenesis_def Let_def hbind_Inr)
    from verifyFreshGenesis_Inr [OF this] show ?thesis using i c Inr by auto
  qed
qed

text \<open>C13: A fresh ledger is created all or nothing as far as the input goes: input that fails a check leaves
  the host untouched, and success means that the repository now at that path, opened and replayed again, has
  one commit, no event, the Genesis identity of the supplied record and the supplied actor policy as its
  current policy.\<close>

theorem fresh_genesis_verified:
  "case initializeFreshGenesis d w gitDir ref0 rawGenesis seeds h of
     (h', Inl e) \<Rightarrow> is_ok (checkFreshGenesis d rawGenesis seeds) \<or> h' = h
   | (h', Inr ev) \<Rightarrow> \<exists>root files doc r. checkFreshGenesis d rawGenesis seeds = Inr (root, files, doc) \<and>
       newReader h' gitDir (if ref0 = [] then defaultRef else ref0) = Inr r \<and>
       freshLedger d h' r root doc (feGenesisCommit ev) \<and> feLedgerCommit ev = feGenesisCommit ev \<and>
       feStoragePath ev = rdGitDir r \<and> feGenesisSHA256 ev = grContentSHA256 root \<and> feActorPolicySHA256 ev = pdContentSHA256 doc"
  by (rule fresh_genesis_created)

end
