(* ===== verification/Exchange.thy ===== *)
theory Exchange
  imports Restore_Proof Knowledge "HOL-Library.Multiset"
begin

text \<open>
  internal/portable (bundles that carry a ledger's knowledge elsewhere: their normal form, their checks and the
  order-independent check of provenance records) and internal/witness (signed statements on a ledger head).
\<close>

section \<open>Witness statements\<close>

record witnessStatement =
  wtLedgerID :: string
  wtHeadCommit :: string
  wtProjectionSHA256 :: string
  wtWitnessedAt :: string

record witnessEnvelope =
  wvStatement :: witnessStatement
  wvSignature :: string

definition witnessErr :: "string \<Rightarrow> goerr" where
  "witnessErr msg = Errorf (''WITNESS_INVALID: '' @ msg) []"

definition witnessJson :: "witnessStatement \<Rightarrow> json" where
  "witnessJson s = JObj [(''ledger_id'', JStr (wtLedgerID s)), (''head_commit'', JStr (wtHeadCommit s)),
     (''projection_sha256'', JStr (wtProjectionSHA256 s)), (''witnessed_at'', JStr (wtWitnessedAt s))]"

definition canonicalStatement :: "(string \<Rightarrow> string res) \<Rightarrow> witnessStatement \<Rightarrow> string res" where
  "canonicalStatement jcs s =
    (if wtLedgerID s = [] \<or> wtHeadCommit s = [] \<or> wtProjectionSHA256 s = []
     then Inl (witnessErr ''ledger, head and projection digest required'') else
     andThen (wrapw ''WITNESS_INVALID: witnessed_at'' (parseTime (wtWitnessedAt s))) (\<lambda>_.
     canonicalize jcs (render (witnessJson s))))"

text \<open>Ed25519 is two parameters, signing with a private key and verifying with a public key.\<close>

definition witnessSign ::
  "(string \<Rightarrow> string res) \<Rightarrow> (string \<Rightarrow> string \<Rightarrow> string) \<Rightarrow> string \<Rightarrow> witnessStatement \<Rightarrow> witnessEnvelope res" where
  "witnessSign jcs sign privateKey s =
    andThen (canonicalStatement jcs s) (\<lambda>payload.
    Inr \<lparr>wvStatement = s, wvSignature = stdEncode (sign privateKey payload)\<rparr>)"

definition witnessVerify ::
  "(string \<Rightarrow> string res) \<Rightarrow> (string \<Rightarrow> string \<Rightarrow> string \<Rightarrow> bool) \<Rightarrow> string \<Rightarrow> witnessEnvelope \<Rightarrow> unit res" where
  "witnessVerify jcs verifySig publicKey e =
    andThen (canonicalStatement jcs (wvStatement e)) (\<lambda>payload.
    case stdDecode (wvSignature e) of
      None \<Rightarrow> Inl (witnessErr ''signature encoding'')
    | Some sig \<Rightarrow> if \<not> verifySig publicKey payload sig then Inl (witnessErr ''signature verification failed'') else Inr ())"

section \<open>Provenance records in any order\<close>

text \<open>One round over the records: those that can be added are, the others are kept for the next round.\<close>

fun provPass :: "provGraph \<Rightarrow> provRecord list \<Rightarrow> provGraph \<times> provRecord list \<times> bool" where
  "provPass g [] = (g, [], False)"
| "provPass g (r # rs) =
    (case provAdd g r of
       Inr g' \<Rightarrow> (case provPass g' rs of (g'', nxt, _) \<Rightarrow> (g'', nxt, True))
     | Inl _ \<Rightarrow> (case provPass g rs of (g'', nxt, progress) \<Rightarrow> (g'', r # nxt, progress)))"

lemma provPass_length: "provPass g rs = (g', nxt, progress) \<Longrightarrow> length nxt \<le> length rs \<and> (progress \<longleftrightarrow> length nxt < length rs)"
  by (induction g rs arbitrary: nxt progress rule: provPass.induct) (fastforce split: sum.split_asm prod.split_asm)+

definition errProvenance :: goerr where
  "errProvenance = Errorf ''PORTABLE_INVALID: provenance dependencies are missing or cyclic'' []"

function provRounds :: "provGraph \<Rightarrow> provRecord list \<Rightarrow> unit res" where
  "provRounds g remaining =
    (if remaining = [] then Inr ()
     else case provPass g remaining of (g', nxt, progress) \<Rightarrow> if \<not> progress then Inl errProvenance else provRounds g' nxt)"
  by pat_completeness auto

termination provRounds
  by (relation "measure (\<lambda>(g, rs). length rs)") (auto dest: provPass_length [OF sym])

declare provRounds.simps [simp del]

definition validateProvenance :: "provRecord list \<Rightarrow> unit res" where
  "validateProvenance records = provRounds [] records"

section \<open>Bundles\<close>

definition portableFormatV1 :: string where "portableFormatV1 = ''urn:threadkeeper:portable-core:v1''"

record portableBundle =
  pbFormat :: string
  pbLedgerCommit :: string
  pbRecoveryProof :: recoveryProof
  pbSources :: "knowledgeSource list"
  pbProvenance :: "provRecord list"
  pbDefinitions :: "relDefinition list"
  pbRelationships :: "relEdge list"
  pbConflicts :: "conflictSet list"
  pbEvidence :: "evidenceEnvelope list"

fun portableEvidence :: "string list \<Rightarrow> evidenceEnvelope list \<Rightarrow> unit res" where
  "portableEvidence seen [] = Inr ()"
| "portableEvidence seen (e # es) =
    andThen (envelopeValidate e) (\<lambda>_.
    if eeRecordID e \<in> set seen then Inl (Errorf ''PORTABLE_INVALID: duplicate evidence record'' [])
    else portableEvidence (eeRecordID e # seen) es)"

definition portableValidate :: "portableBundle \<Rightarrow> unit res" where
  "portableValidate b =
    (if pbFormat b \<noteq> portableFormatV1 then Inl (Errorf ''PORTABLE_INVALID: format'' [])
     else if pbLedgerCommit b = [] \<or> rvLedgerCommit (pbRecoveryProof b) \<noteq> pbLedgerCommit b
     then Inl (Errorf ''PORTABLE_INVALID: ledger/recovery proof identity mismatch'' []) else
     andThen (foldM sourceRegister [] (pbSources b)) (\<lambda>_.
     andThen (validateProvenance (pbProvenance b)) (\<lambda>_.
     andThen (foldM relDefine newRelGraph (pbDefinitions b)) (\<lambda>rg.
     andThen (foldM relAdd rg (pbRelationships b)) (\<lambda>_.
     andThen (foldM conflictAdd [] (pbConflicts b)) (\<lambda>_.
     portableEvidence [] (pbEvidence b)))))))"

section \<open>Every order is found\<close>

definition goodProv :: "provRecord \<Rightarrow> bool" where
  "goodProv r \<longleftrightarrow> pvID r \<noteq> [] \<and> (pvDerivedFrom r \<noteq> [] \<longrightarrow> pvProducerID r \<noteq> [] \<and> pvTransformationID r \<noteq> []) \<and>
     (\<forall>ref\<in>set (pvSourceVersions r). srSourceID ref \<noteq> [] \<and> srVersionID ref \<noteq> [])"

lemma provAdd_good:
  assumes "provOrdered g"
  shows "provAdd g r = Inr g' \<longleftrightarrow> goodProv r \<and> pvID r \<notin> fst ` set g \<and> set (pvDerivedFrom r) \<subseteq> fst ` set g \<and> g' = g @ [(pvID r, r)]"
  unfolding provAdd_Inr [OF assms] by (auto simp: goodProv_def map_of_eq_None_iff)

lemma provRun_graph:
  assumes "foldM provAdd g rs = Inr g'" "provOrdered g"
  shows "provOrdered g' \<and> fst ` set g' = fst ` set g \<union> pvID ` set rs \<and> distinct (map pvID rs) \<and> pvID ` set rs \<inter> fst ` set g = {}"
  using assms
proof (induction rs arbitrary: g)
  case (Cons r rs)
  then obtain g1 where s: "provAdd g r = Inr g1" "foldM provAdd g1 rs = Inr g'" by (auto simp: andThen_Inr_iff)
  have g1: "provOrdered g1" by (rule provAdd_ordered [OF Cons.prems(2) s(1)])
  have "g1 = g @ [(pvID r, r)]" "pvID r \<notin> fst ` set g" using s(1) unfolding provAdd_good [OF Cons.prems(2)] by auto
  then show ?case using Cons.IH [OF s(2) g1] by auto
qed simp

lemma provPass_run:
  assumes "provPass g rs = (g', nxt, progress)"
  shows "\<exists>added. foldM provAdd g added = Inr g' \<and> mset rs = mset added + mset nxt \<and> (\<not> progress \<longrightarrow> g' = g \<and> (\<forall>r\<in>set rs. \<not> is_ok (provAdd g r)))"
  using assms
proof (induction rs arbitrary: g nxt progress)
  case Nil
  then show ?case by (intro exI [of _ "[]"]) simp
next
  case (Cons r rs)
  show ?case
  proof (cases "provAdd g r")
    case (Inr g1)
    then obtain p where "provPass g1 rs = (g', nxt, p)" "progress" using Cons.prems by (auto split: prod.split_asm)
    with Cons.IH obtain added where "foldM provAdd g1 added = Inr g'" "mset rs = mset added + mset nxt" by blast
    then show ?thesis using Inr \<open>progress\<close> by (intro exI [of _ "r # added"]) simp
  next
    case (Inl e)
    then obtain nxt' where n: "provPass g rs = (g', nxt', progress)" "nxt = r # nxt'" using Cons.prems by (auto split: prod.split_asm)
    with Cons.IH obtain added where "foldM provAdd g added = Inr g'" "mset rs = mset added + mset nxt'"
      "\<not> progress \<longrightarrow> g' = g \<and> (\<forall>r\<in>set rs. \<not> is_ok (provAdd g r))" by blast
    then show ?thesis using Inl n(2) by (intro exI [of _ added]) auto
  qed
qed

text \<open>As long as some record is missing, the first missing one of a working order can be added.\<close>

lemma missing_addable:
  assumes "foldM provAdd [] order = Inr full" "provOrdered g" "\<exists>r\<in>set order. pvID r \<notin> fst ` set g"
  shows "\<exists>r\<in>set order. pvID r \<notin> fst ` set g \<and> is_ok (provAdd g r)"
proof -
  obtain a r b where o: "order = a @ r # b" and r: "pvID r \<notin> fst ` set g" and a: "\<forall>x\<in>set a. pvID x \<in> fst ` set g"
    using split_list_first_prop [OF assms(3)] by blast
  obtain ga where ga: "foldM provAdd [] a = Inr ga" "is_ok (provAdd ga r)"
    using assms(1) unfolding o by (auto simp: foldM_append andThen_Inr_iff is_ok_iff)
  have "provOrdered ga" "fst ` set ga = pvID ` set a" using provRun_graph [OF ga(1)] by auto
  with ga(2) have "goodProv r" "set (pvDerivedFrom r) \<subseteq> pvID ` set a" by (auto simp: is_ok_iff provAdd_good)
  then have "provAdd g r = Inr (g @ [(pvID r, r)])" using r a unfolding provAdd_good [OF assms(2)] by auto
  then show ?thesis using o r by auto
qed

lemma provRounds_complete:
  assumes "foldM provAdd [] order = Inr full" "foldM provAdd [] past = Inr g" "mset order = mset past + mset remaining"
  shows "provRounds g remaining = Inr ()"
  using assms(2,3)
proof (induction g remaining arbitrary: past rule: provRounds.induct)
  case (1 g remaining)
  show ?case
  proof (cases "remaining = []")
    case False
    obtain g' nxt progress where p: "provPass g remaining = (g', nxt, progress)" by (cases "provPass g remaining") auto
    from provPass_run [OF p] obtain added where ad: "foldM provAdd g added = Inr g'" "mset remaining = mset added + mset nxt"
      "\<not> progress \<longrightarrow> g' = g \<and> (\<forall>r\<in>set remaining. \<not> is_ok (provAdd g r))" by blast
    have g: "provOrdered g" "fst ` set g = pvID ` set past" using provRun_graph [OF 1(2)] by auto
    have "distinct (map pvID order)" using provRun_graph [OF assms(1)] by simp
    moreover have perm: "mset (map pvID order) = mset (map pvID past @ map pvID remaining)" using 1(3) by simp
    ultimately have d: "distinct (map pvID past @ map pvID remaining)" by (metis mset_eq_imp_distinct_iff)
    have sets: "set order = set past \<union> set remaining" using 1(3) by (metis set_append mset_append mset_eq_setD)
    have "\<exists>r\<in>set order. pvID r \<notin> fst ` set g" using False d sets g(2) by (cases remaining) auto
    from missing_addable [OF assms(1) g(1) this] obtain r where "r \<in> set remaining" "is_ok (provAdd g r)"
      using sets g(2) by auto
    then have prog: progress using ad(3) by blast
    have "foldM provAdd [] (past @ added) = Inr g'" using 1(2) ad(1) by (simp add: foldM_append)
    moreover have "mset order = mset (past @ added) + mset nxt" using 1(3) ad(2) by simp
    ultimately have "provRounds g' nxt = Inr ()" using 1(1) [OF False p [symmetric] refl] prog by blast
    then show ?thesis using False p prog by (simp add: provRounds.simps [of g])
  qed (simp add: provRounds.simps)
qed

lemma provRounds_sound:
  assumes "provRounds g remaining = Inr ()"
  shows "\<exists>order g'. mset order = mset remaining \<and> foldM provAdd g order = Inr g'"
  using assms
proof (induction g remaining rule: provRounds.induct)
  case (1 g remaining)
  show ?case
  proof (cases "remaining = []")
    case False
    obtain g' nxt progress where p: "provPass g remaining = (g', nxt, progress)" by (cases "provPass g remaining") auto
    then have prog: "progress" "provRounds g' nxt = Inr ()" using 1(2) False by (simp_all add: provRounds.simps [of g] split: if_split_asm)
    from provPass_run [OF p] obtain added where ad: "foldM provAdd g added = Inr g'" "mset remaining = mset added + mset nxt" by blast
    from 1(1) [OF False p [symmetric] refl] prog obtain rest g2 where "mset rest = mset nxt" "foldM provAdd g' rest = Inr g2" by blast
    then show ?thesis using ad by (intro exI [of _ "added @ rest"]) (simp add: foldM_append)
  qed simp
qed

text \<open>C39: The provenance records of a bundle are accepted exactly when there is some order in which the graph
  takes them one after the other, whatever order the bundle has; the rounds over the remaining records always
  end.\<close>

theorem provenance_order_irrelevant:
  "validateProvenance records = Inr () \<longleftrightarrow> (\<exists>order g. mset order = mset records \<and> foldM provAdd [] order = Inr g)"
  using provRounds_sound [of "[]" records] provRounds_complete [of _ _ "[]" "[]" records]
  by (auto simp: validateProvenance_def)

end
