(* ===== verification/Source_Adapter.thy ===== *)
theory Source_Adapter
  imports Git_Reader Knowledge
begin

text \<open>
  internal/sourceadapter: reading one exact version of a source file below a root directory and putting it
  into escrow. Paths are those of Unix; the context of a call is not modelled.
\<close>

record fileRequest =
  fqSourceID :: string
  fqRelativePath :: string
  fqExpectedSHA256 :: string
  fqMediaType :: string

record fileSnapshot =
  fsVersion :: sourceVersion
  fsContent :: string
  fsMediaType :: string

definition adapterErr :: "string \<Rightarrow> goerr" where
  "adapterErr msg = Errorf (''SOURCE_ADAPTER_INVALID: '' @ msg) []"

definition newFileAdapter :: "host \<Rightarrow> string \<Rightarrow> string res" where
  "newFileAdapter h root =
    (if root = [] then Inl (adapterErr ''root required'') else
     andThen (pathAbs h root) (\<lambda>abs.
     andThen (hsLstat h abs) (\<lambda>info.
     if fiKind info = SymbolicLink \<or> fiKind info \<noteq> Directory then Inl (adapterErr ''root must be a real directory'') else Inr abs)))"

text \<open>The loop over the parts of the path, with the path reached so far.\<close>

fun rejectSymlinkParts :: "host \<Rightarrow> string \<Rightarrow> string list \<Rightarrow> unit res" where
  "rejectSymlinkParts h current [] = Inr ()"
| "rejectSymlinkParts h current (part # parts) =
    (let current' = pathJoin [current, part] in
     andThen (hsLstat h current') (\<lambda>info.
     if fiKind info = SymbolicLink then Inl (adapterErr ''symlink path component'') else rejectSymlinkParts h current' parts))"

definition rejectSymlinkPath :: "host \<Rightarrow> string \<Rightarrow> string \<Rightarrow> unit res" where
  "rejectSymlinkPath h root rel = rejectSymlinkParts h root (splitOn CHR ''/'' (pathClean rel))"

definition sourceFetch :: "host \<Rightarrow> string \<Rightarrow> fileRequest \<Rightarrow> fileSnapshot res" where
  "sourceFetch h root req =
    (if fqSourceID req = [] \<or> fqExpectedSHA256 req = [] then Inl (adapterErr ''source id and exact digest required'') else
     let clean = pathClean (fqRelativePath req) in
     if fqRelativePath req = [] \<or> pathIsAbs clean \<or> clean = ''.'' \<or> clean = ''..'' \<or> hasPrefix clean ''../''
     then Inl (adapterErr ''unsafe relative path'') else
     let full = pathJoin [root, clean] in
     andThen (rejectSymlinkPath h root clean) (\<lambda>_.
     andThen (hsLstat h full) (\<lambda>info.
     if fiKind info = SymbolicLink \<or> fiKind info \<noteq> RegularFile then Inl (adapterErr ''source path must be a regular file'') else
     andThen (hsReadFile h full) (\<lambda>content.
     let got = hashContent content in
     if got \<noteq> toLower (fqExpectedSHA256 req) then Inl (Errorf ''SOURCE_VERSION_MISMATCH'' [])
     else Inr \<lparr>fsVersion = \<lparr>svID = got, svContentSHA256 = got, svLocator = clean, svObservedAt = []\<rparr>, fsContent = content,
               fsMediaType = fqMediaType req\<rparr>))))"

text \<open>The escrow store is a directory of blobs; it may be nil.\<close>

definition fetchAndEscrow ::
  "ioFault \<Rightarrow> host \<Rightarrow> string \<Rightarrow> blobDir option \<Rightarrow> fileRequest \<Rightarrow> blobDir option \<times> (sourceVersion \<times> escrowSnapshot) res" where
  "fetchAndEscrow fault h root store req =
    (case sourceFetch h root req of Inl e \<Rightarrow> (store, Inl e)
     | Inr snapshot \<Rightarrow>
       case store of None \<Rightarrow> (store, Inl (adapterErr ''escrow store required''))
       | Some dir \<Rightarrow>
         (case escrowPut fault dir (fqSourceID req) (svID (fsVersion snapshot)) (fqMediaType req) (fsContent snapshot) of
            (dir', stored) \<Rightarrow> (Some dir', andThen stored (\<lambda>st. Inr (fsVersion snapshot, st)))))"

section \<open>What was fetched\<close>

lemma clean_inside_plain:
  assumes "p \<noteq> []" "\<not> pathIsAbs (pathClean p)" "pathClean p \<noteq> ''.''" "pathClean p \<noteq> ''..''" "\<not> hasPrefix (pathClean p) ''../''"
  shows "list_all plainPart (splitOn CHR ''/'' (pathClean p))"
proof -
  have rel: "\<not> pathIsAbs p"
  proof
    assume "pathIsAbs p"
    then have "\<exists>t. pathClean p = CHR ''/'' # t" using assms(1) by (simp add: pathClean_def Let_def)
    with assms(2) show False by (auto simp: pathIsAbs_def hasPrefix_def)
  qed
  obtain k ns where q: "cleanParts False [] (splitOn CHR ''/'' p) = replicate k ''..'' @ ns" "list_all plainPart ns"
    using cleanParts_relative [of "[]" "[]" 0 "splitOn CHR ''/'' p"] by auto
  let ?qs = "replicate k ''..'' @ ns"
  have c: "pathClean p = joinWith ''/'' ?qs" using assms(1,3) rel q(1) by (auto simp: pathClean_def Let_def split: if_split_asm)
  have ne: "?qs \<noteq> []"
  proof
    assume "?qs = []"
    then have "pathClean p = ''.''" using assms(1) rel q(1) by (simp add: pathClean_def)
    with assms(3) show False by simp
  qed
  have sep: "CHR ''/'' \<notin> set x" if "x \<in> set ?qs" for x
    using that q(1) cleanParts_set [of False "[]" "splitOn CHR ''/'' p"] splitOn_no_sep [of x "CHR ''/''" p] by auto
  have "k = 0"
  proof (rule ccontr)
    assume "k \<noteq> 0"
    then obtain j where "?qs = ''..'' # (replicate j ''..'' @ ns)" by (cases k) auto
    then show False using assms(4,5) c by (cases "replicate j ''..'' @ ns = []") (auto simp: joinWith_Cons hasPrefix_iff)
  qed
  moreover have "splitOn CHR ''/'' (pathClean p) = ?qs" unfolding c by (intro split_join ne) (use sep in blast)
  ultimately show ?thesis using q(2) by simp
qed

text \<open>A snapshot is the requested version, byte for byte, of a regular file below the root; no part of its
  path leaves the root or, at the time it was looked at, was a symbolic link.\<close>

lemma fetched_source_is_exact:
  assumes "sourceFetch h root req = Inr s"
  shows "hashContent (fsContent s) = toLower (fqExpectedSHA256 req) \<and> svContentSHA256 (fsVersion s) = hashContent (fsContent s) \<and>
    svLocator (fsVersion s) = pathClean (fqRelativePath req) \<and>
    hsReadFile h (pathJoin [root, svLocator (fsVersion s)]) = Inr (fsContent s) \<and>
    list_all plainPart (splitOn CHR ''/'' (svLocator (fsVersion s))) \<and> is_ok (rejectSymlinkPath h root (svLocator (fsVersion s)))"
proof -
  let ?c = "pathClean (fqRelativePath req)"
  have p: "fqRelativePath req \<noteq> [] \<and> \<not> pathIsAbs ?c \<and> ?c \<noteq> ''.'' \<and> ?c \<noteq> ''..'' \<and> \<not> hasPrefix ?c ''../''"
    using assms by (auto simp: sourceFetch_def Let_def split: if_split_asm)
  have "hsReadFile h (pathJoin [root, ?c]) = Inr (fsContent s) \<and> hashContent (fsContent s) = toLower (fqExpectedSHA256 req) \<and>
      svContentSHA256 (fsVersion s) = hashContent (fsContent s) \<and> svLocator (fsVersion s) = ?c \<and> is_ok (rejectSymlinkPath h root ?c)"
    using assms p by (auto simp: sourceFetch_def Let_def andThen_Inr_iff is_ok_iff split: if_split_asm)
  then show ?thesis using clean_inside_plain [of "fqRelativePath req"] p by simp
qed

end
