(* ===== verification/Knowledge_Json.thy ===== *)
theory Knowledge_Json
  imports Restore_Proof Knowledge Canonical_Numbers
begin

text \<open>
  The JSON of the knowledge types (internal/source, provenance, relationship, conflict, coverage, temporal and
  evidence): what \<open>json.Marshal\<close> writes for each struct by its tags and what decoding into the struct reads. The
  lemmas read every written value back, also after a canonicalizer has reordered members and rewritten numbers.
  A Go map is kept with its keys sorted here, the order in which it is written.
\<close>

section \<open>Writing\<close>

text \<open>Members with \<open>omitempty\<close>.\<close>

definition optStr :: "string \<Rightarrow> string \<Rightarrow> (string \<times> json) list" where
  "optStr k s = (if s = [] then [] else [(k, JStr s)])"

definition optArr :: "string \<Rightarrow> json list \<Rightarrow> (string \<times> json) list" where
  "optArr k vs = (if vs = [] then [] else [(k, JArr vs)])"

definition jstrs :: "string list \<Rightarrow> json list" where "jstrs = map JStr"

definition jint :: "int \<Rightarrow> json" where "jint i = JNum (intDec i)"

definition preservationMembers :: "escrowPolicy \<Rightarrow> (string \<times> json) list" where
  "preservationMembers p = (''mode'', JStr (epMode p)) # (if epMaxBytes p = 0 then [] else [(''max_bytes'', jint (epMaxBytes p))])"

definition versionMembers :: "sourceVersion \<Rightarrow> (string \<times> json) list" where
  "versionMembers v = (''id'', JStr (svID v)) # optStr ''content_sha256'' (svContentSHA256 v) @ optStr ''locator'' (svLocator v) @
     optStr ''observed_at'' (svObservedAt v)"

definition versionsMembers :: "(string, sourceVersion) gomap \<Rightarrow> (string \<times> json) list" where
  "versionsMembers m = map (\<lambda>(k, v). (k, JObj (versionMembers v))) (sort_key fst m)"

definition sourceMembers :: "knowledgeSource \<Rightarrow> (string \<times> json) list" where
  "sourceMembers s = (''id'', JStr (ksID s)) # (''kind'', JStr (ksKind s)) # (''authority_class'', JStr (ksAuthorityClass s)) #
     (''classification'', JStr (ksClassification s)) # (''preservation'', JObj (preservationMembers (ksPreservation s))) #
     (if ksVersions s = [] then [] else [(''versions'', JObj (versionsMembers (ksVersions s)))])"

definition refMembers :: "sourceRef \<Rightarrow> (string \<times> json) list" where
  "refMembers r = [(''source_id'', JStr (srSourceID r)), (''version_id'', JStr (srVersionID r))]"

definition provMembers :: "provRecord \<Rightarrow> (string \<times> json) list" where
  "provMembers r = (''id'', JStr (pvID r)) # optArr ''source_versions'' (map (\<lambda>x. JObj (refMembers x)) (pvSourceVersions r)) @
     optArr ''derived_from'' (jstrs (pvDerivedFrom r)) @ optStr ''producer_id'' (pvProducerID r) @
     optStr ''transformation_id'' (pvTransformationID r)"

definition definitionMembers :: "relDefinition \<Rightarrow> (string \<times> json) list" where
  "definitionMembers d = [(''type'', JStr (rdType d)), (''symmetric'', JBool (rdSymmetric d))]"

definition edgeMembers :: "relEdge \<Rightarrow> (string \<times> json) list" where
  "edgeMembers e = (''from'', JStr (reFrom e)) # (''type'', JStr (reType e)) # (''to'', JStr (reTo e)) #
     optArr ''evidence'' (jstrs (reEvidence e))"

definition conflictMembers :: "conflictSet \<Rightarrow> (string \<times> json) list" where
  "conflictMembers c = (''id'', JStr (csID c)) # (''records'', JArr (jstrs (csRecords c))) # (''material'', JBool (csMaterial c)) #
     (''state'', JStr (csState c)) # optStr ''resolution_event_id'' (csResolutionEventID c)"

definition coverageMembers :: "coverageReport \<Rightarrow> (string \<times> json) list" where
  "coverageMembers r = (''sources_expected'', jint (cvExpected r)) # (''sources_available'', jint (cvAvailable r)) #
     (''sources_checked'', jint (cvChecked r)) # (''complete'', JBool (cvComplete r)) #
     optStr ''last_complete_ingestion'' (cvLastCompleteIngestion r) @ optArr ''known_gaps'' (jstrs (cvKnownGaps r))"

definition windowMembers :: "window \<Rightarrow> (string \<times> json) list" where
  "windowMembers w = optStr ''effective_from'' (wnEffectiveFrom w) @ optStr ''effective_until'' (wnEffectiveUntil w) @
     [(''observed_at'', JStr (wnObservedAt w)), (''accepted_at'', JStr (wnAcceptedAt w))]"

text \<open>Only the score can make \<open>json.Marshal\<close> fail: it has no text for infinities and NaN.\<close>

definition errUnsupportedValue :: goerr where
  "errUnsupportedValue = ErrNew ''json: unsupported value''"

definition scoreMembers :: "64 word option \<Rightarrow> (string \<times> json) list res" where
  "scoreMembers s = (case s of None \<Rightarrow> Inr []
     | Some x \<Rightarrow> (case floatText x of None \<Rightarrow> Inl errUnsupportedValue | Some t \<Rightarrow> Inr [(''retrieval_score'', JNum t)]))"

definition envelopeMembers :: "evidenceEnvelope \<Rightarrow> (string \<times> json) list res" where
  "envelopeMembers e = andThen (scoreMembers (eeRetrievalScore e)) (\<lambda>score.
     Inr ((''record_id'', JStr (eeRecordID e)) # (''record_type'', JStr (eeRecordType e)) #
       (''authority_class'', JStr (eeAuthorityClass e)) # optStr ''source_id'' (eeSourceID e) @
       optArr ''source_versions'' (jstrs (eeSourceVersions e)) @ optArr ''provenance'' (jstrs (eeProvenance e)) @
       optArr ''conflicts'' (jstrs (eeConflicts e)) @ (''superseded'', JBool (eeSuperseded e)) #
       optStr ''projection_version'' (eeProjectionVersion e) @ score @
       (case eeCoverage e of None \<Rightarrow> [] | Some c \<Rightarrow> [(''coverage'', JObj (coverageMembers c))]) @
       (case eeTemporal e of None \<Rightarrow> [] | Some w \<Rightarrow> [(''temporal'', JObj (windowMembers w))]) @
       [(''classification'', JStr (eeClassification e))]))"

section \<open>Reading\<close>

text \<open>Decoding into a struct with given field names; \<open>strict\<close> is \<open>DisallowUnknownFields\<close>.\<close>

definition decStruct :: "bool \<Rightarrow> string list \<Rightarrow> ((string \<Rightarrow> json list) \<Rightarrow> 'a res) \<Rightarrow> json list \<Rightarrow> 'a res" where
  "decStruct strict names body vs =
    andThen (structMembers vs) (\<lambda>ms.
    andThen (require (\<not> strict \<or> knownFields names ms) errUnmarshal) (\<lambda>_. body (fieldValues names ms)))"

definition decPtr :: "(json list \<Rightarrow> 'a res) \<Rightarrow> json list \<Rightarrow> 'a option res" where
  "decPtr dec vs = andThen (ptrMembers vs) (\<lambda>p. case p of None \<Rightarrow> Inr None | Some ms \<Rightarrow> andThen (dec [JObj ms]) (\<lambda>x. Inr (Some x)))"

definition decSliceOf :: "(json list \<Rightarrow> 'a res) \<Rightarrow> json list \<Rightarrow> 'a list res" where
  "decSliceOf dec vs = andThen (sliceHistory vs) (mapM dec)"

text \<open>Each value of a map is decoded from scratch; \<open>null\<close> makes the map nil.\<close>

definition decMapOf :: "(json list \<Rightarrow> 'a res) \<Rightarrow> json list \<Rightarrow> (string, 'a) gomap res" where
  "decMapOf dec vs =
    andThen (foldM (\<lambda>acc v. case v of
        JObj ms \<Rightarrow> foldM (\<lambda>acc (k, x). andThen (dec [x]) (\<lambda>y. Inr (mput k y acc))) acc ms
      | JNull \<Rightarrow> Inr [] | _ \<Rightarrow> Inl errUnmarshal) [] vs) (\<lambda>m. Inr (sort_key fst m))"

definition decPreservation :: "bool \<Rightarrow> json list \<Rightarrow> escrowPolicy res" where
  "decPreservation strict = decStruct strict [''mode'', ''max_bytes''] (\<lambda>f.
    andThen (decString (f ''mode'')) (\<lambda>mode.
    andThen (decInt64 (f ''max_bytes'')) (\<lambda>max. Inr \<lparr>epMode = mode, epMaxBytes = max\<rparr>)))"

definition decVersion :: "bool \<Rightarrow> json list \<Rightarrow> sourceVersion res" where
  "decVersion strict = decStruct strict [''id'', ''content_sha256'', ''locator'', ''observed_at''] (\<lambda>f.
    andThen (decString (f ''id'')) (\<lambda>i.
    andThen (decString (f ''content_sha256'')) (\<lambda>sha.
    andThen (decString (f ''locator'')) (\<lambda>loc.
    andThen (decString (f ''observed_at'')) (\<lambda>seen.
    Inr \<lparr>svID = i, svContentSHA256 = sha, svLocator = loc, svObservedAt = seen\<rparr>)))))"

definition decSource :: "bool \<Rightarrow> json list \<Rightarrow> knowledgeSource res" where
  "decSource strict = decStruct strict [''id'', ''kind'', ''authority_class'', ''classification'', ''preservation'', ''versions''] (\<lambda>f.
    andThen (decString (f ''id'')) (\<lambda>i.
    andThen (decString (f ''kind'')) (\<lambda>kind.
    andThen (decString (f ''authority_class'')) (\<lambda>auth.
    andThen (decString (f ''classification'')) (\<lambda>cls.
    andThen (decPreservation strict (f ''preservation'')) (\<lambda>pres.
    andThen (decMapOf (decVersion strict) (f ''versions'')) (\<lambda>versions.
    Inr \<lparr>ksID = i, ksKind = kind, ksAuthorityClass = auth, ksClassification = cls, ksPreservation = pres, ksVersions = versions\<rparr>)))))))"

definition decRef :: "bool \<Rightarrow> json list \<Rightarrow> sourceRef res" where
  "decRef strict = decStruct strict [''source_id'', ''version_id''] (\<lambda>f.
    andThen (decString (f ''source_id'')) (\<lambda>s.
    andThen (decString (f ''version_id'')) (\<lambda>v. Inr \<lparr>srSourceID = s, srVersionID = v\<rparr>)))"

definition decProv :: "bool \<Rightarrow> json list \<Rightarrow> provRecord res" where
  "decProv strict = decStruct strict [''id'', ''source_versions'', ''derived_from'', ''producer_id'', ''transformation_id''] (\<lambda>f.
    andThen (decString (f ''id'')) (\<lambda>i.
    andThen (decSliceOf (decRef strict) (f ''source_versions'')) (\<lambda>refs.
    andThen (decStrings (f ''derived_from'')) (\<lambda>from.
    andThen (decString (f ''producer_id'')) (\<lambda>producer.
    andThen (decString (f ''transformation_id'')) (\<lambda>trans.
    Inr \<lparr>pvID = i, pvSourceVersions = refs, pvDerivedFrom = from, pvProducerID = producer, pvTransformationID = trans\<rparr>))))))"

definition decDefinition :: "bool \<Rightarrow> json list \<Rightarrow> relDefinition res" where
  "decDefinition strict = decStruct strict [''type'', ''symmetric''] (\<lambda>f.
    andThen (decString (f ''type'')) (\<lambda>t.
    andThen (decBool (f ''symmetric'')) (\<lambda>s. Inr \<lparr>rdType = t, rdSymmetric = s\<rparr>)))"

definition decEdge :: "bool \<Rightarrow> json list \<Rightarrow> relEdge res" where
  "decEdge strict = decStruct strict [''from'', ''type'', ''to'', ''evidence''] (\<lambda>f.
    andThen (decString (f ''from'')) (\<lambda>frm.
    andThen (decString (f ''type'')) (\<lambda>t.
    andThen (decString (f ''to'')) (\<lambda>to.
    andThen (decStrings (f ''evidence'')) (\<lambda>ev. Inr \<lparr>reFrom = frm, reType = t, reTo = to, reEvidence = ev\<rparr>)))))"

definition decConflict :: "bool \<Rightarrow> json list \<Rightarrow> conflictSet res" where
  "decConflict strict = decStruct strict [''id'', ''records'', ''material'', ''state'', ''resolution_event_id''] (\<lambda>f.
    andThen (decString (f ''id'')) (\<lambda>i.
    andThen (decStrings (f ''records'')) (\<lambda>rs.
    andThen (decBool (f ''material'')) (\<lambda>m.
    andThen (decString (f ''state'')) (\<lambda>st.
    andThen (decString (f ''resolution_event_id'')) (\<lambda>ev.
    Inr \<lparr>csID = i, csRecords = rs, csMaterial = m, csState = st, csResolutionEventID = ev\<rparr>))))))"

definition decCoverage :: "bool \<Rightarrow> json list \<Rightarrow> coverageReport res" where
  "decCoverage strict = decStruct strict
     [''sources_expected'', ''sources_available'', ''sources_checked'', ''complete'', ''last_complete_ingestion'', ''known_gaps''] (\<lambda>f.
    andThen (decInt64 (f ''sources_expected'')) (\<lambda>e.
    andThen (decInt64 (f ''sources_available'')) (\<lambda>a.
    andThen (decInt64 (f ''sources_checked'')) (\<lambda>c.
    andThen (decBool (f ''complete'')) (\<lambda>b.
    andThen (decString (f ''last_complete_ingestion'')) (\<lambda>l.
    andThen (decStrings (f ''known_gaps'')) (\<lambda>g.
    Inr \<lparr>cvExpected = e, cvAvailable = a, cvChecked = c, cvComplete = b, cvLastCompleteIngestion = l, cvKnownGaps = g\<rparr>)))))))"

definition decWindow :: "bool \<Rightarrow> json list \<Rightarrow> window res" where
  "decWindow strict = decStruct strict [''effective_from'', ''effective_until'', ''observed_at'', ''accepted_at''] (\<lambda>f.
    andThen (decString (f ''effective_from'')) (\<lambda>a.
    andThen (decString (f ''effective_until'')) (\<lambda>b.
    andThen (decString (f ''observed_at'')) (\<lambda>c.
    andThen (decString (f ''accepted_at'')) (\<lambda>d.
    Inr \<lparr>wnEffectiveFrom = a, wnEffectiveUntil = b, wnObservedAt = c, wnAcceptedAt = d\<rparr>)))))"

definition envelopeNames :: "string list" where
  "envelopeNames = [''record_id'', ''record_type'', ''authority_class'', ''source_id'', ''source_versions'', ''provenance'',
     ''conflicts'', ''superseded'', ''projection_version'', ''retrieval_score'', ''coverage'', ''temporal'', ''classification'']"

definition decEvidence :: "bool \<Rightarrow> json list \<Rightarrow> evidenceEnvelope res" where
  "decEvidence strict = decStruct strict envelopeNames (\<lambda>f.
    andThen (decString (f ''record_id'')) (\<lambda>i.
    andThen (decString (f ''record_type'')) (\<lambda>t.
    andThen (decString (f ''authority_class'')) (\<lambda>auth.
    andThen (decString (f ''source_id'')) (\<lambda>src.
    andThen (decStrings (f ''source_versions'')) (\<lambda>versions.
    andThen (decStrings (f ''provenance'')) (\<lambda>prov.
    andThen (decStrings (f ''conflicts'')) (\<lambda>conf.
    andThen (decBool (f ''superseded'')) (\<lambda>sup.
    andThen (decString (f ''projection_version'')) (\<lambda>pv.
    andThen (decPtrFloat (f ''retrieval_score'')) (\<lambda>score.
    andThen (decPtr (decCoverage strict) (f ''coverage'')) (\<lambda>cov.
    andThen (decPtr (decWindow strict) (f ''temporal'')) (\<lambda>win.
    andThen (decString (f ''classification'')) (\<lambda>cls.
    Inr \<lparr>eeRecordID = i, eeRecordType = t, eeAuthorityClass = auth, eeSourceID = src, eeSourceVersions = versions,
      eeProvenance = prov, eeConflicts = conf, eeSuperseded = sup, eeProjectionVersion = pv, eeRetrievalScore = score,
      eeCoverage = cov, eeTemporal = win, eeClassification = cls\<rparr>))))))))))))))"

section \<open>What is written is read back\<close>

definition fld :: "(json \<Rightarrow> json) \<Rightarrow> (string \<times> json) list \<Rightarrow> string \<Rightarrow> json list" where
  "fld nf ms k = (case mget ms k of None \<Rightarrow> [] | Some v \<Rightarrow> [nf v])"

lemma fieldValues_mget:
  assumes "mwf ms" "fst ` set ms \<subseteq> set names"
  shows "fieldValues names ms k = (case mget ms k of None \<Rightarrow> [] | Some v \<Rightarrow> [v])"
proof (cases "mget ms k")
  case None
  then have "\<forall>m\<in>set ms. fst m \<noteq> k" by (force simp: map_of_eq_None_iff)
  then have "filter (\<lambda>(k', v). fieldMatch names k' = Some k) ms = []" using assms(2) by (force simp: filter_empty_conv)
  then show ?thesis using None by (simp add: fieldValues_def)
next
  case (Some v)
  then have "(k, v) \<in> set ms" by (rule map_of_SomeD)
  then show ?thesis using fieldValues_distinct [of ms names k v] assms Some by auto
qed

lemma decStruct_nf:
  assumes "nfStructure nf" "mwf ms" "fst ` set ms \<subseteq> set names"
  shows "decStruct strict names body [nf (JObj ms)] = body (fld nf ms)"
proof -
  obtain ms' where m: "nf (JObj ms) = JObj ms'" "mwf ms'" "\<And>k. mget ms' k = map_option nf (mget ms k)"
    using assms(1,2) unfolding nfStructure_def by meson
  have "fst ` set ms' \<subseteq> set names"
  proof
    fix k assume "k \<in> fst ` set ms'"
    then have "mget ms' k \<noteq> None" by (simp add: map_of_eq_None_iff)
    then have "mget ms k \<noteq> None" using m(3) by auto
    then show "k \<in> set names" using assms(3) by (auto simp: map_of_eq_None_iff)
  qed
  moreover from this have "knownFields names ms'" by (intro knownFields_names) simp
  moreover have "fieldValues names ms' = fld nf ms"
    using fieldValues_mget [OF m(2) \<open>fst ` set ms' \<subseteq> set names\<close>] m(3) by (auto simp: fld_def fun_eq_iff split: option.split)
  ultimately show ?thesis by (simp add: decStruct_def m(1) structMembers_def require_def)
qed

lemma fld_simps:
  "fld nf [] k = []"
  "fld nf ((k', v) # r) k = (if k = k' then [nf v] else fld nf r k)"
  "fld nf (optStr k' s @ r) k = (if k = k' \<and> s \<noteq> [] then [nf (JStr s)] else fld nf r k)"
  "fld nf (optStr k' s) k = (if k = k' \<and> s \<noteq> [] then [nf (JStr s)] else [])"
  "fld nf (optArr k' vs @ r) k = (if k = k' \<and> vs \<noteq> [] then [nf (JArr vs)] else fld nf r k)"
  "fld nf (optArr k' vs) k = (if k = k' \<and> vs \<noteq> [] then [nf (JArr vs)] else [])"
  by (auto simp: fld_def optStr_def optArr_def)

lemma opt_keys:
  "fst ` set (optStr k s) \<subseteq> {k}" "fst ` set (optArr k vs) \<subseteq> {k}" "map fst (optStr k s) = (if s = [] then [] else [k])"
  "map fst (optArr k vs) = (if vs = [] then [] else [k])"
  by (auto simp: optStr_def optArr_def)

lemma dec_simps:
  "decString [] = Inr []" "decString [JStr s] = Inr s" "decString (if s = [] then [] else [JStr s]) = Inr s"
  "decBool [JBool b] = Inr b" "decStrings [] = Inr []" "decInt64 [] = Inr 0" "decPtrFloat [] = Inr None"
  "decSliceOf dec [] = Inr []" "decMapOf dec [] = Inr []" "decPtr decp [] = Inr None"
  by (simp_all add: decString_def decBool_def decStrings_def sliceHistory_def decInt64_def decPtrFloat_def decSliceOf_def decMapOf_def
      decPtr_def ptrMembers_def)

lemma overlay_fresh: "overlay [] xs = map (\<lambda>x. [x]) xs"
  by (induction xs) auto

lemma sliceHistory_single: "sliceHistory [JArr xs] = Inr (map (\<lambda>x. [x]) xs)"
  by (simp add: sliceHistory_def overlay_fresh)

lemma mapM_map: "(\<And>x. x \<in> set xs \<Longrightarrow> f (g x) = Inr (h x)) \<Longrightarrow> mapM f (map g xs) = Inr (map h xs)"
  by (induction xs) auto

lemma decSliceOf_map:
  assumes "\<And>x. x \<in> set xs \<Longrightarrow> dec [g x] = Inr (h x)"
  shows "decSliceOf dec [JArr (map g xs)] = Inr (map h xs)"
  using mapM_map [of xs dec "\<lambda>x. [g x]" h] assms by (simp add: decSliceOf_def sliceHistory_single comp_def)

lemma decStrings_jstrs: "decStrings [JArr (map JStr xs)] = Inr xs"
  using decSliceOf_map [of xs decString JStr id] by (simp add: decSliceOf_def decStrings_def dec_simps)

lemma decStrings_opt: "decStrings (if xs = [] then [] else [JArr (map JStr xs)]) = Inr xs"
  by (simp add: decStrings_jstrs dec_simps)

text \<open>What the normal form of a canonicalizer does to the pieces.\<close>

lemma nf_pieces:
  assumes "nfStructure nf"
  shows "nf (JStr s) = JStr s" "nf (JArr vs) = JArr (map nf vs)" "map nf (jstrs xs) = map JStr xs" "jstrs xs = [] \<longleftrightarrow> xs = []"
  using assms by (simp_all add: nfStructure_def jstrs_def)

definition safeInt :: "int \<Rightarrow> bool" where "safeInt i \<longleftrightarrow> \<bar>i\<bar> \<le> 2 ^ 53"

lemma decInt64_nf: "nfScalars nf \<Longrightarrow> safeInt i \<Longrightarrow> decInt64 [nf (jint i)] = Inr i"
  using decInt64_intDec [of i] by (simp add: nfScalars_def safeInt_def jint_def abs_le_iff)

lemma nf_bool: "nfScalars nf \<Longrightarrow> nf (JBool b) = JBool b" by (simp add: nfScalars_def)

lemmas codec_simps = fld_simps dec_simps nf_pieces decStrings_jstrs decStrings_opt decInt64_nf nf_bool

lemma decPreservation_nf:
  assumes "nfStructure nf" "nfScalars nf" "safeInt (epMaxBytes p)"
  shows "decPreservation strict [nf (JObj (preservationMembers p))] = Inr p"
  unfolding decPreservation_def
  by (subst decStruct_nf) (use assms in \<open>auto simp: preservationMembers_def codec_simps\<close>)

lemma decVersion_nf:
  assumes "nfStructure nf"
  shows "decVersion strict [nf (JObj (versionMembers v))] = Inr v"
  unfolding decVersion_def
  by (subst decStruct_nf) (use assms in \<open>auto simp: versionMembers_def codec_simps optStr_def\<close>)

lemma decRef_nf: "nfStructure nf \<Longrightarrow> decRef strict [nf (JObj (refMembers r))] = Inr r"
  unfolding decRef_def by (subst decStruct_nf) (auto simp: refMembers_def codec_simps)

lemma decDefinition_nf: "nfStructure nf \<Longrightarrow> nfScalars nf \<Longrightarrow> decDefinition strict [nf (JObj (definitionMembers d))] = Inr d"
  unfolding decDefinition_def by (subst decStruct_nf) (auto simp: definitionMembers_def codec_simps)

lemma decEdge_nf: "nfStructure nf \<Longrightarrow> decEdge strict [nf (JObj (edgeMembers e))] = Inr e"
  unfolding decEdge_def by (subst decStruct_nf) (auto simp: edgeMembers_def codec_simps optArr_def)

lemma decConflict_nf: "nfStructure nf \<Longrightarrow> nfScalars nf \<Longrightarrow> decConflict strict [nf (JObj (conflictMembers c))] = Inr c"
  unfolding decConflict_def by (subst decStruct_nf) (auto simp: conflictMembers_def codec_simps optStr_def)

lemma decWindow_nf: "nfStructure nf \<Longrightarrow> decWindow strict [nf (JObj (windowMembers w))] = Inr w"
  unfolding decWindow_def by (subst decStruct_nf) (auto simp: windowMembers_def codec_simps optStr_def)

lemma decCoverage_nf:
  assumes "nfStructure nf" "nfScalars nf" "safeInt (cvExpected r)" "safeInt (cvAvailable r)" "safeInt (cvChecked r)"
  shows "decCoverage strict [nf (JObj (coverageMembers r))] = Inr r"
  unfolding decCoverage_def by (subst decStruct_nf) (use assms in \<open>auto simp: coverageMembers_def codec_simps optStr_def optArr_def\<close>)

text \<open>Maps: a map is what its lookups say, so its sorted form is unique.\<close>

lemma sorted_map_unique:
  assumes "mwf m" "mwf m'" "\<And>k. mget m k = mget m' k"
  shows "sort_key fst m = sort_key fst m'"
proof (rule sort_key_unique)
  show "distinct m" "distinct m'" "inj_on fst (set m)" using assms(1,2) by (simp_all add: distinct_map)
  show "set m = set m'" using assms(3) map_of_eq_Some_iff [OF assms(1)] map_of_eq_Some_iff [OF assms(2)] by auto
qed

lemma decMap_members:
  assumes "\<forall>(k, x)\<in>set ms. \<exists>v. dec [x] = Inr v \<and> mget m k = Some v" "mwf acc"
  shows "\<exists>m'. foldM (\<lambda>acc (k, x). andThen (dec [x]) (\<lambda>y. Inr (mput k y acc))) acc ms = Inr m' \<and> mwf m' \<and>
    (\<forall>k. mget m' k = (if k \<in> fst ` set ms then mget m k else mget acc k))"
  using assms
proof (induction ms arbitrary: acc)
  case (Cons p ms)
  obtain k x where p: "p = (k, x)" by (cases p)
  with Cons.prems obtain v where v: "dec [x] = Inr v" "mget m k = Some v" by auto
  have "\<exists>m'. foldM (\<lambda>acc (k, x). andThen (dec [x]) (\<lambda>y. Inr (mput k y acc))) (mput k v acc) ms = Inr m' \<and> mwf m' \<and>
    (\<forall>j. mget m' j = (if j \<in> fst ` set ms then mget m j else mget (mput k v acc) j))"
    using Cons.prems by (intro Cons.IH) (auto intro: mwf_mput)
  then show ?case using v by (auto simp: p mget_mput)
qed simp

lemma decMapOf_nf:
  assumes "nfStructure nf" "mwf m" "\<And>k v. (k, v) \<in> set m \<Longrightarrow> dec [nf (g v)] = Inr v"
  shows "decMapOf dec [nf (JObj (map (\<lambda>(k, v). (k, g v)) m))] = Inr (sort_key fst m)"
proof -
  let ?ms = "map (\<lambda>(k, v). (k, g v)) m"
  have "mwf ?ms" using assms(2) by (simp add: comp_def case_prod_beta)
  then obtain ms' where ms: "nf (JObj ?ms) = JObj ms'" "mwf ms'" "\<And>k. mget ms' k = map_option nf (mget ?ms k)"
    using assms(1) unfolding nfStructure_def by meson
  have l: "mget ms' k = map_option (\<lambda>v. nf (g v)) (mget m k)" for k
    unfolding ms(3) by (simp add: map_of_map [symmetric] option.map_comp comp_def map_of_map)
  have "\<forall>(k, x)\<in>set ms'. \<exists>v. dec [x] = Inr v \<and> mget m k = Some v"
  proof clarify
    fix k x assume "(k, x) \<in> set ms'"
    then have "mget ms' k = Some x" using ms(2) by simp
    then obtain v where "mget m k = Some v" "x = nf (g v)" unfolding l by auto
    then show "\<exists>v. dec [x] = Inr v \<and> mget m k = Some v" using assms(3) map_of_SomeD by metis
  qed
  from decMap_members [OF this, of "[]"] obtain m' where m': "foldM (\<lambda>acc (k, x). andThen (dec [x]) (\<lambda>y. Inr (mput k y acc))) [] ms' = Inr m'"
    "mwf m'" "\<And>k. mget m' k = (if k \<in> fst ` set ms' then mget m k else None)" by auto
  have "mget m' k = mget m k" for k
  proof (cases "mget m k")
    case None
    then have "k \<notin> fst ` set ms'" using l [of k] by (simp add: map_of_eq_None_iff [symmetric])
    then show ?thesis using m'(3) [of k] None by simp
  next
    case (Some v)
    then have "k \<in> fst ` set ms'" using l [of k] map_of_eq_None_iff [of ms' k] by auto
    then show ?thesis using m'(3) [of k] by simp
  qed
  with m'(2) assms(2) have "sort_key fst m' = sort_key fst m" by (intro sorted_map_unique) auto
  then show ?thesis by (simp add: decMapOf_def ms(1) m'(1))
qed

lemma decProv_nf:
  assumes "nfStructure nf"
  shows "decProv strict [nf (JObj (provMembers r))] = Inr r"
proof -
  have r: "decSliceOf (decRef strict) [JArr (map (\<lambda>x. nf (JObj (refMembers x))) xs)] = Inr xs" for xs
    using decSliceOf_map [of xs "decRef strict" "\<lambda>x. nf (JObj (refMembers x))" id] decRef_nf [OF assms] by simp
  show ?thesis
    unfolding decProv_def
    by (subst decStruct_nf) (use assms in \<open>auto simp: provMembers_def codec_simps optStr_def optArr_def comp_def r\<close>)
qed

definition copySource :: "knowledgeSource \<Rightarrow> knowledgeSource" where
  "copySource s = s\<lparr>ksVersions := sort_key fst (ksVersions s)\<rparr>"

lemma decSource_nf:
  assumes "nfStructure nf" "nfScalars nf" "mwf (ksVersions s)" "safeInt (epMaxBytes (ksPreservation s))"
  shows "decSource strict [nf (JObj (sourceMembers s))] = Inr (copySource s)"
proof -
  have v: "decMapOf (decVersion strict) [nf (JObj (versionsMembers (ksVersions s)))] = Inr (sort_key fst (ksVersions s))"
    using decMapOf_nf [OF assms(1), of "sort_key fst (ksVersions s)" "decVersion strict" "\<lambda>v. JObj (versionMembers v)"] assms(3)
      decVersion_nf [OF assms(1)] by (simp add: versionsMembers_def sort_key_sorted)
  show ?thesis
    unfolding decSource_def
    by (subst decStruct_nf) (use assms in \<open>auto simp: sourceMembers_def codec_simps decPreservation_nf v copySource_def\<close>)
qed

lemma decPtr_nf:
  assumes "nfStructure nf" "mwf ms" "dec [nf (JObj ms)] = Inr x"
  shows "decPtr dec [nf (JObj ms)] = Inr (Some x)"
proof -
  obtain ms' where "nf (JObj ms) = JObj ms'" using assms(1,2) unfolding nfStructure_def by meson
  then show ?thesis using assms(3) by (simp add: decPtr_def ptrMembers_def)
qed

lemma decPtrFloat_nf:
  assumes "nfScalars nf" "floatText x = Some t" "x \<noteq> negativeZero"
  shows "decPtrFloat [nf (JNum t)] = Inr (Some x)"
proof -
  have "parseFloat t = Some x" "unsignZero x = x" using floatText_number [OF assms(2)] assms(3) by (simp_all add: unsignZero_def)
  then obtain s' where "nf (JNum t) = JNum s'" "parseFloat s' = Some x"
    using assms(1) unfolding nfScalars_def by metis
  then show ?thesis by (simp add: decPtrFloat_def)
qed

text \<open>A score that is not the negative zero; a canonicalizer refuses the text of that one as not strict.\<close>

definition signedScore :: "evidenceEnvelope \<Rightarrow> bool" where
  "signedScore e \<longleftrightarrow> eeRetrievalScore e \<noteq> Some negativeZero"

definition safeEnvelope :: "evidenceEnvelope \<Rightarrow> bool" where
  "safeEnvelope e \<longleftrightarrow> (case eeCoverage e of None \<Rightarrow> True
     | Some r \<Rightarrow> safeInt (cvExpected r) \<and> safeInt (cvAvailable r) \<and> safeInt (cvChecked r))"

lemma pointer_members:
  "mwf (coverageMembers c)" "mwf (windowMembers w)"
  by (auto simp: coverageMembers_def windowMembers_def optStr_def optArr_def)

lemma fld_cases:
  "fld nf ((case x of None \<Rightarrow> [] | Some c \<Rightarrow> [(k', g c)]) @ r) k = (if k = k' \<and> x \<noteq> None then [nf (g (the x))] else fld nf r k)"
  by (cases x) (auto simp: fld_def)

definition keysIn :: "(string \<times> json) list \<Rightarrow> string list \<Rightarrow> bool" where
  "keysIn ms names \<longleftrightarrow> mwf ms \<and> fst ` set ms \<subseteq> set names"

lemma keysIn_Nil: "keysIn [] ns" by (simp add: keysIn_def)

lemma keysIn_part: "mwf p \<Longrightarrow> fst ` set p \<subseteq> {k} \<Longrightarrow> k \<notin> set ns \<Longrightarrow> keysIn r ns \<Longrightarrow> keysIn (p @ r) (k # ns)"
  by (auto simp: keysIn_def)

lemma keysIn_Cons: "k \<notin> set ns \<Longrightarrow> keysIn r ns \<Longrightarrow> keysIn ((k, v) # r) (k # ns)"
  by (auto simp: keysIn_def)

lemma keysIn_opt:
  "k \<notin> set ns \<Longrightarrow> keysIn r ns \<Longrightarrow> keysIn (optStr k s @ r) (k # ns)"
  "k \<notin> set ns \<Longrightarrow> keysIn r ns \<Longrightarrow> keysIn (optArr k vs @ r) (k # ns)"
  "k \<notin> set ns \<Longrightarrow> keysIn r ns \<Longrightarrow> keysIn ((case x of None \<Rightarrow> [] | Some c \<Rightarrow> [(k, g c)]) @ r) (k # ns)"
  by (rule keysIn_part; auto simp: optStr_def optArr_def split: option.split)+

lemmas keysIn_intros = keysIn_Cons keysIn_opt keysIn_Nil

lemma decEvidence_nf:
  assumes "nfStructure nf" "nfScalars nf" "safeEnvelope e" "envelopeMembers e = Inr ms" "signedScore e"
  shows "decEvidence strict [nf (JObj ms)] = Inr e"
proof -
  obtain score where sc: "scoreMembers (eeRetrievalScore e) = Inr score" using assms(4) by (auto simp: envelopeMembers_def andThen_Inr_iff)
  have score: "mwf score \<and> fst ` set score \<subseteq> {''retrieval_score''} \<and> decPtrFloat (fld nf score ''retrieval_score'') = Inr (eeRetrievalScore e)"
    using sc decPtrFloat_nf [OF assms(2)] assms(5) by (auto simp: scoreMembers_def fld_simps dec_simps signedScore_def split: option.split_asm)
  have fs: "fld nf (score @ r) k = (if k = ''retrieval_score'' \<and> score \<noteq> [] then fld nf score k else fld nf r k)" for r k
    using score sc by (auto simp: fld_def scoreMembers_def split: option.split_asm)
  have c: "decPtr (decCoverage strict) (if eeCoverage e = None then [] else [nf (JObj (coverageMembers (the (eeCoverage e))))]) = Inr (eeCoverage e)"
    using assms(3) decPtr_nf [where dec = "decCoverage strict", OF assms(1) pointer_members(1)] decCoverage_nf [OF assms(1,2)]
    by (cases "eeCoverage e") (auto simp: dec_simps safeEnvelope_def)
  have t: "decPtr (decWindow strict) (if eeTemporal e = None then [] else [nf (JObj (windowMembers (the (eeTemporal e))))]) = Inr (eeTemporal e)"
    using decPtr_nf [where dec = "decWindow strict", OF assms(1) pointer_members(2)] decWindow_nf [OF assms(1)]
    by (cases "eeTemporal e") (auto simp: dec_simps)
  have f: "decPtrFloat (if score = [] then [] else fld nf score ''retrieval_score'') = Inr (eeRetrievalScore e)"
    using score by (cases score) (auto simp: fld_simps)
  have ms: "ms = (''record_id'', JStr (eeRecordID e)) # (''record_type'', JStr (eeRecordType e)) #
       (''authority_class'', JStr (eeAuthorityClass e)) # optStr ''source_id'' (eeSourceID e) @
       optArr ''source_versions'' (jstrs (eeSourceVersions e)) @ optArr ''provenance'' (jstrs (eeProvenance e)) @
       optArr ''conflicts'' (jstrs (eeConflicts e)) @ (''superseded'', JBool (eeSuperseded e)) #
       optStr ''projection_version'' (eeProjectionVersion e) @ score @
       (case eeCoverage e of None \<Rightarrow> [] | Some c \<Rightarrow> [(''coverage'', JObj (coverageMembers c))]) @
       (case eeTemporal e of None \<Rightarrow> [] | Some w \<Rightarrow> [(''temporal'', JObj (windowMembers w))]) @
       [(''classification'', JStr (eeClassification e))]"
    using assms(4) sc by (simp add: envelopeMembers_def)
  have "keysIn ms envelopeNames"
    unfolding ms envelopeNames_def by (intro keysIn_intros keysIn_part [of score]) (use score in \<open>auto\<close>)
  then have n: "mwf ms" "fst ` set ms \<subseteq> set envelopeNames" by (simp_all add: keysIn_def)
  have flds: "fld nf ms ''record_id'' = [JStr (eeRecordID e)]" "fld nf ms ''record_type'' = [JStr (eeRecordType e)]"
    "fld nf ms ''authority_class'' = [JStr (eeAuthorityClass e)]"
    "fld nf ms ''source_id'' = (if eeSourceID e = [] then [] else [JStr (eeSourceID e)])"
    "fld nf ms ''source_versions'' = (if eeSourceVersions e = [] then [] else [JArr (map JStr (eeSourceVersions e))])"
    "fld nf ms ''provenance'' = (if eeProvenance e = [] then [] else [JArr (map JStr (eeProvenance e))])"
    "fld nf ms ''conflicts'' = (if eeConflicts e = [] then [] else [JArr (map JStr (eeConflicts e))])"
    "fld nf ms ''superseded'' = [JBool (eeSuperseded e)]"
    "fld nf ms ''projection_version'' = (if eeProjectionVersion e = [] then [] else [JStr (eeProjectionVersion e)])"
    "fld nf ms ''retrieval_score'' = (if score = [] then [] else fld nf score ''retrieval_score'')"
    "fld nf ms ''coverage'' = (if eeCoverage e = None then [] else [nf (JObj (coverageMembers (the (eeCoverage e))))])"
    "fld nf ms ''temporal'' = (if eeTemporal e = None then [] else [nf (JObj (windowMembers (the (eeTemporal e))))])"
    "fld nf ms ''classification'' = [JStr (eeClassification e)]"
    unfolding ms using assms(1,2) by (simp_all add: fld_simps(1-3,5) fld_cases fs nf_pieces nf_bool)
  show ?thesis
    unfolding decEvidence_def decStruct_nf [OF assms(1) n] flds c t f dec_simps decStrings_opt by simp
qed

end
