(* ===== verification/Portable.thy ===== *)
theory Portable
  imports Exchange Knowledge_Json
begin

text \<open>
  internal/portable: bundles that carry what a ledger knows elsewhere as one canonical JSON text. \<open>normalize\<close> puts
  every list of a bundle into a fixed order, \<open>Encode\<close> writes the normal form, \<open>Decode\<close> reads a text only if it is
  the encoding of what it contains, and \<open>Equivalent\<close> compares encodings.
\<close>

section \<open>The normal form\<close>

definition normRecord :: "provRecord \<Rightarrow> provRecord" where
  "normRecord r = r\<lparr>pvSourceVersions := sort_key (\<lambda>x. [srSourceID x, srVersionID x]) (pvSourceVersions r),
     pvDerivedFrom := sort (pvDerivedFrom r)\<rparr>"

definition normEdge :: "relEdge \<Rightarrow> relEdge" where
  "normEdge e = e\<lparr>reEvidence := sort (reEvidence e)\<rparr>"

definition normConflict :: "conflictSet \<Rightarrow> conflictSet" where
  "normConflict c = c\<lparr>csRecords := sort (csRecords c)\<rparr>"

definition normEvidence :: "evidenceEnvelope \<Rightarrow> evidenceEnvelope" where
  "normEvidence e = e\<lparr>eeSourceVersions := sort (eeSourceVersions e), eeProvenance := sort (eeProvenance e),
     eeConflicts := sort (eeConflicts e), eeCoverage := map_option (\<lambda>c. c\<lparr>cvKnownGaps := sort (cvKnownGaps c)\<rparr>) (eeCoverage e)\<rparr>"

text \<open>The copy through JSON that \<open>normalize\<close> starts with. A score without a text makes it fail, and the error is
  dropped, so that the copy is the zero bundle.\<close>

definition zeroRecovery :: recoveryProof where
  "zeroRecovery = \<lparr>rvLedgerCommit = [], rvAuthoritativeRef = [], rvGitObjectFormat = [], rvGenesisCommit = [], rvProjectID = [],
     rvLedgerID = [], rvGenesisSHA256 = [], rvActorPolicyVersion = [], rvActorPolicyRootSHA256 = [], rvHistoryCommitCount = 0,
     rvEventCount = 0, rvReducerBindingCount = 0, rvGovernedRecordCount = 0, rvGovernedRecordsSHA256 = [], rvReplaySHA256 = []\<rparr>"

definition zeroBundle :: portableBundle where
  "zeroBundle = \<lparr>pbFormat = [], pbLedgerCommit = [], pbRecoveryProof = zeroRecovery, pbSources = [], pbProvenance = [],
     pbDefinitions = [], pbRelationships = [], pbConflicts = [], pbEvidence = []\<rparr>"

definition portableCopy :: "portableBundle \<Rightarrow> portableBundle" where
  "portableCopy b = (if list_all (\<lambda>e. is_ok (scoreMembers (eeRetrievalScore e))) (pbEvidence b)
     then b\<lparr>pbSources := map copySource (pbSources b)\<rparr> else zeroBundle)"

text \<open>\<open>sort.Slice\<close> is not stable; elements with equal keys keep their order here, and \<open>Validate\<close>, which follows,
  accepts no two of them.\<close>

definition portableNormalize :: "portableBundle \<Rightarrow> portableBundle" where
  "portableNormalize b =
    (let c = portableCopy b in
     c\<lparr>pbSources := sort_key ksID (pbSources c), pbProvenance := sort_key pvID (map normRecord (pbProvenance c)),
       pbDefinitions := sort_key rdType (pbDefinitions c),
       pbRelationships := sort_key edgeOrder (map normEdge (pbRelationships c)),
       pbConflicts := sort_key csID (map normConflict (pbConflicts c)),
       pbEvidence := sort_key eeRecordID (map normEvidence (pbEvidence c))\<rparr>)"

section \<open>Texts\<close>

definition objs :: "('a \<Rightarrow> (string \<times> json) list) \<Rightarrow> 'a list \<Rightarrow> json list" where
  "objs f xs = map (\<lambda>x. JObj (f x)) xs"

definition bundleMembers :: "portableBundle \<Rightarrow> (string \<times> json) list res" where
  "bundleMembers b = andThen (mapM envelopeMembers (pbEvidence b)) (\<lambda>evidence.
    Inr ((''format'', JStr (pbFormat b)) # (''ledger_commit'', JStr (pbLedgerCommit b)) #
      (''recovery_proof'', recoveryJson (pbRecoveryProof b)) # optArr ''sources'' (objs sourceMembers (pbSources b)) @
      optArr ''provenance'' (objs provMembers (pbProvenance b)) @
      optArr ''relationship_definitions'' (objs definitionMembers (pbDefinitions b)) @
      optArr ''relationships'' (objs edgeMembers (pbRelationships b)) @
      optArr ''conflicts'' (objs conflictMembers (pbConflicts b)) @ optArr ''evidence'' (map JObj evidence)))"

definition portableEncode :: "(string \<Rightarrow> string res) \<Rightarrow> portableBundle \<Rightarrow> string res" where
  "portableEncode jcs b =
    (let normalized = portableNormalize b in
     andThen (portableValidate normalized) (\<lambda>_.
     andThen (bundleMembers normalized) (\<lambda>ms.
     canonicalize jcs (render (JObj ms)))))"

definition bundleNames :: "string list" where
  "bundleNames = [''format'', ''ledger_commit'', ''recovery_proof'', ''sources'', ''provenance'', ''relationship_definitions'',
     ''relationships'', ''conflicts'', ''evidence'']"

definition decBundle :: "bool \<Rightarrow> json list \<Rightarrow> portableBundle res" where
  "decBundle strict = decStruct strict bundleNames (\<lambda>f.
    andThen (decString (f ''format'')) (\<lambda>format.
    andThen (decString (f ''ledger_commit'')) (\<lambda>commit.
    andThen (decStruct strict recoveryFields recoveryBody (f ''recovery_proof'')) (\<lambda>proof.
    andThen (decSliceOf (decSource strict) (f ''sources'')) (\<lambda>sources.
    andThen (decSliceOf (decProv strict) (f ''provenance'')) (\<lambda>prov.
    andThen (decSliceOf (decDefinition strict) (f ''relationship_definitions'')) (\<lambda>defs.
    andThen (decSliceOf (decEdge strict) (f ''relationships'')) (\<lambda>edges.
    andThen (decSliceOf (decConflict strict) (f ''conflicts'')) (\<lambda>conf.
    andThen (decSliceOf (decEvidence strict) (f ''evidence'')) (\<lambda>ev.
    Inr \<lparr>pbFormat = format, pbLedgerCommit = commit, pbRecoveryProof = proof, pbSources = sources, pbProvenance = prov,
      pbDefinitions = defs, pbRelationships = edges, pbConflicts = conf, pbEvidence = ev\<rparr>))))))))))"

definition portableErr :: "string \<Rightarrow> goerr" where
  "portableErr msg = Errorf (''PORTABLE_INVALID: '' @ msg) []"

definition portableDecode :: "(string \<Rightarrow> string res) \<Rightarrow> string \<Rightarrow> portableBundle res" where
  "portableDecode jcs raw =
    andThen (strictValidate raw) (\<lambda>_.
    andThen (canonicalize jcs raw) (\<lambda>canonical.
    if raw \<noteq> canonical then Inl (portableErr ''export must be RFC 8785 canonical JSON'') else
    andThen (wrapw ''PORTABLE_INVALID: decode'' (case jsonDecode raw of None \<Rightarrow> Inl errUnmarshal | Some v \<Rightarrow> decBundle True [v])) (\<lambda>bundle.
    andThen (portableValidate bundle) (\<lambda>_.
    andThen (portableEncode jcs bundle) (\<lambda>normalized.
    if raw \<noteq> normalized then Inl (portableErr ''export is not in deterministic normalized form'') else Inr bundle)))))"

definition portableEquivalent :: "(string \<Rightarrow> string res) \<Rightarrow> portableBundle \<Rightarrow> portableBundle \<Rightarrow> bool res" where
  "portableEquivalent jcs a b =
    andThen (portableEncode jcs a) (\<lambda>ea. andThen (portableEncode jcs b) (\<lambda>eb. Inr (ea = eb)))"

section \<open>A written bundle is read back\<close>

definition safeRecovery :: "recoveryProof \<Rightarrow> bool" where
  "safeRecovery p \<longleftrightarrow> list_all safeInt [rvHistoryCommitCount p, rvEventCount p, rvReducerBindingCount p, rvGovernedRecordCount p]"

lemma recovery_flds:
  assumes "nfStructure nf" "(k, v) \<in> set (recoveryMembers p)"
  shows "fld nf (recoveryMembers p) k = [nf v]"
  using assms(2) recoveryFields_text recoveryMembers_names [of p] by (simp add: fld_def map_of_is_SomeI)

lemma decRecovery_nf:
  assumes "nfStructure nf" "nfScalars nf" "safeRecovery p"
  shows "decStruct strict recoveryFields recoveryBody [nf (recoveryJson p)] = Inr p"
proof -
  have n: "mwf (recoveryMembers p)" "fst ` set (recoveryMembers p) \<subseteq> set recoveryFields"
    using recoveryFields_text recoveryMembers_names [of p] by (auto simp: image_set)
  note f = recovery_flds [OF assms(1)]
  have flds: "fld nf (recoveryMembers p) ''ledger_commit'' = [nf (JStr (rvLedgerCommit p))]"
    "fld nf (recoveryMembers p) ''authoritative_ref'' = [nf (JStr (rvAuthoritativeRef p))]"
    "fld nf (recoveryMembers p) ''git_object_format'' = [nf (JStr (rvGitObjectFormat p))]"
    "fld nf (recoveryMembers p) ''genesis_commit'' = [nf (JStr (rvGenesisCommit p))]"
    "fld nf (recoveryMembers p) ''project_id'' = [nf (JStr (rvProjectID p))]"
    "fld nf (recoveryMembers p) ''ledger_id'' = [nf (JStr (rvLedgerID p))]"
    "fld nf (recoveryMembers p) ''genesis_content_sha256'' = [nf (JStr (rvGenesisSHA256 p))]"
    "fld nf (recoveryMembers p) ''actor_policy_version'' = [nf (JStr (rvActorPolicyVersion p))]"
    "fld nf (recoveryMembers p) ''actor_policy_root_content_sha256'' = [nf (JStr (rvActorPolicyRootSHA256 p))]"
    "fld nf (recoveryMembers p) ''history_commit_count'' = [nf (jint (rvHistoryCommitCount p))]"
    "fld nf (recoveryMembers p) ''event_count'' = [nf (jint (rvEventCount p))]"
    "fld nf (recoveryMembers p) ''reducer_binding_count'' = [nf (jint (rvReducerBindingCount p))]"
    "fld nf (recoveryMembers p) ''governed_record_count'' = [nf (jint (rvGovernedRecordCount p))]"
    "fld nf (recoveryMembers p) ''governed_records_sha256'' = [nf (JStr (rvGovernedRecordsSHA256 p))]"
    "fld nf (recoveryMembers p) ''replay_sha256'' = [nf (JStr (rvReplaySHA256 p))]"
    by (rule f, simp add: recoveryMembers_def recoveryJson_def jint_def)+
  have i: "decInt64 [nf (jint (rvHistoryCommitCount p))] = Inr (rvHistoryCommitCount p)"
    "decInt64 [nf (jint (rvEventCount p))] = Inr (rvEventCount p)"
    "decInt64 [nf (jint (rvReducerBindingCount p))] = Inr (rvReducerBindingCount p)"
    "decInt64 [nf (jint (rvGovernedRecordCount p))] = Inr (rvGovernedRecordCount p)"
    using assms(2,3) by (simp_all add: safeRecovery_def decInt64_nf)
  show ?thesis
    unfolding recoveryMembers_json decStruct_nf [OF assms(1) n] recoveryBody_def flds nf_pieces(1) [OF assms(1)] dec_simps i by simp
qed

text \<open>Integers that a float64 holds exactly, and versions that are a map.\<close>

definition safeBundle :: "portableBundle \<Rightarrow> bool" where
  "safeBundle b \<longleftrightarrow> safeRecovery (pbRecoveryProof b) \<and>
     list_all (\<lambda>s. mwf (ksVersions s) \<and> safeInt (epMaxBytes (ksPreservation s))) (pbSources b) \<and> list_all safeEnvelope (pbEvidence b)"

lemma decObjs_nf:
  assumes "nfStructure nf" "\<And>x. x \<in> set xs \<Longrightarrow> dec [nf (JObj (f x))] = Inr (h x)"
  shows "decSliceOf dec (if xs = [] then [] else [nf (JArr (objs f xs))]) = Inr (map h xs)"
  using decSliceOf_map [of xs dec "\<lambda>x. nf (JObj (f x))" h] assms
  by (simp add: nf_pieces objs_def comp_def dec_simps)

lemma mapM_Inr: "mapM f xs = Inr ys \<Longrightarrow> list_all2 (\<lambda>x y. f x = Inr y) xs ys"
  by (induction xs arbitrary: ys) (auto simp: andThen_Inr_iff)

lemma decEnvelopes_nf:
  assumes "nfStructure nf" "nfScalars nf" "list_all safeEnvelope es" "mapM envelopeMembers es = Inr mss" "list_all signedScore es"
  shows "decSliceOf (decEvidence strict) (if mss = [] then [] else [nf (JArr (map JObj mss))]) = Inr es"
proof -
  have "mapM (decEvidence strict) (map (\<lambda>ms. [nf (JObj ms)]) mss) = Inr es"
    using mapM_Inr [OF assms(4)] assms(3,5)
    by (induction rule: list_all2_induct) (auto simp: decEvidence_nf [OF assms(1,2)])
  then show ?thesis using assms(1) by (auto simp: nf_pieces decSliceOf_def overlay_fresh comp_def sliceHistory_def)
qed

lemma objs_empty [simp]: "objs f xs = [] \<longleftrightarrow> xs = []" by (simp add: objs_def)

lemma decBundle_nf:
  assumes "nfStructure nf" "nfScalars nf" "safeBundle b" "bundleMembers b = Inr ms" "list_all signedScore (pbEvidence b)"
  shows "decBundle strict [nf (JObj ms)] = Inr (b\<lparr>pbSources := map copySource (pbSources b)\<rparr>)"
proof -
  obtain mss where e: "mapM envelopeMembers (pbEvidence b) = Inr mss"
    and ms: "ms = (''format'', JStr (pbFormat b)) # (''ledger_commit'', JStr (pbLedgerCommit b)) #
      (''recovery_proof'', recoveryJson (pbRecoveryProof b)) # optArr ''sources'' (objs sourceMembers (pbSources b)) @
      optArr ''provenance'' (objs provMembers (pbProvenance b)) @
      optArr ''relationship_definitions'' (objs definitionMembers (pbDefinitions b)) @
      optArr ''relationships'' (objs edgeMembers (pbRelationships b)) @
      optArr ''conflicts'' (objs conflictMembers (pbConflicts b)) @ optArr ''evidence'' (map JObj mss) @ []"
    using assms(4) by (auto simp: bundleMembers_def andThen_Inr_iff)
  have "keysIn ms bundleNames" unfolding ms bundleNames_def by (intro keysIn_intros) auto
  then have n: "mwf ms" "fst ` set ms \<subseteq> set bundleNames" by (simp_all add: keysIn_def)
  have ev: "mss = [] \<longleftrightarrow> pbEvidence b = []" using mapM_Inr [OF e] by (auto dest: list_all2_lengthD)
  have flds: "fld nf ms ''format'' = [JStr (pbFormat b)]" "fld nf ms ''ledger_commit'' = [JStr (pbLedgerCommit b)]"
    "fld nf ms ''recovery_proof'' = [nf (recoveryJson (pbRecoveryProof b))]"
    "fld nf ms ''sources'' = (if pbSources b = [] then [] else [nf (JArr (objs sourceMembers (pbSources b)))])"
    "fld nf ms ''provenance'' = (if pbProvenance b = [] then [] else [nf (JArr (objs provMembers (pbProvenance b)))])"
    "fld nf ms ''relationship_definitions'' = (if pbDefinitions b = [] then [] else [nf (JArr (objs definitionMembers (pbDefinitions b)))])"
    "fld nf ms ''relationships'' = (if pbRelationships b = [] then [] else [nf (JArr (objs edgeMembers (pbRelationships b)))])"
    "fld nf ms ''conflicts'' = (if pbConflicts b = [] then [] else [nf (JArr (objs conflictMembers (pbConflicts b)))])"
    "fld nf ms ''evidence'' = (if mss = [] then [] else [nf (JArr (map JObj mss))])"
    unfolding ms using assms(1) by (simp_all add: fld_simps(1,2,5,6) nf_pieces(1))
  have safe: "safeRecovery (pbRecoveryProof b)" "\<And>s. s \<in> set (pbSources b) \<Longrightarrow> mwf (ksVersions s) \<and> safeInt (epMaxBytes (ksPreservation s))"
    "list_all safeEnvelope (pbEvidence b)" using assms(3) by (auto simp: safeBundle_def list_all_iff)
  have d: "decSliceOf (decSource strict) (if pbSources b = [] then [] else [nf (JArr (objs sourceMembers (pbSources b)))]) =
      Inr (map copySource (pbSources b))"
    using decSource_nf [OF assms(1,2)] safe(2) by (intro decObjs_nf [OF assms(1)]) blast
  have o: "decSliceOf (decProv strict) (if pbProvenance b = [] then [] else [nf (JArr (objs provMembers (pbProvenance b)))]) = Inr (map id (pbProvenance b))"
    "decSliceOf (decDefinition strict) (if pbDefinitions b = [] then [] else [nf (JArr (objs definitionMembers (pbDefinitions b)))]) = Inr (map id (pbDefinitions b))"
    "decSliceOf (decEdge strict) (if pbRelationships b = [] then [] else [nf (JArr (objs edgeMembers (pbRelationships b)))]) = Inr (map id (pbRelationships b))"
    "decSliceOf (decConflict strict) (if pbConflicts b = [] then [] else [nf (JArr (objs conflictMembers (pbConflicts b)))]) = Inr (map id (pbConflicts b))"
    by (intro decObjs_nf [OF assms(1)]; simp add: decProv_nf decDefinition_nf decEdge_nf decConflict_nf assms(1,2))+
  show ?thesis
    unfolding decBundle_def decStruct_nf [OF assms(1) n] flds d o dec_simps decRecovery_nf [OF assms(1,2) safe(1)]
      decEnvelopes_nf [OF assms(1,2) safe(3) e assms(5)] by simp
qed

section \<open>The normal form is a normal form\<close>

definition printable :: "portableBundle \<Rightarrow> bool" where
  "printable b \<longleftrightarrow> list_all (\<lambda>e. is_ok (scoreMembers (eeRetrievalScore e))) (pbEvidence b)"

lemma norm_keys [simp]:
  "pvID (normRecord r) = pvID r" "edgeOrder (normEdge e) = edgeOrder e" "csID (normConflict c) = csID c"
  "eeRecordID (normEvidence v) = eeRecordID v" "eeRetrievalScore (normEvidence v) = eeRetrievalScore v" "ksID (copySource s) = ksID s"
  by (simp_all add: normRecord_def normEdge_def normConflict_def normEvidence_def copySource_def edgeOrder_def)

lemma norm_twice [simp]:
  "normRecord (normRecord r) = normRecord r" "normEdge (normEdge e) = normEdge e" "normConflict (normConflict c) = normConflict c"
  "normEvidence (normEvidence v) = normEvidence v" "copySource (copySource s) = copySource s"
  by (simp_all add: normRecord_def normEdge_def normConflict_def normEvidence_def copySource_def sort_key_sorted option.map_comp comp_def)

lemma map_normal: "(\<And>x. f (f x) = f x) \<Longrightarrow> map f (sort_key k (map f xs)) = sort_key k (map f xs)"
  by (rule map_idI) auto

lemma normalize_fields:
  assumes "printable b"
  shows "pbSources (portableNormalize b) = sort_key ksID (map copySource (pbSources b))"
    "pbProvenance (portableNormalize b) = sort_key pvID (map normRecord (pbProvenance b))"
    "pbDefinitions (portableNormalize b) = sort_key rdType (pbDefinitions b)"
    "pbRelationships (portableNormalize b) = sort_key edgeOrder (map normEdge (pbRelationships b))"
    "pbConflicts (portableNormalize b) = sort_key csID (map normConflict (pbConflicts b))"
    "pbEvidence (portableNormalize b) = sort_key eeRecordID (map normEvidence (pbEvidence b))"
    "pbFormat (portableNormalize b) = pbFormat b" "pbLedgerCommit (portableNormalize b) = pbLedgerCommit b"
    "pbRecoveryProof (portableNormalize b) = pbRecoveryProof b"
  using assms by (simp_all add: portableNormalize_def portableCopy_def printable_def)

lemma unprintable_normalize: "\<not> printable b \<Longrightarrow> portableNormalize b = zeroBundle"
  by (simp add: portableNormalize_def portableCopy_def printable_def zeroBundle_def)

lemma normalize_printable: "printable b \<Longrightarrow> printable (portableNormalize b)"
  unfolding printable_def [of "portableNormalize b"] by (simp add: normalize_fields) (simp add: printable_def list_all_iff)

lemma normalize_twice:
  assumes "printable b"
  shows "portableNormalize (portableNormalize b) = portableNormalize b"
  by (rule portableBundle.equality)
    (simp_all add: normalize_fields normalize_printable assms map_normal sort_key_sorted)

lemma normalize_copied: "printable b \<Longrightarrow> map copySource (pbSources (portableNormalize b)) = pbSources (portableNormalize b)"
  by (simp add: normalize_fields map_normal)

lemma normalize_safe:
  assumes "printable b" "safeBundle b"
  shows "safeBundle (portableNormalize b)"
proof -
  have "safeEnvelope (normEvidence e) = safeEnvelope e" for e
    by (simp add: safeEnvelope_def normEvidence_def split: option.split)
  moreover have "mwf (ksVersions (copySource s)) = mwf (ksVersions s)" "ksPreservation (copySource s) = ksPreservation s" for s
    by (simp_all add: copySource_def)
  ultimately show ?thesis
    using assms(2) by (simp add: safeBundle_def normalize_fields [OF assms(1)] list_all_iff)
qed

section \<open>Encoding and decoding\<close>

lemma encode_parts:
  assumes "portableEncode jcs b = Inr raw"
  shows "printable b" "portableValidate (portableNormalize b) = Inr ()"
    "\<exists>ms. bundleMembers (portableNormalize b) = Inr ms \<and> canonicalize jcs (render (JObj ms)) = Inr raw"
proof -
  from assms show v: "portableValidate (portableNormalize b) = Inr ()"
    "\<exists>ms. bundleMembers (portableNormalize b) = Inr ms \<and> canonicalize jcs (render (JObj ms)) = Inr raw"
    by (auto simp: portableEncode_def Let_def andThen_Inr_iff)
  have "portableValidate zeroBundle \<noteq> Inr ()" by (simp add: portableValidate_def zeroBundle_def portableFormatV1_def)
  then show "printable b" using v(1) unprintable_normalize by fastforce
qed

definition wfAll :: "(string \<times> json) list \<Rightarrow> bool" where
  "wfAll ms = list_all (\<lambda>m. wfJson (snd m)) ms"

lemma wfAll_object: "wfJson (JObj ms) = wfAll ms" by (auto simp: wfAll_def list_all_iff)

lemma wfAll_simps:
  "wfAll []" "wfAll ((k, v) # ms) = (wfJson v \<and> wfAll ms)" "wfAll (ms @ ms') = (wfAll ms \<and> wfAll ms')"
  "wfAll (optStr k s)" "wfAll (optArr k vs) = list_all wfJson vs" "list_all wfJson (jstrs xs)" "wfJson (jint i)"
  "(\<And>x. wfAll (f x)) \<Longrightarrow> list_all wfJson (objs f ys)"
  "(\<And>x. wfAll (f x)) \<Longrightarrow> list_all wfJson (map (\<lambda>x. JObj (f x)) ys)"
  "wfJson (JArr vs) = list_all wfJson vs" "wfJson (JStr s)" "wfJson (JBool b)"
  by (auto simp: wfAll_def optStr_def optArr_def jstrs_def jint_def intDec_lex objs_def list_all_iff)

lemma wf_members:
  "wfAll (versionMembers v)" "wfAll (preservationMembers p)" "wfAll (refMembers r)" "wfAll (definitionMembers d)" "wfAll (edgeMembers e)"
  "wfAll (conflictMembers c)" "wfAll (coverageMembers g)" "wfAll (windowMembers w)" "wfAll (recoveryMembers q)"
  by (simp_all only: versionMembers_def preservationMembers_def refMembers_def definitionMembers_def edgeMembers_def jint_def [symmetric]
      conflictMembers_def coverageMembers_def windowMembers_def recoveryMembers_def recoveryJson_def json.case wfAll_simps simp_thms
      split: if_split)

lemma wf_nested: "wfAll (sourceMembers s)" "wfAll (provMembers r)"
proof -
  have "wfAll (map (\<lambda>(k, v). (k, JObj (versionMembers v))) m)" for m
    by (induction m) (auto simp only: list.map prod.case wfAll_simps wfAll_object wf_members)
  then show "wfAll (sourceMembers s)"
    by (simp only: sourceMembers_def versionsMembers_def wfAll_simps wfAll_object wf_members simp_thms split: if_split)
  show "wfAll (provMembers r)" by (simp only: provMembers_def wfAll_simps wfAll_object wf_members simp_thms)
qed

lemma wf_envelope:
  assumes "envelopeMembers e = Inr ms"
  shows "wfAll ms"
proof -
  obtain score where sc: "scoreMembers (eeRetrievalScore e) = Inr score" using assms by (auto simp: envelopeMembers_def andThen_Inr_iff)
  then have "wfAll score" using floatText_number by (auto simp: scoreMembers_def wfAll_simps split: option.split_asm)
  moreover have "wfAll (case x of None \<Rightarrow> [] | Some c \<Rightarrow> [(''coverage'', JObj (coverageMembers c))])"
    "wfAll (case y of None \<Rightarrow> [] | Some w \<Rightarrow> [(''temporal'', JObj (windowMembers w))])" for x y
    by (simp_all only: wfAll_simps wfAll_object wf_members simp_thms split: option.split)
  moreover note envelopeMembers_def [of e, unfolded sc andThen_simps]
  ultimately show ?thesis using assms by (auto simp only: sum.inject wfAll_simps)
qed

lemma wf_bundle:
  assumes "bundleMembers b = Inr ms"
  shows "wfJson (JObj ms)"
proof -
  obtain mss where e: "mapM envelopeMembers (pbEvidence b) = Inr mss" using assms by (auto simp: bundleMembers_def andThen_Inr_iff)
  have "list_all wfAll mss" using mapM_Inr [OF e] by (induction rule: list_all2_induct) (auto intro: wf_envelope)
  then have "list_all wfJson (map JObj mss)" by (simp only: list_all_iff set_map ball_simps wfAll_object)
  moreover note bundleMembers_def [of b, unfolded e andThen_simps]
  ultimately show ?thesis
    using assms by (auto simp only: sum.inject wfAll_object wfAll_simps wf_members wf_nested recoveryMembers_json)
qed

text \<open>The text of a negative zero is not strict JSON, so the scores of a bundle that is encoded have another value.\<close>

lemma strict_score:
  assumes "envelopeMembers e = Inr ms" "strictTree k (JObj ms)"
  shows "signedScore e"
proof -
  obtain score where sc: "scoreMembers (eeRetrievalScore e) = Inr score" using assms(1) by (auto simp: envelopeMembers_def andThen_Inr_iff)
  note ms = assms(1) [unfolded envelopeMembers_def sc andThen_simps sum.inject, symmetric]
  have sub: "x \<in> set score \<Longrightarrow> x \<in> set ms" for x unfolding ms by (simp only: set_append list.set Un_iff insert_iff simp_thms)
  have z: "floatText negativeZero = Some ''-0''" by (simp add: floatText_def negativeZero_def)
  have n: "isNegativeZero ''-0''" by code_simp
  have "score = [(''retrieval_score'', JNum ''-0'')]" if "eeRetrievalScore e = Some negativeZero"
    using sc that z by (simp add: scoreMembers_def)
  moreover have "\<not> strictTree (Suc k) (snd (''retrieval_score'', JNum ''-0''))" using n by simp
  moreover have "\<forall>m\<in>set ms. strictTree (Suc k) (snd m)" using assms(2) by simp
  ultimately show ?thesis using sub [of "(''retrieval_score'', JNum ''-0'')"] by (auto simp only: signedScore_def list.set insertI1)
qed

lemma strict_scores:
  assumes "bundleMembers b = Inr ms" "strictTree 0 (JObj ms)"
  shows "list_all signedScore (pbEvidence b)"
proof -
  obtain mss where e: "mapM envelopeMembers (pbEvidence b) = Inr mss" using assms(1) by (auto simp: bundleMembers_def andThen_Inr_iff)
  note ms = assms(1) [unfolded bundleMembers_def e andThen_simps sum.inject, symmetric]
  have sub: "x \<in> set (optArr ''evidence'' (map JObj mss)) \<Longrightarrow> x \<in> set ms" for x
    unfolding ms by (simp only: set_append list.set Un_iff insert_iff simp_thms)
  have "\<forall>m\<in>set mss. strictTree 2 (JObj m)"
  proof (cases "mss = []")
    case False
    then have "(''evidence'', JArr (map JObj mss)) \<in> set ms" using sub by (simp add: optArr_def)
    then have "strictTree (Suc 0) (JArr (map JObj mss))" using assms(2) by force
    then show ?thesis by (simp add: numeral_2_eq_2)
  qed simp
  then have "list_all (\<lambda>m. strictTree 2 (JObj m)) mss" by (simp add: list_all_iff)
  with mapM_Inr [OF e] show ?thesis
    by (induction rule: list_all2_induct) (auto intro: strict_score simp del: strictTree.simps)
qed

lemma bundle_decodes:
  assumes "jcsLaws jcs nf" "nfScalars nf" "safeBundle b" "portableEncode jcs b = Inr raw"
  shows "portableDecode jcs raw = Inr (portableNormalize b)"
proof -
  let ?n = "portableNormalize b"
  note e = encode_parts [OF assms(4)]
  obtain ms where ms: "bundleMembers ?n = Inr ms" "canonicalize jcs (render (JObj ms)) = Inr raw" using e(3) by blast
  have c: "strictValidate (render (JObj ms)) = Inr ()" "jcs (render (JObj ms)) = Inr raw"
    using ms(2) by (auto simp: canonicalize_def andThen_Inr_iff wrap_Inr_iff)
  obtain v where "strictText (render (JObj ms)) v" using c(1) strictValidate_iff by blast
  moreover have "jsonUnmarshal (render (JObj ms)) = Some (JObj ms)" by (rule jsonUnmarshal_render [OF wf_bundle [OF ms(1)]])
  ultimately have "strictText (render (JObj ms)) (JObj ms)" by (simp add: strictText_def)
  then have score: "list_all signedScore (pbEvidence ?n)" and out: "strictText raw (nf (JObj ms))" "jcs raw = Inr raw"
    using assms(1) c(2) strict_scores [OF ms(1)] strictText_parts unfolding jcsLaws_def jcsOutput_def by blast+
  have s: "strictValidate raw = Inr ()" using out(1) strictValidate_iff by blast
  have "jsonDecode raw = Some (nf (JObj ms))"
    using out(1) by (auto simp: strictText_def jsonUnmarshal_def jsonDecode_def split: option.split_asm if_split_asm)
  moreover have "decBundle True [nf (JObj ms)] = Inr ?n"
    using decBundle_nf [OF _ assms(2) normalize_safe [OF e(1) assms(3)] ms(1) score] assms(1) normalize_copied [OF e(1)]
    by (simp add: jcsLaws_def)
  moreover have "portableEncode jcs ?n = Inr raw"
    using assms(4) by (simp add: portableEncode_def normalize_twice [OF e(1)])
  ultimately show ?thesis using s out(2) e(2) by (simp add: portableDecode_def canonicalize_def)
qed

section \<open>Equivalence of bundles\<close>

text \<open>What a bundle says, whatever the order of its lists.\<close>

definition bundleContent :: "portableBundle \<Rightarrow> (string \<times> string \<times> recoveryProof) \<times> knowledgeSource multiset \<times> provRecord multiset \<times>
    relDefinition multiset \<times> relEdge multiset \<times> conflictSet multiset \<times> evidenceEnvelope multiset" where
  "bundleContent b = ((pbFormat b, pbLedgerCommit b, pbRecoveryProof b), mset (map copySource (pbSources b)),
     mset (map normRecord (pbProvenance b)), mset (pbDefinitions b), mset (map normEdge (pbRelationships b)),
     mset (map normConflict (pbConflicts b)), mset (map normEvidence (pbEvidence b)))"

lemma edge_keys: "distinct (map (\<lambda>e. edgeKey (storedEdge g e)) es) \<Longrightarrow> distinct (map edgeOrder es)"
proof (induction es)
  case (Cons e es)
  have "edgeKey (storedEdge g x) = edgeKey (storedEdge g e)" if "edgeOrder x = edgeOrder e" for x
  proof -
    have "reType x = reType e" "reFrom x = reFrom e" "reTo x = reTo e" using that by (simp_all add: edgeOrder_def)
    then have "edgeKey x = edgeKey e" "edgeKey (orientEdge d x) = edgeKey (orientEdge d e)" for d
      by (simp_all add: edgeKey_def orientEdge_def)
    then show ?thesis using \<open>reType x = reType e\<close> by (simp add: storedEdge_def Let_def split: option.split)
  qed
  note same = this
  have "edgeOrder e \<notin> edgeOrder ` set es"
  proof
    assume "edgeOrder e \<in> edgeOrder ` set es"
    then obtain x where "x \<in> set es" "edgeOrder x = edgeOrder e" by (metis imageE)
    then have "edgeKey (storedEdge g e) \<in> (\<lambda>e. edgeKey (storedEdge g e)) ` set es" using same by (metis image_eqI)
    then show False using Cons.prems by simp
  qed
  moreover have "distinct (map edgeOrder es)" by (rule Cons.IH) (use Cons.prems in simp)
  ultimately show ?case by simp
qed simp

lemma portableEvidence_distinct:
  "portableEvidence seen es = Inr () \<Longrightarrow> distinct (map eeRecordID es) \<and> set (map eeRecordID es) \<inter> set seen = {}"
  by (induction seen es rule: portableEvidence.induct) (auto simp: andThen_Inr_iff split: if_split_asm)

lemma valid_distinct:
  assumes "portableValidate b = Inr ()"
  shows "distinct (map ksID (pbSources b))" "distinct (map pvID (pbProvenance b))" "distinct (map rdType (pbDefinitions b))"
    "distinct (map edgeOrder (pbRelationships b))" "distinct (map csID (pbConflicts b))" "distinct (map eeRecordID (pbEvidence b))"
proof -
  obtain s rg g c where v: "foldM sourceRegister [] (pbSources b) = Inr s" "validateProvenance (pbProvenance b) = Inr ()"
    "foldM relDefine newRelGraph (pbDefinitions b) = Inr rg" "foldM relAdd rg (pbRelationships b) = Inr g"
    "foldM conflictAdd [] (pbConflicts b) = Inr c" "portableEvidence [] (pbEvidence b) = Inr ()"
    using assms by (auto simp: portableValidate_def andThen_Inr_iff split: if_split_asm)
  show "distinct (map ksID (pbSources b))" by (rule sources.run_distinct [OF v(1)])
  show "distinct (map rdType (pbDefinitions b))" by (rule relDefs.run_distinct [OF v(3)])
  show "distinct (map edgeOrder (pbRelationships b))" by (rule edge_keys [OF relEdges.run_distinct [OF v(4)]])
  show "distinct (map csID (pbConflicts b))" by (rule conflicts.run_distinct [OF v(5)])
  show "distinct (map eeRecordID (pbEvidence b))" using portableEvidence_distinct [OF v(6)] by simp
  obtain order g' where o: "mset order = mset (pbProvenance b)" "foldM provAdd [] order = Inr g'"
    using provRounds_sound v(2) unfolding validateProvenance_def by metis
  then have "mset (map pvID order) = mset (map pvID (pbProvenance b))" by simp
  moreover have "distinct (map pvID order)" using provRun_graph [OF o(2)] by simp
  ultimately show "distinct (map pvID (pbProvenance b))" using mset_eq_imp_distinct_iff by metis
qed

lemma sort_key_perm:
  fixes f :: "'a \<Rightarrow> 'b :: linorder"
  assumes "mset xs = mset ys" "distinct (map f xs)"
  shows "sort_key f xs = sort_key f ys"
proof (rule sort_key_unique)
  show "distinct xs" "inj_on f (set xs)" using assms(2) by (simp_all add: distinct_map)
  then show "distinct ys" "set xs = set ys" using assms(1) mset_eq_imp_distinct_iff mset_eq_setD by blast+
qed

lemma distinct_sorted: "distinct (map f (sort_key f xs)) = distinct (map f xs)"
  by (simp add: distinct_map)

lemma normalize_content:
  assumes "portableValidate (portableNormalize a) = Inr ()" "printable a" "bundleContent a = bundleContent b"
  shows "portableNormalize b = portableNormalize a"
proof -
  have c: "mset (map copySource (pbSources a)) = mset (map copySource (pbSources b))"
    "mset (map normRecord (pbProvenance a)) = mset (map normRecord (pbProvenance b))"
    "mset (pbDefinitions a) = mset (pbDefinitions b)" "mset (map normEdge (pbRelationships a)) = mset (map normEdge (pbRelationships b))"
    "mset (map normConflict (pbConflicts a)) = mset (map normConflict (pbConflicts b))"
    "mset (map normEvidence (pbEvidence a)) = mset (map normEvidence (pbEvidence b))"
    "pbFormat a = pbFormat b" "pbLedgerCommit a = pbLedgerCommit b" "pbRecoveryProof a = pbRecoveryProof b"
    using assms(3) by (simp_all only: bundleContent_def prod.inject)
  have "set (map normEvidence (pbEvidence a)) = set (map normEvidence (pbEvidence b))" by (rule mset_eq_setD [OF c(6)])
  then have "eeRetrievalScore ` set (map normEvidence (pbEvidence a)) = eeRetrievalScore ` set (map normEvidence (pbEvidence b))" by simp
  then have "eeRetrievalScore ` set (pbEvidence a) = eeRetrievalScore ` set (pbEvidence b)" by (simp only: set_map image_image norm_keys)
  then have p: "printable b" using assms(2) unfolding printable_def list_all_iff by (metis (no_types, lifting) image_iff)
  note d = valid_distinct [OF assms(1), unfolded normalize_fields [OF assms(2)] distinct_sorted]
  show ?thesis
    by (rule portableBundle.equality;
      (simp only: normalize_fields [OF assms(2)] normalize_fields [OF p] c(7-9) sort_key_perm [OF c(1) d(1)] sort_key_perm [OF c(2) d(2)]
        sort_key_perm [OF c(3) d(3)] sort_key_perm [OF c(4) d(4)] sort_key_perm [OF c(5) d(5)] sort_key_perm [OF c(6) d(6)])?; simp?)
qed

lemma content_normalize: "printable b \<Longrightarrow> bundleContent (portableNormalize b) = bundleContent b"
  unfolding bundleContent_def by (simp only: normalize_fields map_normal norm_twice mset_sort)

lemma equivalent_exact:
  assumes "jcsLaws jcs nf" "nfScalars nf" "safeBundle a" "safeBundle b"
  shows "portableEquivalent jcs a b = Inr True \<longleftrightarrow> is_ok (portableEncode jcs a) \<and> bundleContent a = bundleContent b"
proof
  assume "portableEquivalent jcs a b = Inr True"
  then obtain raw where e: "portableEncode jcs a = Inr raw" "portableEncode jcs b = Inr raw"
    by (auto simp: portableEquivalent_def andThen_Inr_iff)
  then have "portableNormalize a = portableNormalize b"
    using bundle_decodes [OF assms(1,2,3) e(1)] bundle_decodes [OF assms(1,2,4) e(2)] by simp
  then show "is_ok (portableEncode jcs a) \<and> bundleContent a = bundleContent b"
    using content_normalize encode_parts(1) [OF e(1)] encode_parts(1) [OF e(2)] e(1) by (metis is_ok_iff)
next
  assume c: "is_ok (portableEncode jcs a) \<and> bundleContent a = bundleContent b"
  then obtain raw where e: "portableEncode jcs a = Inr raw" by (auto simp: is_ok_iff)
  note p = encode_parts [OF e]
  have "portableNormalize b = portableNormalize a" using normalize_content [OF p(2,1)] c by blast
  then have "portableEncode jcs b = Inr raw" using e by (simp add: portableEncode_def)
  then show "portableEquivalent jcs a b = Inr True" using e by (simp add: portableEquivalent_def)
qed

text \<open>C21: What \<open>Encode\<close> writes, \<open>Decode\<close> reads: under the contract of the canonicalizer (members reordered, numbers
  rewritten to a text of their float64, where a negative zero becomes 0) the text of a bundle whose integers a
  float64 holds exactly is accepted and gives back the bundle in normal form, nested lists, optional members, maps
  and scores included. Larger integers would be rounded by the canonical form, so the bound is needed. A score that
  is a negative zero is marshalled as -0, which the strict validator refuses, so such a bundle has no text.\<close>

theorem portable_roundtrip:
  assumes "jcsLaws jcs nf" "nfScalars nf" "safeBundle b" "portableEncode jcs b = Inr raw"
  shows "portableDecode jcs raw = Inr (portableNormalize b)"
  by (rule bundle_decodes [OF assms])

definition demoEdge :: relEdge where
  "demoEdge = \<lparr>reFrom = ''r2'', reType = ''supports'', reTo = ''r1'', reEvidence = [''e2'', ''e1'']\<rparr>"

definition demoBundle :: portableBundle where
  "demoBundle = zeroBundle\<lparr>pbFormat := portableFormatV1, pbLedgerCommit := ''c2'', pbRecoveryProof := demoProof,
     pbDefinitions := [\<lparr>rdType = ''supports'', rdSymmetric = False\<rparr>, \<lparr>rdType = ''relates'', rdSymmetric = True\<rparr>],
     pbRelationships := [demoEdge]\<rparr>"

definition demoReordered :: portableBundle where
  "demoReordered = demoBundle\<lparr>pbDefinitions := rev (pbDefinitions demoBundle),
     pbRelationships := [demoEdge\<lparr>reEvidence := [''e1'', ''e2'']\<rparr>]\<rparr>"

lemma demo_bundle_safe: "safeBundle demoBundle" "safeBundle demoReordered"
  by (simp_all add: safeBundle_def demoBundle_def demoReordered_def zeroBundle_def safeRecovery_def demoProof_def safeInt_def)

lemma demo_encodes: "is_ok (portableEncode rfcJcs demoBundle)"
proof -
  have v: "portableValidate (portableNormalize demoBundle) = Inr ()" by code_simp
  obtain ms where ms: "bundleMembers (portableNormalize demoBundle) = Inr ms"
    by (simp add: bundleMembers_def portableNormalize_def portableCopy_def demoBundle_def zeroBundle_def)
  have "case bundleMembers (portableNormalize demoBundle) of Inr ms \<Rightarrow> textJson (JObj ms) \<and> strictTree 0 (JObj ms) | Inl _ \<Rightarrow> False"
    by code_simp
  then have "plainObject ms" using wf_bundle [OF ms] ms by (simp add: plainObject_def del: wfJson.simps textJson.simps strictTree.simps)
  then have "strictValidate (render (JObj ms)) = Inr ()" by (rule plainObject_validate)
  moreover have "is_ok (rfcJcs (render (JObj ms)))"
    using jsonUnmarshal_render [OF wf_bundle [OF ms]] by (simp add: rfcJcs_def is_ok_def)
  ultimately show ?thesis using v ms by (auto simp: portableEncode_def canonicalize_def is_ok_iff)
qed

theorem portable_roundtrip_witness:
  "\<exists>raw. portableEncode rfcJcs demoBundle = Inr raw \<and> portableDecode rfcJcs raw = Inr (portableNormalize demoBundle)"
proof -
  obtain raw where "portableEncode rfcJcs demoBundle = Inr raw" using demo_encodes by (auto simp: is_ok_iff)
  then show ?thesis using portable_roundtrip [OF rfcJcs_laws rfc_scalars demo_bundle_safe(1)] by blast
qed



end
