(* ===== verification/Command_Line.thy ===== *)
theory Command_Line
  imports Portable Fresh_Genesis Sample_Ledger Governance_Properties Load_Proof Service Source_Adapter
begin

text \<open>
  cmd/threadkeeper-core: the program itself. A command gets its arguments and the host and gives the text for
  standard output and an error, if any; \<open>main\<close> turns that into an exit code. Writing to standard output and
  error is taken to succeed. What the process finds out about itself (build information, the samples and events
  of a load run) is an argument.
\<close>

section \<open>Indented output\<close>

text \<open>\<open>json.Indent\<close> on the text of a value without spaces, with two spaces per level: the first argument is
  inside a string, the second a bracket still to be followed by a new line, the third the depth.\<close>

definition newLine :: "nat \<Rightarrow> string" where
  "newLine depth = CHR 0x0A # concat (replicate depth ''  '')"

fun indentText :: "bool \<Rightarrow> bool \<Rightarrow> nat \<Rightarrow> string \<Rightarrow> string" where
  "indentText inStr pending depth [] = []"
| "indentText inStr pending depth (c # s) =
    (if inStr then
       (if c = CHR 0x5C then c # take 1 s @ indentText True False depth (drop 1 s)
        else c # indentText (c \<noteq> CHR 0x22) False depth s)
     else if c = CHR ''}'' \<or> c = CHR '']'' then
       (if pending then c # indentText False False depth s
        else newLine (depth - 1) @ c # indentText False False (depth - 1) s)
     else
       (let depth' = (if pending then depth + 1 else depth); lead = (if pending then newLine depth' else []) in
        lead @ (if c = CHR ''{'' \<or> c = CHR ''['' then c # indentText False True depth' s
                else if c = CHR '','' then c # newLine depth' @ indentText False False depth' s
                else if c = CHR '':'' then c # CHR '' '' # indentText False False depth' s
                else c # indentText (c = CHR 0x22) False depth' s)))"

definition writeIndented :: "string \<Rightarrow> string" where
  "writeIndented text = indentText False False 0 text @ [CHR 0x0A]"

definition writeIndentedJSON :: "json \<Rightarrow> string" where
  "writeIndentedJSON v = writeIndented (render v)"

section \<open>The values that are printed\<close>

definition jsint :: "64 word \<Rightarrow> json" where "jsint w = jint (sint w)"
definition juint :: "64 word \<Rightarrow> json" where "juint w = jnat (unat w)"

definition summaryJson :: "reviewSummary \<Rightarrow> json" where
  "summaryJson s = JObj [(''proposal_id'', JStr (rwProposalID s)), (''target_id'', JStr (rwTargetID s)),
     (''expected_state_version'', JStr (rwExpectedStateVersion s)), (''generated'', JBool (rwGenerated s)),
     (''evidence_count'', jnat (rwEvidenceCount s)), (''conflict_count'', jnat (rwConflictCount s)),
     (''alternatives_count'', jnat (rwAlternativesCount s)), (''dissent_count'', jnat (rwDissentCount s)),
     (''reopening_count'', jnat (rwReopeningCount s)), (''projection_changes'', jnat (rwProjectionChanges s)),
     (''authority_changes'', jnat (rwAuthorityChanges s)), (''new_conflicts'', jnat (rwNewConflicts s)),
     (''access_changes'', jnat (rwAccessChanges s)), (''authority_effect'', JStr (rwAuthorityEffect s))]"

definition checkJson :: "healthCheck \<Rightarrow> json" where
  "checkJson c = JObj ((''domain'', JStr (hcDomain c)) # (''status'', JStr (hcStatus c)) # optStr ''reason'' (hcReason c))"

text \<open>\<open>reducer.Projection\<close> is a map; the keys are written in order. The values hold raw JSON.\<close>

definition projectionText :: "projection \<Rightarrow> string res" where
  "projectionText p =
    andThen (mapM (\<lambda>(target, st). andThen (marshalState st) (\<lambda>t. Inr (jmember target t))) (sort_key fst p)) (\<lambda>ms. Inr (objectText ms))"

definition manifestText :: "manifest \<Rightarrow> string res" where
  "manifestText m =
    andThen (projectionText (mfGovernedRecords m)) (\<lambda>records.
    Inr (objectText [jmember ''ledger_commit'' (quote (mfLedgerCommit m)), jmember ''authoritative_ref'' (quote (mfAuthoritativeRef m)),
      jmember ''git_object_format'' (quote (mfGitObjectFormat m)), jmember ''bare_repository'' (render (JBool (mfBareRepository m))),
      jmember ''genesis_commit'' (quote (mfGenesisCommit m)), jmember ''genesis_root'' (render (genesisJson (mfGenesisRoot m))),
      jmember ''actor_policy_version'' (quote (mfActorPolicyVersion m)),
      jmember ''actor_policy_root_content_sha256'' (quote (mfActorPolicyRootSHA256 m)),
      jmember ''history_commit_count'' (natDec (mfHistoryCommitCount m)), jmember ''event_count'' (natDec (mfEventCount m)),
      jmember ''reducer_binding_count'' (natDec (mfReducerBindingCount m)),
      jmember ''governed_record_count'' (natDec (mfGovernedRecordCount m)),
      jmember ''governed_records_sha256'' (quote (mfGovernedRecordsSHA256 m)), jmember ''governed_records'' records,
      jmember ''replay_sha256'' (quote (mfReplaySHA256 m)), jmember ''events'' (render (JArr (map entryJson (mfEvents m))))]))"

definition reportJson :: "restoreReport \<Rightarrow> json" where
  "reportJson r = JObj [(''core_equivalence_passed'', JBool (rpCoreEquivalencePassed r)),
     (''operational_independence_status'', JStr (rpOperationalIndependence r)), (''restored_storage_path'', JStr (rpStoragePath r)),
     (''restored_authoritative_ref'', JStr (rpAuthoritativeRef r)), (''provenance_content_sha256'', JStr (rpProvenanceSHA256 r)),
     (''primary_authority_domain_id'', JStr (rpPrimaryDomainID r)), (''secondary_authority_domain_id'', JStr (rpSecondaryDomainID r)),
     (''secondary_location_id'', JStr (rpSecondaryLocationID r)), (''secondary_operator_id'', JStr (rpSecondaryOperatorID r)),
     (''backup_set_id'', JStr (rpBackupSetID r)), (''backup_artifact_id'', JStr (rpBackupArtifactID r)),
     (''backup_artifact_sha256'', JStr (rpBackupArtifactSHA256 r)), (''external_evidence_refs'', JArr (jstrs (rpEvidenceRefs r))),
     (''original_recovery_proof_sha256'', JStr (rpOriginalProofSHA256 r)),
     (''restored_recovery_proof_sha256'', JStr (rpRestoredProofSHA256 r)),
     (''original_recovery_proof'', recoveryJson (rpOriginalProof r)), (''restored_recovery_proof'', recoveryJson (rpRestoredProof r))]"

definition loadEnvelopeJson :: "loadEnvelope \<Rightarrow> json" where
  "loadEnvelopeJson e = JObj [(''name'', JStr (leName e)), (''concurrent_workers'', jsint (leWorkers e)),
     (''iterations_per_worker'', jsint (leIterations e)), (''max_peak_heap_growth_bytes'', jsint (lePeakHeap e)),
     (''max_settled_heap_growth_bytes'', jsint (leSettledHeap e)), (''max_peak_goroutine_growth'', jsint (lePeakGoroutines e)),
     (''max_settled_goroutine_growth'', jsint (leSettledGoroutines e)), (''max_peak_open_handle_growth'', jsint (lePeakHandles e)),
     (''max_settled_open_handle_growth'', jsint (leSettledHandles e)), (''require_open_handle_metric'', JBool (leRequireHandles e))]"

definition usageJson :: "usage \<Rightarrow> json" where
  "usageJson u = JObj [(''heap_alloc_bytes'', juint (usHeap u)), (''goroutines'', jsint (usGoroutines u)),
     (''open_handles'', juint (usHandles u)), (''open_handles_available'', JBool (usHandlesKnown u))]"

definition growthJson :: "growth \<Rightarrow> json" where
  "growthJson g = JObj [(''heap_bytes'', jsint (gwHeap g)), (''goroutines'', jsint (gwGoroutines g)), (''open_handles'', jsint (gwHandles g))]"

definition loadEvidenceJson :: "loadEvidence \<Rightarrow> json" where
  "loadEvidenceJson e = JObj [(''envelope'', loadEnvelopeJson (lvEnvelope e)), (''sample_interval_millis'', jint (lvSampleIntervalMillis e)),
     (''resource_samples'', jnat (lvSamples e)), (''open_handle_metric_unavailable_samples'', jnat (lvUnavailable e)),
     (''before'', usageJson (lvBefore e)), (''peak'', usageJson (lvPeak e)), (''after_settled'', usageJson (lvAfter e)),
     (''peak_growth'', growthJson (lvPeakGrowth e)), (''settled_growth'', growthJson (lvSettledGrowth e)),
     (''completed_operations'', jnat (lvCompleted e)), (''passed'', JBool (lvPassed e))]"

definition readLoadJson :: "readLoadEvidence \<Rightarrow> json" where
  "readLoadJson p = JObj [(''recovery_proof'', recoveryJson (rlRecovery p)), (''resources'', loadEvidenceJson (rlResources p))]"

definition freshJson :: "freshEvidence \<Rightarrow> json" where
  "freshJson e = JObj [(''storage_path'', JStr (feStoragePath e)), (''project_id'', JStr (feProjectID e)),
     (''ledger_id'', JStr (feLedgerID e)), (''authoritative_ref'', JStr (feAuthoritativeRef e)),
     (''genesis_content_sha256'', JStr (feGenesisSHA256 e)), (''actor_policy_content_sha256'', JStr (feActorPolicySHA256 e)),
     (''genesis_commit'', JStr (feGenesisCommit e)), (''ledger_commit'', JStr (feLedgerCommit e)),
     (''git_object_format'', JStr (feGitObjectFormat e)), (''initial_schema_count'', jnat (feInitialSchemaCount e)),
     (''initial_binding_count'', jnat (feInitialBindingCount e))]"

section \<open>The documents that are read\<close>

text \<open>A byte slice is standard base64, or an array of bytes.\<close>

definition decByte :: "string \<Rightarrow> nat \<Rightarrow> json \<Rightarrow> char res" where
  "decByte old i v = (case v of
      JNum s \<Rightarrow> (case parseIntLit s of
          Some n \<Rightarrow> if hasPrefix s ''-'' \<or> 255 < n then Inl errUnmarshal else Inr (char_of (nat n)) | None \<Rightarrow> Inl errUnmarshal)
    | JNull \<Rightarrow> Inr (if i < length old then old ! i else CHR 0x00)
    | _ \<Rightarrow> Inl errUnmarshal)"

definition decBytes :: "json list \<Rightarrow> string res" where
  "decBytes vs = foldM (\<lambda>acc v. case v of
      JStr s \<Rightarrow> (case stdDecode s of Some b \<Rightarrow> Inr b | None \<Rightarrow> Inl errUnmarshal)
    | JArr xs \<Rightarrow> mapM (\<lambda>(i, x). decByte acc i x) (enumerate 0 xs)
    | JNull \<Rightarrow> Inr [] | _ \<Rightarrow> Inl errUnmarshal) [] vs"

definition decProposal :: "json list \<Rightarrow> proposal res" where
  "decProposal = decStruct False [''id'', ''proposed_by'', ''generated'', ''target_id'', ''expected_state_version'', ''evidence_ids'',
      ''rationale'', ''created_at'', ''idempotency_key'', ''content''] (\<lambda>f.
    andThen (decString (f ''id'')) (\<lambda>i.
    andThen (decString (f ''proposed_by'')) (\<lambda>by.
    andThen (decBool (f ''generated'')) (\<lambda>g.
    andThen (decString (f ''target_id'')) (\<lambda>t.
    andThen (decString (f ''expected_state_version'')) (\<lambda>v.
    andThen (decStrings (f ''evidence_ids'')) (\<lambda>ev.
    andThen (decString (f ''rationale'')) (\<lambda>r.
    andThen (decString (f ''created_at'')) (\<lambda>c.
    andThen (decString (f ''idempotency_key'')) (\<lambda>k.
    andThen (decBytes (f ''content'')) (\<lambda>b.
    Inr \<lparr>ppID = i, ppProposedBy = by, ppGenerated = g, ppTargetID = t, ppExpectedStateVersion = v, ppEvidenceIDs = ev,
      ppRationale = r, ppCreatedAt = c, ppIdempotencyKey = k, ppContent = b\<rparr>)))))))))))"

definition decAlternative :: "json list \<Rightarrow> alternative res" where
  "decAlternative = decStruct False [''id'', ''summary'', ''reason_rejected''] (\<lambda>f.
    andThen (decString (f ''id'')) (\<lambda>i.
    andThen (decString (f ''summary'')) (\<lambda>s.
    andThen (decString (f ''reason_rejected'')) (\<lambda>r. Inr \<lparr>alID = i, alSummary = s, alReasonRejected = r\<rparr>))))"

definition decDissent :: "json list \<Rightarrow> dissent res" where
  "decDissent = decStruct False [''actor'', ''position''] (\<lambda>f.
    andThen (decString (f ''actor'')) (\<lambda>a.
    andThen (decString (f ''position'')) (\<lambda>p. Inr \<lparr>dsActor = a, dsPosition = p\<rparr>)))"

definition decDecisionContext :: "json list \<Rightarrow> decisionContext res" where
  "decDecisionContext = decStruct False [''alternatives_considered'', ''dissent'', ''decision_uncertainties'', ''reopening_conditions''] (\<lambda>f.
    andThen (decSliceOf decAlternative (f ''alternatives_considered'')) (\<lambda>a.
    andThen (decSliceOf decDissent (f ''dissent'')) (\<lambda>d.
    andThen (decStrings (f ''decision_uncertainties'')) (\<lambda>u.
    andThen (decStrings (f ''reopening_conditions'')) (\<lambda>r.
    Inr \<lparr>dcAlternatives = a, dcDissent = d, dcUncertainties = u, dcReopeningConditions = r\<rparr>)))))"

definition decSimReport :: "json list \<Rightarrow> simReport res" where
  "decSimReport = decStruct False [''projection_changed'', ''authority_changed'', ''new_conflicts'', ''access_changed''] (\<lambda>f.
    andThen (decStrings (f ''projection_changed'')) (\<lambda>p.
    andThen (decStrings (f ''authority_changed'')) (\<lambda>a.
    andThen (decStrings (f ''new_conflicts'')) (\<lambda>c.
    andThen (decStrings (f ''access_changed'')) (\<lambda>x.
    Inr \<lparr>srProjectionChanged = p, srAuthorityChanged = a, srNewConflicts = c, srAccessChanged = x\<rparr>)))))"

definition decReview :: "json list \<Rightarrow> reviewBundle res" where
  "decReview = decStruct False [''proposal'', ''evidence'', ''decision_context'', ''simulation'', ''authority_effect''] (\<lambda>f.
    andThen (decProposal (f ''proposal'')) (\<lambda>p.
    andThen (decSliceOf (decEvidence False) (f ''evidence'')) (\<lambda>e.
    andThen (decDecisionContext (f ''decision_context'')) (\<lambda>d.
    andThen (decSimReport (f ''simulation'')) (\<lambda>s.
    andThen (decString (f ''authority_effect'')) (\<lambda>a.
    Inr \<lparr>rbProposal = p, rbEvidence = e, rbDecisionContext = d, rbSimulation = s, rbAuthorityEffect = a\<rparr>))))))"

definition decCheck :: "json list \<Rightarrow> healthCheck res" where
  "decCheck = decStruct False [''domain'', ''status'', ''reason''] (\<lambda>f.
    andThen (decString (f ''domain'')) (\<lambda>d.
    andThen (decString (f ''status'')) (\<lambda>s.
    andThen (decString (f ''reason'')) (\<lambda>r. Inr \<lparr>hcDomain = d, hcStatus = s, hcReason = r\<rparr>))))"

section \<open>Commands\<close>

text \<open>What a command wrote to standard output, and its error.\<close>

type_synonym cmdResult = "string \<times> goerr option"

definition ofRes :: "string res \<Rightarrow> cmdResult" where
  "ofRes r = (case r of Inl e \<Rightarrow> ([], Some e) | Inr out \<Rightarrow> (out, None))"

definition usageErr :: "string \<Rightarrow> goerr" where "usageErr msg = Errorf msg []"

definition oneFile :: "host \<Rightarrow> string list \<Rightarrow> string res" where
  "oneFile h args = (case args of [path] \<Rightarrow> hsReadFile h path | _ \<Rightarrow> Inl (usageErr ''expected one file argument''))"

definition decodeStrictFile :: "host \<Rightarrow> string list \<Rightarrow> (json list \<Rightarrow> 'a res) \<Rightarrow> 'a res" where
  "decodeStrictFile h args dec =
    andThen (oneFile h args) (\<lambda>raw.
    andThen (strictValidate raw) (\<lambda>_.
    case jsonUnmarshal raw of None \<Rightarrow> Inl errUnmarshal | Some v \<Rightarrow> dec [v]))"

text \<open>What \<open>debug.ReadBuildInfo\<close>, the runtime and the linker flags say about the binary.\<close>

record buildEnv =
  beVersion :: string
  beSourceCommit :: string
  beGoVersion :: string
  beGOOS :: string
  beGOARCH :: string
  beDeps :: "(string \<times> string) list option"

definition printVersion :: "buildEnv \<Rightarrow> cmdResult" where
  "printVersion b =
    (let deps = fold (\<lambda>(path, version) m. mput path version m) (case beDeps b of None \<Rightarrow> [] | Some ds \<Rightarrow> ds) [] in
     (render (JObj [(''version'', JStr (beVersion b)), (''source_commit'', JStr (beSourceCommit b)),
        (''go_version'', JStr (beGoVersion b)), (''platform'', JStr (beGOOS b @ ''/'' @ beGOARCH b)),
        (''authority_writes_enabled'', JBool authorityWritesEnabled),
        (''dependencies'', JObj (map (\<lambda>(k, v). (k, JStr v)) (sort_key fst deps)))]) @ [CHR 0x0A], None))"

definition checkJSONCommand :: "host \<Rightarrow> string list \<Rightarrow> cmdResult" where
  "checkJSONCommand h args = ofRes (andThen (oneFile h args) (\<lambda>b. andThen (strictValidate b) (\<lambda>_. Inr [])))"

definition canonicalizeCommand :: "'sch deps \<Rightarrow> host \<Rightarrow> string list \<Rightarrow> cmdResult" where
  "canonicalizeCommand d h args = ofRes (andThen (oneFile h args) (\<lambda>b. andThen (canonicalize (dpJcs d) b) (\<lambda>out. Inr (out @ [CHR 0x0A]))))"

definition digestCommand :: "'sch deps \<Rightarrow> host \<Rightarrow> string list \<Rightarrow> cmdResult" where
  "digestCommand d h args = ofRes (andThen (oneFile h args) (\<lambda>b. andThen (digestComplete (dpJcs d) b) (\<lambda>(out, _). Inr out)))"

definition validateCommand :: "'sch deps \<Rightarrow> host \<Rightarrow> string list \<Rightarrow> cmdResult" where
  "validateCommand d h args = ofRes
    (case args of [schemaFile, instanceFile] \<Rightarrow>
       andThen (hsReadFile h schemaFile) (\<lambda>schemaBytes.
       andThen (hsReadFile h instanceFile) (\<lambda>instanceBytes.
       andThen (strictDecode schemaBytes) (\<lambda>v.
       case v of
         JObj obj \<Rightarrow>
           let i = memberString obj ''$id'' in
           if i = [] then Inl (usageErr ''schema $id is required'')
           else andThen (registryAdd newRegistry i schemaBytes) (\<lambda>r.
                andThen (registryValidate (dpSchema d) r i instanceBytes) (\<lambda>_. Inr []))
       | _ \<Rightarrow> Inl (usageErr ''schema root must be object''))))
     | _ \<Rightarrow> Inl (usageErr ''expected schema file and instance file''))"

definition genesisCheckCommand :: "'sch deps \<Rightarrow> host \<Rightarrow> string list \<Rightarrow> cmdResult" where
  "genesisCheckCommand d h args = ofRes
    (case args of [path] \<Rightarrow>
       andThen (hsReadFile h path) (\<lambda>raw. andThen (genesisValidate (dpJcs d) raw) (\<lambda>root. Inr (writeIndentedJSON (genesisJson root))))
     | _ \<Rightarrow> Inl (usageErr ''expected genesis file''))"

definition evidenceCheckCommand :: "host \<Rightarrow> string list \<Rightarrow> cmdResult" where
  "evidenceCheckCommand h args = ofRes
    (andThen (decodeStrictFile h args (decEvidence False)) (\<lambda>env.
     andThen (envelopeValidate env) (\<lambda>_.
     andThen (envelopeMembers env) (\<lambda>ms. Inr (writeIndentedJSON (JObj ms))))))"

definition reviewBundleCommand :: "host \<Rightarrow> string list \<Rightarrow> cmdResult" where
  "reviewBundleCommand h args = ofRes
    (andThen (decodeStrictFile h args decReview) (\<lambda>bundle.
     andThen (reviewBundleSummary bundle) (\<lambda>summary. Inr (writeIndentedJSON (summaryJson summary)))))"

definition healthCheckCommand :: "host \<Rightarrow> string list \<Rightarrow> cmdResult" where
  "healthCheckCommand h args = ofRes
    (andThen (decodeStrictFile h args (decSliceOf decCheck)) (\<lambda>checks.
     andThen (healthAggregate checks) (\<lambda>status.
     Inr (writeIndentedJSON (JObj [(''checks'', JArr (map checkJson checks)), (''status'', JStr status)])))))"

definition sourceFileCheckCommand :: "host \<Rightarrow> string list \<Rightarrow> cmdResult" where
  "sourceFileCheckCommand h args = ofRes
    (case args of [dir, rel, sha] \<Rightarrow>
       andThen (newFileAdapter h dir) (\<lambda>adapter.
       andThen (sourceFetch h adapter \<lparr>fqSourceID = ''cli:source'', fqRelativePath = rel, fqExpectedSHA256 = sha, fqMediaType = []\<rparr>) (\<lambda>snapshot.
       Inr (writeIndentedJSON (JObj (versionMembers (fsVersion snapshot))))))
     | _ \<Rightarrow> Inl (usageErr ''expected source root, relative path and exact SHA-256''))"

definition portableCheckCommand :: "'sch deps \<Rightarrow> host \<Rightarrow> string list \<Rightarrow> cmdResult" where
  "portableCheckCommand d h args = ofRes
    (case args of [path] \<Rightarrow>
       andThen (hsReadFile h path) (\<lambda>raw.
       andThen (portableDecode (dpJcs d) raw) (\<lambda>b.
       Inr (writeIndentedJSON (JObj [(''conflicts'', jnat (length (pbConflicts b))), (''evidence_records'', jnat (length (pbEvidence b))),
         (''format'', JStr (pbFormat b)), (''ledger_commit'', JStr (pbLedgerCommit b)),
         (''provenance_records'', jnat (length (pbProvenance b))), (''relationships'', jnat (length (pbRelationships b))),
         (''sources'', jnat (length (pbSources b)))]))))
     | _ \<Rightarrow> Inl (usageErr ''expected portable export file''))"

definition recoveryCompareCommand :: "host \<Rightarrow> string list \<Rightarrow> cmdResult" where
  "recoveryCompareCommand h args = ofRes
    (case args of [original, restored] \<Rightarrow>
       andThen (hsReadFile h original) (\<lambda>aRaw.
       andThen (recoveryProofDecode aRaw) (\<lambda>a.
       andThen (hsReadFile h restored) (\<lambda>bRaw.
       andThen (recoveryProofDecode bRaw) (\<lambda>b.
       andThen (compareRecoveryProofs a b) (\<lambda>_. Inr (writeIndentedJSON (JObj [(''equivalent'', JBool True)])))))))
     | _ \<Rightarrow> Inl (usageErr ''expected original and restored recovery-proof files''))"

section \<open>Commands on a ledger\<close>

definition ledgerReaderFromArgs :: "host \<Rightarrow> string list \<Rightarrow> reader res" where
  "ledgerReaderFromArgs h args =
    (case args of
       [gitDir] \<Rightarrow> newReader h gitDir defaultRef
     | [gitDir, ref] \<Rightarrow> newReader h gitDir ref
     | _ \<Rightarrow> Inl (usageErr ''expected ledger git directory and optional authoritative ref''))"

definition ledgerInspectCommand :: "'sch deps \<Rightarrow> host \<Rightarrow> string list \<Rightarrow> cmdResult" where
  "ledgerInspectCommand d h args = ofRes
    (andThen (ledgerReaderFromArgs h args) (\<lambda>r.
     andThen (replay d h r) (\<lambda>m.
     andThen (manifestText m) (\<lambda>t. Inr (writeIndented t)))))"

definition ledgerRecoveryProofCommand :: "'sch deps \<Rightarrow> host \<Rightarrow> string list \<Rightarrow> cmdResult" where
  "ledgerRecoveryProofCommand d h args = ofRes
    (andThen (ledgerReaderFromArgs h args) (\<lambda>r.
     andThen (proveRecovery d h r) (\<lambda>proof. Inr (writeIndentedJSON (recoveryJson proof)))))"

text \<open>A report or proof that comes with an error is printed before the error is returned.\<close>

definition withReport :: "('a \<Rightarrow> json) \<Rightarrow> 'a option \<times> goerr option \<Rightarrow> cmdResult" where
  "withReport toJson r = (case r of (None, err) \<Rightarrow> ([], err) | (Some x, err) \<Rightarrow> (writeIndentedJSON (toJson x), err))"

definition recoveryRestoreVerifyCommand :: "'sch deps \<Rightarrow> host \<Rightarrow> string list \<Rightarrow> cmdResult" where
  "recoveryRestoreVerifyCommand d h args =
    (case args of
       proofFile # gitDir # provenanceFile # rest \<Rightarrow>
         if 1 < length rest
         then ([], Some (usageErr ''expected original recovery-proof file, restored ledger git directory, provenance file and optional authoritative ref''))
         else (case andThen (hsReadFile h proofFile) (\<lambda>proofRaw.
                 andThen (recoveryProofDecode proofRaw) (\<lambda>original.
                 andThen (hsReadFile h provenanceFile) (\<lambda>provenanceRaw.
                 andThen (decodeProvenance (dpJcs d) provenanceRaw) (\<lambda>p.
                 andThen (ledgerReaderFromArgs h (gitDir # rest)) (\<lambda>r. Inr (original, p, r)))))) of
             Inl e \<Rightarrow> ([], Some e)
           | Inr (original, p, r) \<Rightarrow> withReport reportJson (restoreVerify d h (Some r) original p))
     | _ \<Rightarrow> ([], Some (usageErr ''expected original recovery-proof file, restored ledger git directory, provenance file and optional authoritative ref'')))"

text \<open>The run of the load is given by its samples and events; \<open>None\<close> when they are not those of a run.\<close>

record loadInput =
  liBefore :: usage
  liEvents :: "host loadEvent list"
  liLast :: usage
  liAfter :: usage

definition ledgerLoadProofCommand :: "'sch deps \<Rightarrow> host \<Rightarrow> loadInput \<Rightarrow> string list \<Rightarrow> cmdResult option" where
  "ledgerLoadProofCommand d h run args =
    (case args of
       gitDir # envelopeFile # rest \<Rightarrow>
         if 1 < length rest then Some ([], Some (usageErr ''expected ledger git directory, envelope file and optional authoritative ref''))
         else (case andThen (hsReadFile h envelopeFile) (\<lambda>raw.
                 andThen (decodeEnvelope raw) (\<lambda>envelope.
                 andThen (ledgerReaderFromArgs h (gitDir # rest)) (\<lambda>r. Inr (envelope, r)))) of
             Inl e \<Rightarrow> Some ([], Some e)
           | Inr (envelope, r) \<Rightarrow>
             map_option (withReport readLoadJson) (proveReadLoad d h r envelope (liBefore run) (liEvents run) (liLast run) (liAfter run)))
     | _ \<Rightarrow> Some ([], Some (usageErr ''expected ledger git directory, envelope file and optional authoritative ref'')))"

section \<open>Seed files of a fresh ledger\<close>

text \<open>\<open>filepath.WalkDir\<close> with the callback of the code. \<open>full\<close> is the path of an entry and \<open>rel\<close> what \<open>filepath.Rel\<close>
  says of it, the names below the root. The callback is called for a directory first without and, when the
  directory cannot be read, again with the error.\<close>

fun collectEntry :: "host \<Rightarrow> string \<Rightarrow> string list \<Rightarrow> fsTree \<Rightarrow> (string, string) gomap \<Rightarrow> (string, string) gomap res"
and collectEntries :: "host \<Rightarrow> string \<Rightarrow> string list \<Rightarrow> fsTree list \<Rightarrow> (string, string) gomap \<Rightarrow> (string, string) gomap res" where
  "collectEntry h full rel (FsTree name kind (Inl e)) files =
    (if kind = SymbolicLink then Inl (usageErr ''bootstrap seed entry is a symlink'')
     else if kind = Directory then Inl e
     else andThen (hsLstat h full) (\<lambda>info.
       if fiKind info \<noteq> RegularFile then Inl (usageErr ''bootstrap seed entry is not a regular file'')
       else andThen (hsReadFile h full) (\<lambda>raw. Inr (mput (joinWith ''/'' rel) raw files))))"
| "collectEntry h full rel (FsTree name kind (Inr ts)) files =
    (if kind = SymbolicLink then Inl (usageErr ''bootstrap seed entry is a symlink'')
     else if kind = Directory then collectEntries h full rel ts files
     else andThen (hsLstat h full) (\<lambda>info.
       if fiKind info \<noteq> RegularFile then Inl (usageErr ''bootstrap seed entry is not a regular file'')
       else andThen (hsReadFile h full) (\<lambda>raw. Inr (mput (joinWith ''/'' rel) raw files))))"
| "collectEntries h full rel [] files = Inr files"
| "collectEntries h full rel (FsTree name kind kids # ts) files =
    andThen (collectEntry h (pathJoin [full, name]) (rel @ [name]) (FsTree name kind kids) files) (\<lambda>files'.
    collectEntries h full rel ts files')"

definition collectFreshGenesisSeedFiles :: "host \<Rightarrow> string \<Rightarrow> (string, string) gomap res" where
  "collectFreshGenesisSeedFiles h dir =
    andThen (wrapw ''inspect bootstrap seed root'' (hsLstat h dir)) (\<lambda>info.
    if fiKind info = SymbolicLink \<or> fiKind info \<noteq> Directory
    then Inl (usageErr ''bootstrap seed root must be a real directory, not a symlink or non-directory'')
    else andThen (hsTree h dir) (\<lambda>t.
      case t of FsTree name kind kids \<Rightarrow>
        if kind \<noteq> Directory then Inr []
        else andThen kids (\<lambda>ts. collectEntries h dir [] ts [])))"

definition freshGenesisInitCommand :: "'sch deps \<Rightarrow> world \<Rightarrow> string list \<Rightarrow> string hostop" where
  "freshGenesisInitCommand d w args =
    (case args of
       gitDir # genesisFile # seedRoot # rest \<Rightarrow>
         if 1 < length rest
         then hfail (usageErr ''expected ledger git directory, Genesis file, bootstrap seed root and optional authoritative ref'')
         else hbind (hread (\<lambda>h. hsReadFile h genesisFile)) (\<lambda>rawGenesis.
              hbind (hread (\<lambda>h. collectFreshGenesisSeedFiles h seedRoot)) (\<lambda>seedFiles.
              let ref = (case rest of [] \<Rightarrow> defaultRef | r # _ \<Rightarrow> r) in
              hbind (initializeFreshGenesis d w gitDir ref rawGenesis seedFiles) (\<lambda>evidence.
              hreturn (writeIndentedJSON (freshJson evidence)))))
     | _ \<Rightarrow> hfail (usageErr ''expected ledger git directory, Genesis file, bootstrap seed root and optional authoritative ref''))"

section \<open>The program\<close>

record exitStatus =
  exCode :: nat
  exStdout :: string
  exError :: "goerr option"

definition errUsage :: goerr where "errUsage = ErrNew ''usage: threadkeeper-core''"

definition finish :: "cmdResult \<Rightarrow> exitStatus" where
  "finish r = \<lparr>exCode = (case snd r of None \<Rightarrow> 0 | Some _ \<Rightarrow> 1), exStdout = fst r, exError = snd r\<rparr>"

definition usageExit :: exitStatus where
  "usageExit = \<lparr>exCode = 2, exStdout = [], exError = Some errUsage\<rparr>"

text \<open>The commands that only read.\<close>

definition readCommand :: "'sch deps \<Rightarrow> buildEnv \<Rightarrow> loadInput \<Rightarrow> host \<Rightarrow> string \<Rightarrow> string list \<Rightarrow> cmdResult option option" where
  "readCommand d b run h cmd args =
    (if cmd = ''version'' then Some (Some (printVersion b))
     else if cmd = ''check-json'' then Some (Some (checkJSONCommand h args))
     else if cmd = ''canonicalize'' then Some (Some (canonicalizeCommand d h args))
     else if cmd = ''digest'' then Some (Some (digestCommand d h args))
     else if cmd = ''validate'' then Some (Some (validateCommand d h args))
     else if cmd = ''genesis-check'' then Some (Some (genesisCheckCommand d h args))
     else if cmd = ''evidence-check'' then Some (Some (evidenceCheckCommand h args))
     else if cmd = ''review-bundle'' then Some (Some (reviewBundleCommand h args))
     else if cmd = ''health-check'' then Some (Some (healthCheckCommand h args))
     else if cmd = ''source-file-check'' then Some (Some (sourceFileCheckCommand h args))
     else if cmd = ''portable-check'' then Some (Some (portableCheckCommand d h args))
     else if cmd = ''ledger-inspect'' then Some (Some (ledgerInspectCommand d h args))
     else if cmd = ''ledger-recovery-proof'' then Some (Some (ledgerRecoveryProofCommand d h args))
     else if cmd = ''ledger-load-proof'' then Some (ledgerLoadProofCommand d h run args)
     else if cmd = ''recovery-compare'' then Some (Some (recoveryCompareCommand h args))
     else if cmd = ''recovery-restore-verify'' then Some (Some (recoveryRestoreVerifyCommand d h args))
     else if cmd = ''authority-write'' then Some (Some (ofRes (andThen requireAuthorityWritesEnabled (\<lambda>_. Inr []))))
     else None)"

text \<open>\<open>None\<close> is a load run whose events are not those of a run.\<close>

definition mainProgram :: "'sch deps \<Rightarrow> world \<Rightarrow> buildEnv \<Rightarrow> loadInput \<Rightarrow> string list \<Rightarrow> host \<Rightarrow> (host \<times> exitStatus) option" where
  "mainProgram d w b run osArgs h =
    (case osArgs of
       program # cmd # args \<Rightarrow>
         if cmd = ''fresh-genesis-init''
         then (case freshGenesisInitCommand d w args h of (h', r) \<Rightarrow> Some (h', finish (ofRes r)))
         else (case readCommand d b run h cmd args of
             None \<Rightarrow> Some (h, usageExit)
           | Some r \<Rightarrow> map_option (\<lambda>out. (h, finish out)) r)
     | _ \<Rightarrow> Some (h, usageExit))"

section \<open>The seed files\<close>

text \<open>The entries of a tree in the order of the walk: the names from the root, the path, the kind and whether the
  entries of a directory can be read. Only directories are entered.\<close>

fun entryList :: "string \<Rightarrow> string list \<Rightarrow> fsTree \<Rightarrow> (string list \<times> string \<times> fileKind \<times> bool) list"
and entryLists :: "string \<Rightarrow> string list \<Rightarrow> fsTree list \<Rightarrow> (string list \<times> string \<times> fileKind \<times> bool) list" where
  "entryList full rel (FsTree name kind (Inl e)) = [(rel, full, kind, False)]"
| "entryList full rel (FsTree name kind (Inr ts)) = (rel, full, kind, True) # (if kind = Directory then entryLists full rel ts else [])"
| "entryLists full rel [] = []"
| "entryLists full rel (FsTree name kind kids # ts) =
    entryList (pathJoin [full, name]) (rel @ [name]) (FsTree name kind kids) @ entryLists full rel ts"

text \<open>A directory that can be read, or a regular file that can be read.\<close>

definition seedEntry :: "host \<Rightarrow> string list \<times> string \<times> fileKind \<times> bool \<Rightarrow> bool" where
  "seedEntry h x = (case x of (rel, full, kind, readable) \<Rightarrow>
     kind = Directory \<and> readable \<or>
     kind \<noteq> Directory \<and> kind \<noteq> SymbolicLink \<and> (case hsLstat h full of Inr info \<Rightarrow> fiKind info = RegularFile | Inl _ \<Rightarrow> False) \<and>
       is_ok (hsReadFile h full))"

text \<open>What the walk has put into the map: one entry per file, the later ones over the earlier ones.\<close>

definition addSeeds :: "host \<Rightarrow> (string list \<times> string \<times> fileKind \<times> bool) list \<Rightarrow> (string, string) gomap \<Rightarrow> (string, string) gomap" where
  "addSeeds h xs files = fold (\<lambda>(rel, full, kind, readable) m.
     if kind = Directory then m else (case hsReadFile h full of Inr raw \<Rightarrow> mput (joinWith ''/'' rel) raw m | Inl _ \<Rightarrow> m)) xs files"

lemma collect_iff:
  "collectEntry h full rel t files = Inr out \<longleftrightarrow> list_all (seedEntry h) (entryList full rel t) \<and> out = addSeeds h (entryList full rel t) files"
  "collectEntries h full rel ts files = Inr out \<longleftrightarrow> list_all (seedEntry h) (entryLists full rel ts) \<and> out = addSeeds h (entryLists full rel ts) files"
proof (induction h full rel t files and h full rel ts files arbitrary: out and out rule: collectEntry_collectEntries.induct)
  case (1 h full rel name kind e files)
  show ?case by (auto simp: seedEntry_def addSeeds_def andThen_Inr_iff is_ok_iff split: sum.split)
next
  case (2 h full rel name kind ts files)
  show ?case
  proof (cases "kind = Directory")
    case True
    then show ?thesis using 2 by (simp add: seedEntry_def addSeeds_def)
  next
    case False
    then show ?thesis by (auto simp: seedEntry_def addSeeds_def andThen_Inr_iff is_ok_iff split: sum.split)
  qed
next
  case (3 h full rel files)
  then show ?case by (auto simp: addSeeds_def)
next
  case (4 h full rel name kind kids ts files)
  then show ?case by (auto simp: andThen_Inr_iff addSeeds_def)
qed

lemma addSeeds_Cons:
  "addSeeds h ((rel, full, kind, readable) # xs) files = addSeeds h xs (if kind = Directory then files
     else (case hsReadFile h full of Inr raw \<Rightarrow> mput (joinWith ''/'' rel) raw files | Inl _ \<Rightarrow> files))"
  by (simp add: addSeeds_def)

lemma addSeeds_from:
  assumes "mget (addSeeds h xs files) p = Some raw"
  shows "(\<exists>rel full kind readable. (rel, full, kind, readable) \<in> set xs \<and> kind \<noteq> Directory \<and> p = joinWith ''/'' rel \<and> hsReadFile h full = Inr raw) \<or>
      mget files p = Some raw"
  using assms
proof (induction xs arbitrary: files)
  case (Cons x xs)
  obtain rel full kind readable where x: "x = (rel, full, kind, readable)" by (cases x) auto
  show ?case using Cons.IH [OF Cons.prems [unfolded x addSeeds_Cons]]
    unfolding x by (auto simp: mget_mput split: if_split_asm sum.split_asm)
qed (simp add: addSeeds_def)

lemma addSeeds_keys:
  assumes "list_all (seedEntry h) xs"
  shows "mget (addSeeds h xs files) p \<noteq> None \<longleftrightarrow>
      (\<exists>rel full kind readable. (rel, full, kind, readable) \<in> set xs \<and> kind \<noteq> Directory \<and> p = joinWith ''/'' rel) \<or> mget files p \<noteq> None"
  using assms
proof (induction xs arbitrary: files)
  case (Cons x xs)
  obtain rel full kind readable where x: "x = (rel, full, kind, readable)" by (cases x) auto
  have e: "seedEntry h (rel, full, kind, readable)" "list_all (seedEntry h) xs" using Cons.prems by (simp_all only: x list.pred_inject)
  then have a: "kind \<noteq> Directory \<longrightarrow> is_ok (hsReadFile h full)" "list_all (seedEntry h) xs" by (auto simp only: seedEntry_def prod.case)
  have "mget (if kind = Directory then files else (case hsReadFile h full of Inr raw \<Rightarrow> mput (joinWith ''/'' rel) raw files | Inl _ \<Rightarrow> files)) p \<noteq> None \<longleftrightarrow>
      kind \<noteq> Directory \<and> p = joinWith ''/'' rel \<or> mget files p \<noteq> None"
    using a(1) by (auto simp: mget_mput is_ok_iff split: sum.split)
  then show ?case unfolding x addSeeds_Cons Cons.IH [OF a(2)] list.set insert_iff prod.inject by blast
qed (simp add: addSeeds_def)

lemma collected:
  assumes "hsLstat h dir = Inr info" "fiKind info = Directory" "hsTree h dir = Inr (FsTree n Directory (Inr ts))"
  shows "collectFreshGenesisSeedFiles h dir = Inr files \<longleftrightarrow>
    list_all (seedEntry h) (entryLists dir [] ts) \<and> files = addSeeds h (entryLists dir [] ts) []"
  using assms by (simp add: collectFreshGenesisSeedFiles_def collect_iff)

text \<open>C31: The seed files of \<open>fresh-genesis-init\<close> are the files below the given directory, all of them and nothing
  else: the walk succeeds exactly when every entry is a directory or a regular file that can be read, and the
  map it gives has one path for each file and, under it, what was read from that file. A symbolic link anywhere
  below the directory is an error.\<close>

theorem seeds_are_the_files_below:
  assumes "hsLstat h dir = Inr info" "fiKind info = Directory" "hsTree h dir = Inr (FsTree n Directory (Inr ts))"
  shows "(is_ok (collectFreshGenesisSeedFiles h dir) \<longleftrightarrow> list_all (seedEntry h) (entryLists dir [] ts)) \<and>
    (collectFreshGenesisSeedFiles h dir = Inr files \<longrightarrow>
      (\<forall>p. mget files p \<noteq> None \<longleftrightarrow> (\<exists>rel full kind readable. (rel, full, kind, readable) \<in> set (entryLists dir [] ts) \<and>
         kind \<noteq> Directory \<and> p = joinWith ''/'' rel)) \<and>
      (\<forall>p raw. mget files p = Some raw \<longrightarrow> (\<exists>rel full kind readable. (rel, full, kind, readable) \<in> set (entryLists dir [] ts) \<and>
         kind \<noteq> Directory \<and> kind \<noteq> SymbolicLink \<and> p = joinWith ''/'' rel \<and> hsReadFile h full = Inr raw)))"
proof (intro conjI impI allI)
  show "is_ok (collectFreshGenesisSeedFiles h dir) \<longleftrightarrow> list_all (seedEntry h) (entryLists dir [] ts)"
    using collected [OF assms] by (auto simp: is_ok_iff)
next
  assume "collectFreshGenesisSeedFiles h dir = Inr files"
  then have f: "list_all (seedEntry h) (entryLists dir [] ts)" "files = addSeeds h (entryLists dir [] ts) []" using collected [OF assms] by auto
  show "mget files p \<noteq> None \<longleftrightarrow> (\<exists>rel full kind readable. (rel, full, kind, readable) \<in> set (entryLists dir [] ts) \<and>
         kind \<noteq> Directory \<and> p = joinWith ''/'' rel)" for p
    using addSeeds_keys [OF f(1), of "[]" p] unfolding f(2) by simp
  fix p raw assume "mget files p = Some raw"
  then obtain rel full kind readable where e: "(rel, full, kind, readable) \<in> set (entryLists dir [] ts)" "kind \<noteq> Directory"
    "p = joinWith ''/'' rel" "hsReadFile h full = Inr raw" using addSeeds_from [of h "entryLists dir [] ts" "[]" p raw] f(2) by auto
  then have "seedEntry h (rel, full, kind, readable)" using f(1) by (auto simp only: list_all_iff)
  then have "kind \<noteq> SymbolicLink" using e(2) by (simp add: seedEntry_def)
  with e show "\<exists>rel full kind readable. (rel, full, kind, readable) \<in> set (entryLists dir [] ts) \<and>
         kind \<noteq> Directory \<and> kind \<noteq> SymbolicLink \<and> p = joinWith ''/'' rel \<and> hsReadFile h full = Inr raw" by blast
qed

definition seedHost :: host where
  "seedHost = (demoHost demoRoot)\<lparr>
     hsLstat := (\<lambda>p. Inr \<lparr>fiKind = (if p = ''seed'' \<or> p = ''seed/config'' then Directory else RegularFile), fiIdent = 1\<rparr>),
     hsReadFile := (\<lambda>p. Inr (''content of '' @ p)),
     hsTree := (\<lambda>p. Inr (FsTree ''seed'' Directory (Inr [FsTree ''config'' Directory (Inr [FsTree ''a.json'' RegularFile (Inr [])]),
       FsTree ''b.json'' RegularFile (Inr [])])))\<rparr>"

theorem seeds_are_the_files_below_witness:
  "collectFreshGenesisSeedFiles seedHost ''seed'' =
     Inr [(''config/a.json'', ''content of seed/config/a.json''), (''b.json'', ''content of seed/b.json'')] \<and>
   is_ok (collectFreshGenesisSeedFiles seedHost ''seed'')"
proof
  show "collectFreshGenesisSeedFiles seedHost ''seed'' =
     Inr [(''config/a.json'', ''content of seed/config/a.json''), (''b.json'', ''content of seed/b.json'')]" by code_simp
  let ?ts = "[FsTree ''config'' Directory (Inr [FsTree ''a.json'' RegularFile (Inr [])]), FsTree ''b.json'' RegularFile (Inr [])]"
  have h: "hsLstat seedHost ''seed'' = Inr \<lparr>fiKind = Directory, fiIdent = 1\<rparr>" "fiKind \<lparr>fiKind = Directory, fiIdent = 1\<rparr> = Directory"
    "hsTree seedHost ''seed'' = Inr (FsTree ''seed'' Directory (Inr ?ts))" by (simp_all add: seedHost_def)
  have "list_all (seedEntry seedHost) (entryLists ''seed'' [] ?ts)" by code_simp
  with seeds_are_the_files_below [OF h] show "is_ok (collectFreshGenesisSeedFiles seedHost ''seed'')" by blast
qed

section \<open>What the program changes\<close>

lemma freshInit_parts:
  assumes "freshGenesisInitCommand d w args h = (h', r)"
  shows "(h' \<noteq> h \<or> is_ok r \<longrightarrow> (\<exists>gitDir genesisFile seedRoot rest rawGenesis seeds.
      args = gitDir # genesisFile # seedRoot # rest \<and> hsReadFile h genesisFile = Inr rawGenesis \<and>
      collectFreshGenesisSeedFiles h seedRoot = Inr seeds \<and> is_ok (checkFreshGenesis d rawGenesis seeds) \<and>
      (is_ok r \<longrightarrow> (\<exists>root files doc rd commit. checkFreshGenesis d rawGenesis seeds = Inr (root, files, doc) \<and>
         newReader h' gitDir (case rest of [] \<Rightarrow> defaultRef | ref # _ \<Rightarrow> if ref = [] then defaultRef else ref) = Inr rd \<and>
         freshLedger d h' rd root doc commit))))"
proof (cases "\<exists>gitDir genesisFile seedRoot rest rawGenesis seeds. args = gitDir # genesisFile # seedRoot # rest \<and> length rest \<le> 1 \<and>
    hsReadFile h genesisFile = Inr rawGenesis \<and> collectFreshGenesisSeedFiles h seedRoot = Inr seeds")
  case False
  then have "h' = h \<and> \<not> is_ok r"
    using assms unfolding freshGenesisInitCommand_def
    by (auto simp: hfail_def hbind_def hread_def is_ok_iff split: list.split_asm if_split_asm sum.split_asm)
  then show ?thesis by blast
next
  case True
  then obtain gitDir genesisFile seedRoot rest rawGenesis seeds where a: "args = gitDir # genesisFile # seedRoot # rest" "length rest \<le> 1"
    "hsReadFile h genesisFile = Inr rawGenesis" "collectFreshGenesisSeedFiles h seedRoot = Inr seeds" by blast
  define theRef where "theRef = (case rest of [] \<Rightarrow> defaultRef | ref # _ \<Rightarrow> ref)"
  obtain h1 r1 where i: "initializeFreshGenesis d w gitDir theRef rawGenesis seeds h = (h1, r1)" by fastforce
  have r: "h' = h1" "is_ok r \<longleftrightarrow> is_ok r1"
    using assms a i by (auto simp: theRef_def [symmetric] freshGenesisInitCommand_def hbind_def hread_def hreturn_def is_ok_def split: sum.split_asm)
  have ref: "(if theRef = [] then defaultRef else theRef) = (case rest of [] \<Rightarrow> defaultRef | ref # _ \<Rightarrow> if ref = [] then defaultRef else ref)"
    by (simp add: theRef_def defaultRef_def split: list.split)
  note c = fresh_genesis_created [where d = d and w = w and gitDir = gitDir and ?ref0.0 = theRef and rawGenesis = rawGenesis and seeds = seeds and h = h, unfolded i prod.case]
  show ?thesis
  proof (cases r1)
    case (Inl e)
    then show ?thesis using c r a by (auto simp: is_ok_def)
  next
    case (Inr ev)
    with c obtain root files doc rd where "checkFreshGenesis d rawGenesis seeds = Inr (root, files, doc)"
      "newReader h1 gitDir (if theRef = [] then defaultRef else theRef) = Inr rd" "freshLedger d h1 rd root doc (feGenesisCommit ev)" by auto
    then show ?thesis using r a unfolding ref by (auto simp: is_ok_def)
  qed
qed

text \<open>C19: The program writes only to create a ledger. Whatever the arguments, the host is as before unless the command
  is \<open>fresh-genesis-init\<close> and its Genesis record and seed files passed every check, and if that command exits with 0,
  the repository it names is a fresh ledger with that Genesis record and policy. \<open>authority-write\<close> always exits
  with 1 and changes nothing, and the exit code is 0 exactly when there is no error.\<close>

theorem program_writes_only_fresh_ledgers:
  assumes "mainProgram d w b run osArgs h = Some (h', st)"
  shows "(exCode st = 0 \<longleftrightarrow> exError st = None) \<and>
    (osArgs = program # ''authority-write'' # args \<longrightarrow> exCode st = 1 \<and> exError st = Some errAuthorityWritesDisabled \<and> h' = h) \<and>
    (h' \<noteq> h \<or> osArgs = program # ''fresh-genesis-init'' # args \<and> exCode st = 0 \<longrightarrow>
      (\<exists>self gitDir genesisFile seedRoot rest rawGenesis seeds.
        osArgs = self # ''fresh-genesis-init'' # gitDir # genesisFile # seedRoot # rest \<and> hsReadFile h genesisFile = Inr rawGenesis \<and>
        collectFreshGenesisSeedFiles h seedRoot = Inr seeds \<and> is_ok (checkFreshGenesis d rawGenesis seeds) \<and>
        (exCode st = 0 \<longrightarrow> (\<exists>root files doc rd commit. checkFreshGenesis d rawGenesis seeds = Inr (root, files, doc) \<and>
           newReader h' gitDir (case rest of [] \<Rightarrow> defaultRef | ref # _ \<Rightarrow> if ref = [] then defaultRef else ref) = Inr rd \<and>
           freshLedger d h' rd root doc commit))))"
proof (cases "\<exists>self args. osArgs = self # ''fresh-genesis-init'' # args")
  case True
  then obtain self args' where o: "osArgs = self # ''fresh-genesis-init'' # args'" by blast
  obtain h1 r where f: "freshGenesisInitCommand d w args' h = (h1, r)" by fastforce
  then have st: "h' = h1" "st = finish (ofRes r)" using assms by (simp_all add: o mainProgram_def)
  have code: "exCode st = 0 \<longleftrightarrow> is_ok r" "exCode st = 0 \<longleftrightarrow> exError st = None"
    unfolding st by (cases r; simp add: finish_def ofRes_def is_ok_def)+
  show ?thesis using freshInit_parts [OF f] code unfolding o st(1) by auto
next
  case False
  have same: "h' = h" "exCode st = 0 \<longleftrightarrow> exError st = None"
    using assms False by (auto simp: mainProgram_def usageExit_def finish_def split: list.split_asm if_split_asm option.split_asm option.split)
  have "exCode st = 1 \<and> exError st = Some errAuthorityWritesDisabled" if "osArgs = program # ''authority-write'' # args"
    using assms by (auto simp: that mainProgram_def readCommand_def requireAuthorityWritesEnabled_def ofRes_def finish_def)
  then show ?thesis using same False by auto
qed

definition demoBuild :: buildEnv where
  "demoBuild = \<lparr>beVersion = ''dev'', beSourceCommit = ''unknown'', beGoVersion = ''go1.25'', beGOOS = ''linux'', beGOARCH = ''amd64'', beDeps = None\<rparr>"

definition noLoad :: loadInput where
  "noLoad = \<lparr>liBefore = noUsage, liEvents = [], liLast = noUsage, liAfter = noUsage\<rparr>"

theorem program_writes_only_fresh_ledgers_witness:
  "mainProgram sampleDeps rootWorld demoBuild noLoad [''threadkeeper-core'', ''authority-write'', ''x''] seedHost =
     Some (seedHost, \<lparr>exCode = 1, exStdout = [], exError = Some errAuthorityWritesDisabled\<rparr>) \<and>
   exCode \<lparr>exCode = 1, exStdout = [], exError = Some errAuthorityWritesDisabled\<rparr> = 1"
proof
  show m: "mainProgram sampleDeps rootWorld demoBuild noLoad [''threadkeeper-core'', ''authority-write'', ''x''] seedHost =
     Some (seedHost, \<lparr>exCode = 1, exStdout = [], exError = Some errAuthorityWritesDisabled\<rparr>)"
    by (simp add: mainProgram_def readCommand_def requireAuthorityWritesEnabled_def ofRes_def finish_def)
  show "exCode \<lparr>exCode = 1, exStdout = [], exError = Some errAuthorityWritesDisabled\<rparr> = 1"
    using program_writes_only_fresh_ledgers [OF m, of "''threadkeeper-core''" "[''x'']"] by blast
qed

text \<open>\<open>recovery-compare\<close> succeeds exactly on two documents of the same proof.\<close>

lemma recovery_compare_exit:
  "snd (recoveryCompareCommand h [original, restored]) = None \<longleftrightarrow>
     (\<exists>rawA rawB proof. hsReadFile h original = Inr rawA \<and> recoveryProofDecode rawA = Inr proof \<and>
        hsReadFile h restored = Inr rawB \<and> recoveryProofDecode rawB = Inr proof)"
proof -
  have "snd (ofRes r) = None \<longleftrightarrow> (\<exists>x. r = Inr x)" for r by (cases r) (simp_all add: ofRes_def)
  then show ?thesis by (auto simp: recoveryCompareCommand_def andThen_Inr_iff compareRecoveryProofs_def if_Inl_Inr_iff)
qed

text \<open>\<open>digest\<close> writes a record whose digest verifies, without a final new line.\<close>

lemma digest_output:
  assumes "snd (digestCommand d h [path]) = None"
  shows "\<exists>raw sha. hsReadFile h path = Inr raw \<and> digestComplete (dpJcs d) raw = Inr (fst (digestCommand d h [path]), sha)"
  using assms by (auto simp: digestCommand_def oneFile_def ofRes_def andThen_def split: sum.split_asm)

end
