(* ===== verification/Spec2Isabelle.thy ===== *)
theory Spec2Isabelle
  imports Strict_Json Json_Roundtrip Canonical Canonical_Numbers Actor_Auth Reducer Knowledge Interfaces Go_Std Git_Writer Replay_Properties Quarantine Candidate_Runs Candidate_Properties Governance_Properties Restore_Proof Load_Proof Service Fresh_Genesis Exchange Source_Adapter Portable Command_Line
begin

text \<open>
  \<^bold>\<open>A verification development of threadkeeper-core\<close>

  The program is a ledger of governed records kept in a bare Git repository. Its authority is the linear
  history below one ref: the first commit is the Genesis record with the root actor policy, later commits add
  schemas, reducer bindings and event files, and nothing is ever changed or removed. Reading is \<open>Replay\<close>: open
  the repository through a hardened reader, check every object and the whole history, validate every event
  and fold the governed ones into a projection. Writing is two steps: prepare a candidate commit that nobody
  sees, with a private quarantine file bound to it, and accept it by a compare-and-swap of the ref. Around this
  core are value packages (evidence, sources, provenance, conflicts, decisions, forks, key life cycles) and
  assurance tools (recovery proofs, restore verification, load proofs, the request limiter).

  \<^bold>\<open>Theories and the code they model\<close> (paths below src/internal)

  \<^item> Prelude: Go errors as the datatype \<open>goerr\<close> (a sentinel, an \<open>Errorf\<close> that wraps others, a coded error), the
    result type \<open>'a res\<close> with its sequencing, Go maps as association lists with distinct keys, operations on a
    state, and the collections \<open>res_simps\<close> and \<open>gomap_simps\<close>. Interfaces: the locales for a write-once registry and a
    life cycle, interpreted in Knowledge (six registries) and Governance (keys and incidents).
  \<^item> Go_Text, Go_Json, Go_Std, Sha256: what the program uses of the Go library: strings and paths as bytes,
    encoding/json (the token decoder, decoding into structs with its case-insensitive field lookup, marshalling),
    \<open>time.Parse\<close>, base64 and SHA-256.
  \<^item> Strict_Json, Json_Roundtrip: strictjson. Canonical: canonicaljson, digest. Canonical_Numbers: what RFC 8785 does
    to numbers, as a contract (\<open>nfScalars\<close>), and a canonicalizer that rewrites them and satisfies it.
  \<^item> Actor_Auth: actorauth (authentication of a request, policy documents). Reducer: reducer (the exclusive
    governed record). Ledger_Config: schema, genesis (root and adoption), policy (reducer bindings).
  \<^item> Git_Reader: gitledger read side (reader, repository and reference safety, history, trees, event paths).
    Git_Writer: gitledger write side (candidate commits, compare-and-swap, bootstrap of a repository).
  \<^item> Replay, Replay_Log, Replay_Properties, Sample_Ledger: ledger read side (replay, namespace, current actor
    policy, recovery proof), its meaning as the log of acceptances that the repository's commits make up
    (\<open>ledgerLog\<close>), and a small ledger on which it is evaluated.
  \<^item> Quarantine: quarantine (the store of private files) on a disk with crashes. Candidate_Write: ledger
    candidate_write and quarantine_binding, gitledger quarantine; Candidate_Runs has the states its runs pass,
    Candidate_Properties what they guarantee.
    Fresh_Genesis: ledger fresh_genesis.
  \<^item> Knowledge: access, coverage, temporal, evidence, escrow, source, provenance, relationship, conflict,
    catalog, checkpoint. Governance, Governance_Properties: keylifecycle, incident, recovery, decision, proposal,
    simulation, authorityeffect, federation, health, buildprovenance, reviewbundle.
  \<^item> Restore_Proof: recoveryproof, restoreproof. Load_Proof: loadproof, ledger load_resource. Service: service.
    Exchange: witness and the checks of portable. Source_Adapter: sourceadapter.
  \<^item> Go_Float: float64 in JSON, read and printed. Knowledge_Json: the JSON of the knowledge types. Portable:
    portable (normal form, encoding, decoding, comparison). Command_Line: cmd/threadkeeper-core, from the
    arguments to the exit code, with the texts it prints.

  \<^bold>\<open>How the state is modelled\<close>

  The operating system and git are a record \<open>host\<close> of functions: one value is one snapshot of the machine. A
  read operation is a function of a host. An operation that writes takes a host to a new one (\<open>hostop\<close>), the
  write itself being a field of the parameter \<open>world\<close>; what other processes do in the meantime is part of that
  change. In Candidate_Write other processes act before every look and every write: the state carries the
  list of their changes, and the properties name, for every check, the state of the run on whose host or disk it was made
  (\<open>lookedUp\<close>, \<open>vetted\<close>, \<open>preparedFor\<close>). The quarantine disk keeps, for each file, the content seen and the content that
  survives a crash, and for the directory the entries seen and those that survive; each system call is one step
  in which others act first and which may fail, and a write may be short. A load run is a sequence of events of
  its goroutines, the limiter a transition system.

  \<^bold>\<open>Parameters and what is assumed of them\<close>

  The JCS canonicalizer (\<open>jcs\<close>, with the contracts \<open>jcsLaws\<close> and \<open>nfScalars\<close> where a property needs them; a literal
  that reads as the negative zero, as -1e-999 does, is printed 0 and its sign is lost), Ed25519 verification
  (\<open>verifySig\<close>), the JSON Schema library (\<open>schemaLib\<close>), git and the operating system (\<open>host\<close>, \<open>world\<close>) are arguments.
  Assumptions about them are named hypotheses, shown satisfiable by the witness of the theorem.

  \<^bold>\<open>Bounds\<close>

  Recursion that follows the input is structural or has a measure. JSON parsing has the fuel \<open>jsonFuel\<close>, twice the
  length of the text; \<open>parse_fuel\<close> shows that it is never used up, and that nesting stops at 512. The walk of
  Strict_Json and the provenance lineage have fuel in the same way, with the theorem that it suffices. The waiting
  loop of the quarantine store takes the answers of the clock as a list, and ends when the deadline has passed. The search
  of Go_Float for the shortest digits of a float64 tries one to seventeen of them, as many as a double needs. Counters
  of the code that are Go ints and cannot reach their bounds are natural numbers; \<open>uint64\<close>, \<open>int64\<close> and the words
  of SHA-256 are words of their width.

  \<^bold>\<open>What the properties show\<close>

  Replay lists exactly the event files of the history and explains every record by the events that the commits
  add, each tied to the parent of its commit; the trust root is fixed by
  the first commit; the current policy is never a revoked one. A candidate is accepted only through the
  compare-and-swap of a commit that passed every check in this run, an answer repeats what the run found at the head
  of the ledger it replayed, what the swap returned is always reported, and a repeated request changes nothing; a
  prepared candidate's bytes are in the quarantine file bound to it. The compare-and-swap lets one candidate win on
  a head until somebody puts the ref back to that head, which git does not prevent. The history check accepts exactly
  linear histories. The strict validator accepts exactly the strict texts. Quarantined content survives crashes.
  An admitted request is signed by an unrevoked key and granted. A fresh ledger is what was asked for. A restore is
  judged only on a full replay and never called independent. A passing load run stayed under its peak and its
  settled ceilings. A
  portable text is read back as what was written, and two bundles are equivalent exactly when they say the same.
  The limiter never loses a slot. The program writes only to create a fresh ledger from checked seed files.
  Go's dropped details are these: locks, finalizers, contexts and their time-outs (a time-out is an outcome of
  a process), the texts of error messages, file permissions on Windows, the order in which Go walks a map where it
  only selects the error reported. \<open>json.Marshal\<close> is modelled on valid UTF-8.

  \<^bold>\<open>Not modelled\<close>

  schemas (reference schemas embedded by the build: data, no operation), selfcheck, which is a test, and the parts
  of modelled files that have no effect on a result: error texts, hooks of tests, the wrappers that pass no hook,
  and the constants of time-outs. The encoders are those of valid UTF-8; \<open>normalize\<close> of portable on other
  strings, which \<open>json.Marshal\<close> would replace, is not covered.
\<close>

end
